(* ===== verification/Prelude.thy ===== *)
theory Prelude
  imports Main "HOL-Library.Word"
begin

text \<open>
  What every component shares: the outcome type of C code that may go wrong, the C integer
  conversions the kernel relies on, the constants of \<^verbatim>\<open>src/disastrOS_constants.h\<close>,
  and the first and the last element of a list as pointers.
\<close>

section \<open>Outcomes of C code\<close>

text \<open>
  The kernel runs without memory protection, so an operation that dereferences 0, casts a list
  item to the wrong structure, indexes outside an array, overflows a signed integer, divides by zero, fails an
  \<^verbatim>\<open>assert\<close> or never leaves a loop does not return a result. Each of these is a
  value here, injected with \<open>Inl\<close>; the regular result of an operation is \<open>Inr\<close>.
\<close>

datatype fault =
    NullDeref
  | BadCast
  | OutOfBounds
  | SignedOverflow
  | DivisionByZero
  | AssertFail
  | Diverges

text \<open>Sequencing: the next piece of code runs on the result of the previous one.\<close>

definition andThen :: "'e + 'a \<Rightarrow> ('a \<Rightarrow> 'e + 'b) \<Rightarrow> 'e + 'b" where
  "andThen m f = (case m of Inl e \<Rightarrow> Inl e | Inr x \<Rightarrow> f x)"

lemma andThen_simps [simp]:
  "andThen (Inl e) f = Inl e"
  "andThen (Inr x) f = f x"
  by (simp_all add: andThen_def)

lemma andThen_eq_Inr:
  "andThen m f = Inr y \<longleftrightarrow> (\<exists>x. m = Inr x \<and> f x = Inr y)"
  by (cases m) simp_all

lemma andThen_assoc [simp]: "andThen (andThen m f) g = andThen m (\<lambda>x. andThen (f x) g)"
  by (cases m) simp_all

text \<open>A loop is a partial function into \<open>option\<close>; \<open>None\<close> is a loop that is never left.\<close>

definition loop_result :: "(fault + 'a) option \<Rightarrow> fault + 'a" where
  "loop_result l = (case l of None \<Rightarrow> Inl Diverges | Some r \<Rightarrow> r)"

lemma loop_result_simps [simp]:
  "loop_result None = Inl Diverges"
  "loop_result (Some r) = r"
  by (simp_all add: loop_result_def)

section \<open>C integers\<close>

text \<open>
  The conversion to \<^verbatim>\<open>int\<close>, 32 bits in two's complement: it keeps the low bits, which is
  what the compilers the Makefile names do when a \<^verbatim>\<open>long\<close> argument is stored in an
  \<^verbatim>\<open>int\<close> variable. Signed arithmetic outside that range is undefined, hence a fault.
\<close>

definition to_int32 :: "int \<Rightarrow> int" where
  "to_int32 x = signed_take_bit 31 x"

definition int32_range :: "int \<Rightarrow> bool" where
  "int32_range x \<longleftrightarrow> - (2 ^ 31) \<le> x \<and> x < 2 ^ 31"

definition checked_int :: "int \<Rightarrow> fault + int" where
  "checked_int x = (if int32_range x then Inr x else Inl SignedOverflow)"

lemma to_int32_id: "int32_range x \<Longrightarrow> to_int32 x = x"
  by (simp add: to_int32_def int32_range_def signed_take_bit_int_eq_self)

lemma to_int32_range: "int32_range (to_int32 x)"
  using signed_take_bit_int_greater_eq_minus_exp [of 31 x] signed_take_bit_int_less_exp [of 31 x]
  by (simp add: to_int32_def int32_range_def)

lemma checked_int_ok [simp]: "int32_range x \<Longrightarrow> checked_int x = Inr x"
  by (simp add: checked_int_def)

lemma checked_int_Inr: "checked_int x = Inr y \<longleftrightarrow> y = x \<and> int32_range x"
  by (auto simp: checked_int_def)

section \<open>First and last element as pointers\<close>

text \<open>
  \<open>first_of xs p\<close> is what points at a list segment from the left: its first element, or what
  follows the segment when it is empty. \<open>last_of xs p\<close> is the same from the right.
\<close>

definition first_of :: "'a list \<Rightarrow> 'a option \<Rightarrow> 'a option" where
  "first_of xs p = (case xs of [] \<Rightarrow> p | x # _ \<Rightarrow> Some x)"

definition last_of :: "'a list \<Rightarrow> 'a option \<Rightarrow> 'a option" where
  "last_of xs p = (if xs = [] then p else Some (last xs))"

lemma first_of_simps [simp]:
  "first_of [] p = p"
  "first_of (x # xs) p = Some x"
  by (simp_all add: first_of_def)

lemma last_of_simps [simp]:
  "last_of [] p = p"
  "last_of (x # xs) p = last_of xs (Some x)"
  by (simp_all add: last_of_def)

lemma first_of_append [simp]: "first_of (xs @ ys) p = first_of xs (first_of ys p)"
  by (cases xs) simp_all

lemma last_of_append [simp]: "last_of (xs @ ys) p = last_of ys (last_of xs p)"
  by (induction xs arbitrary: p) simp_all

lemma first_of_eq_None [simp]: "first_of xs p = None \<longleftrightarrow> xs = [] \<and> p = None"
  by (cases xs) simp_all

lemma last_of_eq_None [simp]: "last_of xs p = None \<longleftrightarrow> xs = [] \<and> p = None"
  by (simp add: last_of_def)

lemma first_of_Some_nonempty: "xs \<noteq> [] \<Longrightarrow> first_of xs p = Some (hd xs)"
  by (cases xs) simp_all

lemma last_of_Some_nonempty: "xs \<noteq> [] \<Longrightarrow> last_of xs p = Some (last xs)"
  by (simp add: last_of_def)

lemma first_of_in_set: "first_of xs None = Some x \<Longrightarrow> x \<in> set xs"
  by (cases xs) simp_all

lemma last_of_in_set: "last_of xs None = Some x \<Longrightarrow> x \<in> set xs"
  by (auto simp: last_of_def split: if_splits)

lemma last_of_cases: "last_of xs p = Some x \<Longrightarrow> x \<in> set xs \<or> p = Some x"
  by (auto simp: last_of_def split: if_splits)

lemma first_of_cases: "first_of xs p = Some x \<Longrightarrow> x \<in> set xs \<or> p = Some x"
  by (cases xs) auto

lemma last_of_other [simp]:
  "x \<noteq> a \<Longrightarrow> x \<notin> set xs \<Longrightarrow> last_of xs (Some a) \<noteq> Some x"
  "x \<noteq> a \<Longrightarrow> x \<notin> set xs \<Longrightarrow> Some x \<noteq> last_of xs (Some a)"
  by (auto dest: last_of_cases sym)

lemma first_of_other [simp]:
  "x \<noteq> a \<Longrightarrow> x \<notin> set xs \<Longrightarrow> first_of xs (Some a) \<noteq> Some x"
  "x \<noteq> a \<Longrightarrow> x \<notin> set xs \<Longrightarrow> Some x \<noteq> first_of xs (Some a)"
  by (auto dest: first_of_cases sym)

section \<open>Lists that change at one element\<close>

lemma remove1_middle: "x \<notin> set ys \<Longrightarrow> remove1 x (ys @ x # zs) = ys @ zs"
  by (simp add: remove1_append)

lemma find_append_miss: "(\<forall>y\<in>set ys. \<not> P y) \<Longrightarrow> List.find P (ys @ zs) = List.find P zs"
  by (induction ys) simp_all

lemma find_in_set: "List.find P xs = Some x \<Longrightarrow> x \<in> set xs \<and> P x"
  by (auto simp: find_Some_iff)

end
