(* ===== verification/Constants.thy ===== *)
theory Constants
  imports Prelude
begin

text \<open>
  The macros of \<^verbatim>\<open>src/disastrOS_constants.h\<close> the kernel code uses, under their names.
  They unfold in proofs.
\<close>

section \<open>Limits\<close>

definition MAX_NUM_PROCESSES :: int where [simp]: "MAX_NUM_PROCESSES = 1024"
definition MAX_NUM_RESOURCES :: int where [simp]: "MAX_NUM_RESOURCES = 1024"
definition MAX_NUM_SEMAPHORES :: int where [simp]: "MAX_NUM_SEMAPHORES = 1024"
definition MAX_NUM_MQS :: int where [simp]: "MAX_NUM_MQS = 16"
definition MAX_NUM_QUEUES :: int where [simp]: "MAX_NUM_QUEUES = 64"
definition MAX_NUM_MESSAGES :: int where [simp]: "MAX_NUM_MESSAGES = 128"
definition MAX_NUM_MESSAGES_PER_MQ :: int where [simp]: "MAX_NUM_MESSAGES_PER_MQ = 128"
definition MAX_MESSAGE_LENGTH :: int where [simp]: "MAX_MESSAGE_LENGTH = 32"
definition MAX_NUM_DESCRIPTORS_PER_PROCESS :: int where [simp]: "MAX_NUM_DESCRIPTORS_PER_PROCESS = 32"
definition MAX_NUM_SEMDESCRIPTORS_PER_PROCESS :: int where [simp]: "MAX_NUM_SEMDESCRIPTORS_PER_PROCESS = 32"
definition MAX_NUM_MQDESCRIPTORS_PER_PROCESS :: int where [simp]: "MAX_NUM_MQDESCRIPTORS_PER_PROCESS = 16"

section \<open>Signals\<close>

definition DSOS_SIGCHLD :: int where [simp]: "DSOS_SIGCHLD = 1"
definition DSOS_SIGHUP :: int where [simp]: "DSOS_SIGHUP = 2"

section \<open>Error codes\<close>

definition DSOS_ESYSCALL_NOT_IMPLEMENTED :: int where [simp]: "DSOS_ESYSCALL_NOT_IMPLEMENTED = -2"
definition DSOS_ESYSCALL_OUT_OF_RANGE :: int where [simp]: "DSOS_ESYSCALL_OUT_OF_RANGE = -3"
definition DSOS_EWAIT :: int where [simp]: "DSOS_EWAIT = -5"
definition DSOS_ESPAWN :: int where [simp]: "DSOS_ESPAWN = -6"
definition DSOS_ESLEEP :: int where [simp]: "DSOS_ESLEEP = -7"
definition DSOS_ERESOURCECREATE :: int where [simp]: "DSOS_ERESOURCECREATE = -8"
definition DSOS_ERESOURCEOPEN :: int where [simp]: "DSOS_ERESOURCEOPEN = -9"
definition DSOS_ERESOURCENOEXCL :: int where [simp]: "DSOS_ERESOURCENOEXCL = -10"
definition DSOS_ERESOURCENOFD :: int where [simp]: "DSOS_ERESOURCENOFD = -11"
definition DSOS_ERESOURCECLOSE :: int where [simp]: "DSOS_ERESOURCECLOSE = -12"
definition DSOS_ERESOURCEINUSE :: int where [simp]: "DSOS_ERESOURCEINUSE = -13"
definition DSOS_ESEMAPHOREOPEN :: int where [simp]: "DSOS_ESEMAPHOREOPEN = -14"
definition DSOS_ESEMAPHORECLOSE :: int where [simp]: "DSOS_ESEMAPHORECLOSE = -15"
definition DSOS_ESEMAPHOREPOST :: int where [simp]: "DSOS_ESEMAPHOREPOST = -16"
definition DSOS_ESEMAPHOREWAIT :: int where [simp]: "DSOS_ESEMAPHOREWAIT = -17"
definition DSOS_EMQOPEN :: int where [simp]: "DSOS_EMQOPEN = -18"
definition DSOS_EMQCLOSE :: int where [simp]: "DSOS_EMQCLOSE = -19"
definition DSOS_EMQREAD :: int where [simp]: "DSOS_EMQREAD = -20"
definition DSOS_EMQWRITE :: int where [simp]: "DSOS_EMQWRITE = -21"
definition DSOS_EMQUNLINK :: int where [simp]: "DSOS_EMQUNLINK = -22"

section \<open>System calls\<close>

definition DSOS_MAX_SYSCALLS :: int where [simp]: "DSOS_MAX_SYSCALLS = 32"
definition DSOS_CALL_PREEMPT :: int where [simp]: "DSOS_CALL_PREEMPT = 1"
definition DSOS_CALL_FORK :: int where [simp]: "DSOS_CALL_FORK = 2"
definition DSOS_CALL_WAIT :: int where [simp]: "DSOS_CALL_WAIT = 3"
definition DSOS_CALL_EXIT :: int where [simp]: "DSOS_CALL_EXIT = 4"
definition DSOS_CALL_SPAWN :: int where [simp]: "DSOS_CALL_SPAWN = 5"
definition DSOS_CALL_SLEEP :: int where [simp]: "DSOS_CALL_SLEEP = 6"
definition DSOS_CALL_OPEN_RESOURCE :: int where [simp]: "DSOS_CALL_OPEN_RESOURCE = 7"
definition DSOS_CALL_CLOSE_RESOURCE :: int where [simp]: "DSOS_CALL_CLOSE_RESOURCE = 8"
definition DSOS_CALL_DESTROY_RESOURCE :: int where [simp]: "DSOS_CALL_DESTROY_RESOURCE = 9"
definition DSOS_CALL_SHUTDOWN :: int where [simp]: "DSOS_CALL_SHUTDOWN = 10"
definition DSOS_CALL_SEMOPEN :: int where [simp]: "DSOS_CALL_SEMOPEN = 11"
definition DSOS_CALL_SEMCLOSE :: int where [simp]: "DSOS_CALL_SEMCLOSE = 12"
definition DSOS_CALL_SEMWAIT :: int where [simp]: "DSOS_CALL_SEMWAIT = 13"
definition DSOS_CALL_SEMPOST :: int where [simp]: "DSOS_CALL_SEMPOST = 14"
definition DSOS_CALL_MQOPEN :: int where [simp]: "DSOS_CALL_MQOPEN = 15"
definition DSOS_CALL_MQCLOSE :: int where [simp]: "DSOS_CALL_MQCLOSE = 16"
definition DSOS_CALL_MQREAD :: int where [simp]: "DSOS_CALL_MQREAD = 17"
definition DSOS_CALL_MQWRITE :: int where [simp]: "DSOS_CALL_MQWRITE = 18"
definition DSOS_CALL_MQUNLINK :: int where [simp]: "DSOS_CALL_MQUNLINK = 19"

section \<open>Stacks and the clock\<close>

definition STACK_SIZE :: int where [simp]: "STACK_SIZE = 16384"
definition INTERVAL :: int where [simp]: "INTERVAL = 100"

section \<open>Open modes\<close>

definition DSOS_CREATE :: int where [simp]: "DSOS_CREATE = 1"
definition DSOS_READ :: int where [simp]: "DSOS_READ = 2"
definition DSOS_WRITE :: int where [simp]: "DSOS_WRITE = 3"
definition DSOS_EXCL :: int where [simp]: "DSOS_EXCL = 4"

end
