(* ===== verification/LinkedList.thy ===== *)
theory LinkedList
  imports Prelude
begin

text \<open>
  The intrusive doubly linked lists of \<^verbatim>\<open>src/linked_list.c\<close>. Every structure the
  kernel links has a \<^verbatim>\<open>ListItem\<close> as its first member, so the address of the structure
  is the address of its item: items are addressed by the type \<open>'p\<close> of structure addresses and
  list heads, which live in global variables and inside structures, by the type \<open>'h\<close>.
  The state holds the two link fields of every item and the three fields of every head.
  The second part relates this store to plain lists: what a head represents, and how inserting and
  detaching change it. The third part is the interface the kernel uses, as a locale.
\<close>

section \<open>The structures\<close>

record 'p list_item =
  item_prev :: "'p option"
  item_next :: "'p option"

record 'p list_head =
  head_first :: "'p option"
  head_last :: "'p option"
  head_size :: int

record ('p, 'h) lstore =
  links :: "'p \<Rightarrow> 'p list_item"
  heads :: "'h \<Rightarrow> 'p list_head"

text \<open>Assignments to one field of one item or head.\<close>

definition set_prev :: "'p \<Rightarrow> 'p option \<Rightarrow> ('p, 'h, 'z) lstore_scheme \<Rightarrow> ('p, 'h, 'z) lstore_scheme" where
  "set_prev p v s = s\<lparr>links := (links s)(p := (links s p)\<lparr>item_prev := v\<rparr>)\<rparr>"

definition set_next :: "'p \<Rightarrow> 'p option \<Rightarrow> ('p, 'h, 'z) lstore_scheme \<Rightarrow> ('p, 'h, 'z) lstore_scheme" where
  "set_next p v s = s\<lparr>links := (links s)(p := (links s p)\<lparr>item_next := v\<rparr>)\<rparr>"

definition set_first :: "'h \<Rightarrow> 'p option \<Rightarrow> ('p, 'h, 'z) lstore_scheme \<Rightarrow> ('p, 'h, 'z) lstore_scheme" where
  "set_first h v s = s\<lparr>heads := (heads s)(h := (heads s h)\<lparr>head_first := v\<rparr>)\<rparr>"

definition set_last :: "'h \<Rightarrow> 'p option \<Rightarrow> ('p, 'h, 'z) lstore_scheme \<Rightarrow> ('p, 'h, 'z) lstore_scheme" where
  "set_last h v s = s\<lparr>heads := (heads s)(h := (heads s h)\<lparr>head_last := v\<rparr>)\<rparr>"

definition set_size :: "'h \<Rightarrow> int \<Rightarrow> ('p, 'h, 'z) lstore_scheme \<Rightarrow> ('p, 'h, 'z) lstore_scheme" where
  "set_size h n s = s\<lparr>heads := (heads s)(h := (heads s h)\<lparr>head_size := n\<rparr>)\<rparr>"

lemmas set_defs = set_prev_def set_next_def set_first_def set_last_def set_size_def

section \<open>The operations\<close>

definition empty_head :: "'p list_head" where
  "empty_head = \<lparr>head_first = None, head_last = None, head_size = 0\<rparr>"

definition no_links :: "'p list_item" where
  "no_links = \<lparr>item_prev = None, item_next = None\<rparr>"

definition List_init :: "'h \<Rightarrow> ('p, 'h, 'z) lstore_scheme \<Rightarrow> ('p, 'h, 'z) lstore_scheme" where
  "List_init h s = set_size h 0 (set_last h None (set_first h None s))"

text \<open>
  A loop \<open>while (aux) { if (found) return aux; aux = aux->next; }\<close>: every search of the
  kernel has this shape. The test may fault (a cast, a dereference); a list with a cycle and no
  match is searched for ever.
\<close>

partial_function (option) scan ::
  "('p \<Rightarrow> fault + bool) \<Rightarrow> ('p \<Rightarrow> 'p option) \<Rightarrow> 'p option \<Rightarrow> (fault + 'p option) option" where
  "scan found nxt aux =
     (case aux of
        None \<Rightarrow> Some (Inr None)
      | Some p \<Rightarrow>
          (case found p of
             Inl e \<Rightarrow> Some (Inl e)
           | Inr b \<Rightarrow> if b then Some (Inr (Some p)) else scan found nxt (nxt p)))"

definition List_scan ::
  "('p \<Rightarrow> fault + bool) \<Rightarrow> 'h \<Rightarrow> ('p, 'h, 'z) lstore_scheme \<Rightarrow> fault + 'p option" where
  "List_scan found h s =
     loop_result (scan found (\<lambda>p. item_next (links s p)) (head_first (heads s h)))"

definition List_find :: "'h \<Rightarrow> 'p option \<Rightarrow> ('p, 'h, 'z) lstore_scheme \<Rightarrow> fault + 'p option" where
  "List_find h item s = List_scan (\<lambda>aux. Inr (Some aux = item)) h s"

definition List_insert ::
  "'h \<Rightarrow> 'p option \<Rightarrow> 'p option \<Rightarrow> ('p, 'h, 'z) lstore_scheme
   \<Rightarrow> fault + ('p option \<times> ('p, 'h, 'z) lstore_scheme)" where
  "List_insert h prev item s =
     (case item of
        None \<Rightarrow> Inl NullDeref
      | Some it \<Rightarrow>
          if item_next (links s it) \<noteq> None \<or> item_prev (links s it) \<noteq> None then Inr (None, s)
          else
            let nxt = (case prev of Some pv \<Rightarrow> item_next (links s pv) | None \<Rightarrow> head_first (heads s h));
                s1 = (case prev of
                        Some pv \<Rightarrow> set_next pv (Some it) (set_prev it (Some pv) s)
                      | None \<Rightarrow> s);
                s2 = (case nxt of
                        Some nx \<Rightarrow> set_prev nx (Some it) (set_next it (Some nx) s1)
                      | None \<Rightarrow> s1);
                s3 = (if prev = None then set_first h (Some it) s2 else s2);
                s4 = (if nxt = None then set_last h (Some it) s3 else s3)
            in Inr (Some it, set_size h (head_size (heads s4 h) + 1) s4))"

definition List_detach ::
  "'h \<Rightarrow> 'p option \<Rightarrow> ('p, 'h, 'z) lstore_scheme
   \<Rightarrow> fault + ('p option \<times> ('p, 'h, 'z) lstore_scheme)" where
  "List_detach h item s =
     (case item of
        None \<Rightarrow> Inl NullDeref
      | Some it \<Rightarrow>
          let prev = item_prev (links s it);
              nxt = item_next (links s it);
              s1 = (case prev of Some pv \<Rightarrow> set_next pv nxt s | None \<Rightarrow> s);
              s2 = (case nxt of Some nx \<Rightarrow> set_prev nx prev s1 | None \<Rightarrow> s1);
              s3 = (if item = head_first (heads s2 h) then set_first h nxt s2 else s2);
              s4 = (if item = head_last (heads s3 h) then set_last h prev s3 else s3);
              s5 = set_size h (head_size (heads s4 h) - 1) s4
          in Inr (item, set_next it None (set_prev it None s5)))"

section \<open>What a head represents\<close>

text \<open>
  \<open>linked lk pv xs nx\<close>: the items \<open>xs\<close> are linked in this order both ways, the first
  one's \<open>prev\<close> is \<open>pv\<close> and the last one's \<open>next\<close> is \<open>nx\<close>.
\<close>

fun linked :: "('p \<Rightarrow> 'p list_item) \<Rightarrow> 'p option \<Rightarrow> 'p list \<Rightarrow> 'p option \<Rightarrow> bool" where
  "linked lk pv [] nx \<longleftrightarrow> True"
| "linked lk pv (x # xs) nx \<longleftrightarrow>
     item_prev (lk x) = pv \<and> item_next (lk x) = first_of xs nx \<and> linked lk (Some x) xs nx"

definition dlist :: "('p \<Rightarrow> 'p list_item) \<Rightarrow> 'p list_head \<Rightarrow> 'p list \<Rightarrow> bool" where
  "dlist lk H xs \<longleftrightarrow>
     linked lk None xs None \<and> distinct xs \<and> head_first H = first_of xs None \<and>
     head_last H = last_of xs None \<and> head_size H = int (length xs)"

lemma linked_append [simp]:
  "linked lk pv (xs @ ys) nx \<longleftrightarrow>
     linked lk pv xs (first_of ys nx) \<and> linked lk (last_of xs pv) ys nx"
  by (induction xs arbitrary: pv) auto

lemma linked_cong:
  "(\<And>x. x \<in> set xs \<Longrightarrow> lk x = lk' x) \<Longrightarrow> linked lk pv xs nx = linked lk' pv xs nx"
  by (induction xs arbitrary: pv) auto

lemma linked_upd [simp]: "u \<notin> set xs \<Longrightarrow> linked (lk(u := v)) pv xs nx = linked lk pv xs nx"
  by (rule linked_cong) auto

lemma dlist_cong: "(\<And>x. x \<in> set xs \<Longrightarrow> lk x = lk' x) \<Longrightarrow> dlist lk H xs = dlist lk' H xs"
  unfolding dlist_def by (metis linked_cong)

lemma linked_unique:
  "linked lk pv xs None \<Longrightarrow> linked lk pv' ys None \<Longrightarrow> first_of xs None = first_of ys None \<Longrightarrow> xs = ys"
proof (induction xs arbitrary: pv pv' ys)
  case Nil
  then show ?case by (cases ys) auto
next
  case (Cons x xs)
  then show ?case by (cases ys) auto
qed

lemma dlist_unique: "dlist lk H xs \<Longrightarrow> dlist lk H ys \<Longrightarrow> xs = ys"
  unfolding dlist_def by (metis linked_unique)

lemma dlist_first: "dlist lk H xs \<Longrightarrow> head_first H = first_of xs None"
  and dlist_last: "dlist lk H xs \<Longrightarrow> head_last H = last_of xs None"
  and dlist_size: "dlist lk H xs \<Longrightarrow> head_size H = int (length xs)"
  and dlist_distinct: "dlist lk H xs \<Longrightarrow> distinct xs"
  by (simp_all add: dlist_def)

lemma dlist_empty_head [simp]: "dlist lk empty_head xs \<longleftrightarrow> xs = []"
  by (auto simp: dlist_def empty_head_def)

section \<open>Inserting and detaching on the represented list\<close>

text \<open>The two states agree outside the lists.\<close>

definition lists_only :: "('p, 'h, 'z) lstore_scheme \<Rightarrow> ('p, 'h, 'z) lstore_scheme \<Rightarrow> bool" where
  "lists_only s s' \<longleftrightarrow> s' = s\<lparr>links := links s', heads := heads s'\<rparr>"

text \<open>Only links and the one head change.\<close>

lemma List_insert_frame:
  assumes "List_insert h prev item s = Inr (r, s')"
  shows "lists_only s s'" and "h' \<noteq> h \<Longrightarrow> heads s' h' = heads s h'"
  using assms
  by (cases s,
      auto simp: lists_only_def List_insert_def set_defs Let_def split: option.splits if_splits)+

lemma List_detach_frame:
  assumes "List_detach h item s = Inr (r, s')"
  shows "lists_only s s'" and "h' \<noteq> h \<Longrightarrow> heads s' h' = heads s h'"
  using assms
  by (cases s,
      auto simp: lists_only_def List_detach_def set_defs Let_def split: option.splits if_splits)+

text \<open>
  Inserting an unlinked item \<open>x\<close> after the last element of \<open>ys\<close> (at the front when
  \<open>ys\<close> is empty) puts it between \<open>ys\<close> and \<open>zs\<close>.
\<close>

lemma List_insert_dlist:
  assumes "dlist (links s) (heads s h) (ys @ zs)"
    and "x \<notin> set (ys @ zs)" and "links s x = no_links"
  shows "\<exists>s'. List_insert h (last_of ys None) (Some x) s = Inr (Some x, s') \<and>
           dlist (links s') (heads s' h) (ys @ x # zs) \<and>
           (\<forall>p. p \<notin> set (ys @ x # zs) \<longrightarrow> links s' p = links s p)"
proof (cases ys rule: rev_cases)
  case Nil
  with assms show ?thesis
    by (cases zs) (auto simp: List_insert_def set_defs dlist_def no_links_def)
next
  case (snoc ys' y)
  with assms show ?thesis
    by (cases zs) (auto simp: List_insert_def set_defs dlist_def no_links_def)
qed

lemma List_detach_dlist:
  assumes "dlist (links s) (heads s h) (ys @ x # zs)"
  shows "\<exists>s'. List_detach h (Some x) s = Inr (Some x, s') \<and>
           dlist (links s') (heads s' h) (ys @ zs) \<and> links s' x = no_links \<and>
           (\<forall>p. p \<notin> set (ys @ x # zs) \<longrightarrow> links s' p = links s p)"
proof (cases ys rule: rev_cases)
  case Nil
  with assms show ?thesis
    by (cases zs) (auto simp: List_detach_def set_defs dlist_def no_links_def Let_def)
next
  case (snoc ys' y)
  with assms show ?thesis
    by (cases zs) (auto simp: List_detach_def set_defs dlist_def no_links_def Let_def)
qed

section \<open>Searching\<close>

lemma scan_None [simp]: "scan found nxt None = Some (Inr None)"
  by (simp add: scan.simps)

lemma scan_Some:
  "scan found nxt (Some p) =
     (case found p of
        Inl e \<Rightarrow> Some (Inl e)
      | Inr b \<Rightarrow> if b then Some (Inr (Some p)) else scan found nxt (nxt p))"
  by (subst scan.simps) simp

text \<open>On a represented list the search returns, and returns the first match.\<close>

lemma scan_linked:
  assumes "linked lk pv xs None" and "\<And>x. x \<in> set xs \<Longrightarrow> found x = Inr (P x)"
  shows "scan found (\<lambda>p. item_next (lk p)) (first_of xs None) = Some (Inr (List.find P xs))"
  using assms
proof (induction xs arbitrary: pv)
  case Nil
  then show ?case by simp
next
  case (Cons x xs)
  then show ?case by (auto simp: scan_Some)
qed

lemma List_scan_dlist:
  assumes "dlist (links s) (heads s h) xs" and "\<And>x. x \<in> set xs \<Longrightarrow> found x = Inr (P x)"
  shows "List_scan found h s = Inr (List.find P xs)"
  using assms scan_linked [of "links s" None xs found P]
  by (simp add: List_scan_def dlist_def)

lemma List_find_dlist:
  assumes "dlist (links s) (heads s h) xs"
  shows "List_find h (Some x) s = Inr (if x \<in> set xs then Some x else None)"
proof -
  have "List.find (\<lambda>y. Some y = Some x) xs = (if x \<in> set xs then Some x else None)"
    by (induction xs) auto
  with assms show ?thesis
    unfolding List_find_def by (subst List_scan_dlist [where P = "\<lambda>y. Some y = Some x"]) auto
qed

text \<open>An item that is its own successor and does not match is searched for ever.\<close>

lemma scan_self_loop:
  assumes "nxt x = Some x" and "found x = Inr False"
  shows "scan found nxt (Some x) = None"
proof (rule ccontr)
  assume "scan found nxt (Some x) \<noteq> None"
  then obtain r where r: "scan found nxt (Some x) = Some r" by auto
  have "nxt x = Some x \<longrightarrow> found x = Inr False \<longrightarrow> Some x = Some x \<longrightarrow> False"
    by (rule scan.raw_induct [where P = "\<lambda>f n a r. n x = Some x \<longrightarrow> f x = Inr False \<longrightarrow> a = Some x \<longrightarrow> False", OF _ r])
      (auto split: option.splits sum.splits if_splits)
  with assms show False by simp
qed

section \<open>Many lists in one store\<close>

text \<open>
  \<open>represents s L\<close>: every head \<open>h\<close> of the store represents the list \<open>L h\<close>, and no
  item is in two lists.
\<close>

definition represents :: "('p, 'h, 'z) lstore_scheme \<Rightarrow> ('h \<Rightarrow> 'p list) \<Rightarrow> bool" where
  "represents s L \<longleftrightarrow>
     (\<forall>h. dlist (links s) (heads s h) (L h)) \<and>
     (\<forall>h h'. h \<noteq> h' \<longrightarrow> set (L h) \<inter> set (L h') = {})"

definition unlinked :: "('p, 'h, 'z) lstore_scheme \<Rightarrow> 'p \<Rightarrow> bool" where
  "unlinked s p \<longleftrightarrow> links s p = no_links"

definition listed :: "('h \<Rightarrow> 'p list) \<Rightarrow> 'p \<Rightarrow> bool" where
  "listed L p \<longleftrightarrow> (\<exists>h. p \<in> set (L h))"

lemma not_listedD: "\<not> listed L p \<Longrightarrow> p \<notin> set (L h)"
  by (auto simp: listed_def)

lemma represents_dlist: "represents s L \<Longrightarrow> dlist (links s) (heads s h) (L h)"
  by (simp add: represents_def)

lemma represents_unique: "represents s L \<Longrightarrow> represents s L' \<Longrightarrow> L = L'"
  by (metis represents_dlist dlist_unique ext)

lemma represents_disjoint: "represents s L \<Longrightarrow> x \<in> set (L h) \<Longrightarrow> x \<in> set (L h') \<Longrightarrow> h = h'"
  unfolding represents_def by blast

lemma represents_distinct: "represents s L \<Longrightarrow> distinct (L h)"
  by (metis represents_dlist dlist_distinct)

lemma lists_only_refl [simp]: "lists_only s s"
  by (simp add: lists_only_def)

lemma lists_only_trans: "lists_only s s' \<Longrightarrow> lists_only s' s'' \<Longrightarrow> lists_only s s''"
  by (cases s, cases s', cases s'') (simp add: lists_only_def)

text \<open>One list changed at one element: the others are untouched.\<close>

lemma represents_change:
  assumes rep: "represents s L"
    and dl: "dlist (links s') (heads s' h) xs"
    and others: "\<And>h'. h' \<noteq> h \<Longrightarrow> heads s' h' = heads s h'"
    and same: "\<And>p. p \<notin> set (L h) \<Longrightarrow> p \<notin> set xs \<Longrightarrow> links s' p = links s p"
    and new: "\<And>p h'. p \<in> set xs \<Longrightarrow> p \<notin> set (L h) \<Longrightarrow> p \<notin> set (L h')"
  shows "represents s' (L(h := xs))"
  unfolding represents_def
proof (intro conjI allI impI)
  fix h'
  show "dlist (links s') (heads s' h') ((L(h := xs)) h')"
  proof (cases "h' = h")
    case True
    with dl show ?thesis by simp
  next
    case False
    then have "links s' p = links s p" if "p \<in> set (L h')" for p
      using that same [of p] new [of p h'] represents_disjoint [OF rep, of p h' h] by blast
    then have "dlist (links s') (heads s h') (L h') = dlist (links s) (heads s h') (L h')"
      by (rule dlist_cong)
    with represents_dlist [OF rep, of h'] False others [of h'] show ?thesis
      by simp
  qed
next
  fix g g' :: 'b
  assume neq: "g \<noteq> g'"
  have h: "set xs \<inter> set (L k) = {}" if "k \<noteq> h" for k
    using new [of _ k] represents_disjoint [OF rep, of _ k h] that by blast
  have "set (L g) \<inter> set (L g') = {}"
    using rep neq by (simp add: represents_def)
  with neq h [of g] h [of g'] show "set ((L(h := xs)) g) \<inter> set ((L(h := xs)) g') = {}"
    by (auto simp: Int_commute)
qed

lemma List_insert_represents:
  assumes rep: "represents s L" and L: "L h = ys @ zs" and x: "\<not> listed L x" "unlinked s x"
  shows "\<exists>s'. List_insert h (last_of ys None) (Some x) s = Inr (Some x, s') \<and>
           represents s' (L(h := ys @ x # zs)) \<and> lists_only s s' \<and>
           (\<forall>p. \<not> listed L p \<longrightarrow> p \<noteq> x \<longrightarrow> unlinked s' p = unlinked s p)"
proof -
  have xL: "x \<notin> set (L g)" for g using x by (simp add: listed_def)
  obtain s' where ins: "List_insert h (last_of ys None) (Some x) s = Inr (Some x, s')"
    and dl: "dlist (links s') (heads s' h) (ys @ x # zs)"
    and same: "\<And>p. p \<notin> set (ys @ x # zs) \<Longrightarrow> links s' p = links s p"
    using List_insert_dlist [of s h ys zs x] represents_dlist [OF rep, of h] L xL [of h] x(2)
    unfolding unlinked_def by force
  have "represents s' (L(h := ys @ x # zs))"
    by (rule represents_change [OF rep dl List_insert_frame(2) [OF ins]])
      (use L xL same in auto)
  moreover have "unlinked s' p = unlinked s p" if "\<not> listed L p" "p \<noteq> x" for p
    using same [of p] that L unfolding unlinked_def listed_def by (metis set_ConsD Un_iff set_append)
  ultimately show ?thesis
    using ins List_insert_frame(1) [OF ins] by blast
qed

lemma List_detach_represents:
  assumes rep: "represents s L" and L: "L h = ys @ x # zs"
  shows "\<exists>s'. List_detach h (Some x) s = Inr (Some x, s') \<and>
           represents s' (L(h := ys @ zs)) \<and> lists_only s s' \<and> unlinked s' x \<and>
           (\<forall>p. \<not> listed L p \<longrightarrow> unlinked s' p = unlinked s p)"
proof -
  obtain s' where det: "List_detach h (Some x) s = Inr (Some x, s')"
    and dl: "dlist (links s') (heads s' h) (ys @ zs)" and x: "links s' x = no_links"
    and same: "\<And>p. p \<notin> set (ys @ x # zs) \<Longrightarrow> links s' p = links s p"
    using List_detach_dlist [of s h ys x zs] represents_dlist [OF rep, of h] L by force
  have "represents s' (L(h := ys @ zs))"
    by (rule represents_change [OF rep dl List_detach_frame(2) [OF det]])
      (use L same in auto)
  moreover have "unlinked s' p = unlinked s p" if "\<not> listed L p" for p
    using same [of p] that L unfolding unlinked_def listed_def by metis
  moreover have "unlinked s' x"
    using x by (simp add: unlinked_def)
  ultimately show ?thesis
    using det List_detach_frame(1) [OF det] by blast
qed

text \<open>\<^verbatim>\<open>List_init\<close> on any head empties its list; on an empty one it changes nothing.\<close>

lemma List_init_represents:
  assumes "represents s L"
  shows "represents (List_init h s) (L(h := []))" and "lists_only s (List_init h s)"
    and "links (List_init h s) = links s"
proof -
  show "represents (List_init h s) (L(h := []))"
    by (rule represents_change [OF assms]) (simp_all add: List_init_def set_defs dlist_def)
  show "lists_only s (List_init h s)" "links (List_init h s) = links s"
    by (simp_all add: List_init_def set_defs lists_only_def)
qed

section \<open>The interface the kernel uses\<close>

text \<open>
  A store of lists as its clients see it: insert after the last element of a prefix, detach a
  member, read the ends and the length. \<open>rep\<close> gives the lists the heads stand for, \<open>fresh\<close>
  says an item is not linked, \<open>frame\<close> that two states agree outside the lists.
\<close>

locale list_store =
  fixes ins :: "'h \<Rightarrow> 'p option \<Rightarrow> 'p option \<Rightarrow> 's \<Rightarrow> fault + ('p option \<times> 's)"
    and det :: "'h \<Rightarrow> 'p option \<Rightarrow> 's \<Rightarrow> fault + ('p option \<times> 's)"
    and first_item :: "'h \<Rightarrow> 's \<Rightarrow> 'p option"
    and last_item :: "'h \<Rightarrow> 's \<Rightarrow> 'p option"
    and rep :: "'s \<Rightarrow> ('h \<Rightarrow> 'p list) \<Rightarrow> bool"
    and fresh :: "'s \<Rightarrow> 'p \<Rightarrow> bool"
    and frame :: "'s \<Rightarrow> 's \<Rightarrow> bool"
  assumes frame_refl: "frame s s"
    and frame_trans: "frame s s' \<Longrightarrow> frame s' s'' \<Longrightarrow> frame s s''"
    and first_rep: "rep s L \<Longrightarrow> first_item h s = first_of (L h) None"
    and last_rep: "rep s L \<Longrightarrow> last_item h s = last_of (L h) None"
    and rep_distinct: "rep s L \<Longrightarrow> distinct (L h)"
    and rep_apart: "rep s L \<Longrightarrow> x \<in> set (L h) \<Longrightarrow> x \<in> set (L h') \<Longrightarrow> h = h'"
    and ins_rep: "rep s L \<Longrightarrow> L h = ys @ zs \<Longrightarrow> \<not> listed L x \<Longrightarrow> fresh s x \<Longrightarrow>
      \<exists>s'. ins h (last_of ys None) (Some x) s = Inr (Some x, s') \<and>
        rep s' (L(h := ys @ x # zs)) \<and> frame s s' \<and>
        (\<forall>p. \<not> listed L p \<longrightarrow> p \<noteq> x \<longrightarrow> fresh s' p = fresh s p)"
    and det_rep: "rep s L \<Longrightarrow> L h = ys @ x # zs \<Longrightarrow>
      \<exists>s'. det h (Some x) s = Inr (Some x, s') \<and>
        rep s' (L(h := ys @ zs)) \<and> frame s s' \<and> fresh s' x \<and>
        (\<forall>p. \<not> listed L p \<longrightarrow> fresh s' p = fresh s p)"
begin

text \<open>A list used as a queue: enter at the tail, leave from the front.\<close>

lemma enqueue:
  assumes "rep s L" and "\<not> listed L x" and "fresh s x"
  shows "\<exists>s'. ins h (last_item h s) (Some x) s = Inr (Some x, s') \<and>
    rep s' (L(h := L h @ [x])) \<and> frame s s' \<and>
    (\<forall>p. \<not> listed L p \<longrightarrow> p \<noteq> x \<longrightarrow> fresh s' p = fresh s p)"
  using ins_rep [of s L h "L h" "[]" x] assms by (simp add: last_rep)

lemma push:
  assumes "rep s L" and "\<not> listed L x" and "fresh s x"
  shows "\<exists>s'. ins h None (Some x) s = Inr (Some x, s') \<and>
    rep s' (L(h := x # L h)) \<and> frame s s' \<and>
    (\<forall>p. \<not> listed L p \<longrightarrow> p \<noteq> x \<longrightarrow> fresh s' p = fresh s p)"
  using ins_rep [of s L h "[]" "L h" x] assms by simp

lemma remove_member:
  assumes "rep s L" and "x \<in> set (L h)"
  shows "\<exists>s'. det h (Some x) s = Inr (Some x, s') \<and>
    rep s' (L(h := remove1 x (L h))) \<and> frame s s' \<and> fresh s' x \<and>
    (\<forall>p. \<not> listed L p \<longrightarrow> fresh s' p = fresh s p)"
proof -
  obtain ys zs where L: "L h = ys @ x # zs" and "x \<notin> set ys"
    using assms(2) by (metis split_list_first)
  with det_rep [OF assms(1) L] show ?thesis
    by (simp add: remove1_middle)
qed

lemma dequeue:
  assumes "rep s L" and "L h = x # xs"
  shows "\<exists>s'. det h (first_item h s) s = Inr (Some x, s') \<and>
    rep s' (L(h := xs)) \<and> frame s s' \<and> fresh s' x \<and>
    (\<forall>p. \<not> listed L p \<longrightarrow> fresh s' p = fresh s p)"
  using det_rep [of s L h "[]" x xs] assms by (simp add: first_rep)

lemma not_listed_removed:
  assumes "rep s L" and "x \<in> set (L a)"
  shows "\<not> listed (L(a := remove1 x (L a))) x"
  using assms rep_apart [OF assms(1)] rep_distinct [OF assms(1)]
  by (auto simp: listed_def fun_upd_def split: if_splits)

text \<open>Taking a member out of one list and appending it to another: it is never in two lists.\<close>

lemma transfer:
  assumes rep: "rep s L" and x: "x \<in> set (L a)" and ab: "a \<noteq> b"
  shows "\<exists>s1 s2. det a (Some x) s = Inr (Some x, s1) \<and>
    ins b (last_item b s1) (Some x) s1 = Inr (Some x, s2) \<and>
    rep s1 (L(a := remove1 x (L a))) \<and>
    rep s2 (L(a := remove1 x (L a), b := L b @ [x])) \<and> frame s s1 \<and> frame s1 s2"
proof -
  let ?L = "L(a := remove1 x (L a))"
  obtain s1 where d: "det a (Some x) s = Inr (Some x, s1)" "rep s1 ?L" "frame s s1" "fresh s1 x"
    using remove_member [OF rep x] by blast
  have "\<not> listed ?L x"
    by (rule not_listed_removed [OF rep x])
  with d obtain s2 where "ins b (last_item b s1) (Some x) s1 = Inr (Some x, s2)"
    "rep s2 (?L(b := ?L b @ [x]))" "frame s1 s2"
    using enqueue [of s1 ?L x b] by blast
  with d ab show ?thesis by auto
qed

end

definition list_first :: "'h \<Rightarrow> ('p, 'h, 'z) lstore_scheme \<Rightarrow> 'p option" where
  "list_first h s = head_first (heads s h)"

definition list_last :: "'h \<Rightarrow> ('p, 'h, 'z) lstore_scheme \<Rightarrow> 'p option" where
  "list_last h s = head_last (heads s h)"

definition list_size :: "'h \<Rightarrow> ('p, 'h, 'z) lstore_scheme \<Rightarrow> int" where
  "list_size h s = head_size (heads s h)"

interpretation ls: list_store List_insert List_detach list_first list_last represents unlinked lists_only
proof (unfold_locales, goal_cases)
  case (1 s)
  show ?case by simp
next
  case (2 s s' s'')
  then show ?case by (rule lists_only_trans)
next
  case (3 s L h)
  then show ?case by (simp add: list_first_def dlist_first [OF represents_dlist])
next
  case (4 s L h)
  then show ?case by (simp add: list_last_def dlist_last [OF represents_dlist])
next
  case (5 s L h)
  then show ?case by (rule represents_distinct)
next
  case (6 s L x h h')
  then show ?case by (rule represents_disjoint)
next
  case (7 s L h ys zs x)
  then show ?case by (rule List_insert_represents)
next
  case (8 s L h ys x zs)
  then show ?case by (rule List_detach_represents)
qed

lemma list_size_represents: "represents s L \<Longrightarrow> list_size h s = int (length (L h))"
  by (simp add: list_size_def dlist_size [OF represents_dlist])

end
