(* ===== verification/PoolAllocator.thy ===== *)
theory PoolAllocator
  imports Prelude "HOL-Library.Signed_Division"
begin

text \<open>
  The block allocator of \<^verbatim>\<open>src/pool_allocator.c\<close>: a buffer of equal blocks, and behind
  it an array of indices that chains the free blocks. Addresses are integers; the array is a
  function from indices, whose initial contents are those of the memory block. Then: the invariant
  (the free chain visits exactly the blocks that are not handed out), what each operation does on
  every branch, and the interface of a pool as a locale, interpreted on these operations.
\<close>

section \<open>The structures\<close>

datatype PoolAllocatorResult = Success | NotEnoughMemory | UnalignedFree | OutOfRange | DoubleFree

fun result_code :: "PoolAllocatorResult \<Rightarrow> int" where
  "result_code Success = 0"
| "result_code NotEnoughMemory = -1"
| "result_code UnalignedFree = -2"
| "result_code OutOfRange = -3"
| "result_code DoubleFree = -4"

record pool_allocator =
  buffer :: int
  free_list :: "int \<Rightarrow> int"
  buffer_size :: int
  pa_size :: int
  size_max :: int
  item_size :: int
  first_idx :: int
  bucket_size :: int

definition NullIdx :: int where "NullIdx = -1"

definition DetachedIdx :: int where "DetachedIdx = -2"

definition sizeof_int :: int where "sizeof_int = 4"

definition PoolAllocator_strerrors :: "string list" where
  "PoolAllocator_strerrors =
     [''Success'', ''NotEnoughMemory'', ''UnalignedFree'', ''OutOfRange'', ''DoubleFree'']"

definition PoolAllocator_strerror :: "PoolAllocatorResult \<Rightarrow> string" where
  "PoolAllocator_strerror r = PoolAllocator_strerrors ! nat (- result_code r)"

section \<open>The operations\<close>

text \<open>The loop \<open>for (i = 0; i < size - 1; ++i) free_list[i] = i + 1\<close>, from \<open>i\<close> on.\<close>

function chain_loop :: "int \<Rightarrow> int \<Rightarrow> (int \<Rightarrow> int) \<Rightarrow> (int \<Rightarrow> int)" where
  "chain_loop i n f = (if i < n then chain_loop (i + 1) n (f(i := i + 1)) else f)"
  by pat_completeness auto
termination
  by (relation "measure (\<lambda>(i, n, f). nat (n - i))") auto

declare chain_loop.simps [simp del]

text \<open>
  The requested size is computed in \<^verbatim>\<open>size_t\<close> and stored in an \<^verbatim>\<open>int\<close>. The writes
  to the index array stay inside the memory block exactly when there is at least one block and the
  array ends before the block does.
\<close>

definition PoolAllocator_init ::
  "pool_allocator \<Rightarrow> int \<Rightarrow> int \<Rightarrow> int \<Rightarrow> int \<Rightarrow> fault + (PoolAllocatorResult \<times> pool_allocator)" where
  "PoolAllocator_init a isize num_items memory_block memory_size =
     (let requested_size = to_int32 (num_items * (isize + sizeof_int)) in
      if memory_size < requested_size then Inr (NotEnoughMemory, a)
      else andThen (checked_int (isize * num_items)) (\<lambda>bsize.
        if num_items < 1 \<or> memory_size < bsize + sizeof_int * num_items then Inl OutOfBounds
        else
          let fl = chain_loop 0 (num_items - 1) (free_list a)
          in Inr (Success,
               a\<lparr>item_size := isize, pa_size := num_items, buffer_size := bsize,
                 size_max := num_items, buffer := memory_block,
                 free_list := fl(num_items - 1 := NullIdx), first_idx := 0\<rparr>)))"

definition PoolAllocator_getBlock ::
  "pool_allocator \<Rightarrow> fault + (int option \<times> pool_allocator)" where
  "PoolAllocator_getBlock a =
     (if first_idx a = -1 then Inr (None, a)
      else if first_idx a < 0 \<or> size_max a \<le> first_idx a then Inl OutOfBounds
      else
        let detached_idx = first_idx a
        in Inr (Some (buffer a + detached_idx * item_size a),
             a\<lparr>first_idx := free_list a (first_idx a), pa_size := pa_size a - 1,
               free_list := (free_list a)(detached_idx := DetachedIdx)\<rparr>))"

definition PoolAllocator_releaseBlock ::
  "pool_allocator \<Rightarrow> int \<Rightarrow> fault + (PoolAllocatorResult \<times> pool_allocator)" where
  "PoolAllocator_releaseBlock a block =
     (let offset = to_int32 (block - buffer a) in
      if item_size a = 0 then Inl DivisionByZero
      else if offset smod item_size a \<noteq> 0 then Inr (UnalignedFree, a)
      else
        let idx = offset sdiv item_size a in
        if idx < 0 \<or> size_max a \<le> idx then Inr (OutOfRange, a)
        else if free_list a idx \<noteq> DetachedIdx then Inr (DoubleFree, a)
        else Inr (Success,
               a\<lparr>free_list := (free_list a)(idx := first_idx a), first_idx := idx,
                 pa_size := pa_size a + 1\<rparr>))"

section \<open>The free chain\<close>

fun chain :: "(int \<Rightarrow> int) \<Rightarrow> int \<Rightarrow> int list \<Rightarrow> bool" where
  "chain f i [] \<longleftrightarrow> i = NullIdx"
| "chain f i (x # xs) \<longleftrightarrow> i = x \<and> chain f (f x) xs"

text \<open>
  \<open>pool_inv a xs\<close>: the free blocks of \<open>a\<close> are \<open>xs\<close>, in the order they will be handed
  out; every other block is marked as detached; the whole buffer is addressable with an
  \<^verbatim>\<open>int\<close> offset.
\<close>

definition pool_inv :: "pool_allocator \<Rightarrow> int list \<Rightarrow> bool" where
  "pool_inv a xs \<longleftrightarrow>
     0 < item_size a \<and> 0 < size_max a \<and> int32_range (item_size a * size_max a) \<and>
     chain (free_list a) (first_idx a) xs \<and> distinct xs \<and> set xs \<subseteq> {0..<size_max a} \<and>
     pa_size a = int (length xs) \<and>
     (\<forall>i\<in>{0..<size_max a} - set xs. free_list a i = DetachedIdx)"

definition block_addr :: "pool_allocator \<Rightarrow> int \<Rightarrow> int" where
  "block_addr a i = buffer a + i * item_size a"

definition block_idx :: "pool_allocator \<Rightarrow> int \<Rightarrow> int" where
  "block_idx a p = (p - buffer a) div item_size a"

lemma chain_cong: "(\<And>x. x \<in> set xs \<Longrightarrow> f x = g x) \<Longrightarrow> chain f i xs = chain g i xs"
  by (induction xs arbitrary: i) auto

lemma chain_upd [simp]: "u \<notin> set xs \<Longrightarrow> chain (f(u := v)) i xs = chain f i xs"
  by (rule chain_cong) auto

lemma chain_loop_value:
  "chain_loop i n f = (\<lambda>k. if i \<le> k \<and> k < n then k + 1 else f k)"
proof (induction i n f rule: chain_loop.induct)
  case (1 i n f)
  show ?case
  proof (cases "i < n")
    case True
    then have "chain_loop i n f = chain_loop (i + 1) n (f(i := i + 1))"
      by (subst chain_loop.simps) simp
    also have "\<dots> = (\<lambda>k. if i + 1 \<le> k \<and> k < n then k + 1 else (f(i := i + 1)) k)"
      using True by (rule "1.IH")
    also have "\<dots> = (\<lambda>k. if i \<le> k \<and> k < n then k + 1 else f k)"
      using True by (intro ext) auto
    finally show ?thesis .
  next
    case False
    then show ?thesis by (subst chain_loop.simps) auto
  qed
qed

lemma chain_upto:
  assumes "\<And>k. i \<le> k \<Longrightarrow> k < n \<Longrightarrow> f k = (if k = n - 1 then NullIdx else k + 1)"
  shows "i < n \<Longrightarrow> chain f i [i..n - 1]"
  using assms
proof (induction "nat (n - i)" arbitrary: i)
  case 0
  then show ?case by simp
next
  case (Suc m)
  show ?case
  proof (cases "i = n - 1")
    case True
    with Suc.prems show ?thesis by simp
  next
    case False
    with Suc.prems have "chain f (i + 1) [i + 1..n - 1]"
      using Suc.hyps by (intro Suc.hyps(1)) auto
    with False Suc.prems show ?thesis by (simp add: upto_rec1)
  qed
qed

section \<open>What the operations do\<close>

lemma PoolAllocator_init_value:
  assumes "0 < isize" and "0 < num" and "int32_range (num * (isize + sizeof_int))"
    and "num * (isize + sizeof_int) \<le> memory_size"
  shows "PoolAllocator_init a isize num block memory_size = Inr (Success,
    a\<lparr>item_size := isize, pa_size := num, buffer_size := isize * num, size_max := num,
      buffer := block,
      free_list := (\<lambda>k. if k = num - 1 then NullIdx
                        else if 0 \<le> k \<and> k < num then k + 1 else free_list a k),
      first_idx := 0\<rparr>)"
proof -
  have sz: "num * (isize + sizeof_int) = isize * num + sizeof_int * num"
    by (simp add: algebra_simps)
  have "0 < isize * num" and "0 < sizeof_int * num"
    using assms(1,2) by (simp_all add: sizeof_int_def)
  with assms(3) have rng: "int32_range (isize * num)"
    unfolding sz int32_range_def by linarith
  have fits: "\<not> memory_size < isize * num + sizeof_int * num"
    using assms(4) sz by linarith
  have "(chain_loop 0 (num - 1) (free_list a))(num - 1 := NullIdx) =
    (\<lambda>k. if k = num - 1 then NullIdx else if 0 \<le> k \<and> k < num then k + 1 else free_list a k)"
    by (auto simp: chain_loop_value fun_eq_iff)
  with assms rng fits show ?thesis
    by (simp add: PoolAllocator_init_def to_int32_id)
qed

lemma pool_inv_init:
  assumes "0 < isize" and "0 < num" and "int32_range (num * (isize + sizeof_int))"
    and "num * (isize + sizeof_int) \<le> memory_size"
  shows "\<exists>a'. PoolAllocator_init a isize num block memory_size = Inr (Success, a') \<and>
    pool_inv a' [0..num - 1] \<and> size_max a' = num \<and> item_size a' = isize \<and> buffer a' = block"
proof -
  have "0 < isize * num" and "isize * num < num * (isize + sizeof_int)"
    using assms(1,2) by (simp_all add: sizeof_int_def algebra_simps)
  with assms(3) have "int32_range (isize * num)"
    by (simp add: int32_range_def)
  then show ?thesis
    using assms by (subst PoolAllocator_init_value) (auto simp: pool_inv_def intro: chain_upto)
qed

lemma getBlock_some:
  assumes "pool_inv a (x # xs)"
  shows "\<exists>a'. PoolAllocator_getBlock a = Inr (Some (block_addr a x), a') \<and> pool_inv a' xs \<and>
    a' = a\<lparr>first_idx := free_list a x, pa_size := pa_size a - 1,
           free_list := (free_list a)(x := DetachedIdx)\<rparr>"
  using assms by (auto simp: pool_inv_def PoolAllocator_getBlock_def block_addr_def)

lemma getBlock_none: "pool_inv a [] \<Longrightarrow> PoolAllocator_getBlock a = Inr (None, a)"
  by (simp add: pool_inv_def PoolAllocator_getBlock_def NullIdx_def)

lemma free_not_detached:
  assumes "chain f i xs" and "x \<in> set xs" and "set xs \<subseteq> {0..<n}"
  shows "f x \<noteq> DetachedIdx"
  using assms
proof (induction xs arbitrary: i)
  case Nil
  then show ?case by simp
next
  case (Cons y ys)
  then show ?case by (cases ys) (auto simp: NullIdx_def DetachedIdx_def)
qed

lemma block_offset:
  assumes "pool_inv a xs" and "0 \<le> i" and "i < size_max a"
  shows "to_int32 (block_addr a i - buffer a) = i * item_size a"
proof -
  have "i * item_size a \<le> size_max a * item_size a"
    using assms by (simp add: pool_inv_def mult_right_mono)
  moreover have "int32_range (size_max a * item_size a)"
    using assms(1) by (simp add: pool_inv_def mult.commute)
  moreover have "0 \<le> i * item_size a"
    using assms by (simp add: pool_inv_def)
  ultimately have "int32_range (i * item_size a)"
    unfolding int32_range_def by linarith
  then show ?thesis by (simp add: block_addr_def to_int32_id)
qed

lemma releaseBlock_index:
  assumes inv: "pool_inv a xs" and i: "0 \<le> i" "i < size_max a"
  shows "PoolAllocator_releaseBlock a (block_addr a i) =
    (if free_list a i \<noteq> DetachedIdx then Inr (DoubleFree, a)
     else Inr (Success, a\<lparr>free_list := (free_list a)(i := first_idx a), first_idx := i,
                          pa_size := pa_size a + 1\<rparr>))"
proof -
  have pos: "0 < item_size a" using inv by (simp add: pool_inv_def)
  then have "(i * item_size a) smod item_size a = 0" and "(i * item_size a) sdiv item_size a = i"
    using i by (auto simp: smod_int_alt_def signed_divide_int_def sgn_mult abs_mult sgn_if)
  with pos i block_offset [OF inv i] show ?thesis
    by (simp add: PoolAllocator_releaseBlock_def Let_def)
qed

lemma releaseBlock_free:
  assumes inv: "pool_inv a xs" and "i \<in> set xs"
  shows "PoolAllocator_releaseBlock a (block_addr a i) = Inr (DoubleFree, a)"
proof -
  have "0 \<le> i" "i < size_max a" and "free_list a i \<noteq> DetachedIdx"
    using inv assms(2) free_not_detached [of "free_list a" "first_idx a" xs i "size_max a"]
    by (auto simp: pool_inv_def)
  then show ?thesis by (simp add: releaseBlock_index [OF inv])
qed

lemma releaseBlock_live:
  assumes inv: "pool_inv a xs" and i: "i \<in> {0..<size_max a} - set xs"
  shows "\<exists>a'. PoolAllocator_releaseBlock a (block_addr a i) = Inr (Success, a') \<and>
    pool_inv a' (i # xs) \<and>
    a' = a\<lparr>free_list := (free_list a)(i := first_idx a), first_idx := i, pa_size := pa_size a + 1\<rparr>"
  using assms releaseBlock_index [OF inv, of i] by (auto simp: pool_inv_def)

text \<open>Taking a block and giving it back restores the allocator, field by field.\<close>

lemma get_release_restores:
  assumes inv: "pool_inv a xs" and get: "PoolAllocator_getBlock a = Inr (Some p, a')"
  shows "PoolAllocator_releaseBlock a' p = Inr (Success, a)"
proof (cases xs)
  case Nil
  with inv get show ?thesis by (simp add: getBlock_none)
next
  case (Cons x ys)
  with getBlock_some [of a x ys] inv get
  have p: "p = block_addr a x" and inv': "pool_inv a' ys"
    and a': "a' = a\<lparr>first_idx := free_list a x, pa_size := pa_size a - 1,
                   free_list := (free_list a)(x := DetachedIdx)\<rparr>"
    by auto
  have x: "x \<in> {0..<size_max a'} - set ys" "first_idx a = x"
    using inv Cons a' by (auto simp: pool_inv_def)
  have "block_addr a' x = block_addr a x" by (simp add: block_addr_def a')
  then show ?thesis
    using releaseBlock_live [OF inv' x(1)] p x(2) a'
    by (auto simp: fun_upd_idem)
qed

section \<open>The interface of a pool of blocks\<close>

text \<open>
  \<open>free s bs\<close>: the free blocks of state \<open>s\<close>, in the order they will be handed out;
  \<open>valid s\<close>: the blocks the pool manages. The laws are what every client of a pool relies on.
\<close>

fun get_many :: "('s \<Rightarrow> fault + ('b option \<times> 's)) \<Rightarrow> nat \<Rightarrow> 's \<Rightarrow> fault + ('b option list \<times> 's)" where
  "get_many get 0 s = Inr ([], s)"
| "get_many get (Suc n) s =
     andThen (get s) (\<lambda>(b, s1). andThen (get_many get n s1) (\<lambda>(bs, s2). Inr (b # bs, s2)))"

locale block_pool =
  fixes get :: "'s \<Rightarrow> fault + ('b option \<times> 's)"
    and put :: "'b \<Rightarrow> 's \<Rightarrow> fault + ('r \<times> 's)"
    and released :: 'r
    and twice :: 'r
    and free :: "'s \<Rightarrow> 'b list \<Rightarrow> bool"
    and valid :: "'s \<Rightarrow> 'b set"
  assumes free_valid: "free s bs \<Longrightarrow> distinct bs \<and> set bs \<subseteq> valid s"
    and get_empty: "free s [] \<Longrightarrow> get s = Inr (None, s)"
    and get_next: "free s (b # bs) \<Longrightarrow> \<exists>s'. get s = Inr (Some b, s') \<and> free s' bs \<and> valid s' = valid s"
    and put_live: "free s bs \<Longrightarrow> b \<in> valid s - set bs \<Longrightarrow>
      \<exists>s'. put b s = Inr (released, s') \<and> free s' (b # bs) \<and> valid s' = valid s"
    and put_free: "free s bs \<Longrightarrow> b \<in> set bs \<Longrightarrow> put b s = Inr (twice, s)"
begin

text \<open>Asking \<open>n\<close> times: the free blocks in order, then nothing; never the same block twice.\<close>

lemma get_many_free:
  "free s bs \<Longrightarrow> \<exists>s'. get_many get n s = Inr (map Some (take n bs) @ replicate (n - length bs) None, s') \<and>
     free s' (drop n bs) \<and> valid s' = valid s"
proof (induction n arbitrary: s bs)
  case 0
  then show ?case by simp
next
  case (Suc n)
  show ?case
  proof (cases bs)
    case Nil
    with Suc.prems Suc.IH [of s "[]"] get_empty [of s] show ?thesis by auto
  next
    case (Cons b cs)
    with Suc.prems get_next [of s b cs] obtain s1
      where "get s = Inr (Some b, s1)" "free s1 cs" "valid s1 = valid s" by auto
    with Cons Suc.IH [of s1 cs] show ?thesis by auto
  qed
qed

text \<open>Last in, first out: the block released last is handed out next.\<close>

lemma put_get:
  assumes "free s bs" and "b \<in> valid s - set bs"
  shows "\<exists>s1 s2. put b s = Inr (released, s1) \<and> get s1 = Inr (Some b, s2) \<and> free s2 bs"
  using put_live [OF assms] get_next by blast

text \<open>Releasing a block twice in a row is refused.\<close>

lemma put_put:
  assumes "free s bs" and "b \<in> valid s - set bs"
  shows "\<exists>s1. put b s = Inr (released, s1) \<and> put b s1 = Inr (twice, s1)"
  using put_live [OF assms] put_free [of _ "b # bs" b] by auto

end

definition pool_free :: "pool_allocator \<Rightarrow> int list \<Rightarrow> bool" where
  "pool_free a ps \<longleftrightarrow> (\<exists>xs. pool_inv a xs \<and> ps = map (block_addr a) xs)"

definition pool_blocks :: "pool_allocator \<Rightarrow> int set" where
  "pool_blocks a = block_addr a ` {0..<size_max a}"

lemma block_addr_inj: "0 < item_size a \<Longrightarrow> block_addr a i = block_addr a j \<longleftrightarrow> i = j"
  by (simp add: block_addr_def)

lemma block_idx_addr [simp]: "0 < item_size a \<Longrightarrow> block_idx a (block_addr a i) = i"
  by (simp add: block_idx_def block_addr_def)

interpretation pool: block_pool PoolAllocator_getBlock "\<lambda>p a. PoolAllocator_releaseBlock a p"
  Success DoubleFree pool_free pool_blocks
proof (unfold_locales, goal_cases)
  case (1 a ps)
  then obtain xs where xs: "pool_inv a xs" "ps = map (block_addr a) xs"
    by (auto simp: pool_free_def)
  then have "distinct ps"
    by (simp add: pool_inv_def distinct_map block_addr_inj inj_on_def)
  moreover have "set ps \<subseteq> pool_blocks a"
    using xs by (auto simp: pool_blocks_def pool_inv_def)
  ultimately show ?case by simp
next
  case (2 a)
  then show ?case by (auto simp: pool_free_def getBlock_none)
next
  case (3 a p ps)
  then obtain x xs where xs: "pool_inv a (x # xs)" "p = block_addr a x" "ps = map (block_addr a) xs"
    by (auto simp: pool_free_def)
  have "block_addr (a\<lparr>first_idx := i, pa_size := n, free_list := f\<rparr>) = block_addr a" for i n f
    by (simp add: block_addr_def fun_eq_iff)
  with xs getBlock_some [OF xs(1)] show ?case
    by (force simp: pool_free_def pool_blocks_def)
next
  case (4 a ps p)
  then obtain xs where xs: "pool_inv a xs" "ps = map (block_addr a) xs"
    by (auto simp: pool_free_def)
  from 4(2) obtain i where p: "p = block_addr a i" and "i \<in> {0..<size_max a}"
    unfolding pool_blocks_def by blast
  moreover from 4(2) p xs(2) have "i \<notin> set xs" by auto
  ultimately have i: "p = block_addr a i" "i \<in> {0..<size_max a} - set xs" by auto
  have "block_addr (a\<lparr>free_list := f, first_idx := j, pa_size := n\<rparr>) = block_addr a" for j n f
    by (simp add: block_addr_def fun_eq_iff)
  with xs i releaseBlock_live [OF xs(1) i(2)] show ?case
    by (force simp: pool_free_def pool_blocks_def)
next
  case (5 a ps p)
  then show ?case by (auto simp: pool_free_def releaseBlock_free)
qed

end
