(* ===== verification/KernelState.thy ===== *)
theory KernelState
  imports Constants LinkedList PoolAllocator
begin

text \<open>
  The state of the kernel: the global variables of \<^verbatim>\<open>src/disastrOS.c\<close>, the static pools,
  and the contents of every pool block. A pointer to a kernel structure is a pool and a block
  index; every structure starts with its \<^verbatim>\<open>ListItem\<close>, so the same pointer addresses its links.
  Lists heads are named by the global variable or by the structure they are a member of. A pool
  block keeps its old contents when it is released and handed out again, and starts zeroed.
\<close>

section \<open>Pointers\<close>

text \<open>One pool per structure type.\<close>

datatype kind =
    KPCB | KPCBPtr | KTimerItem | KResource | KDescriptor | KDescriptorPtr
  | KSemaphore | KSemDescriptor | KSemDescriptorPtr
  | KMessageQueue | KQueue | KMessage | KMQDescriptor | KMQDescriptorPtr

datatype ptr = Ptr (kind_of: kind) (idx_of: int)

datatype headref =
    ReadyList | WaitingList | ZombieList | ResourcesList | SemaphoresList
  | MessageQueuesList | TimerList
  | PcbChildren ptr | PcbDescriptors ptr | PcbSemDescriptors ptr | PcbMqDescriptors ptr
  | ResDescriptors ptr | SemDescriptors ptr | SemWaiting ptr
  | MqQueues ptr | MqDescriptors ptr | QueueMessages ptr

text \<open>The structure type of the items each list is meant to hold.\<close>

fun item_kind :: "headref \<Rightarrow> kind" where
  "item_kind ReadyList = KPCB"
| "item_kind WaitingList = KPCB"
| "item_kind ZombieList = KPCB"
| "item_kind ResourcesList = KResource"
| "item_kind SemaphoresList = KSemaphore"
| "item_kind MessageQueuesList = KMessageQueue"
| "item_kind TimerList = KTimerItem"
| "item_kind (PcbChildren _) = KPCBPtr"
| "item_kind (PcbDescriptors _) = KDescriptor"
| "item_kind (PcbSemDescriptors _) = KSemDescriptor"
| "item_kind (PcbMqDescriptors _) = KMQDescriptor"
| "item_kind (ResDescriptors _) = KDescriptorPtr"
| "item_kind (SemDescriptors _) = KSemDescriptorPtr"
| "item_kind (SemWaiting _) = KSemDescriptorPtr"
| "item_kind (MqQueues _) = KQueue"
| "item_kind (MqDescriptors _) = KMQDescriptorPtr"
| "item_kind (QueueMessages _) = KMessage"

section \<open>Structures\<close>

datatype ProcessStatus = Invalid | Created | Running | Ready | Waiting | Suspended | Zombie

text \<open>
  The process control block. Of the saved machine context only what \<^verbatim>\<open>makecontext\<close>
  installs is kept: the function the process starts in, and its argument.
\<close>

record PCB =
  pcb_pid :: int
  pcb_return_value :: int
  pcb_status :: ProcessStatus
  pcb_signals :: int
  pcb_signals_mask :: int
  pcb_parent :: "ptr option"
  pcb_cpu_entry :: "(int \<times> int) option"
  pcb_timer :: "ptr option"
  pcb_last_fd :: int
  pcb_last_sem_fd :: int
  pcb_last_mq_fd :: int
  pcb_syscall_num :: int
  pcb_syscall_args :: "nat \<Rightarrow> int"
  pcb_syscall_retvalue :: int

record TimerItem =
  timer_awakening_time :: int
  timer_pcb :: "ptr option"

record Resource =
  res_id :: int
  res_type :: int

text \<open>
  \<^verbatim>\<open>Descriptor\<close>, \<^verbatim>\<open>SemDescriptor\<close> and \<^verbatim>\<open>MQDescriptor\<close> have the same
  members, up to the type of the object they describe; so have the three \<^verbatim>\<open>DescriptorPtr\<close>
  structures, whose only datum is the descriptor.
\<close>

record Descriptor =
  desc_pcb :: "ptr option"
  desc_object :: "ptr option"
  desc_fd :: int
  desc_ptr :: "ptr option"

record Semaphore =
  sem_id :: int
  sem_count :: int

record MessageQueue =
  mq_id :: int
  mq_priority :: int
  mq_num_messages :: int

record Message =
  msg_text_length :: int
  msg_text :: int

section \<open>The kernel\<close>

record kernel = "(ptr, headref) lstore" +
  pools :: "kind \<Rightarrow> pool_allocator"
  pcbs :: "ptr \<Rightarrow> PCB"
  pcb_ptrs :: "ptr \<Rightarrow> ptr option"
  timers :: "ptr \<Rightarrow> TimerItem"
  resources :: "ptr \<Rightarrow> Resource"
  descs :: "ptr \<Rightarrow> Descriptor"
  desc_ptrs :: "ptr \<Rightarrow> ptr option"
  sems :: "ptr \<Rightarrow> Semaphore"
  mqs :: "ptr \<Rightarrow> MessageQueue"
  queue_priority :: "ptr \<Rightarrow> int"
  msgs :: "ptr \<Rightarrow> Message"
  init_pcb :: "ptr option"
  running :: "ptr option"
  last_pid :: int
  disastrOS_time :: int
  shutdown_now :: int
  umem :: "int \<Rightarrow> int"

text \<open>\<open>umem\<close> is the memory of the processes, reached through the pointers they pass.\<close>

definition deref :: "kind \<Rightarrow> ptr option \<Rightarrow> fault + ptr" where
  "deref k p = (case p of None \<Rightarrow> Inl NullDeref | Some q \<Rightarrow> if kind_of q = k then Inr q else Inl BadCast)"

lemma deref_simps [simp]:
  "deref k None = Inl NullDeref"
  "kind_of q = k \<Longrightarrow> deref k (Some q) = Inr q"
  "kind_of q \<noteq> k \<Longrightarrow> deref k (Some q) = Inl BadCast"
  by (simp_all add: deref_def)

lemma deref_Inr: "deref k p = Inr q \<longleftrightarrow> p = Some q \<and> kind_of q = k"
  by (auto simp: deref_def split: option.splits)

text \<open>Assignments to a member of one structure.\<close>

definition upd_pcb :: "ptr \<Rightarrow> (PCB \<Rightarrow> PCB) \<Rightarrow> kernel \<Rightarrow> kernel" where
  "upd_pcb p f s = s\<lparr>pcbs := (pcbs s)(p := f (pcbs s p))\<rparr>"

definition upd_timer :: "ptr \<Rightarrow> (TimerItem \<Rightarrow> TimerItem) \<Rightarrow> kernel \<Rightarrow> kernel" where
  "upd_timer p f s = s\<lparr>timers := (timers s)(p := f (timers s p))\<rparr>"

definition upd_res :: "ptr \<Rightarrow> (Resource \<Rightarrow> Resource) \<Rightarrow> kernel \<Rightarrow> kernel" where
  "upd_res p f s = s\<lparr>resources := (resources s)(p := f (resources s p))\<rparr>"

definition upd_desc :: "ptr \<Rightarrow> (Descriptor \<Rightarrow> Descriptor) \<Rightarrow> kernel \<Rightarrow> kernel" where
  "upd_desc p f s = s\<lparr>descs := (descs s)(p := f (descs s p))\<rparr>"

definition upd_sem :: "ptr \<Rightarrow> (Semaphore \<Rightarrow> Semaphore) \<Rightarrow> kernel \<Rightarrow> kernel" where
  "upd_sem p f s = s\<lparr>sems := (sems s)(p := f (sems s p))\<rparr>"

definition upd_mq :: "ptr \<Rightarrow> (MessageQueue \<Rightarrow> MessageQueue) \<Rightarrow> kernel \<Rightarrow> kernel" where
  "upd_mq p f s = s\<lparr>mqs := (mqs s)(p := f (mqs s p))\<rparr>"

definition upd_msg :: "ptr \<Rightarrow> (Message \<Rightarrow> Message) \<Rightarrow> kernel \<Rightarrow> kernel" where
  "upd_msg p f s = s\<lparr>msgs := (msgs s)(p := f (msgs s p))\<rparr>"

text \<open>\<open>item->list.prev = 0; item->list.next = 0\<close>, the first thing every constructor does.\<close>

definition clear_links :: "ptr \<Rightarrow> kernel \<Rightarrow> kernel" where
  "clear_links p s = set_next p None (set_prev p None s)"

text \<open>The system call of the running process: its arguments, and the value it will get back.\<close>

definition syscall_arg :: "ptr \<Rightarrow> nat \<Rightarrow> kernel \<Rightarrow> int" where
  "syscall_arg r i s = pcb_syscall_args (pcbs s r) i"

definition int_arg :: "ptr \<Rightarrow> nat \<Rightarrow> kernel \<Rightarrow> int" where
  "int_arg r i s = to_int32 (syscall_arg r i s)"

definition set_retvalue :: "ptr \<Rightarrow> int \<Rightarrow> kernel \<Rightarrow> kernel" where
  "set_retvalue r v s = upd_pcb r (\<lambda>p. p\<lparr>pcb_syscall_retvalue := v\<rparr>) s"

definition retvalue :: "ptr \<Rightarrow> kernel \<Rightarrow> int" where
  "retvalue r s = pcb_syscall_retvalue (pcbs s r)"

lemmas upd_defs = upd_pcb_def upd_timer_def upd_res_def upd_desc_def upd_sem_def upd_mq_def upd_msg_def
  set_retvalue_def

section \<open>Blocks of the pools\<close>

definition addr_of :: "kernel \<Rightarrow> ptr \<Rightarrow> int" where
  "addr_of s p = block_addr (pools s (kind_of p)) (idx_of p)"

definition alloc_block :: "kind \<Rightarrow> kernel \<Rightarrow> fault + (ptr option \<times> kernel)" where
  "alloc_block k s =
     andThen (PoolAllocator_getBlock (pools s k)) (\<lambda>(b, a).
       Inr (map_option (\<lambda>addr. Ptr k (block_idx a addr)) b, s\<lparr>pools := (pools s)(k := a)\<rparr>))"

definition free_block :: "kind \<Rightarrow> ptr \<Rightarrow> kernel \<Rightarrow> fault + (PoolAllocatorResult \<times> kernel)" where
  "free_block k p s =
     andThen (PoolAllocator_releaseBlock (pools s k) (addr_of s p)) (\<lambda>(r, a).
       Inr (r, s\<lparr>pools := (pools s)(k := a)\<rparr>))"

text \<open>The pools of the kernel are pools of pointers.\<close>

definition kernel_free :: "kind \<Rightarrow> kernel \<Rightarrow> ptr list \<Rightarrow> bool" where
  "kernel_free k s bs \<longleftrightarrow> (\<exists>xs. pool_inv (pools s k) xs \<and> bs = map (Ptr k) xs)"

definition kernel_blocks :: "kind \<Rightarrow> kernel \<Rightarrow> ptr set" where
  "kernel_blocks k s = Ptr k ` {0..<size_max (pools s k)}"

lemma alloc_block_empty:
  assumes "pool_inv (pools s k) []"
  shows "alloc_block k s = Inr (None, s)"
  by (cases s) (use getBlock_none [OF assms] in \<open>simp add: alloc_block_def\<close>)

lemma alloc_block_next:
  assumes "pool_inv (pools s k) (x # xs)"
  shows "\<exists>a. alloc_block k s = Inr (Some (Ptr k x), s\<lparr>pools := (pools s)(k := a)\<rparr>) \<and> pool_inv a xs \<and>
    size_max a = size_max (pools s k)"
proof -
  obtain a where "PoolAllocator_getBlock (pools s k) = Inr (Some (block_addr (pools s k) x), a)"
    and a: "pool_inv a xs" "a = (pools s k)\<lparr>first_idx := free_list (pools s k) x,
      pa_size := pa_size (pools s k) - 1, free_list := (free_list (pools s k))(x := DetachedIdx)\<rparr>"
    using getBlock_some [OF assms] by blast
  moreover have "block_idx a (block_addr (pools s k) x) = x"
    using assms by (simp add: a(2) block_idx_def block_addr_def pool_inv_def)
  ultimately show ?thesis by (auto simp: alloc_block_def)
qed

lemma free_block_live:
  assumes "pool_inv (pools s k) xs" and "i \<in> {0..<size_max (pools s k)} - set xs"
  shows "\<exists>a. free_block k (Ptr k i) s = Inr (Success, s\<lparr>pools := (pools s)(k := a)\<rparr>) \<and>
    pool_inv a (i # xs) \<and> size_max a = size_max (pools s k)"
  using releaseBlock_live [OF assms] by (auto simp: free_block_def addr_of_def)

lemma free_block_free:
  assumes "pool_inv (pools s k) xs" and "i \<in> set xs"
  shows "free_block k (Ptr k i) s = Inr (DoubleFree, s)"
  by (cases s) (use releaseBlock_free [OF assms] in \<open>simp add: free_block_def addr_of_def\<close>)

interpretation kblk: block_pool "alloc_block k" "free_block k" Success DoubleFree
  "kernel_free k" "kernel_blocks k" for k
proof (unfold_locales, goal_cases)
  case (1 s bs)
  then obtain xs where xs: "pool_inv (pools s k) xs" "bs = map (Ptr k) xs"
    by (auto simp: kernel_free_def)
  then have "distinct bs" by (simp add: pool_inv_def distinct_map inj_on_def)
  moreover have "set bs \<subseteq> kernel_blocks k s"
    using xs by (auto simp: kernel_blocks_def pool_inv_def)
  ultimately show ?case by simp
next
  case (2 s)
  then show ?case by (auto simp: kernel_free_def alloc_block_empty)
next
  case (3 s b bs)
  then obtain x xs where xs: "pool_inv (pools s k) (x # xs)" "b = Ptr k x" "bs = map (Ptr k) xs"
    by (auto simp: kernel_free_def)
  with alloc_block_next [OF xs(1)] show ?case
    by (force simp: kernel_free_def kernel_blocks_def)
next
  case (4 s bs b)
  then obtain xs where xs: "pool_inv (pools s k) xs" "bs = map (Ptr k) xs"
    by (auto simp: kernel_free_def)
  with 4(2) obtain i where i: "b = Ptr k i" "i \<in> {0..<size_max (pools s k)} - set xs"
    by (auto simp: kernel_blocks_def image_iff)
  with xs free_block_live [OF xs(1) i(2)] show ?case
    by (force simp: kernel_free_def kernel_blocks_def)
next
  case (5 s bs b)
  then show ?case by (auto simp: kernel_free_def free_block_free)
qed

section \<open>Well-formed kernel states\<close>

text \<open>
  \<open>kernel_wf s L F\<close>: the heads of \<open>s\<close> represent the lists \<open>L\<close>, the pools have the
  free blocks \<open>F\<close>, and every list holds blocks of its own kind that are in use.
\<close>

definition live :: "kernel \<Rightarrow> (kind \<Rightarrow> int list) \<Rightarrow> ptr \<Rightarrow> bool" where
  "live s F p \<longleftrightarrow> idx_of p \<in> {0..<size_max (pools s (kind_of p))} - set (F (kind_of p))"

definition kernel_wf :: "kernel \<Rightarrow> (headref \<Rightarrow> ptr list) \<Rightarrow> (kind \<Rightarrow> int list) \<Rightarrow> bool" where
  "kernel_wf s L F \<longleftrightarrow>
     represents s L \<and> (\<forall>k. pool_inv (pools s k) (F k)) \<and>
     (\<forall>h. \<forall>p\<in>set (L h). kind_of p = item_kind h \<and> live s F p)"

lemma kernel_wf_represents: "kernel_wf s L F \<Longrightarrow> represents s L"
  and kernel_wf_pool: "kernel_wf s L F \<Longrightarrow> pool_inv (pools s k) (F k)"
  and kernel_wf_kind: "kernel_wf s L F \<Longrightarrow> p \<in> set (L h) \<Longrightarrow> kind_of p = item_kind h"
  and kernel_wf_live: "kernel_wf s L F \<Longrightarrow> p \<in> set (L h) \<Longrightarrow> live s F p"
  by (simp_all add: kernel_wf_def)

lemma wf_list_first: "kernel_wf s L F \<Longrightarrow> list_first h s = first_of (L h) None"
  and wf_list_last: "kernel_wf s L F \<Longrightarrow> list_last h s = last_of (L h) None"
  and wf_list_size: "kernel_wf s L F \<Longrightarrow> list_size h s = int (length (L h))"
  by (simp_all add: ls.first_rep [OF kernel_wf_represents] ls.last_rep [OF kernel_wf_represents]
      list_size_represents [OF kernel_wf_represents])

lemma kernel_wf_cong:
  "links s' = links s \<Longrightarrow> heads s' = heads s \<Longrightarrow> pools s' = pools s \<Longrightarrow> kernel_wf s' L F = kernel_wf s L F"
  by (simp add: kernel_wf_def represents_def live_def)

lemma live_cong: "pools s' = pools s \<Longrightarrow> live s' F p = live s F p"
  by (simp add: live_def)

text \<open>Writing to the contents of structures and to scalar globals keeps the lists and the pools.\<close>

lemma kernel_wf_simps [simp]:
  "kernel_wf (s\<lparr>pcbs := a\<rparr>) L F = kernel_wf s L F"
  "kernel_wf (s\<lparr>pcb_ptrs := b\<rparr>) L F = kernel_wf s L F"
  "kernel_wf (s\<lparr>timers := c\<rparr>) L F = kernel_wf s L F"
  "kernel_wf (s\<lparr>resources := d\<rparr>) L F = kernel_wf s L F"
  "kernel_wf (s\<lparr>descs := e\<rparr>) L F = kernel_wf s L F"
  "kernel_wf (s\<lparr>desc_ptrs := f\<rparr>) L F = kernel_wf s L F"
  "kernel_wf (s\<lparr>sems := g\<rparr>) L F = kernel_wf s L F"
  "kernel_wf (s\<lparr>mqs := h\<rparr>) L F = kernel_wf s L F"
  "kernel_wf (s\<lparr>queue_priority := i\<rparr>) L F = kernel_wf s L F"
  "kernel_wf (s\<lparr>msgs := j\<rparr>) L F = kernel_wf s L F"
  "kernel_wf (s\<lparr>init_pcb := k\<rparr>) L F = kernel_wf s L F"
  "kernel_wf (s\<lparr>running := k\<rparr>) L F = kernel_wf s L F"
  "kernel_wf (s\<lparr>last_pid := l\<rparr>) L F = kernel_wf s L F"
  "kernel_wf (s\<lparr>disastrOS_time := l\<rparr>) L F = kernel_wf s L F"
  "kernel_wf (s\<lparr>shutdown_now := l\<rparr>) L F = kernel_wf s L F"
  "kernel_wf (s\<lparr>umem := m\<rparr>) L F = kernel_wf s L F"
  by (rule kernel_wf_cong; simp)+

lemma live_simps [simp]:
  "live (s\<lparr>pcbs := a\<rparr>) F p = live s F p"
  "live (s\<lparr>pcb_ptrs := b\<rparr>) F p = live s F p"
  "live (s\<lparr>timers := c\<rparr>) F p = live s F p"
  "live (s\<lparr>resources := d\<rparr>) F p = live s F p"
  "live (s\<lparr>descs := e\<rparr>) F p = live s F p"
  "live (s\<lparr>desc_ptrs := f\<rparr>) F p = live s F p"
  "live (s\<lparr>sems := g\<rparr>) F p = live s F p"
  "live (s\<lparr>mqs := h\<rparr>) F p = live s F p"
  "live (s\<lparr>queue_priority := i\<rparr>) F p = live s F p"
  "live (s\<lparr>msgs := j\<rparr>) F p = live s F p"
  "live (s\<lparr>init_pcb := k\<rparr>) F p = live s F p"
  "live (s\<lparr>running := k\<rparr>) F p = live s F p"
  "live (s\<lparr>last_pid := l\<rparr>) F p = live s F p"
  "live (s\<lparr>umem := m\<rparr>) F p = live s F p"
  "live (s\<lparr>disastrOS_time := l\<rparr>) F p = live s F p"
  "live (s\<lparr>shutdown_now := l\<rparr>) F p = live s F p"
  by (rule live_cong; simp)+

text \<open>A list operation leaves everything else as it is.\<close>

lemma lists_only_fields:
  assumes "lists_only s s'"
  shows "pools s' = pools s" "pcbs s' = pcbs s" "pcb_ptrs s' = pcb_ptrs s" "timers s' = timers s"
    "resources s' = resources s" "descs s' = descs s" "desc_ptrs s' = desc_ptrs s"
    "sems s' = sems s" "mqs s' = mqs s" "queue_priority s' = queue_priority s" "msgs s' = msgs s"
    "init_pcb s' = init_pcb s" "running s' = running s" "last_pid s' = last_pid s"
    "disastrOS_time s' = disastrOS_time s" "shutdown_now s' = shutdown_now s" "umem s' = umem s"
proof -
  let ?s = "s\<lparr>links := links s', heads := heads s'\<rparr>"
  have e: "s' = ?s" using assms by (simp add: lists_only_def)
  show "pools s' = pools s" "pcbs s' = pcbs s" "pcb_ptrs s' = pcb_ptrs s" "timers s' = timers s"
    "resources s' = resources s" "descs s' = descs s" "desc_ptrs s' = desc_ptrs s"
    "sems s' = sems s" "mqs s' = mqs s" "queue_priority s' = queue_priority s" "msgs s' = msgs s"
    "init_pcb s' = init_pcb s" "running s' = running s" "last_pid s' = last_pid s"
    "disastrOS_time s' = disastrOS_time s" "shutdown_now s' = shutdown_now s" "umem s' = umem s"
    by (subst e, simp)+
qed

text \<open>
  \<open>kernel_frame s s'\<close>: the two states agree on everything but lists and pools. An operation is
  specified by the lists and free blocks of its result (\<open>kernel_wf s' L' F'\<close>) and by the
  contents it writes (\<open>kernel_frame (s with these contents) s'\<close>), which leaves nothing open.
\<close>

definition kernel_frame :: "kernel \<Rightarrow> kernel \<Rightarrow> bool" where
  "kernel_frame s s' \<longleftrightarrow>
     pcbs s' = pcbs s \<and> pcb_ptrs s' = pcb_ptrs s \<and> timers s' = timers s \<and>
     resources s' = resources s \<and> descs s' = descs s \<and> desc_ptrs s' = desc_ptrs s \<and>
     sems s' = sems s \<and> mqs s' = mqs s \<and> queue_priority s' = queue_priority s \<and> msgs s' = msgs s \<and>
     init_pcb s' = init_pcb s \<and> running s' = running s \<and> last_pid s' = last_pid s \<and>
     disastrOS_time s' = disastrOS_time s \<and> shutdown_now s' = shutdown_now s \<and> umem s' = umem s"

lemma kernel_frame_refl [simp]: "kernel_frame s s"
  by (simp add: kernel_frame_def)

lemma kernel_frame_trans: "kernel_frame s s' \<Longrightarrow> kernel_frame s' s'' \<Longrightarrow> kernel_frame s s''"
  by (simp add: kernel_frame_def)

lemma lists_only_frame: "lists_only s s' \<Longrightarrow> kernel_frame s s'"
  by (simp add: kernel_frame_def lists_only_fields)

lemma kernel_wf_change:
  assumes wf: "kernel_wf s L F" and rep: "represents s' L'" and "lists_only s s'"
    and new: "\<And>h p. p \<in> set (L' h) \<Longrightarrow> p \<notin> set (L h) \<Longrightarrow> kind_of p = item_kind h \<and> live s F p"
  shows "kernel_wf s' L' F"
  using assms lists_only_fields(1) [OF assms(3)] new
  unfolding kernel_wf_def live_def by metis

lemma unlinked_simps [simp]:
  "unlinked (s\<lparr>pcbs := a\<rparr>) p = unlinked s p"
  "unlinked (s\<lparr>pcb_ptrs := b\<rparr>) p = unlinked s p"
  "unlinked (s\<lparr>timers := c\<rparr>) p = unlinked s p"
  "unlinked (s\<lparr>resources := d\<rparr>) p = unlinked s p"
  "unlinked (s\<lparr>descs := e\<rparr>) p = unlinked s p"
  "unlinked (s\<lparr>desc_ptrs := f\<rparr>) p = unlinked s p"
  "unlinked (s\<lparr>sems := g\<rparr>) p = unlinked s p"
  "unlinked (s\<lparr>mqs := h\<rparr>) p = unlinked s p"
  "unlinked (s\<lparr>queue_priority := i\<rparr>) p = unlinked s p"
  "unlinked (s\<lparr>msgs := j\<rparr>) p = unlinked s p"
  "unlinked (s\<lparr>init_pcb := k\<rparr>) p = unlinked s p"
  "unlinked (s\<lparr>running := k\<rparr>) p = unlinked s p"
  "unlinked (s\<lparr>last_pid := l\<rparr>) p = unlinked s p"
  "unlinked (s\<lparr>umem := m\<rparr>) p = unlinked s p"
  "unlinked (s\<lparr>disastrOS_time := l\<rparr>) p = unlinked s p"
  "unlinked (s\<lparr>shutdown_now := l\<rparr>) p = unlinked s p"
  "unlinked (s\<lparr>pools := P\<rparr>) p = unlinked s p"
  by (simp_all add: unlinked_def)

subsection \<open>List operations on well-formed states\<close>

lemma wf_insert:
  assumes wf: "kernel_wf s L F" and L: "L h = ys @ zs" and x: "\<not> listed L x" "unlinked s x"
    and k: "kind_of x = item_kind h" "live s F x"
  shows "\<exists>s'. List_insert h (last_of ys None) (Some x) s = Inr (Some x, s') \<and>
    kernel_wf s' (L(h := ys @ x # zs)) F \<and> lists_only s s' \<and>
    (\<forall>p. \<not> listed L p \<longrightarrow> p \<noteq> x \<longrightarrow> unlinked s' p = unlinked s p)"
proof -
  obtain s' where *: "List_insert h (last_of ys None) (Some x) s = Inr (Some x, s')"
    "represents s' (L(h := ys @ x # zs))" "lists_only s s'"
    "\<forall>p. \<not> listed L p \<longrightarrow> p \<noteq> x \<longrightarrow> unlinked s' p = unlinked s p"
    using ls.ins_rep [OF kernel_wf_represents [OF wf] L x] by blast
  have "kernel_wf s' (L(h := ys @ x # zs)) F"
    by (rule kernel_wf_change [OF wf *(2,3)]) (use L k in \<open>auto split: if_splits\<close>)
  with * show ?thesis by blast
qed

lemma wf_enqueue:
  assumes "kernel_wf s L F" and "\<not> listed L x" "unlinked s x"
    and "kind_of x = item_kind h" "live s F x"
  shows "\<exists>s'. List_insert h (list_last h s) (Some x) s = Inr (Some x, s') \<and>
    kernel_wf s' (L(h := L h @ [x])) F \<and> lists_only s s' \<and>
    (\<forall>p. \<not> listed L p \<longrightarrow> p \<noteq> x \<longrightarrow> unlinked s' p = unlinked s p)"
  using wf_insert [of s L F h "L h" "[]" x] assms by (simp add: wf_list_last)

lemma wf_remove:
  assumes wf: "kernel_wf s L F" and x: "x \<in> set (L h)"
  shows "\<exists>s'. List_detach h (Some x) s = Inr (Some x, s') \<and>
    kernel_wf s' (L(h := remove1 x (L h))) F \<and> lists_only s s' \<and> unlinked s' x \<and>
    \<not> listed (L(h := remove1 x (L h))) x \<and> kind_of x = item_kind h \<and> live s' F x \<and>
    (\<forall>p. \<not> listed L p \<longrightarrow> unlinked s' p = unlinked s p)"
proof -
  obtain s' where *: "List_detach h (Some x) s = Inr (Some x, s')"
    "represents s' (L(h := remove1 x (L h)))" "lists_only s s'" "unlinked s' x"
    "\<forall>p. \<not> listed L p \<longrightarrow> unlinked s' p = unlinked s p"
    using ls.remove_member [OF kernel_wf_represents [OF wf] x] by blast
  moreover have "kernel_wf s' (L(h := remove1 x (L h))) F"
    by (rule kernel_wf_change [OF wf *(2,3)]) (auto dest: notin_set_remove1 split: if_splits)
  moreover have "\<not> listed (L(h := remove1 x (L h))) x"
    by (rule ls.not_listed_removed [OF kernel_wf_represents [OF wf] x])
  moreover have "live s' F x"
    using kernel_wf_live [OF wf x] by (simp add: live_def lists_only_fields [OF *(3)])
  ultimately show ?thesis using kernel_wf_kind [OF wf x] by blast
qed

lemma wf_dequeue:
  assumes wf: "kernel_wf s L F" and L: "L h = x # xs"
  shows "\<exists>s'. List_detach h (list_first h s) s = Inr (Some x, s') \<and>
    kernel_wf s' (L(h := xs)) F \<and> lists_only s s' \<and> unlinked s' x \<and>
    \<not> listed (L(h := xs)) x \<and> kind_of x = item_kind h \<and> live s' F x \<and>
    (\<forall>p. \<not> listed L p \<longrightarrow> unlinked s' p = unlinked s p)"
  using wf_remove [OF wf, of x h] L by (simp add: wf_list_first [OF wf])

text \<open>Detaching from an empty list dereferences the null item.\<close>

lemma wf_dequeue_empty:
  assumes "kernel_wf s L F" and "L h = []"
  shows "List_detach h (list_first h s) s = Inl NullDeref"
  using assms by (simp add: wf_list_first List_detach_def)

lemma wf_init_list:
  assumes wf: "kernel_wf s L F"
  shows "kernel_wf (List_init h s) (L(h := [])) F"
  by (rule kernel_wf_change [OF wf List_init_represents(1,2) [OF kernel_wf_represents [OF wf]]])
    (auto split: if_splits)

lemma wf_scan:
  assumes "kernel_wf s L F" and "\<And>x. x \<in> set (L h) \<Longrightarrow> found x = Inr (P x)"
  shows "List_scan found h s = Inr (List.find P (L h))"
  using List_scan_dlist [OF represents_dlist [OF kernel_wf_represents [OF assms(1)]] assms(2)] .

subsection \<open>Blocks on well-formed states\<close>

lemma represents_clear_links:
  assumes "represents s L" and "\<not> listed L p"
  shows "represents (clear_links p s) L"
proof -
  have "dlist (links (clear_links p s)) (heads s h) (L h) = dlist (links s) (heads s h) (L h)" for h
    by (rule dlist_cong) (use assms(2) in \<open>auto simp: clear_links_def set_defs listed_def\<close>)
  with assms(1) show ?thesis
    by (simp add: represents_def) (simp add: clear_links_def set_defs)
qed

lemma clear_links_unlinked [simp]: "unlinked (clear_links p s) p"
  by (simp add: clear_links_def set_defs unlinked_def no_links_def)

lemma lists_only_clear_links: "lists_only s (clear_links p s)"
  by (simp add: clear_links_def set_defs lists_only_def)

lemma wf_clear_links:
  assumes "kernel_wf s L F" and "\<not> listed L p"
  shows "kernel_wf (clear_links p s) L F"
  by (rule kernel_wf_change [OF assms(1)
      represents_clear_links [OF kernel_wf_represents [OF assms(1)] assms(2)] lists_only_clear_links])
    simp

lemma wf_pool_update:
  assumes wf: "kernel_wf s L F" and "pool_inv a xs" and "size_max a = size_max (pools s k)"
    and listed: "\<And>h p. p \<in> set (L h) \<Longrightarrow> kind_of p = k \<Longrightarrow> idx_of p \<notin> set xs"
  shows "kernel_wf (s\<lparr>pools := (pools s)(k := a)\<rparr>) L (F(k := xs))"
proof -
  have "live (s\<lparr>pools := (pools s)(k := a)\<rparr>) (F(k := xs)) p" if "p \<in> set (L h)" for p h
    using kernel_wf_live [OF wf that] listed [OF that] assms(3) by (auto simp: live_def)
  with assms(1,2) show ?thesis
    by (simp add: kernel_wf_def represents_def)
qed

lemma wf_alloc:
  assumes wf: "kernel_wf s L F" and F: "F k = x # xs"
  shows "\<exists>P. alloc_block k s = Inr (Some (Ptr k x), s\<lparr>pools := P\<rparr>) \<and>
    kernel_wf (s\<lparr>pools := P\<rparr>) L (F(k := xs)) \<and> \<not> listed L (Ptr k x) \<and>
    live (s\<lparr>pools := P\<rparr>) (F(k := xs)) (Ptr k x) \<and>
    (\<forall>p. live s F p \<longrightarrow> p \<noteq> Ptr k x \<and> live (s\<lparr>pools := P\<rparr>) (F(k := xs)) p)"
proof -
  have inv: "pool_inv (pools s k) (x # xs)"
    using kernel_wf_pool [OF wf, of k] F by simp
  then obtain a where a: "alloc_block k s = Inr (Some (Ptr k x), s\<lparr>pools := (pools s)(k := a)\<rparr>)"
    "pool_inv a xs" "size_max a = size_max (pools s k)"
    using alloc_block_next by blast
  have x: "x \<notin> set xs" "x \<in> {0..<size_max (pools s k)}"
    using inv by (auto simp: pool_inv_def)
  have "kernel_wf (s\<lparr>pools := (pools s)(k := a)\<rparr>) L (F(k := xs))"
    by (rule wf_pool_update [OF wf a(2,3)]) (use kernel_wf_live [OF wf] F in \<open>fastforce simp: live_def\<close>)
  moreover have "\<not> listed L (Ptr k x)"
    using kernel_wf_live [OF wf] F by (fastforce simp: listed_def live_def)
  moreover have "p \<noteq> Ptr k x \<and> live (s\<lparr>pools := (pools s)(k := a)\<rparr>) (F(k := xs)) p"
    if "live s F p" for p
    using that F a(3) by (cases p) (auto simp: live_def)
  moreover have "live (s\<lparr>pools := (pools s)(k := a)\<rparr>) (F(k := xs)) (Ptr k x)"
    using x a(3) by (simp add: live_def)
  ultimately show ?thesis
    using a(1) by blast
qed

lemma wf_alloc_empty:
  assumes "kernel_wf s L F" and "F k = []"
  shows "alloc_block k s = Inr (None, s)"
  using alloc_block_empty kernel_wf_pool [OF assms(1), of k] assms(2) by simp

lemma wf_free:
  assumes wf: "kernel_wf s L F" and p: "live s F p" "\<not> listed L p" and k: "kind_of p = k"
  shows "\<exists>P. free_block k p s = Inr (Success, s\<lparr>pools := P\<rparr>) \<and>
    kernel_wf (s\<lparr>pools := P\<rparr>) L (F(k := idx_of p # F k)) \<and>
    (\<forall>q. live s F q \<longrightarrow> q \<noteq> p \<longrightarrow> live (s\<lparr>pools := P\<rparr>) (F(k := idx_of p # F k)) q)"
proof -
  have eq: "p = Ptr k (idx_of p)" using k by (cases p) simp
  obtain a where a: "free_block k p s = Inr (Success, s\<lparr>pools := (pools s)(k := a)\<rparr>)"
    "pool_inv a (idx_of p # F k)" "size_max a = size_max (pools s k)"
    using free_block_live [OF kernel_wf_pool [OF wf, of k], of "idx_of p"] p(1) k eq
    by (auto simp: live_def)
  have "kernel_wf (s\<lparr>pools := (pools s)(k := a)\<rparr>) L (F(k := idx_of p # F k))"
    by (rule wf_pool_update [OF wf a(2,3)])
      (use kernel_wf_live [OF wf] p(2) eq in \<open>auto simp: live_def listed_def, metis ptr.collapse\<close>)
  moreover have "live (s\<lparr>pools := (pools s)(k := a)\<rparr>) (F(k := idx_of p # F k)) q"
    if "live s F q" "q \<noteq> p" for q
    using that eq a(3) by (cases q) (auto simp: live_def)
  ultimately show ?thesis using a(1) by blast
qed

text \<open>A new structure: a block with its links cleared, not in any list.\<close>

definition fresh_block :: "kernel \<Rightarrow> (headref \<Rightarrow> ptr list) \<Rightarrow> (kind \<Rightarrow> int list) \<Rightarrow> ptr \<Rightarrow> bool" where
  "fresh_block s L F p \<longleftrightarrow> \<not> listed L p \<and> unlinked s p \<and> live s F p"

lemma wf_new:
  assumes wf: "kernel_wf s L F" and F: "F k = x # xs"
  shows "\<exists>s1. alloc_block k s = Inr (Some (Ptr k x), s1) \<and>
    kernel_wf (clear_links (Ptr k x) s1) L (F(k := xs)) \<and>
    fresh_block (clear_links (Ptr k x) s1) L (F(k := xs)) (Ptr k x) \<and>
    kernel_frame s (clear_links (Ptr k x) s1) \<and>
    (\<forall>p. live s F p \<longrightarrow> p \<noteq> Ptr k x \<and> live (clear_links (Ptr k x) s1) (F(k := xs)) p) \<and>
    (\<forall>p. p \<noteq> Ptr k x \<longrightarrow> unlinked (clear_links (Ptr k x) s1) p = unlinked s p)"
proof -
  obtain P where P: "alloc_block k s = Inr (Some (Ptr k x), s\<lparr>pools := P\<rparr>)"
    "kernel_wf (s\<lparr>pools := P\<rparr>) L (F(k := xs))" "\<not> listed L (Ptr k x)"
    "live (s\<lparr>pools := P\<rparr>) (F(k := xs)) (Ptr k x)"
    "\<forall>p. live s F p \<longrightarrow> p \<noteq> Ptr k x \<and> live (s\<lparr>pools := P\<rparr>) (F(k := xs)) p"
    using wf_alloc [OF wf F] by blast
  let ?s = "clear_links (Ptr k x) (s\<lparr>pools := P\<rparr>)"
  have "kernel_frame (s\<lparr>pools := P\<rparr>) ?s" and pools: "pools ?s = P"
    using lists_only_frame [OF lists_only_clear_links] lists_only_fields(1) [OF lists_only_clear_links]
    by simp_all
  then have "kernel_frame s ?s" by (simp add: kernel_frame_def)
  moreover have "live ?s (F(k := xs)) p = live (s\<lparr>pools := P\<rparr>) (F(k := xs)) p" for p
    by (rule live_cong) (simp add: pools)
  moreover have "unlinked ?s p = unlinked s p" if "p \<noteq> Ptr k x" for p
    using that by (simp add: unlinked_def clear_links_def set_defs)
  ultimately show ?thesis
    using P wf_clear_links [OF P(2,3)] by (auto simp: fresh_block_def)
qed

lemma wf_enqueue_fresh:
  assumes "kernel_wf s L F" and "fresh_block s L F x" and "kind_of x = item_kind h"
  shows "\<exists>s'. List_insert h (list_last h s) (Some x) s = Inr (Some x, s') \<and>
    kernel_wf s' (L(h := L h @ [x])) F \<and> lists_only s s' \<and>
    (\<forall>p. \<not> listed L p \<longrightarrow> p \<noteq> x \<longrightarrow> unlinked s' p = unlinked s p)"
  using wf_enqueue assms by (simp add: fresh_block_def)

text \<open>What stays fresh when another structure is made, or another item is linked.\<close>

lemma fresh_block_other:
  assumes "fresh_block s L F p"
    and "\<And>q. q \<noteq> n \<Longrightarrow> unlinked s' q = unlinked s q"
    and "\<And>q. live s F q \<Longrightarrow> q \<noteq> n \<and> live s' F' q"
  shows "fresh_block s' L F' p"
  using assms unfolding fresh_block_def by metis

lemma fresh_block_linked:
  assumes p: "fresh_block s L F p" and "p \<noteq> x" and "lists_only s s'"
    and "\<And>q. \<not> listed L q \<Longrightarrow> q \<noteq> x \<Longrightarrow> unlinked s' q = unlinked s q"
  shows "fresh_block s' (L(h := L h @ [x])) F p"
proof -
  have "live s' F p = live s F p"
    by (rule live_cong) (rule lists_only_fields(1) [OF assms(3)])
  with assms show ?thesis
    by (auto simp: fresh_block_def listed_def)
qed

lemma fresh_block_simps [simp]:
  "fresh_block (s\<lparr>pcbs := a\<rparr>) L F p = fresh_block s L F p"
  "fresh_block (s\<lparr>pcb_ptrs := b\<rparr>) L F p = fresh_block s L F p"
  "fresh_block (s\<lparr>timers := c\<rparr>) L F p = fresh_block s L F p"
  "fresh_block (s\<lparr>resources := d\<rparr>) L F p = fresh_block s L F p"
  "fresh_block (s\<lparr>descs := e\<rparr>) L F p = fresh_block s L F p"
  "fresh_block (s\<lparr>desc_ptrs := f\<rparr>) L F p = fresh_block s L F p"
  "fresh_block (s\<lparr>sems := g\<rparr>) L F p = fresh_block s L F p"
  "fresh_block (s\<lparr>mqs := h\<rparr>) L F p = fresh_block s L F p"
  "fresh_block (s\<lparr>queue_priority := i\<rparr>) L F p = fresh_block s L F p"
  "fresh_block (s\<lparr>msgs := j\<rparr>) L F p = fresh_block s L F p"
  "fresh_block (s\<lparr>last_pid := l\<rparr>) L F p = fresh_block s L F p"
  "fresh_block (s\<lparr>disastrOS_time := l\<rparr>) L F p = fresh_block s L F p"
  "fresh_block (s\<lparr>shutdown_now := l\<rparr>) L F p = fresh_block s L F p"
  "fresh_block (s\<lparr>init_pcb := k\<rparr>) L F p = fresh_block s L F p"
  "fresh_block (s\<lparr>running := k\<rparr>) L F p = fresh_block s L F p"
  "fresh_block (s\<lparr>umem := m\<rparr>) L F p = fresh_block s L F p"
  by (simp_all add: fresh_block_def)

lemma List_init_fields [simp]:
  "pools (List_init h s) = pools s"
  "pcbs (List_init h s) = pcbs s"
  "pcb_ptrs (List_init h s) = pcb_ptrs s"
  "timers (List_init h s) = timers s"
  "resources (List_init h s) = resources s"
  "descs (List_init h s) = descs s"
  "desc_ptrs (List_init h s) = desc_ptrs s"
  "sems (List_init h s) = sems s"
  "mqs (List_init h s) = mqs s"
  "queue_priority (List_init h s) = queue_priority s"
  "msgs (List_init h s) = msgs s"
  "init_pcb (List_init h s) = init_pcb s"
  "running (List_init h s) = running s"
  "last_pid (List_init h s) = last_pid s"
  "disastrOS_time (List_init h s) = disastrOS_time s"
  "shutdown_now (List_init h s) = shutdown_now s"
  "umem (List_init h s) = umem s"
  by (simp_all add: List_init_def set_defs)

lemma fresh_block_init_list:
  assumes "fresh_block s L F p"
  shows "fresh_block (List_init h s) (L(h := [])) F p"
proof -
  have "live (List_init h s) F p = live s F p"
    by (rule live_cong) (simp add: List_init_def set_defs)
  moreover have "links (List_init h s) = links s"
    by (simp add: List_init_def set_defs)
  ultimately show ?thesis
    using assms by (auto simp: fresh_block_def listed_def unlinked_def)
qed

lemma List_init_frame: "kernel_frame s (List_init h s)"
  by (simp add: kernel_frame_def List_init_def set_defs)

text \<open>Giving back two different structures that are in no list.\<close>

lemma wf_free2:
  assumes wf: "kernel_wf s L F" and p: "live s F p" "\<not> listed L p" "kind_of p = k"
    and q: "live s F q" "\<not> listed L q" "kind_of q = k'" and kk: "k \<noteq> k'"
  shows "\<exists>s1 s2. free_block k p s = Inr (Success, s1) \<and> free_block k' q s1 = Inr (Success, s2) \<and>
    kernel_wf s2 L (F(k := idx_of p # F k, k' := idx_of q # F k')) \<and> kernel_frame s s2 \<and> kernel_frame s s1 \<and>
    (\<forall>x. fresh_block s L F x \<longrightarrow> x \<noteq> p \<longrightarrow> x \<noteq> q \<longrightarrow>
      fresh_block s2 L (F(k := idx_of p # F k, k' := idx_of q # F k')) x)"
proof -
  have pq: "q \<noteq> p" using p(3) q(3) kk by blast
  obtain P where P: "free_block k p s = Inr (Success, s\<lparr>pools := P\<rparr>)"
    "kernel_wf (s\<lparr>pools := P\<rparr>) L (F(k := idx_of p # F k))"
    "\<forall>x. live s F x \<longrightarrow> x \<noteq> p \<longrightarrow> live (s\<lparr>pools := P\<rparr>) (F(k := idx_of p # F k)) x"
    using wf_free [OF wf p] by blast
  have F: "(F(k := idx_of p # F k)) k' = F k'" using kk by simp
  from P(3) q(1) pq have "live (s\<lparr>pools := P\<rparr>) (F(k := idx_of p # F k)) q" by blast
  from wf_free [OF P(2) this q(2,3), unfolded F] obtain Q
    where Q: "free_block k' q (s\<lparr>pools := P\<rparr>) = Inr (Success, s\<lparr>pools := P, pools := Q\<rparr>)"
    "kernel_wf (s\<lparr>pools := P, pools := Q\<rparr>) L (F(k := idx_of p # F k, k' := idx_of q # F k'))"
    "\<forall>x. live (s\<lparr>pools := P\<rparr>) (F(k := idx_of p # F k)) x \<longrightarrow> x \<noteq> q \<longrightarrow>
      live (s\<lparr>pools := P, pools := Q\<rparr>) (F(k := idx_of p # F k, k' := idx_of q # F k')) x"
    by blast
  have "kernel_frame s (s\<lparr>pools := P, pools := Q\<rparr>)" "kernel_frame s (s\<lparr>pools := P\<rparr>)"
    by (simp_all add: kernel_frame_def)
  moreover have "fresh_block (s\<lparr>pools := P, pools := Q\<rparr>) L (F(k := idx_of p # F k, k' := idx_of q # F k')) x"
    if "fresh_block s L F x" "x \<noteq> p" "x \<noteq> q" for x
    using that P(3) Q(3) unfolding fresh_block_def unlinked_simps by blast
  ultimately show ?thesis using P(1) Q(1,2) by blast
qed

text \<open>Taking one item out of each of two lists.\<close>

lemma wf_remove2:
  assumes wf: "kernel_wf s L F" and x: "x \<in> set (L h)" and y: "y \<in> set (L h')" and hh: "h \<noteq> h'"
  shows "\<exists>s1 s2. List_detach h (Some x) s = Inr (Some x, s1) \<and> List_detach h' (Some y) s1 = Inr (Some y, s2) \<and>
    kernel_wf s2 (L(h := remove1 x (L h), h' := remove1 y (L h'))) F \<and> lists_only s s1 \<and> lists_only s s2 \<and>
    live s2 F x \<and> live s2 F y \<and>
    \<not> listed (L(h := remove1 x (L h), h' := remove1 y (L h'))) x \<and>
    \<not> listed (L(h := remove1 x (L h), h' := remove1 y (L h'))) y \<and>
    (\<forall>q. fresh_block s L F q \<longrightarrow> fresh_block s2 (L(h := remove1 x (L h), h' := remove1 y (L h'))) F q)"
proof -
  let ?L = "L(h := remove1 x (L h))" and ?L' = "L(h := remove1 x (L h), h' := remove1 y (L h'))"
  obtain s1 where s1: "List_detach h (Some x) s = Inr (Some x, s1)" "kernel_wf s1 ?L F" "lists_only s s1"
    "\<not> listed ?L x" "live s1 F x" "\<forall>q. \<not> listed L q \<longrightarrow> unlinked s1 q = unlinked s q"
    using wf_remove [OF wf x] by blast
  have h': "?L h' = L h'" using hh by simp
  obtain s2 where
    s2: "List_detach h' (Some y) s1 = Inr (Some y, s2)" "kernel_wf s2 ?L' F" "lists_only s1 s2"
    "\<not> listed ?L' y" "live s2 F y" "\<forall>q. \<not> listed ?L q \<longrightarrow> unlinked s2 q = unlinked s1 q"
    using wf_remove [OF s1(2), of y h'] y unfolding h' by blast
  have "\<not> listed ?L' x"
    using s1(4) hh by (auto simp: listed_def dest: notin_set_remove1 split: if_splits)
  moreover have live: "live s1 F q = live s F q" "live s2 F q = live s F q" for q
    using lists_only_fields(1) [OF s1(3)] lists_only_fields(1) [OF s2(3)] by (simp_all add: live_def)
  moreover have "fresh_block s2 ?L' F q" if "fresh_block s L F q" for q
  proof -
    have "\<not> listed ?L q" "\<not> listed ?L' q"
      using that by (auto simp: fresh_block_def listed_def dest: notin_set_remove1 split: if_splits)
    with that s1(6) s2(6) live show ?thesis by (simp add: fresh_block_def)
  qed
  ultimately show ?thesis
    using s1 s2 lists_only_trans [OF s1(3) s2(3)] by blast
qed

text \<open>An item that leaves its list is fresh; what was fresh before stays so.\<close>

lemma wf_take:
  assumes wf: "kernel_wf s L F" and x: "x \<in> set (L h)"
  shows "\<exists>s'. List_detach h (Some x) s = Inr (Some x, s') \<and> kernel_wf s' (L(h := remove1 x (L h))) F \<and>
    lists_only s s' \<and> fresh_block s' (L(h := remove1 x (L h))) F x \<and> kind_of x = item_kind h \<and>
    (\<forall>q. fresh_block s L F q \<longrightarrow> fresh_block s' (L(h := remove1 x (L h))) F q)"
proof -
  let ?L = "L(h := remove1 x (L h))"
  obtain s' where s': "List_detach h (Some x) s = Inr (Some x, s')" "kernel_wf s' ?L F" "lists_only s s'"
    "unlinked s' x" "\<not> listed ?L x" "kind_of x = item_kind h" "live s' F x"
    "\<forall>p. \<not> listed L p \<longrightarrow> unlinked s' p = unlinked s p"
    using wf_remove [OF wf x] by blast
  have "fresh_block s' ?L F q" if "fresh_block s L F q" for q
  proof -
    have "\<not> listed ?L q"
      using that by (auto simp: fresh_block_def listed_def dest: notin_set_remove1 split: if_splits)
    moreover have "live s' F q = live s F q" by (rule live_cong) (rule lists_only_fields(1) [OF s'(3)])
    ultimately show ?thesis using that s'(8) by (simp add: fresh_block_def)
  qed
  with s' show ?thesis by (auto simp: fresh_block_def)
qed

lemma wf_put:
  assumes wf: "kernel_wf s L F" and x: "fresh_block s L F x" "kind_of x = item_kind h"
  shows "\<exists>s'. List_insert h (list_last h s) (Some x) s = Inr (Some x, s') \<and>
    kernel_wf s' (L(h := L h @ [x])) F \<and> lists_only s s' \<and>
    (\<forall>q. fresh_block s L F q \<longrightarrow> q \<noteq> x \<longrightarrow> fresh_block s' (L(h := L h @ [x])) F q)"
proof -
  obtain s' where s': "List_insert h (list_last h s) (Some x) s = Inr (Some x, s')"
    "kernel_wf s' (L(h := L h @ [x])) F" "lists_only s s'"
    "\<forall>p. \<not> listed L p \<longrightarrow> p \<noteq> x \<longrightarrow> unlinked s' p = unlinked s p"
    using wf_enqueue_fresh [OF wf x] by blast
  have "fresh_block s' (L(h := L h @ [x])) F q" if "fresh_block s L F q" "q \<noteq> x" for q
    by (rule fresh_block_linked [OF that s'(3)]) (use s'(4) in blast)
  with s' show ?thesis by blast
qed

text \<open>An item that moves to the end of another list.\<close>

lemma wf_move:
  assumes wf: "kernel_wf s L F" and x: "x \<in> set (L h)" and hh: "h \<noteq> h'" "item_kind h' = item_kind h"
  shows "\<exists>s1 s2. List_detach h (Some x) s = Inr (Some x, s1) \<and>
    List_insert h' (list_last h' s1) (Some x) s1 = Inr (Some x, s2) \<and>
    kernel_wf s2 (L(h := remove1 x (L h), h' := L h' @ [x])) F \<and> lists_only s s1 \<and> lists_only s s2 \<and>
    (\<forall>q. fresh_block s L F q \<longrightarrow> fresh_block s2 (L(h := remove1 x (L h), h' := L h' @ [x])) F q)"
proof -
  let ?L = "L(h := remove1 x (L h))"
  have e: "?L h' = L h'" using hh by simp
  obtain s1 where s1: "List_detach h (Some x) s = Inr (Some x, s1)" "kernel_wf s1 ?L F" "lists_only s s1"
    "fresh_block s1 ?L F x" "kind_of x = item_kind h" "\<forall>q. fresh_block s L F q \<longrightarrow> fresh_block s1 ?L F q"
    using wf_take [OF wf x] by blast
  have "kind_of x = item_kind h'" using s1(5) hh by simp
  from wf_put [OF s1(2,4) this] obtain s2 where s2:
    "List_insert h' (list_last h' s1) (Some x) s1 = Inr (Some x, s2)" "kernel_wf s2 (?L(h' := L h' @ [x])) F"
    "lists_only s1 s2" "\<forall>q. fresh_block s1 ?L F q \<longrightarrow> q \<noteq> x \<longrightarrow> fresh_block s2 (?L(h' := L h' @ [x])) F q"
    unfolding e by blast
  have "q \<noteq> x" if "fresh_block s L F q" for q
    using that x by (auto simp: fresh_block_def listed_def)
  with s1 s2 lists_only_trans [OF s1(3) s2(3)] show ?thesis by blast
qed

end
