(* ===== verification/Timer.thy ===== *)
theory Timer
  imports KernelState
begin

text \<open>
  The timers of \<^verbatim>\<open>src/disastrOS_timer.c\<close>: a list of pairs of a wake-up time and a process,
  kept in order of time. Adding keeps the order and puts equal times in order of arrival; the
  front is the next timer to elapse.
\<close>

section \<open>The operations\<close>

definition TimerItem_alloc :: "int \<Rightarrow> ptr option \<Rightarrow> kernel \<Rightarrow> fault + (ptr option \<times> kernel)" where
  "TimerItem_alloc awakening_time pcb s =
     andThen (alloc_block KTimerItem s) (\<lambda>(item, s1).
       case item of
         None \<Rightarrow> Inr (None, s1)
       | Some it \<Rightarrow>
           Inr (Some it, upd_timer it (\<lambda>_. \<lparr>timer_awakening_time = awakening_time, timer_pcb = pcb\<rparr>)
                           (clear_links it s1)))"

definition TimerItem_free :: "ptr \<Rightarrow> kernel \<Rightarrow> fault + (PoolAllocatorResult \<times> kernel)" where
  "TimerItem_free item s = free_block KTimerItem item s"

definition TimerList_init :: "headref \<Rightarrow> kernel \<Rightarrow> kernel" where
  "TimerList_init timers_head s = List_init timers_head s"

text \<open>
  The loop of \<^verbatim>\<open>TimerList_add\<close>: \<open>prev\<close> follows \<open>aux\<close> one item behind; the loop
  stops at the first item that is to be awakened later.
\<close>

partial_function (option) add_scan ::
  "('p \<Rightarrow> fault + bool) \<Rightarrow> ('p \<Rightarrow> 'p option) \<Rightarrow> 'p option \<Rightarrow> 'p option \<Rightarrow> (fault + 'p option) option" where
  "add_scan later nxt prev aux =
     (case aux of
        None \<Rightarrow> Some (Inr prev)
      | Some p \<Rightarrow>
          (case later p of
             Inl e \<Rightarrow> Some (Inl e)
           | Inr b \<Rightarrow> if b then Some (Inr prev) else add_scan later nxt (Some p) (nxt p)))"

definition elapses_after :: "int \<Rightarrow> kernel \<Rightarrow> ptr \<Rightarrow> fault + bool" where
  "elapses_after t s p =
     andThen (deref KTimerItem (Some p)) (\<lambda>item. Inr (t < timer_awakening_time (timers s item)))"

definition TimerList_add :: "headref \<Rightarrow> int \<Rightarrow> ptr option \<Rightarrow> kernel \<Rightarrow> fault + (ptr option \<times> kernel)" where
  "TimerList_add timers_head awakening_time pcb s =
     andThen (loop_result (add_scan (elapses_after awakening_time s)
         (\<lambda>p. item_next (links s p)) None (list_first timers_head s))) (\<lambda>previous_item.
     andThen (TimerItem_alloc awakening_time pcb s) (\<lambda>(new_item, s1).
       if new_item = None then Inr (None, s1)
       else andThen (List_insert timers_head previous_item new_item s1) (\<lambda>(_, s2).
         Inr (new_item, s2))))"

definition TimerList_current :: "headref \<Rightarrow> int \<Rightarrow> kernel \<Rightarrow> fault + ptr option" where
  "TimerList_current timers_head current_time s =
     (if list_first timers_head s = None then Inr None
      else andThen (deref KTimerItem (list_first timers_head s)) (\<lambda>item.
        if timer_awakening_time (timers s item) \<le> current_time then Inr (Some item) else Inr None))"

definition TimerList_removeCurrent :: "headref \<Rightarrow> kernel \<Rightarrow> fault + (int \<times> kernel)" where
  "TimerList_removeCurrent timers_head s =
     andThen (List_detach timers_head (list_first timers_head s) s) (\<lambda>(item, s1).
       case item of
         None \<Rightarrow> Inr (-1, s1)
       | Some it \<Rightarrow> andThen (TimerItem_free it s1) (\<lambda>(_, s2). Inr (0, s2)))"

section \<open>The order of the timers\<close>

definition wake_time :: "kernel \<Rightarrow> ptr \<Rightarrow> int" where
  "wake_time s p = timer_awakening_time (timers s p)"

definition timers_sorted :: "kernel \<Rightarrow> ptr list \<Rightarrow> bool" where
  "timers_sorted s ts \<longleftrightarrow> sorted (map (wake_time s) ts)"

definition add_timer :: "kernel \<Rightarrow> int \<Rightarrow> ptr \<Rightarrow> ptr list \<Rightarrow> ptr list" where
  "add_timer s t n ts =
     takeWhile (\<lambda>p. wake_time s p \<le> t) ts @ n # dropWhile (\<lambda>p. wake_time s p \<le> t) ts"

lemma add_scan_None [simp]: "add_scan later nxt prev None = Some (Inr prev)"
  by (simp add: add_scan.simps)

lemma add_scan_Some:
  "add_scan later nxt prev (Some p) =
     (case later p of
        Inl e \<Rightarrow> Some (Inl e)
      | Inr b \<Rightarrow> if b then Some (Inr prev) else add_scan later nxt (Some p) (nxt p))"
  by (subst add_scan.simps) simp

lemma add_scan_linked:
  assumes "linked lk pv xs None" and "\<And>x. x \<in> set xs \<Longrightarrow> later x = Inr (\<not> P x)"
  shows "add_scan later (\<lambda>p. item_next (lk p)) prev (first_of xs None) =
    Some (Inr (last_of (takeWhile P xs) prev))"
  using assms
proof (induction xs arbitrary: pv prev)
  case Nil
  then show ?case by simp
next
  case (Cons x xs)
  then show ?case by (auto simp: add_scan_Some)
qed

lemma TimerItem_alloc_wf:
  assumes wf: "kernel_wf s L F" and F: "F KTimerItem = i # is"
  defines "n \<equiv> Ptr KTimerItem i"
  shows "\<exists>s'. TimerItem_alloc t pcb s = Inr (Some n, s') \<and> kernel_wf s' L (F(KTimerItem := is)) \<and>
    kernel_frame (s\<lparr>timers := (timers s)(n := \<lparr>timer_awakening_time = t, timer_pcb = pcb\<rparr>)\<rparr>) s' \<and>
    fresh_block s' L (F(KTimerItem := is)) n \<and>
    (\<forall>p. live s F p \<longrightarrow> p \<noteq> n \<and> live s' (F(KTimerItem := is)) p) \<and>
    (\<forall>p. p \<noteq> n \<longrightarrow> unlinked s' p = unlinked s p)"
  using wf_new [OF wf F] unfolding n_def
  by (auto simp: TimerItem_alloc_def upd_timer_def kernel_frame_def fresh_block_def)

text \<open>The loop stops behind the timers that elapse no later than the new one.\<close>

lemma TimerList_add_position:
  assumes wf: "kernel_wf s L F" and h: "item_kind h = KTimerItem"
  shows "loop_result (add_scan (elapses_after t s) (\<lambda>p. item_next (links s p)) None (list_first h s)) =
    Inr (last_of (takeWhile (\<lambda>p. wake_time s p \<le> t) (L h)) None)"
proof -
  have "elapses_after t s p = Inr (\<not> wake_time s p \<le> t)" if "p \<in> set (L h)" for p
    using kernel_wf_kind [OF wf that] h by (auto simp: elapses_after_def wake_time_def)
  moreover have "linked (links s) None (L h) None"
    using represents_dlist [OF kernel_wf_represents [OF wf], of h] by (simp add: dlist_def)
  ultimately show ?thesis
    by (simp add: wf_list_first [OF wf] add_scan_linked)
qed

lemma TimerList_add_wf:
  assumes wf: "kernel_wf s L F" and h: "item_kind h = KTimerItem" and F: "F KTimerItem = i # is"
  defines "n \<equiv> Ptr KTimerItem i"
  shows "\<exists>s'. TimerList_add h t pcb s = Inr (Some n, s') \<and>
    kernel_wf s' (L(h := add_timer s t n (L h))) (F(KTimerItem := is)) \<and>
    kernel_frame (s\<lparr>timers := (timers s)(n := \<lparr>timer_awakening_time = t, timer_pcb = pcb\<rparr>)\<rparr>) s' \<and>
    (\<forall>p. live s F p \<longrightarrow> p \<noteq> n \<and> live s' (F(KTimerItem := is)) p) \<and>
    (\<forall>p. p \<noteq> n \<longrightarrow> \<not> listed L p \<longrightarrow> unlinked s' p = unlinked s p)"
proof -
  obtain s1 where s1: "TimerItem_alloc t pcb s = Inr (Some n, s1)" "kernel_wf s1 L (F(KTimerItem := is))"
    "kernel_frame (s\<lparr>timers := (timers s)(n := \<lparr>timer_awakening_time = t, timer_pcb = pcb\<rparr>)\<rparr>) s1"
    "fresh_block s1 L (F(KTimerItem := is)) n"
    "\<forall>p. live s F p \<longrightarrow> p \<noteq> n \<and> live s1 (F(KTimerItem := is)) p"
    "\<forall>p. p \<noteq> n \<longrightarrow> unlinked s1 p = unlinked s p"
    using TimerItem_alloc_wf [OF wf F] unfolding n_def by blast
  let ?P = "\<lambda>p. wake_time s p \<le> t"
  have "kind_of n = item_kind h" by (simp add: n_def h)
  then obtain s2 where s2: "List_insert h (last_of (takeWhile ?P (L h)) None) (Some n) s1 = Inr (Some n, s2)"
    "kernel_wf s2 (L(h := add_timer s t n (L h))) (F(KTimerItem := is))" "lists_only s1 s2"
    "\<forall>p. \<not> listed L p \<longrightarrow> p \<noteq> n \<longrightarrow> unlinked s2 p = unlinked s1 p"
    using wf_insert [OF s1(2), of h "takeWhile ?P (L h)" "dropWhile ?P (L h)" n] s1(4)
    by (auto simp: fresh_block_def add_timer_def)
  have "TimerList_add h t pcb s = Inr (Some n, s2)"
    by (simp add: TimerList_add_def TimerList_add_position [OF wf h] s1(1) s2(1))
  moreover have "live s2 G p = live s1 G p" for G p
    by (rule live_cong) (rule lists_only_fields(1) [OF s2(3)])
  ultimately show ?thesis
    using s1 s2 kernel_frame_trans [OF s1(3) lists_only_frame [OF s2(3)]] by auto
qed

lemma TimerList_add_exhausted:
  assumes wf: "kernel_wf s L F" and h: "item_kind h = KTimerItem" and F: "F KTimerItem = []"
  shows "TimerList_add h t pcb s = Inr (None, s)"
  by (simp add: TimerList_add_def TimerList_add_position [OF wf h] TimerItem_alloc_def
      wf_alloc_empty [OF wf F])

lemma TimerList_current_wf:
  assumes wf: "kernel_wf s L F" and h: "item_kind h = KTimerItem"
  shows "TimerList_current h now s =
    Inr (case L h of [] \<Rightarrow> None | p # _ \<Rightarrow> if wake_time s p \<le> now then Some p else None)"
  using kernel_wf_kind [OF wf, of _ h] h
  by (cases "L h") (auto simp: TimerList_current_def wf_list_first [OF wf] wake_time_def)

lemma TimerList_removeCurrent_wf:
  assumes wf: "kernel_wf s L F" and h: "item_kind h = KTimerItem" and L: "L h = n # ts"
  shows "\<exists>s'. TimerList_removeCurrent h s = Inr (0, s') \<and>
    kernel_wf s' (L(h := ts)) (F(KTimerItem := idx_of n # F KTimerItem)) \<and> kernel_frame s s' \<and>
    (\<forall>p. live s F p \<longrightarrow> p \<noteq> n \<longrightarrow> live s' (F(KTimerItem := idx_of n # F KTimerItem)) p) \<and>
    (\<forall>p. \<not> listed L p \<longrightarrow> unlinked s' p = unlinked s p)"
proof -
  obtain s1 where s1: "List_detach h (list_first h s) s = Inr (Some n, s1)" "kernel_wf s1 (L(h := ts)) F"
    "lists_only s s1" "\<not> listed (L(h := ts)) n" "kind_of n = item_kind h" "live s1 F n"
    "\<forall>p. \<not> listed L p \<longrightarrow> unlinked s1 p = unlinked s p"
    using wf_dequeue [OF wf L] by blast
  obtain P where P: "free_block KTimerItem n s1 = Inr (Success, s1\<lparr>pools := P\<rparr>)"
    "kernel_wf (s1\<lparr>pools := P\<rparr>) (L(h := ts)) (F(KTimerItem := idx_of n # F KTimerItem))"
    "\<forall>q. live s1 F q \<longrightarrow> q \<noteq> n \<longrightarrow> live (s1\<lparr>pools := P\<rparr>) (F(KTimerItem := idx_of n # F KTimerItem)) q"
    using wf_free [OF s1(2) s1(6,4)] s1(5) h by auto
  have "live s1 F p = live s F p" for p
    by (rule live_cong) (rule lists_only_fields(1) [OF s1(3)])
  then show ?thesis
    using s1 P lists_only_frame [OF s1(3)]
    by (auto simp: TimerList_removeCurrent_def TimerItem_free_def kernel_frame_def)
qed

text \<open>Order and contents of the list after an insertion.\<close>

lemma add_timer_set: "set (add_timer s t n ts) = insert n (set ts)"
  by (metis add_timer_def Un_insert_right list.simps(15) set_append takeWhile_dropWhile_id)

lemma sorted_dropWhile_bound:
  assumes "sorted (map f ts)" and "x \<in> set (dropWhile (\<lambda>p. f p \<le> t) ts)"
  shows "(t::int) < f x"
  using assms
proof (induction ts)
  case Nil
  then show ?case by simp
next
  case (Cons a ts)
  then show ?case by (force split: if_splits)
qed

lemma add_timer_sorted:
  assumes "timers_sorted s ts" and "n \<notin> set ts"
    and same: "\<And>p. p \<in> set ts \<Longrightarrow> wake_time s' p = wake_time s p" and new: "wake_time s' n = t"
  shows "timers_sorted s' (add_timer s t n ts)"
proof -
  let ?P = "\<lambda>p. wake_time s p \<le> t"
  have srt: "sorted (map (wake_time s) ts)" using assms(1) by (simp add: timers_sorted_def)
  have eq: "map (wake_time s') (takeWhile ?P ts) = map (wake_time s) (takeWhile ?P ts)"
    "map (wake_time s') (dropWhile ?P ts) = map (wake_time s) (dropWhile ?P ts)"
    using same by (auto dest: set_takeWhileD set_dropWhileD)
  have parts: "sorted (map (wake_time s) (takeWhile ?P ts))" "sorted (map (wake_time s) (dropWhile ?P ts))"
    using srt by (metis map_append sorted_append takeWhile_dropWhile_id)+
  have "\<forall>x\<in>set (takeWhile ?P ts). wake_time s x \<le> t" "\<forall>x\<in>set (dropWhile ?P ts). t < wake_time s x"
    using sorted_dropWhile_bound [OF srt] by (auto dest: set_takeWhileD)
  with parts show ?thesis
    unfolding timers_sorted_def add_timer_def by (fastforce simp: eq new sorted_append)
qed

end
