(* ===== verification/Resource.thy ===== *)
theory Resource
  imports KernelState
begin

text \<open>
  Resources and their descriptors: \<^verbatim>\<open>src/disastrOS_resource.c\<close>,
  \<^verbatim>\<open>src/disastrOS_descriptor.c\<close> and the three system calls that open, close and destroy a
  resource. A descriptor is listed by the process that opened it; a descriptor pointer, listed by
  the resource, leads back to it.
\<close>

section \<open>Resources\<close>

definition Resource_alloc :: "int \<Rightarrow> int \<Rightarrow> kernel \<Rightarrow> fault + (ptr option \<times> kernel)" where
  "Resource_alloc rid rtype s =
     andThen (alloc_block KResource s) (\<lambda>(r, s1).
       case r of
         None \<Rightarrow> Inr (None, s1)
       | Some r \<Rightarrow>
           Inr (Some r, List_init (ResDescriptors r)
                  (upd_res r (\<lambda>_. \<lparr>res_id = rid, res_type = rtype\<rparr>) (clear_links r s1))))"

definition Resource_free :: "ptr \<Rightarrow> kernel \<Rightarrow> fault + (PoolAllocatorResult \<times> kernel)" where
  "Resource_free r s =
     (if list_first (ResDescriptors r) s \<noteq> None then Inl AssertFail
      else if list_last (ResDescriptors r) s \<noteq> None then Inl AssertFail
      else free_block KResource r s)"

definition has_res_id :: "int \<Rightarrow> kernel \<Rightarrow> ptr \<Rightarrow> fault + bool" where
  "has_res_id rid s aux =
     andThen (deref KResource (Some aux)) (\<lambda>r. Inr (res_id (resources s r) = rid))"

definition ResourceList_byId :: "headref \<Rightarrow> int \<Rightarrow> kernel \<Rightarrow> fault + ptr option" where
  "ResourceList_byId l rid s = List_scan (has_res_id rid s) l s"

section \<open>Descriptors\<close>

text \<open>
  The constructor leaves the \<^verbatim>\<open>ptr\<close> member as it was in the block. The constructors,
  destructors and searches of the three descriptor modules differ in their pools only, so they are
  instances of these.
\<close>

definition desc_alloc :: "kind \<Rightarrow> int \<Rightarrow> ptr option \<Rightarrow> ptr option \<Rightarrow> kernel \<Rightarrow> fault + (ptr option \<times> kernel)" where
  "desc_alloc k fd obj pcb s =
     andThen (alloc_block k s) (\<lambda>(d, s1).
       case d of
         None \<Rightarrow> Inr (None, s1)
       | Some d \<Rightarrow>
           Inr (Some d, upd_desc d (\<lambda>c. c\<lparr>desc_fd := fd, desc_object := obj, desc_pcb := pcb\<rparr>)
                          (clear_links d s1)))"

definition desc_ptr_alloc :: "kind \<Rightarrow> ptr option \<Rightarrow> kernel \<Rightarrow> fault + (ptr option \<times> kernel)" where
  "desc_ptr_alloc k descriptor s =
     andThen (alloc_block k s) (\<lambda>(d, s1).
       case d of
         None \<Rightarrow> Inr (None, s1)
       | Some d \<Rightarrow>
           let s2 = clear_links d s1
           in Inr (Some d, s2\<lparr>desc_ptrs := (desc_ptrs s2)(d := descriptor)\<rparr>))"

definition has_fd :: "kind \<Rightarrow> int \<Rightarrow> kernel \<Rightarrow> ptr \<Rightarrow> fault + bool" where
  "has_fd k fd s aux = andThen (deref k (Some aux)) (\<lambda>d. Inr (desc_fd (descs s d) = fd))"

definition Descriptor_alloc :: "int \<Rightarrow> ptr option \<Rightarrow> ptr option \<Rightarrow> kernel \<Rightarrow> fault + (ptr option \<times> kernel)" where
  "Descriptor_alloc = desc_alloc KDescriptor"

definition Descriptor_free :: "ptr \<Rightarrow> kernel \<Rightarrow> fault + (PoolAllocatorResult \<times> kernel)" where
  "Descriptor_free d s = free_block KDescriptor d s"

definition DescriptorList_byFd :: "headref \<Rightarrow> int \<Rightarrow> kernel \<Rightarrow> fault + ptr option" where
  "DescriptorList_byFd l fd s = List_scan (has_fd KDescriptor fd s) l s"

definition DescriptorPtr_alloc :: "ptr option \<Rightarrow> kernel \<Rightarrow> fault + (ptr option \<times> kernel)" where
  "DescriptorPtr_alloc = desc_ptr_alloc KDescriptorPtr"

definition DescriptorPtr_free :: "ptr \<Rightarrow> kernel \<Rightarrow> fault + (PoolAllocatorResult \<times> kernel)" where
  "DescriptorPtr_free d s = free_block KDescriptorPtr d s"

section \<open>The system calls\<close>

unbundle bit_operations_syntax

text \<open>The second half of opening: a descriptor for the process, a pointer to it for the resource.\<close>

definition openResource_attach :: "ptr \<Rightarrow> ptr \<Rightarrow> kernel \<Rightarrow> fault + kernel" where
  "openResource_attach r res s =
     andThen (Descriptor_alloc (pcb_last_fd (pcbs s r)) (Some res) (Some r) s) (\<lambda>(des, s1).
     case des of
       None \<Rightarrow> Inr (set_retvalue r DSOS_ERESOURCENOFD s1)
     | Some des \<Rightarrow>
         andThen (checked_int (pcb_last_fd (pcbs s1 r) + 1)) (\<lambda>next_fd.
         let s2 = upd_pcb r (\<lambda>p. p\<lparr>pcb_last_fd := next_fd\<rparr>) s1 in
         andThen (DescriptorPtr_alloc (Some des) s2) (\<lambda>(desptr, s3).
         andThen (List_insert (PcbDescriptors r) (list_last (PcbDescriptors r) s3) (Some des) s3)
           (\<lambda>(_, s4).
         let s5 = upd_desc des (\<lambda>d. d\<lparr>desc_ptr := desptr\<rparr>) s4 in
         andThen (List_insert (ResDescriptors res) (list_last (ResDescriptors res) s5) desptr s5)
           (\<lambda>(_, s6).
         Inr (set_retvalue r (desc_fd (descs s6 des)) s6))))))"

definition internal_openResource :: "kernel \<Rightarrow> fault + kernel" where
  "internal_openResource s =
     andThen (deref KPCB (running s)) (\<lambda>r.
     let rid = int_arg r 0 s; rtype = int_arg r 1 s; open_mode = int_arg r 2 s in
     andThen (ResourceList_byId ResourcesList rid s) (\<lambda>res.
     if open_mode AND DSOS_CREATE \<noteq> 0 \<and> res \<noteq> None
     then Inr (set_retvalue r DSOS_ERESOURCECREATE s)
     else
       andThen
         (if open_mode AND DSOS_CREATE \<noteq> 0
          then andThen (Resource_alloc rid rtype s) (\<lambda>(res, s1).
                 andThen (List_insert ResourcesList (list_last ResourcesList s1) res s1) (\<lambda>(_, s2).
                   Inr (res, s2)))
          else Inr (res, s)) (\<lambda>(res, s2).
       case res of
         None \<Rightarrow> Inr (set_retvalue r DSOS_ERESOURCEOPEN s2)
       | Some res \<Rightarrow>
           if res_type (resources s2 res) \<noteq> rtype
           then Inr (set_retvalue r DSOS_ERESOURCEOPEN s2)
           else if open_mode AND DSOS_EXCL \<noteq> 0 \<and> list_size (ResDescriptors res) s2 \<noteq> 0
           then Inr (set_retvalue r DSOS_ERESOURCENOEXCL s2)
           else openResource_attach r res s2)))"

definition internal_closeResource :: "kernel \<Rightarrow> fault + kernel" where
  "internal_closeResource s =
     andThen (deref KPCB (running s)) (\<lambda>r.
     let fd = int_arg r 0 s in
     andThen (DescriptorList_byFd (PcbDescriptors r) fd s) (\<lambda>des.
     if des = None then Inr (set_retvalue r DSOS_ERESOURCECLOSE s)
     else
       andThen (List_detach (PcbDescriptors r) des s) (\<lambda>(des, s1).
       case des of
         None \<Rightarrow> Inl AssertFail
       | Some des \<Rightarrow>
           andThen (deref KResource (desc_object (descs s1 des))) (\<lambda>res.
           andThen (List_detach (ResDescriptors res) (desc_ptr (descs s1 des)) s1) (\<lambda>(desptr, s2).
           case desptr of
             None \<Rightarrow> Inl AssertFail
           | Some desptr \<Rightarrow>
               andThen (Descriptor_free des s2) (\<lambda>(_, s3).
               andThen (DescriptorPtr_free desptr s3) (\<lambda>(_, s4).
               Inr (set_retvalue r 0 s4))))))))"

definition internal_destroyResource :: "kernel \<Rightarrow> fault + kernel" where
  "internal_destroyResource s =
     andThen (deref KPCB (running s)) (\<lambda>r.
     let rid = int_arg r 0 s in
     andThen (ResourceList_byId ResourcesList rid s) (\<lambda>res.
     case res of
       None \<Rightarrow> Inr (set_retvalue r DSOS_ERESOURCECLOSE s)
     | Some res \<Rightarrow>
         if list_size (ResDescriptors res) s \<noteq> 0
         then Inr (set_retvalue r DSOS_ERESOURCEINUSE s)
         else
           andThen (List_detach ResourcesList (Some res) s) (\<lambda>(res, s1).
           case res of
             None \<Rightarrow> Inl AssertFail
           | Some res \<Rightarrow>
               andThen (Resource_free res s1) (\<lambda>(_, s2).
               Inr (set_retvalue r 0 s2)))))"

section \<open>Searches and constructors on well-formed states\<close>

lemma ResourceList_byId_wf:
  assumes "kernel_wf s L F" and "item_kind h = KResource"
  shows "ResourceList_byId h i s = Inr (List.find (\<lambda>p. res_id (resources s p) = i) (L h))"
  unfolding ResourceList_byId_def
  by (rule wf_scan [OF assms(1)]) (simp add: has_res_id_def kernel_wf_kind [OF assms(1)] assms(2))

lemma has_fd_wf:
  assumes "kernel_wf s L F" and "item_kind h = k"
  shows "List_scan (has_fd k fd s) h s = Inr (List.find (\<lambda>d. desc_fd (descs s d) = fd) (L h))"
  by (rule wf_scan [OF assms(1)]) (simp add: has_fd_def kernel_wf_kind [OF assms(1)] assms(2))

lemma DescriptorList_byFd_wf:
  assumes "kernel_wf s L F" and "item_kind h = KDescriptor"
  shows "DescriptorList_byFd h fd s = Inr (List.find (\<lambda>d. desc_fd (descs s d) = fd) (L h))"
  unfolding DescriptorList_byFd_def by (rule has_fd_wf [OF assms])

lemma desc_alloc_wf:
  assumes wf: "kernel_wf s L F" and F: "F k = i # is"
  defines "n \<equiv> Ptr k i"
  shows "\<exists>s'. desc_alloc k fd obj pcb s = Inr (Some n, s') \<and> kernel_wf s' L (F(k := is)) \<and>
    kernel_frame (s\<lparr>descs := (descs s)(n := (descs s n)\<lparr>desc_fd := fd, desc_object := obj, desc_pcb := pcb\<rparr>)\<rparr>) s' \<and>
    fresh_block s' L (F(k := is)) n \<and>
    (\<forall>p. live s F p \<longrightarrow> p \<noteq> n \<and> live s' (F(k := is)) p) \<and>
    (\<forall>p. p \<noteq> n \<longrightarrow> unlinked s' p = unlinked s p)"
  using wf_new [OF wf F] unfolding n_def
  by (auto simp: desc_alloc_def upd_desc_def kernel_frame_def)

lemma desc_ptr_alloc_wf:
  assumes wf: "kernel_wf s L F" and F: "F k = i # is"
  defines "n \<equiv> Ptr k i"
  shows "\<exists>s'. desc_ptr_alloc k d s = Inr (Some n, s') \<and> kernel_wf s' L (F(k := is)) \<and>
    kernel_frame (s\<lparr>desc_ptrs := (desc_ptrs s)(n := d)\<rparr>) s' \<and>
    fresh_block s' L (F(k := is)) n \<and>
    (\<forall>p. live s F p \<longrightarrow> p \<noteq> n \<and> live s' (F(k := is)) p) \<and>
    (\<forall>p. p \<noteq> n \<longrightarrow> unlinked s' p = unlinked s p)"
  using wf_new [OF wf F] unfolding n_def
  by (auto simp: desc_ptr_alloc_def kernel_frame_def Let_def)

lemma Descriptor_all_members [simp]:
  "(c::Descriptor)\<lparr>desc_fd := fd, desc_object := ob, desc_pcb := pc, desc_ptr := dp\<rparr> =
     \<lparr>desc_pcb = pc, desc_object = ob, desc_fd = fd, desc_ptr = dp\<rparr>"
  by (cases c) simp

section \<open>Opening\<close>

lemma openResource_attach_wf:
  assumes wf: "kernel_wf s L F" and F: "F KDescriptor = i # is" "F KDescriptorPtr = j # js"
    and rng: "int32_range (pcb_last_fd (pcbs s r) + 1)"
  defines "d \<equiv> Ptr KDescriptor i" and "dp \<equiv> Ptr KDescriptorPtr j"
  shows "\<exists>s'. openResource_attach r res s = Inr s' \<and>
    kernel_wf s' (L(PcbDescriptors r := L (PcbDescriptors r) @ [d],
                    ResDescriptors res := L (ResDescriptors res) @ [dp]))
      (F(KDescriptor := is, KDescriptorPtr := js)) \<and>
    kernel_frame (s\<lparr>descs := (descs s)(d := \<lparr>desc_pcb = Some r, desc_object = Some res,
                       desc_fd = pcb_last_fd (pcbs s r), desc_ptr = Some dp\<rparr>),
                    desc_ptrs := (desc_ptrs s)(dp := Some d),
                    pcbs := (pcbs s)(r := (pcbs s r)\<lparr>pcb_last_fd := pcb_last_fd (pcbs s r) + 1,
                       pcb_syscall_retvalue := pcb_last_fd (pcbs s r)\<rparr>)\<rparr>) s' \<and>
    (\<forall>q. fresh_block s L F q \<longrightarrow> kind_of q = KPCB \<longrightarrow>
      fresh_block s' (L(PcbDescriptors r := L (PcbDescriptors r) @ [d],
                      ResDescriptors res := L (ResDescriptors res) @ [dp]))
        (F(KDescriptor := is, KDescriptorPtr := js)) q)"
proof -
  let ?fd = "pcb_last_fd (pcbs s r)"
  let ?F1 = "F(KDescriptor := is)" and ?F2 = "F(KDescriptor := is, KDescriptorPtr := js)"
  let ?L1 = "L(PcbDescriptors r := L (PcbDescriptors r) @ [d])"
  obtain s1 where s1: "Descriptor_alloc ?fd (Some res) (Some r) s = Inr (Some d, s1)"
    "kernel_wf s1 L ?F1" "fresh_block s1 L ?F1 d"
    "kernel_frame (s\<lparr>descs := (descs s)(d := (descs s d)\<lparr>desc_fd := ?fd, desc_object := Some res, desc_pcb := Some r\<rparr>)\<rparr>) s1"
    "\<forall>p. live s F p \<longrightarrow> p \<noteq> d \<and> live s1 ?F1 p" "\<forall>p. p \<noteq> d \<longrightarrow> unlinked s1 p = unlinked s p"
    using desc_alloc_wf [OF wf F(1)] unfolding d_def Descriptor_alloc_def by metis
  have p1: "pcbs s1 = pcbs s" using s1(4) by (simp add: kernel_frame_def)
  let ?s2 = "upd_pcb r (\<lambda>p. p\<lparr>pcb_last_fd := ?fd + 1\<rparr>) s1"
  have s2: "kernel_wf ?s2 L ?F1" "fresh_block ?s2 L ?F1 d"
    using s1 by (simp_all add: upd_pcb_def)
  have "?F1 KDescriptorPtr = j # js" using F(2) by simp
  then obtain s3 where s3: "DescriptorPtr_alloc (Some d) ?s2 = Inr (Some dp, s3)" "kernel_wf s3 L ?F2"
    "kernel_frame (?s2\<lparr>desc_ptrs := (desc_ptrs ?s2)(dp := Some d)\<rparr>) s3" "fresh_block s3 L ?F2 dp"
    "\<forall>p. live ?s2 ?F1 p \<longrightarrow> p \<noteq> dp \<and> live s3 ?F2 p" "\<forall>p. p \<noteq> dp \<longrightarrow> unlinked s3 p = unlinked ?s2 p"
    using desc_ptr_alloc_wf [OF s2(1)] unfolding dp_def DescriptorPtr_alloc_def by metis
  have d3: "fresh_block s3 L ?F2 d"
    using fresh_block_other [OF s2(2), of dp s3 ?F2] s3(5,6) by blast
  obtain s4 where s4: "List_insert (PcbDescriptors r) (list_last (PcbDescriptors r) s3) (Some d) s3 = Inr (Some d, s4)"
    "kernel_wf s4 ?L1 ?F2" "lists_only s3 s4"
    "\<forall>p. \<not> listed L p \<longrightarrow> p \<noteq> d \<longrightarrow> unlinked s4 p = unlinked s3 p"
    using wf_enqueue_fresh [OF s3(2) d3, of "PcbDescriptors r"] by (auto simp: d_def)
  have "dp \<noteq> d" by (simp add: d_def dp_def)
  with s3(4) s4 have dp4: "fresh_block s4 ?L1 ?F2 dp"
    using fresh_block_linked [OF s3(4) _ s4(3)] by blast
  let ?s5 = "upd_desc d (\<lambda>c. c\<lparr>desc_ptr := Some dp\<rparr>) s4"
  have "kernel_wf ?s5 ?L1 ?F2" "fresh_block ?s5 ?L1 ?F2 dp"
    using s4(2) dp4 by (simp_all add: upd_desc_def)
  then obtain s6 where s6: "List_insert (ResDescriptors res) (list_last (ResDescriptors res) ?s5) (Some dp) ?s5 = Inr (Some dp, s6)"
    "kernel_wf s6 (?L1(ResDescriptors res := L (ResDescriptors res) @ [dp])) ?F2" "lists_only ?s5 s6"
    "\<forall>p. \<not> listed ?L1 p \<longrightarrow> p \<noteq> dp \<longrightarrow> unlinked s6 p = unlinked ?s5 p"
    using wf_enqueue_fresh [of ?s5 ?L1 ?F2 dp "ResDescriptors res"] by (auto simp: dp_def)
  have fresh: "fresh_block s6 (?L1(ResDescriptors res := L (ResDescriptors res) @ [dp])) ?F2 q"
    if "fresh_block s L F q" "kind_of q = KPCB" for q
  proof -
    have ne: "q \<noteq> d" "q \<noteq> dp" using that(2) by (auto simp: d_def dp_def)
    have "fresh_block s1 L ?F1 q" by (rule fresh_block_other [OF that(1)]; use s1(5,6) in blast)
    then have "fresh_block ?s2 L ?F1 q" by (simp add: upd_pcb_def)
    then have "fresh_block s3 L ?F2 q" by (rule fresh_block_other; use s3(5,6) in blast)
    then have "fresh_block s4 ?L1 ?F2 q" using fresh_block_linked [OF _ ne(1) s4(3)] s4(4) by blast
    then have "fresh_block ?s5 ?L1 ?F2 q" by (simp add: upd_desc_def)
    then show ?thesis using fresh_block_linked [OF _ ne(2) s6(3), of ?L1 ?F2 "ResDescriptors res"] s6(4) by simp
  qed
  note fr = s1(4) s3(3) lists_only_frame [OF s4(3)] lists_only_frame [OF s6(3)]
  have "openResource_attach r res s = Inr (set_retvalue r (desc_fd (descs s6 d)) s6)"
    using rng by (simp add: openResource_attach_def s1(1) p1 s3(1) s4(1) s6(1) Let_def)
  moreover have "desc_fd (descs s6 d) = ?fd"
    using fr by (simp add: kernel_frame_def upd_defs)
  ultimately show ?thesis
    using s6(2) fr fresh
    by (intro exI [of _ "set_retvalue r ?fd s6"]) (simp add: kernel_frame_def upd_defs)
qed

lemma openResource_attach_full:
  assumes "kernel_wf s L F" and "F KDescriptor = []"
  shows "openResource_attach r res s = Inr (set_retvalue r DSOS_ERESOURCENOFD s)"
  by (simp add: openResource_attach_def Descriptor_alloc_def desc_alloc_def wf_alloc_empty [OF assms])

text \<open>Without a block for the pointer, or with all file descriptors given out, the process crashes.\<close>

lemma openResource_attach_fails:
  assumes wf: "kernel_wf s L F" and F: "F KDescriptor = i # is"
    and no: "F KDescriptorPtr = [] \<or> \<not> int32_range (pcb_last_fd (pcbs s r) + 1)"
  shows "\<exists>e. openResource_attach r res s = Inl e"
proof -
  let ?fd = "pcb_last_fd (pcbs s r)" and ?F1 = "F(KDescriptor := is)" and ?d = "Ptr KDescriptor i"
  obtain s1 where s1: "Descriptor_alloc ?fd (Some res) (Some r) s = Inr (Some ?d, s1)" "kernel_wf s1 L ?F1"
    "kernel_frame (s\<lparr>descs := (descs s)(?d := (descs s ?d)\<lparr>desc_fd := ?fd, desc_object := Some res, desc_pcb := Some r\<rparr>)\<rparr>) s1"
    "fresh_block s1 L ?F1 ?d"
    using desc_alloc_wf [OF wf F] unfolding Descriptor_alloc_def by metis
  have p1: "pcbs s1 = pcbs s" using s1(3) by (simp add: kernel_frame_def)
  let ?s2 = "upd_pcb r (\<lambda>p. p\<lparr>pcb_last_fd := ?fd + 1\<rparr>) s1"
  have s2: "kernel_wf ?s2 L ?F1" "fresh_block ?s2 L ?F1 ?d" using s1(2,4) by (simp_all add: upd_pcb_def)
  show ?thesis
  proof (cases "int32_range (?fd + 1)")
    case False
    then show ?thesis by (simp add: openResource_attach_def s1(1) p1 checked_int_def)
  next
    case True
    then have "?F1 KDescriptorPtr = []" using no by simp
    then have a: "DescriptorPtr_alloc (Some ?d) ?s2 = Inr (None, ?s2)"
      by (simp add: DescriptorPtr_alloc_def desc_ptr_alloc_def wf_alloc_empty [OF s2(1)])
    obtain s4 where "List_insert (PcbDescriptors r) (list_last (PcbDescriptors r) ?s2) (Some ?d) ?s2 = Inr (Some ?d, s4)"
      using wf_enqueue_fresh [OF s2, of "PcbDescriptors r"] by auto
    then show ?thesis using True by (simp add: openResource_attach_def s1(1) p1 a Let_def List_insert_def)
  qed
qed

text \<open>A new resource enters the system list with no descriptors.\<close>

lemma Resource_create_wf:
  assumes wf: "kernel_wf s L F" and F: "F KResource = i # is"
  defines "n \<equiv> Ptr KResource i"
  shows "\<exists>s1 s2. Resource_alloc rid rtype s = Inr (Some n, s1) \<and>
    List_insert ResourcesList (list_last ResourcesList s1) (Some n) s1 = Inr (Some n, s2) \<and>
    kernel_wf s2 (L(ResDescriptors n := [], ResourcesList := L ResourcesList @ [n])) (F(KResource := is)) \<and>
    kernel_frame (s\<lparr>resources := (resources s)(n := \<lparr>res_id = rid, res_type = rtype\<rparr>)\<rparr>) s2 \<and>
    (\<forall>q. fresh_block s L F q \<longrightarrow> kind_of q = KPCB \<longrightarrow>
      fresh_block s2 (L(ResDescriptors n := [], ResourcesList := L ResourcesList @ [n])) (F(KResource := is)) q)"
proof -
  let ?F = "F(KResource := is)" and ?L = "L(ResDescriptors n := [])"
  obtain a where a: "alloc_block KResource s = Inr (Some n, a)" "kernel_wf (clear_links n a) L ?F"
    "fresh_block (clear_links n a) L ?F n" "kernel_frame s (clear_links n a)"
    "\<forall>p. live s F p \<longrightarrow> p \<noteq> n \<and> live (clear_links n a) ?F p"
    "\<forall>p. p \<noteq> n \<longrightarrow> unlinked (clear_links n a) p = unlinked s p"
    using wf_new [OF wf F] unfolding n_def by blast
  let ?a = "upd_res n (\<lambda>_. \<lparr>res_id = rid, res_type = rtype\<rparr>) (clear_links n a)"
  let ?s1 = "List_init (ResDescriptors n) ?a"
  have "kernel_wf ?a L ?F" "fresh_block ?a L ?F n"
    using a by (simp_all add: upd_res_def)
  then have 1: "kernel_wf ?s1 ?L ?F" "fresh_block ?s1 ?L ?F n"
    by (simp_all add: wf_init_list fresh_block_init_list)
  then obtain s2 where s2: "List_insert ResourcesList (list_last ResourcesList ?s1) (Some n) ?s1 = Inr (Some n, s2)"
    "kernel_wf s2 (?L(ResourcesList := ?L ResourcesList @ [n])) ?F" "lists_only ?s1 s2"
    "\<forall>p. \<not> listed ?L p \<longrightarrow> p \<noteq> n \<longrightarrow> unlinked s2 p = unlinked ?s1 p"
    using wf_enqueue_fresh [OF 1, of ResourcesList] by (auto simp: n_def)
  have fresh: "fresh_block s2 (?L(ResourcesList := L ResourcesList @ [n])) ?F q"
    if "fresh_block s L F q" "kind_of q = KPCB" for q
  proof -
    have ne: "q \<noteq> n" using that(2) by (auto simp: n_def)
    have "fresh_block (clear_links n a) L ?F q" by (rule fresh_block_other [OF that(1)]; use a(5,6) in blast)
    then have "fresh_block ?s1 ?L ?F q" by (simp add: upd_res_def fresh_block_init_list)
    then show ?thesis using fresh_block_linked [OF _ ne s2(3), of ?L ?F ResourcesList] s2(4) by simp
  qed
  have "kernel_frame (s\<lparr>resources := (resources s)(n := \<lparr>res_id = rid, res_type = rtype\<rparr>)\<rparr>) s2"
    using a(4) List_init_frame [of ?a "ResDescriptors n"] lists_only_frame [OF s2(3)]
    by (simp add: kernel_frame_def upd_res_def)
  then show ?thesis
    using s2(1,2) fresh by (simp add: Resource_alloc_def a(1))
qed

text \<open>The contents a successful open writes, and the lists it makes.\<close>

definition opened_contents :: "ptr \<Rightarrow> ptr \<Rightarrow> ptr \<Rightarrow> ptr \<Rightarrow> kernel \<Rightarrow> kernel" where
  "opened_contents r res d dp s =
     s\<lparr>descs := (descs s)(d := \<lparr>desc_pcb = Some r, desc_object = Some res,
          desc_fd = pcb_last_fd (pcbs s r), desc_ptr = Some dp\<rparr>),
       desc_ptrs := (desc_ptrs s)(dp := Some d),
       pcbs := (pcbs s)(r := (pcbs s r)\<lparr>pcb_last_fd := pcb_last_fd (pcbs s r) + 1,
          pcb_syscall_retvalue := pcb_last_fd (pcbs s r)\<rparr>)\<rparr>"

definition opened_lists :: "ptr \<Rightarrow> ptr \<Rightarrow> ptr \<Rightarrow> ptr \<Rightarrow> (headref \<Rightarrow> ptr list) \<Rightarrow> (headref \<Rightarrow> ptr list)" where
  "opened_lists r res d dp L =
     L(PcbDescriptors r := L (PcbDescriptors r) @ [d], ResDescriptors res := L (ResDescriptors res) @ [dp])"

definition res_lookup :: "kernel \<Rightarrow> (headref \<Rightarrow> ptr list) \<Rightarrow> int \<Rightarrow> ptr option" where
  "res_lookup s L rid = List.find (\<lambda>p. res_id (resources s p) = rid) (L ResourcesList)"

definition fd_lookup :: "kernel \<Rightarrow> ptr list \<Rightarrow> int \<Rightarrow> ptr option" where
  "fd_lookup s ds fd = List.find (\<lambda>d. desc_fd (descs s d) = fd) ds"

lemma openResource_existing_wf:
  assumes wf: "kernel_wf s L F" and run: "running s = Some r" "kind_of r = KPCB"
    and res: "res_lookup s L (int_arg r 0 s) = Some res" "res_type (resources s res) = int_arg r 1 s"
    and mode: "int_arg r 2 s AND DSOS_CREATE = 0"
      "int_arg r 2 s AND DSOS_EXCL = 0 \<or> L (ResDescriptors res) = []"
    and F: "F KDescriptor = i # is" "F KDescriptorPtr = j # js"
    and rng: "int32_range (pcb_last_fd (pcbs s r) + 1)"
  shows "\<exists>s'. internal_openResource s = Inr s' \<and>
    kernel_wf s' (opened_lists r res (Ptr KDescriptor i) (Ptr KDescriptorPtr j) L)
      (F(KDescriptor := is, KDescriptorPtr := js)) \<and>
    kernel_frame (opened_contents r res (Ptr KDescriptor i) (Ptr KDescriptorPtr j) s) s'"
proof -
  have "ResourceList_byId ResourcesList (int_arg r 0 s) s = Inr (Some res)"
    using ResourceList_byId_wf [OF wf, of ResourcesList] res(1) by (simp add: res_lookup_def)
  moreover have "\<not> (int_arg r 2 s AND 4 \<noteq> 0 \<and> list_size (ResDescriptors res) s \<noteq> 0)"
    using mode(2) by (auto simp: wf_list_size [OF wf])
  ultimately have "internal_openResource s = openResource_attach r res s"
    using run res(2) mode(1) by (auto simp: internal_openResource_def Let_def)
  then show ?thesis
    using openResource_attach_wf [OF wf F rng, of res] unfolding opened_lists_def opened_contents_def by auto
qed

lemma openResource_create_wf:
  assumes wf: "kernel_wf s L F" and run: "running s = Some r" "kind_of r = KPCB"
    and res: "res_lookup s L (int_arg r 0 s) = None"
    and mode: "int_arg r 2 s AND DSOS_CREATE \<noteq> 0"
    and F: "F KResource = k # ks" "F KDescriptor = i # is" "F KDescriptorPtr = j # js"
    and rng: "int32_range (pcb_last_fd (pcbs s r) + 1)"
  defines "n \<equiv> Ptr KResource k"
  defines "s0 \<equiv> s\<lparr>resources := (resources s)(n := \<lparr>res_id = int_arg r 0 s, res_type = int_arg r 1 s\<rparr>)\<rparr>"
  defines "L0 \<equiv> L(ResDescriptors n := [], ResourcesList := L ResourcesList @ [n])"
  shows "\<exists>s'. internal_openResource s = Inr s' \<and>
    kernel_wf s' (opened_lists r n (Ptr KDescriptor i) (Ptr KDescriptorPtr j) L0)
      (F(KResource := ks, KDescriptor := is, KDescriptorPtr := js)) \<and>
    kernel_frame (opened_contents r n (Ptr KDescriptor i) (Ptr KDescriptorPtr j) s0) s'"
proof -
  have look: "ResourceList_byId ResourcesList (int_arg r 0 s) s = Inr None"
    using ResourceList_byId_wf [OF wf, of ResourcesList] res by (simp add: res_lookup_def)
  obtain s1 s2 where s1: "Resource_alloc (int_arg r 0 s) (int_arg r 1 s) s = Inr (Some n, s1)"
    and s2: "List_insert ResourcesList (list_last ResourcesList s1) (Some n) s1 = Inr (Some n, s2)"
    "kernel_wf s2 L0 (F(KResource := ks))" "kernel_frame s0 s2"
    using Resource_create_wf [OF wf F(1), of "int_arg r 0 s" "int_arg r 1 s"]
    unfolding s0_def L0_def n_def by blast
  have p: "pcbs s2 = pcbs s" "res_type (resources s2 n) = int_arg r 1 s"
    using s2(3) by (simp_all add: kernel_frame_def s0_def)
  have "list_size (ResDescriptors n) s2 = 0"
    using wf_list_size [OF s2(2)] by (simp add: L0_def)
  then have "internal_openResource s = openResource_attach r n s2"
    using run look s1 s2(1) p mode by (simp add: internal_openResource_def Let_def)
  moreover have "(F(KResource := ks)) KDescriptor = i # is" "(F(KResource := ks)) KDescriptorPtr = j # js"
    using F by simp_all
  ultimately obtain s' where s': "internal_openResource s = Inr s'"
    "kernel_wf s' (opened_lists r n (Ptr KDescriptor i) (Ptr KDescriptorPtr j) L0)
      (F(KResource := ks, KDescriptor := is, KDescriptorPtr := js))"
    "kernel_frame (opened_contents r n (Ptr KDescriptor i) (Ptr KDescriptorPtr j) s2) s'"
    using openResource_attach_wf [OF s2(2), of i "is" j js r n] rng p(1)
    by (auto simp: opened_lists_def opened_contents_def)
  have "kernel_frame (opened_contents r n (Ptr KDescriptor i) (Ptr KDescriptorPtr j) s0) s'"
    using s2(3) s'(3) by (simp add: kernel_frame_def opened_contents_def)
  with s' show ?thesis by blast
qed

text \<open>Refusals write nothing but the return value.\<close>

lemma openResource_refused:
  assumes wf: "kernel_wf s L F" and run: "running s = Some r" "kind_of r = KPCB"
  shows "int_arg r 2 s AND DSOS_CREATE \<noteq> 0 \<Longrightarrow> res_lookup s L (int_arg r 0 s) = Some res \<Longrightarrow>
      internal_openResource s = Inr (set_retvalue r DSOS_ERESOURCECREATE s)"
    and "int_arg r 2 s AND DSOS_CREATE = 0 \<Longrightarrow> res_lookup s L (int_arg r 0 s) = None \<Longrightarrow>
      internal_openResource s = Inr (set_retvalue r DSOS_ERESOURCEOPEN s)"
    and "int_arg r 2 s AND DSOS_CREATE = 0 \<Longrightarrow> res_lookup s L (int_arg r 0 s) = Some res \<Longrightarrow>
      res_type (resources s res) \<noteq> int_arg r 1 s \<Longrightarrow>
      internal_openResource s = Inr (set_retvalue r DSOS_ERESOURCEOPEN s)"
    and "int_arg r 2 s AND DSOS_CREATE = 0 \<Longrightarrow> res_lookup s L (int_arg r 0 s) = Some res \<Longrightarrow>
      res_type (resources s res) = int_arg r 1 s \<Longrightarrow> int_arg r 2 s AND DSOS_EXCL \<noteq> 0 \<Longrightarrow>
      L (ResDescriptors res) \<noteq> [] \<Longrightarrow>
      internal_openResource s = Inr (set_retvalue r DSOS_ERESOURCENOEXCL s)"
  using run ResourceList_byId_wf [OF wf, of ResourcesList]
  by (simp_all add: internal_openResource_def Let_def res_lookup_def wf_list_size [OF wf])

section \<open>Closing\<close>

text \<open>
  \<open>desc_linked\<close>: the descriptor \<open>d\<close> of process \<open>r\<close> names a resource, and its pointer is
  in that resource's list and leads back to \<open>d\<close>.
\<close>

definition desc_linked :: "kernel \<Rightarrow> (headref \<Rightarrow> ptr list) \<Rightarrow> ptr \<Rightarrow> ptr \<Rightarrow> ptr \<Rightarrow> bool" where
  "desc_linked s L d res dp \<longleftrightarrow>
     desc_object (descs s d) = Some res \<and> kind_of res = KResource \<and>
     desc_ptr (descs s d) = Some dp \<and> dp \<in> set (L (ResDescriptors res)) \<and> desc_ptrs s dp = Some d"

definition closed_lists :: "ptr \<Rightarrow> ptr \<Rightarrow> ptr \<Rightarrow> ptr \<Rightarrow> (headref \<Rightarrow> ptr list) \<Rightarrow> (headref \<Rightarrow> ptr list)" where
  "closed_lists r res d dp L =
     L(PcbDescriptors r := remove1 d (L (PcbDescriptors r)),
       ResDescriptors res := remove1 dp (L (ResDescriptors res)))"

lemma closeResource_wf:
  assumes wf: "kernel_wf s L F" and run: "running s = Some r" "kind_of r = KPCB"
    and d: "fd_lookup s (L (PcbDescriptors r)) (int_arg r 0 s) = Some d"
    and linked: "desc_linked s L d res dp"
  shows "\<exists>s'. internal_closeResource s = Inr s' \<and>
    kernel_wf s' (closed_lists r res d dp L)
      (F(KDescriptor := idx_of d # F KDescriptor, KDescriptorPtr := idx_of dp # F KDescriptorPtr)) \<and>
    kernel_frame (set_retvalue r 0 s) s' \<and>
    (\<forall>q. fresh_block s L F q \<longrightarrow> fresh_block s' (closed_lists r res d dp L)
      (F(KDescriptor := idx_of d # F KDescriptor, KDescriptorPtr := idx_of dp # F KDescriptorPtr)) q)"
proof -
  let ?L = "closed_lists r res d dp L"
  have din: "d \<in> set (L (PcbDescriptors r))" and dpin: "dp \<in> set (L (ResDescriptors res))"
    using d linked by (auto simp: fd_lookup_def desc_linked_def dest: find_in_set)
  have k: "kind_of d = KDescriptor" "kind_of dp = KDescriptorPtr"
    using kernel_wf_kind [OF wf din] kernel_wf_kind [OF wf dpin] by simp_all
  obtain s1 s2 where s: "List_detach (PcbDescriptors r) (Some d) s = Inr (Some d, s1)"
    "List_detach (ResDescriptors res) (Some dp) s1 = Inr (Some dp, s2)" "kernel_wf s2 ?L F"
    "lists_only s s1" "lists_only s s2" "live s2 F d" "live s2 F dp" "\<not> listed ?L d" "\<not> listed ?L dp"
    "\<forall>q. fresh_block s L F q \<longrightarrow> fresh_block s2 ?L F q"
    using wf_remove2 [OF wf din dpin] unfolding closed_lists_def by blast
  obtain s3 s4 where f: "free_block KDescriptor d s2 = Inr (Success, s3)"
    "free_block KDescriptorPtr dp s3 = Inr (Success, s4)"
    "kernel_wf s4 ?L (F(KDescriptor := idx_of d # F KDescriptor, KDescriptorPtr := idx_of dp # F KDescriptorPtr))"
    "kernel_frame s2 s4" "\<forall>x. fresh_block s2 ?L F x \<longrightarrow> x \<noteq> d \<longrightarrow> x \<noteq> dp \<longrightarrow> fresh_block s4 ?L
      (F(KDescriptor := idx_of d # F KDescriptor, KDescriptorPtr := idx_of dp # F KDescriptorPtr)) x"
    using wf_free2 [OF s(3) s(6,8) k(1) s(7,9) k(2)] by auto
  have "q \<noteq> d" "q \<noteq> dp" if "fresh_block s L F q" for q
    using that din dpin by (auto simp: fresh_block_def listed_def)
  then have fresh: "\<forall>q. fresh_block s L F q \<longrightarrow> fresh_block s4 ?L
      (F(KDescriptor := idx_of d # F KDescriptor, KDescriptorPtr := idx_of dp # F KDescriptorPtr)) q"
    using s(10) f(5) by blast
  have "descs s1 = descs s" by (rule lists_only_fields(6) [OF s(4)])
  then have "internal_closeResource s = Inr (set_retvalue r 0 s4)"
    using run d s(1,2) f(1,2) linked DescriptorList_byFd_wf [OF wf, of "PcbDescriptors r"]
    by (simp add: internal_closeResource_def fd_lookup_def desc_linked_def Descriptor_free_def
        DescriptorPtr_free_def)
  then show ?thesis
    using f(3) fresh kernel_frame_trans [OF lists_only_frame [OF s(5)] f(4)]
    by (auto simp: upd_defs kernel_frame_def)
qed

lemma closeResource_bad_fd:
  assumes wf: "kernel_wf s L F" and run: "running s = Some r" "kind_of r = KPCB"
    and d: "fd_lookup s (L (PcbDescriptors r)) (int_arg r 0 s) = None"
  shows "internal_closeResource s = Inr (set_retvalue r DSOS_ERESOURCECLOSE s)"
  using run d DescriptorList_byFd_wf [OF wf, of "PcbDescriptors r"]
  by (simp add: internal_closeResource_def fd_lookup_def)

section \<open>Destroying\<close>

lemma destroyResource_wf:
  assumes wf: "kernel_wf s L F" and run: "running s = Some r" "kind_of r = KPCB"
    and res: "res_lookup s L (int_arg r 0 s) = Some res" and unused: "L (ResDescriptors res) = []"
  shows "\<exists>s'. internal_destroyResource s = Inr s' \<and>
    kernel_wf s' (L(ResourcesList := remove1 res (L ResourcesList)))
      (F(KResource := idx_of res # F KResource)) \<and>
    kernel_frame (set_retvalue r 0 s) s' \<and>
    (\<forall>q. fresh_block s L F q \<longrightarrow>
      fresh_block s' (L(ResourcesList := remove1 res (L ResourcesList))) (F(KResource := idx_of res # F KResource)) q)"
proof -
  have rin: "res \<in> set (L ResourcesList)" using res by (auto simp: res_lookup_def dest: find_in_set)
  let ?L = "L(ResourcesList := remove1 res (L ResourcesList))"
  obtain s1 where s1: "List_detach ResourcesList (Some res) s = Inr (Some res, s1)" "kernel_wf s1 ?L F"
    "lists_only s s1" "\<not> listed ?L res" "live s1 F res" "kind_of res = KResource"
    "\<forall>p. \<not> listed L p \<longrightarrow> unlinked s1 p = unlinked s p"
    using wf_remove [OF wf rin] by auto
  obtain P where P: "free_block KResource res s1 = Inr (Success, s1\<lparr>pools := P\<rparr>)"
    "kernel_wf (s1\<lparr>pools := P\<rparr>) ?L (F(KResource := idx_of res # F KResource))"
    "\<forall>q. live s1 F q \<longrightarrow> q \<noteq> res \<longrightarrow> live (s1\<lparr>pools := P\<rparr>) (F(KResource := idx_of res # F KResource)) q"
    using wf_free [OF s1(2,5,4,6)] by blast
  have fresh: "fresh_block (s1\<lparr>pools := P\<rparr>) ?L (F(KResource := idx_of res # F KResource)) q" if q: "fresh_block s L F q" for q
  proof -
    have "q \<noteq> res" using q rin by (auto simp: fresh_block_def listed_def)
    moreover have "live s1 F q = live s F q" by (rule live_cong) (rule lists_only_fields(1) [OF s1(3)])
    moreover have "\<not> listed ?L q"
      using q not_listedD [of L q ResourcesList] by (auto simp: fresh_block_def listed_def split: if_splits)
    ultimately show ?thesis using q P(3) s1(7) by (simp add: fresh_block_def)
  qed
  have "list_first (ResDescriptors res) s1 = None" "list_last (ResDescriptors res) s1 = None"
    using unused by (simp_all add: wf_list_first [OF s1(2)] wf_list_last [OF s1(2)])
  then have "internal_destroyResource s = Inr (set_retvalue r 0 (s1\<lparr>pools := P\<rparr>))"
    using run res unused s1(1) P(1) ResourceList_byId_wf [OF wf, of ResourcesList]
    by (simp add: internal_destroyResource_def res_lookup_def wf_list_size [OF wf] Resource_free_def)
  then show ?thesis
    using P(2) fresh lists_only_frame [OF s1(3)] by (auto simp: upd_defs kernel_frame_def)
qed

lemma destroyResource_refused:
  assumes wf: "kernel_wf s L F" and run: "running s = Some r" "kind_of r = KPCB"
  shows "res_lookup s L (int_arg r 0 s) = None \<Longrightarrow>
      internal_destroyResource s = Inr (set_retvalue r DSOS_ERESOURCECLOSE s)"
    and "res_lookup s L (int_arg r 0 s) = Some res \<Longrightarrow> L (ResDescriptors res) \<noteq> [] \<Longrightarrow>
      internal_destroyResource s = Inr (set_retvalue r DSOS_ERESOURCEINUSE s)"
  using run ResourceList_byId_wf [OF wf, of ResourcesList]
  by (simp_all add: internal_destroyResource_def res_lookup_def wf_list_size [OF wf])

end
