(* ===== verification/Printing.thy ===== *)
theory Printing
  imports KernelState
begin

text \<open>
  The functions that print the state of the kernel: \<^verbatim>\<open>disastrOS_printStatus\<close> of
  \<^verbatim>\<open>src/disastrOS.c\<close> and the \<^verbatim>\<open>..._print\<close> functions it calls. Each one is the
  text it writes to the standard output, or the fault it meets on the way; the text in terms of the lists of a
  well-formed kernel is in \<^verbatim>\<open>StatusText\<close>. The system calls that print a
  string of a process, or the status, go through these functions, so they meet the same faults.
\<close>

section \<open>Formatted output\<close>

text \<open>\<^verbatim>\<open>%d\<close>: the decimal digits, with a sign when the number is negative.\<close>

definition digit :: "nat \<Rightarrow> char" where
  "digit n = ''0123456789'' ! n"

fun decimal :: "nat \<Rightarrow> string" where
  "decimal n = (if n < 10 then [digit n] else decimal (n div 10) @ [digit (n mod 10)])"

declare decimal.simps [simp del]

definition print_int :: "int \<Rightarrow> string" where
  "print_int i = (if i < 0 then CHR ''-'' # decimal (nat (- i)) else decimal (nat i))"

text \<open>\<^verbatim>\<open>%s\<close>: the characters from an address of a process up to the first zero.\<close>

partial_function (option) print_chars :: "(int \<Rightarrow> int) \<Rightarrow> int \<Rightarrow> string \<Rightarrow> string option" where
  "print_chars m a out = (if m a = 0 then Some out else print_chars m (a + 1) (out @ [char_of (m a)]))"

definition print_string :: "int \<Rightarrow> kernel \<Rightarrow> fault + string" where
  "print_string a s =
     (if a = 0 then Inl NullDeref else loop_result (map_option Inr (print_chars (umem s) a [])))"

text \<open>One call of \<^verbatim>\<open>printf\<close> after the other.\<close>

abbreviation newline :: string where "newline \<equiv> [CHR 0x0A]"
abbreviation tab :: string where "tab \<equiv> [CHR 0x09]"

fun printing :: "(fault + string) list \<Rightarrow> fault + string" where
  "printing [] = Inr []"
| "printing (m # ms) = andThen m (\<lambda>t. andThen (printing ms) (\<lambda>u. Inr (t @ u)))"

text \<open>
  The loops \<^verbatim>\<open>while(aux)\<close> over a list: print the item, then something that depends on
  whether another one follows.
\<close>

partial_function (option) print_loop ::
  "(ptr \<Rightarrow> fault + string) \<Rightarrow> (bool \<Rightarrow> string) \<Rightarrow> (ptr \<Rightarrow> ptr option) \<Rightarrow> ptr option \<Rightarrow> string
   \<Rightarrow> (fault + string) option" where
  "print_loop item sep nxt aux out =
     (case aux of
        None \<Rightarrow> Some (Inr out)
      | Some p \<Rightarrow>
          (case item p of
             Inl e \<Rightarrow> Some (Inl e)
           | Inr t \<Rightarrow> print_loop item sep nxt (nxt p) (out @ t @ sep (nxt p \<noteq> None))))"

definition print_list :: "(ptr \<Rightarrow> fault + string) \<Rightarrow> (bool \<Rightarrow> string) \<Rightarrow> headref \<Rightarrow> kernel \<Rightarrow> fault + string" where
  "print_list item sep h s =
     loop_result (print_loop item sep (\<lambda>p. item_next (links s p)) (list_first h s) [])"

text \<open>Items on one line are separated by a comma and a blank.\<close>

definition inline :: "bool \<Rightarrow> string" where
  "inline follows = (if follows then '', '' else [])"

text \<open>Items on lines of their own: a tabulator in front, a comma behind all but the last.\<close>

definition line_end :: "bool \<Rightarrow> string" where
  "line_end follows = (if follows then '','' else []) @ newline"

definition print_lines :: "(ptr \<Rightarrow> fault + string) \<Rightarrow> headref \<Rightarrow> kernel \<Rightarrow> fault + string" where
  "print_lines item h s =
     printing [Inr (''{'' @ newline),
       print_list (\<lambda>p. printing [Inr tab, item p]) line_end h s,
       Inr (''}'' @ newline)]"

section \<open>Processes and timers\<close>

definition PCBPtrList_print :: "headref \<Rightarrow> kernel \<Rightarrow> fault + string" where
  "PCBPtrList_print h s =
     printing [Inr ''('',
       print_list (\<lambda>aux.
         andThen (deref KPCBPtr (Some aux)) (\<lambda>pp.
         andThen (deref KPCB (pcb_ptrs s pp)) (\<lambda>p. Inr (print_int (pcb_pid (pcbs s p)))))) inline h s,
       Inr '')'']"

definition PCB_print :: "ptr \<Rightarrow> kernel \<Rightarrow> fault + string" where
  "PCB_print p s =
     printing [Inr (''[pid: '' @ print_int (pcb_pid (pcbs s p)) @ '', child: ''),
       PCBPtrList_print (PcbChildren p) s, Inr '']'']"

definition PCBList_print :: "headref \<Rightarrow> kernel \<Rightarrow> fault + string" where
  "PCBList_print h s = print_lines (\<lambda>aux. andThen (deref KPCB (Some aux)) (\<lambda>p. PCB_print p s)) h s"

definition TimerList_print :: "headref \<Rightarrow> kernel \<Rightarrow> fault + string" where
  "TimerList_print h s =
     printing [Inr ''['',
       print_list (\<lambda>aux.
         andThen (deref KTimerItem (Some aux)) (\<lambda>t.
         andThen (deref KPCB (timer_pcb (timers s t))) (\<lambda>p.
         Inr (''(pid:'' @ print_int (pcb_pid (pcbs s p)) @ '', t:'' @
              print_int (timer_awakening_time (timers s t)) @ '')'')))) inline h s,
       Inr '']'']"

section \<open>Descriptors\<close>

text \<open>
  \<^verbatim>\<open>DescriptorPtrList_print\<close> is applied to the pointers of semaphores and of message queues
  too. The structures of the three sorts have the same layout, and resources, semaphores and message
  queues all have their identifier right behind the links.
\<close>

definition deref_any :: "kind list \<Rightarrow> ptr option \<Rightarrow> fault + ptr" where
  "deref_any ks p =
     (case p of None \<Rightarrow> Inl NullDeref | Some q \<Rightarrow> if kind_of q \<in> set ks then Inr q else Inl BadCast)"

definition id_of :: "kernel \<Rightarrow> ptr \<Rightarrow> int" where
  "id_of s q =
     (if kind_of q = KResource then res_id (resources s q)
      else if kind_of q = KSemaphore then sem_id (sems s q)
      else mq_id (mqs s q))"

definition object_id :: "kernel \<Rightarrow> ptr option \<Rightarrow> fault + int" where
  "object_id s x = andThen (deref_any [KResource, KSemaphore, KMessageQueue] x) (\<lambda>q. Inr (id_of s q))"

definition desc_item :: "kernel \<Rightarrow> ptr \<Rightarrow> fault + string" where
  "desc_item s aux =
     andThen (deref_any [KDescriptor, KSemDescriptor, KMQDescriptor] (Some aux)) (\<lambda>d.
     andThen (object_id s (desc_object (descs s d))) (\<lambda>rid.
     Inr (''(fd: '' @ print_int (desc_fd (descs s d)) @ '', rid:'' @ print_int rid @ '')'')))"

text \<open>The descriptor a pointer in the list of an object leads to: process, number, object.\<close>

definition desc_ptr_fields :: "kernel \<Rightarrow> ptr \<Rightarrow> fault + (int \<times> int \<times> int)" where
  "desc_ptr_fields s aux =
     andThen (deref_any [KDescriptorPtr, KSemDescriptorPtr, KMQDescriptorPtr] (Some aux)) (\<lambda>dp.
     andThen (deref_any [KDescriptor, KSemDescriptor, KMQDescriptor] (desc_ptrs s dp)) (\<lambda>d.
     andThen (deref KPCB (desc_pcb (descs s d))) (\<lambda>p.
     andThen (object_id s (desc_object (descs s d))) (\<lambda>rid.
     Inr (pcb_pid (pcbs s p), desc_fd (descs s d), rid)))))"

definition desc_ptr_text :: "int \<Rightarrow> int \<Rightarrow> int \<Rightarrow> string" where
  "desc_ptr_text pid fd rid =
     ''(pid: '' @ print_int pid @ '', fd: '' @ print_int fd @ '', rid:'' @ print_int rid @ '')''"

definition DescriptorList_print :: "headref \<Rightarrow> kernel \<Rightarrow> fault + string" where
  "DescriptorList_print h s = printing [Inr ''['', print_list (desc_item s) inline h s, Inr '']'']"

definition DescriptorPtrList_print :: "headref \<Rightarrow> kernel \<Rightarrow> fault + string" where
  "DescriptorPtrList_print h s =
     printing [Inr ''['',
       print_list (\<lambda>aux. andThen (desc_ptr_fields s aux) (\<lambda>(pid, fd, rid). Inr (desc_ptr_text pid fd rid))) inline h s,
       Inr '']'']"

definition SemDescriptorList_print :: "headref \<Rightarrow> kernel \<Rightarrow> fault + string" where
  "SemDescriptorList_print h s = printing [Inr ''['', print_list (desc_item s) inline h s, Inr '']'']"

definition MQDescriptorList_print :: "headref \<Rightarrow> kernel \<Rightarrow> fault + string" where
  "MQDescriptorList_print h s = printing [Inr ''['', print_list (desc_item s) inline h s, Inr '']'']"

text \<open>The printers of the other two sorts of pointers pass the number where the format says process.\<close>

definition SemDescriptorPtrList_print :: "headref \<Rightarrow> kernel \<Rightarrow> fault + string" where
  "SemDescriptorPtrList_print h s =
     printing [Inr ''['',
       print_list (\<lambda>aux. andThen (desc_ptr_fields s aux) (\<lambda>(pid, fd, rid). Inr (desc_ptr_text fd pid rid))) inline h s,
       Inr '']'']"

definition MQDescriptorPtrList_print :: "headref \<Rightarrow> kernel \<Rightarrow> fault + string" where
  "MQDescriptorPtrList_print h s =
     printing [Inr ''['',
       print_list (\<lambda>aux. andThen (desc_ptr_fields s aux) (\<lambda>(pid, fd, rid). Inr (desc_ptr_text fd pid rid))) inline h s,
       Inr '']'']"

section \<open>Resources and semaphores\<close>

definition Resource_print :: "ptr \<Rightarrow> kernel \<Rightarrow> fault + string" where
  "Resource_print r s =
     printing [Inr (''id: '' @ print_int (res_id (resources s r)) @ '', type:'' @
                    print_int (res_type (resources s r)) @ '', pids:''),
       DescriptorPtrList_print (ResDescriptors r) s]"

definition ResourceList_print :: "headref \<Rightarrow> kernel \<Rightarrow> fault + string" where
  "ResourceList_print h s = print_lines (\<lambda>aux. andThen (deref KResource (Some aux)) (\<lambda>r. Resource_print r s)) h s"

definition Semaphore_print :: "ptr \<Rightarrow> kernel \<Rightarrow> fault + string" where
  "Semaphore_print r s =
     printing [Inr (''id: '' @ print_int (sem_id (sems s r)) @ '', count:'' @ print_int (sem_count (sems s r)) @ '', pids:''),
       DescriptorPtrList_print (SemDescriptors r) s, Inr ''waiting: '', DescriptorPtrList_print (SemWaiting r) s]"

definition SemaphoreList_print :: "headref \<Rightarrow> kernel \<Rightarrow> fault + string" where
  "SemaphoreList_print h s = print_lines (\<lambda>aux. andThen (deref KSemaphore (Some aux)) (\<lambda>r. Semaphore_print r s)) h s"

section \<open>Message queues\<close>

definition Message_print :: "ptr \<Rightarrow> kernel \<Rightarrow> fault + string" where
  "Message_print r s =
     printing [Inr (''[Message] length: '' @ print_int (msg_text_length (msgs s r)) @ '' ''),
       Inr ''text: '', print_string (msg_text (msgs s r)) s, Inr newline]"

definition MessageList_print :: "headref \<Rightarrow> kernel \<Rightarrow> fault + string" where
  "MessageList_print h s =
     (if list_size h s = 0 then Inr (''no messages'' @ newline)
      else print_lines (\<lambda>aux. andThen (deref KMessage (Some aux)) (\<lambda>r. Message_print r s)) h s)"

definition Queue_print :: "ptr \<Rightarrow> kernel \<Rightarrow> fault + string" where
  "Queue_print r s =
     printing [Inr (''[Priority Queue] priority: '' @ print_int (queue_priority s r) @ newline),
       MessageList_print (QueueMessages r) s]"

definition QueueList_print :: "headref \<Rightarrow> kernel \<Rightarrow> fault + string" where
  "QueueList_print h s = print_lines (\<lambda>aux. andThen (deref KQueue (Some aux)) (\<lambda>r. Queue_print r s)) h s"

definition MessageQueue_print :: "ptr \<Rightarrow> kernel \<Rightarrow> fault + string" where
  "MessageQueue_print r s =
     printing [Inr (''[Message Queue] id: '' @ print_int (mq_id (mqs s r)) @ '', priority: '' @
                    print_int (mq_priority (mqs s r)) @ '', num_messages: '' @
                    print_int (mq_num_messages (mqs s r)) @ '' '' @ newline),
       QueueList_print (MqQueues r) s, DescriptorPtrList_print (MqDescriptors r) s]"

definition MessageQueueList_print :: "headref \<Rightarrow> kernel \<Rightarrow> fault + string" where
  "MessageQueueList_print h s =
     print_lines (\<lambda>aux. andThen (deref KMessageQueue (Some aux)) (\<lambda>r. MessageQueue_print r s)) h s"

section \<open>The status of the kernel\<close>

definition disastrOS_printStatus :: "kernel \<Rightarrow> fault + string" where
  "disastrOS_printStatus s =
     printing [Inr (''****************** DisastrOS ******************'' @ newline), Inr ''Running: '',
       (if running s \<noteq> None then andThen (deref KPCB (running s)) (\<lambda>r. PCB_print r s) else Inr []),
       Inr newline, Inr ''Timers: '', TimerList_print TimerList s,
       Inr (newline @ ''Resources: ''), ResourceList_print ResourcesList s,
       Inr (newline @ ''Semaphores: ''), SemaphoreList_print SemaphoresList s,
       Inr (newline @ ''Ready: ''), PCBList_print ReadyList s,
       Inr (newline @ ''Waiting: ''), PCBList_print WaitingList s,
       Inr (newline @ ''Message Queues: ''), MessageQueueList_print MessageQueuesList s,
       Inr (newline @ ''Zombie: ''), PCBList_print ZombieList s,
       Inr (newline @ ''***********************************************'' @ newline @ newline)]"

section \<open>What a loop prints\<close>

fun joined :: "(bool \<Rightarrow> string) \<Rightarrow> string list \<Rightarrow> string" where
  "joined sep [] = []"
| "joined sep (t # ts) = t @ sep (ts \<noteq> []) @ joined sep ts"

lemma print_loop_simps [simp]:
  "print_loop item sep nxt None out = Some (Inr out)"
  "item p = Inr t \<Longrightarrow>
     print_loop item sep nxt (Some p) out = print_loop item sep nxt (nxt p) (out @ t @ sep (nxt p \<noteq> None))"
  "item p = Inl e \<Longrightarrow> print_loop item sep nxt (Some p) out = Some (Inl e)"
  by (simp_all add: print_loop.simps)

lemma print_loop_linked:
  assumes "linked lk pv xs None" and "\<And>x. x \<in> set xs \<Longrightarrow> item x = Inr (t x)"
  shows "print_loop item sep (\<lambda>p. item_next (lk p)) (first_of xs None) out = Some (Inr (out @ joined sep (map t xs)))"
  using assms
proof (induction xs arbitrary: pv out)
  case (Cons x xs)
  then have x: "item x = Inr (t x)" "item_next (lk x) = first_of xs None" by simp_all
  have "first_of xs None \<noteq> None \<longleftrightarrow> xs \<noteq> []" by simp
  then have "print_loop item sep (\<lambda>p. item_next (lk p)) (first_of (x # xs) None) out =
      print_loop item sep (\<lambda>p. item_next (lk p)) (first_of xs None) (out @ t x @ sep (xs \<noteq> []))"
    using x by (simp only: first_of_simps print_loop_simps)
  then show ?case using Cons.IH [of "Some x"] Cons.prems by simp
qed simp

lemma print_list_wf:
  assumes "kernel_wf s L F" and "\<And>x. x \<in> set (L h) \<Longrightarrow> item x = Inr (t x)"
  shows "print_list item sep h s = Inr (joined sep (map t (L h)))"
proof -
  have "linked (links s) None (L h) None"
    using represents_dlist [OF kernel_wf_represents [OF assms(1)], of h] by (simp add: dlist_def)
  from print_loop_linked [OF this assms(2), where sep = sep and out = "[]"] show ?thesis
    by (simp add: print_list_def wf_list_first [OF assms(1)])
qed

definition lines_text :: "string list \<Rightarrow> string" where
  "lines_text ts = ''{'' @ newline @ joined line_end (map (\<lambda>t. tab @ t) ts) @ ''}'' @ newline"

lemma print_lines_wf:
  assumes "kernel_wf s L F" and "\<And>x. x \<in> set (L h) \<Longrightarrow> item x = Inr (t x)"
  shows "print_lines item h s = Inr (lines_text (map t (L h)))"
proof -
  have "print_list (\<lambda>p. printing [Inr tab, item p]) line_end h s = Inr (joined line_end (map (\<lambda>x. tab @ t x) (L h)))"
    by (rule print_list_wf [OF assms(1)]) (simp add: assms(2))
  then show ?thesis by (simp add: print_lines_def lines_text_def comp_def)
qed

text \<open>A string in the memory of a process ends at the first zero; without one it is read for ever.\<close>

lemma print_chars_ends:
  assumes "m (a + int n) = 0"
  shows "\<exists>t. print_chars m a out = Some (out @ t)"
  using assms
proof (induction n arbitrary: a out)
  case 0
  then show ?case by (simp add: print_chars.simps)
next
  case (Suc n)
  show ?case
  proof (cases "m a = 0")
    case False
    have "m (a + 1 + int n) = 0" using Suc.prems by (simp add: algebra_simps)
    from Suc.IH [OF this, of "out @ [char_of (m a)]"] show ?thesis using False by (auto simp: print_chars.simps [of m a])
  qed (simp add: print_chars.simps)
qed

text \<open>
  The string at an address can be read: the address is not null, and a zero comes at or after it. In
  every other case \<^verbatim>\<open>%s\<close> is a fault.
\<close>

definition text_ends :: "kernel \<Rightarrow> int \<Rightarrow> bool" where
  "text_ends s a \<longleftrightarrow> a \<noteq> 0 \<and> (\<exists>n. umem s (a + int n) = 0)"

lemma text_endsD: "text_ends s a \<Longrightarrow> a \<noteq> 0"
  by (simp add: text_ends_def)

lemma text_ends_cong: "umem s' = umem s \<Longrightarrow> text_ends s' a = text_ends s a"
  by (simp add: text_ends_def)

lemma print_chars_Some:
  assumes "print_chars m a out = Some t"
  shows "\<exists>n. m (a + int n) = 0"
proof (rule print_chars.raw_induct [where P = "\<lambda>m a out t. \<exists>n. m (a + int n) = 0", OF _ assms])
  fix p m a out t
  assume IH: "\<And>m a out t. p m a out = Some t \<Longrightarrow> \<exists>n. m (a + int n) = 0"
    and step: "(if m a = 0 then Some out else p m (a + 1) (out @ [char_of (m a)])) = Some t"
  show "\<exists>n. m (a + int n) = 0"
  proof (cases "m a = 0")
    case True
    then have "m (a + int 0) = 0" by simp
    then show ?thesis by blast
  next
    case False
    then obtain n where "m (a + 1 + int n) = 0" using IH [of m "a + 1"] step by auto
    then have "m (a + int (Suc n)) = 0" by (simp add: algebra_simps)
    then show ?thesis by blast
  qed
qed

lemma print_string_readable:
  assumes "text_ends s a"
  shows "\<exists>t. print_string a s = Inr t"
proof -
  obtain n where "umem s (a + int n) = 0" using assms by (auto simp: text_ends_def)
  from print_chars_ends [of "umem s", OF this, of "[]"] assms show ?thesis
    by (auto simp: print_string_def text_ends_def)
qed

lemma print_string_unreadable:
  assumes "\<not> text_ends s a"
  shows "print_string a s = Inl (if a = 0 then NullDeref else Diverges)"
proof (cases "a = 0")
  case False
  then have "print_chars (umem s) a [] = None"
    using assms print_chars_Some [of "umem s" a "[]"] by (cases "print_chars (umem s) a []") (auto simp: text_ends_def)
  then show ?thesis using False by (simp add: print_string_def)
qed (simp add: print_string_def)

text \<open>What follows a \<^verbatim>\<open>printf\<close> of a string.\<close>

lemma andThen_print_string:
  "andThen (print_string a s) (\<lambda>_. k) = (if text_ends s a then k else Inl (if a = 0 then NullDeref else Diverges))"
  using print_string_readable [of s a] print_string_unreadable [of s a] by auto

lemma print_chars_string:
  assumes "\<And>i. i < length t \<Longrightarrow> m (a + int i) \<noteq> 0 \<and> char_of (m (a + int i)) = t ! i" and "m (a + int (length t)) = 0"
  shows "print_chars m a out = Some (out @ t)"
  using assms
proof (induction t arbitrary: a out)
  case Nil
  then show ?case by (simp add: print_chars.simps)
next
  case (Cons c t)
  have "m a \<noteq> 0" "char_of (m a) = c" using Cons.prems(1) [of 0] by simp_all
  moreover have "m (a + 1 + int i) \<noteq> 0 \<and> char_of (m (a + 1 + int i)) = t ! i" if "i < length t" for i
    using Cons.prems(1) [of "Suc i"] that by (simp add: algebra_simps)
  moreover have "m (a + 1 + int (length t)) = 0" using Cons.prems(2) by (simp add: algebra_simps)
  ultimately show ?case using Cons.IH [of "a + 1" "out @ [c]"] by (simp add: print_chars.simps [of m a])
qed

text \<open>The decimal digits read back as the number, so different numbers print differently.\<close>

definition digit_value :: "char \<Rightarrow> nat" where
  "digit_value c = of_char c - 48"

definition read_nat :: "string \<Rightarrow> nat" where
  "read_nat t = foldl (\<lambda>n c. 10 * n + digit_value c) 0 t"

definition read_int :: "string \<Rightarrow> int" where
  "read_int t = (case t of CHR ''-'' # u \<Rightarrow> - int (read_nat u) | _ \<Rightarrow> int (read_nat t))"

lemma digit_value: "n < 10 \<Longrightarrow> digit_value (digit n) = n"
  by (auto simp: digit_value_def digit_def numeral_eq_Suc less_Suc_eq)

lemma read_decimal: "read_nat (decimal n) = n"
proof (induction n rule: decimal.induct)
  case (1 n)
  show ?case
  proof (cases "n < 10")
    case True
    then show ?thesis by (simp add: decimal.simps [of n] read_nat_def digit_value)
  next
    case False
    then have "read_nat (decimal n) = 10 * read_nat (decimal (n div 10)) + n mod 10"
      by (simp add: decimal.simps [of n] read_nat_def digit_value)
    then show ?thesis using 1 [OF False] by simp
  qed
qed

lemma digit_no_sign: "n < 10 \<Longrightarrow> digit n \<noteq> CHR ''-''"
  by (auto simp: digit_def numeral_eq_Suc less_Suc_eq)

lemma decimal_head: "\<exists>c t. decimal n = c # t \<and> c \<noteq> CHR ''-''"
proof (induction n rule: decimal.induct)
  case (1 n)
  then show ?case
    using digit_no_sign [of n] by (cases "n < 10") (auto simp: decimal.simps [of n])
qed

lemma read_print_int: "read_int (print_int i) = i"
proof (cases "i < 0")
  case False
  obtain c t where "decimal (nat i) = c # t" "c \<noteq> CHR ''-''" using decimal_head by blast
  then have "read_int (print_int i) = int (read_nat (decimal (nat i)))"
    using False by (simp add: print_int_def read_int_def split: list.splits char.splits bool.splits)
  then show ?thesis using False by (simp add: read_decimal)
qed (simp add: print_int_def read_int_def read_decimal)

end
