(* ===== verification/Process.thy ===== *)
theory Process
  imports Timer Resource Printing
begin

text \<open>
  Processes: the constructors and searches of \<^verbatim>\<open>src/disastrOS_pcb.c\<close>, the scheduler
  (\<^verbatim>\<open>src/disastrOS_schedule.c\<close>, \<^verbatim>\<open>src/disastrOS_preempt.c\<close>), and the system
  calls sleep, fork and spawn. A state in which a process runs keeps
  that process out of every list (\<open>sched_wf\<close>).
\<close>

section \<open>Process control blocks\<close>

text \<open>
  The constructor does not look at the result of the pool before it writes to it. It initialises
  the list of descriptors twice and the list of semaphore descriptors never.
\<close>

definition PCB_alloc :: "kernel \<Rightarrow> fault + (ptr option \<times> kernel)" where
  "PCB_alloc s =
     andThen (alloc_block KPCB s) (\<lambda>(pcb, s1).
     andThen (deref KPCB pcb) (\<lambda>p.
     let s2 = clear_links p s1; s3 = upd_pcb p (\<lambda>c. c\<lparr>pcb_pid := last_pid s2\<rparr>) s2 in
     andThen (checked_int (last_pid s3 + 1)) (\<lambda>next_pid.
     let s4 = s3\<lparr>last_pid := next_pid\<rparr>;
         s5 = upd_pcb p (\<lambda>c. c\<lparr>pcb_return_value := 0, pcb_status := Invalid, pcb_last_fd := 0,
                pcb_signals := 0, pcb_signals_mask := to_int32 0xFFFFFFFF\<rparr>) s4;
         s6 = List_init (PcbDescriptors p) s5;
         s7 = upd_pcb p (\<lambda>c. c\<lparr>pcb_parent := None, pcb_timer := None\<rparr>) s6;
         s8 = List_init (PcbChildren p) s7;
         s9 = upd_pcb p (\<lambda>c. c\<lparr>pcb_last_sem_fd := 0\<rparr>) s8;
         s10 = List_init (PcbDescriptors p) s9;
         s11 = upd_pcb p (\<lambda>c. c\<lparr>pcb_last_mq_fd := 0\<rparr>) s10
     in Inr (Some p, List_init (PcbMqDescriptors p) s11))))"

definition PCB_free :: "ptr \<Rightarrow> kernel \<Rightarrow> fault + (PoolAllocatorResult \<times> kernel)" where
  "PCB_free p s = free_block KPCB p s"

definition PCBPtr_alloc :: "ptr option \<Rightarrow> kernel \<Rightarrow> fault + (ptr option \<times> kernel)" where
  "PCBPtr_alloc pcb s =
     andThen (alloc_block KPCBPtr s) (\<lambda>(b, s1).
     andThen (deref KPCBPtr b) (\<lambda>p.
     let s2 = clear_links p s1
     in Inr (Some p, s2\<lparr>pcb_ptrs := (pcb_ptrs s2)(p := pcb)\<rparr>)))"

definition PCBPtr_free :: "ptr \<Rightarrow> kernel \<Rightarrow> fault + (PoolAllocatorResult \<times> kernel)" where
  "PCBPtr_free p s = free_block KPCBPtr p s"

definition has_pid :: "int \<Rightarrow> kernel \<Rightarrow> ptr \<Rightarrow> fault + bool" where
  "has_pid pid s aux = andThen (deref KPCB (Some aux)) (\<lambda>p. Inr (pcb_pid (pcbs s p) = pid))"

definition PCB_byPID :: "headref \<Rightarrow> int \<Rightarrow> kernel \<Rightarrow> fault + ptr option" where
  "PCB_byPID h pid s = List_scan (has_pid pid s) h s"

definition points_to_pid :: "int \<Rightarrow> kernel \<Rightarrow> ptr \<Rightarrow> fault + bool" where
  "points_to_pid pid s aux =
     andThen (deref KPCBPtr (Some aux)) (\<lambda>pp.
     andThen (deref KPCB (pcb_ptrs s pp)) (\<lambda>p. Inr (pcb_pid (pcbs s p) = pid)))"

definition PCBPtr_byPID :: "headref \<Rightarrow> int \<Rightarrow> kernel \<Rightarrow> fault + ptr option" where
  "PCBPtr_byPID h pid s = List_scan (points_to_pid pid s) h s"

definition set_status :: "ptr \<Rightarrow> ProcessStatus \<Rightarrow> kernel \<Rightarrow> kernel" where
  "set_status p st s = upd_pcb p (\<lambda>c. c\<lparr>pcb_status := st\<rparr>) s"

section \<open>Scheduling\<close>

text \<open>One turn of the loop that wakes the processes whose timers have elapsed.\<close>

definition wake_one :: "ptr option \<Rightarrow> ptr \<Rightarrow> kernel \<Rightarrow> fault + (ptr \<times> kernel)" where
  "wake_one previous_pcb elapsed_timer s =
     andThen (deref KPCB (timer_pcb (timers s elapsed_timer))) (\<lambda>pcb_to_wake.
     andThen (List_detach WaitingList (Some pcb_to_wake) s) (\<lambda>(_, s1).
     let s2 = upd_pcb pcb_to_wake (\<lambda>c. c\<lparr>pcb_status := Ready, pcb_timer := None\<rparr>) s1 in
     andThen (List_insert ReadyList previous_pcb (Some pcb_to_wake) s2) (\<lambda>(_, s3).
     andThen (TimerList_removeCurrent TimerList s3) (\<lambda>(_, s4).
     Inr (pcb_to_wake, s4)))))"

partial_function (option) wake_loop :: "ptr option \<Rightarrow> kernel \<Rightarrow> (fault + kernel) option" where
  "wake_loop previous_pcb s =
     (case TimerList_current TimerList (disastrOS_time s) s of
        Inl e \<Rightarrow> Some (Inl e)
      | Inr None \<Rightarrow> Some (Inr s)
      | Inr (Some elapsed_timer) \<Rightarrow>
          (case wake_one previous_pcb elapsed_timer s of
             Inl e \<Rightarrow> Some (Inl e)
           | Inr (pcb_to_wake, s') \<Rightarrow> wake_loop (Some pcb_to_wake) s'))"

definition rotate_ready :: "kernel \<Rightarrow> fault + kernel" where
  "rotate_ready s =
     (if list_first ReadyList s = None then Inr s
      else
        andThen (List_detach ReadyList (list_first ReadyList s) s) (\<lambda>(next_process, s1).
        andThen (deref KPCB (running s1)) (\<lambda>r.
        let s2 = set_status r Ready s1 in
        andThen (List_insert ReadyList (list_last ReadyList s2) (Some r) s2) (\<lambda>(_, s3).
        andThen (deref KPCB next_process) (\<lambda>p.
        Inr ((set_status p Running s3)\<lparr>running := Some p\<rparr>))))))"

definition internal_schedule :: "kernel \<Rightarrow> fault + kernel" where
  "internal_schedule s = andThen (loop_result (wake_loop None s)) rotate_ready"

definition internal_preempt :: "kernel \<Rightarrow> fault + kernel" where
  "internal_preempt s = internal_schedule s"

definition internal_sleep :: "kernel \<Rightarrow> fault + kernel" where
  "internal_sleep s =
     andThen (deref KPCB (running s)) (\<lambda>r.
     if pcb_timer (pcbs s r) \<noteq> None then Inr (set_retvalue r DSOS_ESLEEP s)
     else
       let cycles_to_sleep = int_arg r 0 s in
       andThen (checked_int (disastrOS_time s + cycles_to_sleep)) (\<lambda>wake_time.
       andThen (TimerList_add TimerList wake_time (Some r) s) (\<lambda>(new_timer, s1).
       if new_timer = None then Inr (set_retvalue r DSOS_ESLEEP s1)
       else
         let s2 = set_status r Waiting s1 in
         andThen (List_insert WaitingList (list_last WaitingList s2) (Some r) s2) (\<lambda>(_, s3).
         if list_first ReadyList s3 \<noteq> None
         then andThen (List_detach ReadyList (list_first ReadyList s3) s3) (\<lambda>(next_process, s4).
                Inr (s4\<lparr>running := next_process\<rparr>))
         else
           let s4 = s3\<lparr>running := None\<rparr>
           in andThen (disastrOS_printStatus s4) (\<lambda>_. Inr s4)))))"

section \<open>Creating processes\<close>

text \<open>The part that fork and spawn have in common; its result is the new process, if any.\<close>

definition make_child :: "kernel \<Rightarrow> fault + (ptr option \<times> kernel)" where
  "make_child s =
     andThen (PCB_alloc s) (\<lambda>(new_pcb, s1).
     case new_pcb of
       None \<Rightarrow> andThen (deref KPCB (running s1)) (\<lambda>r. Inr (None, set_retvalue r DSOS_ESPAWN s1))
     | Some n \<Rightarrow>
         let s2 = upd_pcb n (\<lambda>c. c\<lparr>pcb_status := Ready, pcb_parent := running s1\<rparr>) s1 in
         andThen (PCBPtr_alloc (Some n) s2) (\<lambda>(new_pcb_ptr, s3).
         if new_pcb_ptr = None then Inl AssertFail
         else
           andThen (deref KPCB (running s3)) (\<lambda>r.
           andThen (List_insert (PcbChildren r) (list_last (PcbChildren r) s3) new_pcb_ptr s3) (\<lambda>(_, s4).
           andThen (List_insert ReadyList (list_last ReadyList s4) (Some n) s4) (\<lambda>(_, s5).
           Inr (Some n, set_retvalue r (pcb_pid (pcbs s5 n)) s5))))))"

definition internal_fork :: "kernel \<Rightarrow> fault + kernel" where
  "internal_fork s = andThen (make_child s) (\<lambda>(_, s1). Inr s1)"

text \<open>Spawning also installs the start function, and its argument, in the context of the child.\<close>

definition internal_spawn :: "kernel \<Rightarrow> fault + kernel" where
  "internal_spawn s =
     andThen (make_child s) (\<lambda>(new_pcb, s1).
     case new_pcb of
       None \<Rightarrow> Inr s1
     | Some n \<Rightarrow>
         andThen (deref KPCB (running s1)) (\<lambda>r.
         Inr (upd_pcb n (\<lambda>c. c\<lparr>pcb_cpu_entry := Some (syscall_arg r 0 s1, syscall_arg r 1 s1)\<rparr>) s1)))"

section \<open>Waking and rotating\<close>

definition woken :: "PCB \<Rightarrow> PCB" where
  "woken c = c\<lparr>pcb_status := Ready, pcb_timer := None\<rparr>"

lemma wake_one_wf:
  assumes wf: "kernel_wf s L F" and L: "L TimerList = t # ts" "L ReadyList = ws @ rs"
    and p: "timer_pcb (timers s t) = Some p" "p \<in> set (L WaitingList)"
  shows "\<exists>s'. wake_one (last_of ws None) t s = Inr (p, s') \<and>
    kernel_wf s' (L(WaitingList := remove1 p (L WaitingList), ReadyList := ws @ p # rs, TimerList := ts))
      (F(KTimerItem := idx_of t # F KTimerItem)) \<and>
    kernel_frame (s\<lparr>pcbs := (pcbs s)(p := woken (pcbs s p))\<rparr>) s' \<and>
    (\<forall>q. live s F q \<longrightarrow> q \<noteq> t \<longrightarrow> live s' (F(KTimerItem := idx_of t # F KTimerItem)) q) \<and>
    (\<forall>q. \<not> listed L q \<longrightarrow> unlinked s' q = unlinked s q)"
proof -
  let ?L1 = "L(WaitingList := remove1 p (L WaitingList))"
  let ?L2 = "?L1(ReadyList := ws @ p # rs)"
  obtain s1 where s1: "List_detach WaitingList (Some p) s = Inr (Some p, s1)" "kernel_wf s1 ?L1 F"
    "lists_only s s1" "unlinked s1 p" "\<not> listed ?L1 p" "kind_of p = KPCB" "live s1 F p"
    "\<forall>q. \<not> listed L q \<longrightarrow> unlinked s1 q = unlinked s q"
    using wf_remove [OF wf p(2)] by auto
  let ?s2 = "upd_pcb p (\<lambda>c. c\<lparr>pcb_status := Ready, pcb_timer := None\<rparr>) s1"
  have s2: "kernel_wf ?s2 ?L1 F" "unlinked ?s2 p" "live ?s2 F p" "?L1 ReadyList = ws @ rs"
    using s1 L by (simp_all add: upd_pcb_def)
  obtain s3 where s3: "List_insert ReadyList (last_of ws None) (Some p) ?s2 = Inr (Some p, s3)"
    "kernel_wf s3 ?L2 F" "lists_only ?s2 s3"
    "\<forall>q. \<not> listed ?L1 q \<longrightarrow> q \<noteq> p \<longrightarrow> unlinked s3 q = unlinked ?s2 q"
    using wf_insert [OF s2(1,4) s1(5) s2(2) _ s2(3)] s1(6) by auto
  have "?L2 TimerList = t # ts" using L by simp
  then obtain s4 where s4: "TimerList_removeCurrent TimerList s3 = Inr (0, s4)"
    "kernel_wf s4 (?L2(TimerList := ts)) (F(KTimerItem := idx_of t # F KTimerItem))" "kernel_frame s3 s4"
    "\<forall>q. live s3 F q \<longrightarrow> q \<noteq> t \<longrightarrow> live s4 (F(KTimerItem := idx_of t # F KTimerItem)) q"
    "\<forall>q. \<not> listed ?L2 q \<longrightarrow> unlinked s4 q = unlinked s3 q"
    using TimerList_removeCurrent_wf [OF s3(2), of TimerList t ts] by auto
  have pcbs: "pcbs s1 = pcbs s" by (rule lists_only_fields(2) [OF s1(3)])
  have "wake_one (last_of ws None) t s = Inr (p, s4)"
    using s1(6) by (simp add: wake_one_def p(1) s1(1) s3(1) s4(1))
  moreover have "kernel_frame (s\<lparr>pcbs := (pcbs s)(p := woken (pcbs s p))\<rparr>) s4"
    using lists_only_frame [OF s1(3)] lists_only_frame [OF s3(3)] s4(3)
    by (simp add: kernel_frame_def upd_defs pcbs woken_def)
  moreover have "live s3 F q = live s F q" for q
    using lists_only_fields(1) [OF s1(3)] lists_only_fields(1) [OF s3(3)]
    by (simp add: live_def upd_defs)
  moreover have "unlinked s4 q = unlinked s q" if q: "\<not> listed L q" for q
  proof -
    have "q \<noteq> p" using q p(2) by (auto simp: listed_def)
    moreover have "\<not> listed ?L1 q" "\<not> listed ?L2 q"
      using q \<open>q \<noteq> p\<close> not_listedD [OF q, of ReadyList] not_listedD [OF q, of TimerList] L
      by (auto simp: listed_def dest: notin_set_remove1 split: if_splits)
    ultimately show ?thesis
      using s4(5) s3(4) s1(8) q by (simp add: upd_defs)
  qed
  ultimately show ?thesis using s4(2,4) by auto
qed

lemma wake_loop_wf:
  assumes wf: "kernel_wf s L F" and L: "L TimerList = ts @ us" "L ReadyList = ws @ rs"
    and elapsed: "\<And>t. t \<in> set ts \<Longrightarrow> wake_time s t \<le> disastrOS_time s"
    and rest: "us = [] \<or> disastrOS_time s < wake_time s (hd us)"
    and ps: "map (\<lambda>t. timer_pcb (timers s t)) ts = map Some ps" "distinct ps" "set ps \<subseteq> set (L WaitingList)"
  shows "\<exists>s'. wake_loop (last_of ws None) s = Some (Inr s') \<and>
    kernel_wf s' (L(TimerList := us, WaitingList := filter (\<lambda>p. p \<notin> set ps) (L WaitingList),
                    ReadyList := ws @ ps @ rs))
      (F(KTimerItem := rev (map idx_of ts) @ F KTimerItem)) \<and>
    kernel_frame (s\<lparr>pcbs := \<lambda>p. if p \<in> set ps then woken (pcbs s p) else pcbs s p\<rparr>) s' \<and>
    (\<forall>q. live s F q \<longrightarrow> q \<notin> set ts \<longrightarrow> live s' (F(KTimerItem := rev (map idx_of ts) @ F KTimerItem)) q) \<and>
    (\<forall>q. \<not> listed L q \<longrightarrow> unlinked s' q = unlinked s q)"
  using assms
proof (induction ts arbitrary: s L F ws ps)
  case Nil
  have "TimerList_current TimerList (disastrOS_time s) s = Inr None"
    using TimerList_current_wf [OF Nil(1), of TimerList] Nil(2,5) by (cases us) auto
  then have "wake_loop (last_of ws None) s = Some (Inr s)"
    by (simp add: wake_loop.simps)
  moreover have "ps = []" using Nil(6) by simp
  moreover have "L(TimerList := us, WaitingList := filter (\<lambda>p. p \<notin> set []) (L WaitingList),
      ReadyList := ws @ [] @ rs) = L"
    using Nil(2,3) by auto
  moreover have "F(KTimerItem := rev (map idx_of []) @ F KTimerItem) = F"
    by simp
  ultimately show ?case using Nil(1) by (intro exI [of _ s]) (simp del: fun_upd_apply)
next
  case (Cons t ts)
  obtain p ps' where ps: "ps = p # ps'" "timer_pcb (timers s t) = Some p"
    "map (\<lambda>t. timer_pcb (timers s t)) ts = map Some ps'"
    using Cons.prems(6) by (cases ps) auto
  let ?L1 = "L(WaitingList := remove1 p (L WaitingList), ReadyList := ws @ p # rs, TimerList := ts @ us)"
  let ?F1 = "F(KTimerItem := idx_of t # F KTimerItem)"
  have cur: "TimerList_current TimerList (disastrOS_time s) s = Inr (Some t)"
    using TimerList_current_wf [OF Cons.prems(1), of TimerList] Cons.prems(2,4) by simp
  obtain s1 where s1: "wake_one (last_of ws None) t s = Inr (p, s1)" "kernel_wf s1 ?L1 ?F1"
    "kernel_frame (s\<lparr>pcbs := (pcbs s)(p := woken (pcbs s p))\<rparr>) s1"
    "\<forall>q. live s F q \<longrightarrow> q \<noteq> t \<longrightarrow> live s1 ?F1 q"
    "\<forall>q. \<not> listed L q \<longrightarrow> unlinked s1 q = unlinked s q"
    using wake_one_wf [OF Cons.prems(1), of t "ts @ us" ws rs p] Cons.prems(2,3,8) ps by auto
  have same: "timers s1 = timers s" "disastrOS_time s1 = disastrOS_time s"
    using s1(3) by (simp_all add: kernel_frame_def)
  then have wt: "wake_time s1 = wake_time s" by (simp add: wake_time_def fun_eq_iff)
  have dW: "distinct (L WaitingList)"
    using represents_dlist [OF kernel_wf_represents [OF Cons.prems(1)], of WaitingList]
    by (simp add: dlist_def)
  have sub: "set ps' \<subseteq> set (?L1 WaitingList)" "p \<notin> set ps'" "distinct ps'"
    using Cons.prems(7,8) ps(1) dW by (auto simp: set_remove1_eq)
  have L1: "?L1 TimerList = ts @ us" "?L1 ReadyList = (ws @ [p]) @ rs" by simp_all
  have el: "\<And>t. t \<in> set ts \<Longrightarrow> wake_time s1 t \<le> disastrOS_time s1"
    "us = [] \<or> disastrOS_time s1 < wake_time s1 (hd us)"
    using Cons.prems(4,5) by (simp_all add: same wt)
  have m: "map (\<lambda>t. timer_pcb (timers s1 t)) ts = map Some ps'"
    using ps(3) by (simp only: same)
  obtain s2 where
    s2: "wake_loop (last_of (ws @ [p]) None) s1 = Some (Inr s2)"
    "kernel_wf s2 (?L1(TimerList := us, WaitingList := filter (\<lambda>p. p \<notin> set ps') (?L1 WaitingList),
        ReadyList := (ws @ [p]) @ ps' @ rs)) (?F1(KTimerItem := rev (map idx_of ts) @ ?F1 KTimerItem))"
    "kernel_frame (s1\<lparr>pcbs := \<lambda>p. if p \<in> set ps' then woken (pcbs s1 p) else pcbs s1 p\<rparr>) s2"
    "\<forall>q. live s1 ?F1 q \<longrightarrow> q \<notin> set ts \<longrightarrow> live s2 (?F1(KTimerItem := rev (map idx_of ts) @ ?F1 KTimerItem)) q"
    "\<forall>q. \<not> listed ?L1 q \<longrightarrow> unlinked s2 q = unlinked s1 q"
    using Cons.IH [OF s1(2) L1 el m sub(3,1)] by blast
  have "wake_loop (last_of ws None) s = Some (Inr s2)"
    using s2(1) by (subst wake_loop.simps) (simp add: cur s1(1))
  moreover have "?L1(TimerList := us, WaitingList := filter (\<lambda>p. p \<notin> set ps') (?L1 WaitingList),
        ReadyList := (ws @ [p]) @ ps' @ rs) =
      L(TimerList := us, WaitingList := filter (\<lambda>p. p \<notin> set ps) (L WaitingList), ReadyList := ws @ ps @ rs)"
    using dW by (auto simp: ps(1) distinct_remove1_removeAll removeAll_filter_not_eq intro!: ext filter_cong)
  moreover have "kernel_frame (s\<lparr>pcbs := \<lambda>p. if p \<in> set ps then woken (pcbs s p) else pcbs s p\<rparr>) s2"
    using s2(3) s1(3) sub(2) by (auto simp: kernel_frame_def ps(1) fun_eq_iff)
  moreover have "unlinked s2 q = unlinked s q" if "\<not> listed L q" for q
  proof -
    have "\<not> listed ?L1 q"
      using that not_listedD [OF that, of ReadyList] not_listedD [OF that, of TimerList]
        not_listedD [OF that, of WaitingList] Cons.prems(2,3,8)
      by (auto simp: listed_def ps(1) dest: notin_set_remove1 split: if_splits)
    with that s1(5) s2(5) show ?thesis by simp
  qed
  moreover have "?F1(KTimerItem := rev (map idx_of ts) @ ?F1 KTimerItem) =
      F(KTimerItem := rev (map idx_of (t # ts)) @ F KTimerItem)"
    by simp
  moreover have "\<forall>q. live s F q \<longrightarrow> q \<notin> set (t # ts) \<longrightarrow>
      live s2 (?F1(KTimerItem := rev (map idx_of ts) @ ?F1 KTimerItem)) q"
    using s1(4) s2(4) by simp
  ultimately show ?case
    using s2(2) by (intro exI [of _ s2]) metis
qed

text \<open>
  While a process runs it is in no list. A timer belongs to a waiting process, which has no other
  timer, and the timers are in order of time.
\<close>

definition sched_wf :: "kernel \<Rightarrow> (headref \<Rightarrow> ptr list) \<Rightarrow> (kind \<Rightarrow> int list) \<Rightarrow> ptr \<Rightarrow> bool" where
  "sched_wf s L F r \<longleftrightarrow>
     kernel_wf s L F \<and> running s = Some r \<and> kind_of r = KPCB \<and> fresh_block s L F r"

lemma sched_wfD:
  assumes "sched_wf s L F r"
  shows "kernel_wf s L F" "running s = Some r" "kind_of r = KPCB" "fresh_block s L F r"
    "\<not> listed L r" "unlinked s r" "live s F r"
  using assms by (simp_all add: sched_wf_def fresh_block_def)

definition timer_owner :: "kernel \<Rightarrow> ptr \<Rightarrow> ptr" where
  "timer_owner s t = the (timer_pcb (timers s t))"

definition timers_ok :: "kernel \<Rightarrow> (headref \<Rightarrow> ptr list) \<Rightarrow> bool" where
  "timers_ok s L \<longleftrightarrow>
     timers_sorted s (L TimerList) \<and> distinct (map (timer_owner s) (L TimerList)) \<and>
     (\<forall>t\<in>set (L TimerList). timer_pcb (timers s t) \<noteq> None \<and> timer_owner s t \<in> set (L WaitingList))"

text \<open>Writing to the contents of structures keeps the running process outside the lists.\<close>

lemma sched_wf_simps [simp]:
  "sched_wf (s\<lparr>pcbs := a\<rparr>) L F r = sched_wf s L F r"
  "sched_wf (s\<lparr>pcb_ptrs := b\<rparr>) L F r = sched_wf s L F r"
  "sched_wf (s\<lparr>timers := c\<rparr>) L F r = sched_wf s L F r"
  "sched_wf (s\<lparr>resources := d\<rparr>) L F r = sched_wf s L F r"
  "sched_wf (s\<lparr>descs := e\<rparr>) L F r = sched_wf s L F r"
  "sched_wf (s\<lparr>desc_ptrs := f\<rparr>) L F r = sched_wf s L F r"
  "sched_wf (s\<lparr>sems := g\<rparr>) L F r = sched_wf s L F r"
  "sched_wf (s\<lparr>mqs := h\<rparr>) L F r = sched_wf s L F r"
  "sched_wf (s\<lparr>queue_priority := i\<rparr>) L F r = sched_wf s L F r"
  "sched_wf (s\<lparr>msgs := j\<rparr>) L F r = sched_wf s L F r"
  "sched_wf (s\<lparr>init_pcb := k\<rparr>) L F r = sched_wf s L F r"
  "sched_wf (s\<lparr>last_pid := l\<rparr>) L F r = sched_wf s L F r"
  "sched_wf (s\<lparr>disastrOS_time := l\<rparr>) L F r = sched_wf s L F r"
  "sched_wf (s\<lparr>shutdown_now := l\<rparr>) L F r = sched_wf s L F r"
  "sched_wf (s\<lparr>umem := m\<rparr>) L F r = sched_wf s L F r"
  by (simp_all add: sched_wf_def)

lemma timers_ok_time [simp]: "timers_ok (s\<lparr>disastrOS_time := t\<rparr>) L = timers_ok s L"
proof -
  have "wake_time (s\<lparr>disastrOS_time := t\<rparr>) = wake_time s" "timer_owner (s\<lparr>disastrOS_time := t\<rparr>) = timer_owner s"
    by (simp_all add: fun_eq_iff wake_time_def timer_owner_def)
  then show ?thesis by (simp add: timers_ok_def timers_sorted_def)
qed

definition elapsed_timers :: "kernel \<Rightarrow> (headref \<Rightarrow> ptr list) \<Rightarrow> ptr list" where
  "elapsed_timers s L = takeWhile (\<lambda>t. wake_time s t \<le> disastrOS_time s) (L TimerList)"

definition pending_timers :: "kernel \<Rightarrow> (headref \<Rightarrow> ptr list) \<Rightarrow> ptr list" where
  "pending_timers s L = dropWhile (\<lambda>t. wake_time s t \<le> disastrOS_time s) (L TimerList)"

definition woken_pcbs :: "kernel \<Rightarrow> (headref \<Rightarrow> ptr list) \<Rightarrow> ptr list" where
  "woken_pcbs s L = map (timer_owner s) (elapsed_timers s L)"

definition awake_lists :: "kernel \<Rightarrow> (headref \<Rightarrow> ptr list) \<Rightarrow> (headref \<Rightarrow> ptr list)" where
  "awake_lists s L =
     L(TimerList := pending_timers s L,
       WaitingList := filter (\<lambda>p. p \<notin> set (woken_pcbs s L)) (L WaitingList),
       ReadyList := woken_pcbs s L @ L ReadyList)"

definition awake_free :: "kernel \<Rightarrow> (headref \<Rightarrow> ptr list) \<Rightarrow> (kind \<Rightarrow> int list) \<Rightarrow> (kind \<Rightarrow> int list)" where
  "awake_free s L F = F(KTimerItem := rev (map idx_of (elapsed_timers s L)) @ F KTimerItem)"

definition awake_contents :: "kernel \<Rightarrow> (headref \<Rightarrow> ptr list) \<Rightarrow> kernel" where
  "awake_contents s L =
     s\<lparr>pcbs := \<lambda>p. if p \<in> set (woken_pcbs s L) then woken (pcbs s p) else pcbs s p\<rparr>"

text \<open>In the sorted list the elapsed timers are exactly those whose time has come.\<close>

lemma elapsed_timers_set:
  assumes "timers_sorted s (L TimerList)"
  shows "set (elapsed_timers s L) = {t \<in> set (L TimerList). wake_time s t \<le> disastrOS_time s}"
    "set (pending_timers s L) = {t \<in> set (L TimerList). disastrOS_time s < wake_time s t}"
proof -
  have split: "elapsed_timers s L @ pending_timers s L = L TimerList"
    by (simp add: elapsed_timers_def pending_timers_def)
  have 1: "\<forall>t\<in>set (elapsed_timers s L). wake_time s t \<le> disastrOS_time s"
    by (auto simp: elapsed_timers_def dest: set_takeWhileD)
  have 2: "\<forall>t\<in>set (pending_timers s L). disastrOS_time s < wake_time s t"
    using sorted_dropWhile_bound [of "wake_time s" "L TimerList"] assms
    unfolding pending_timers_def timers_sorted_def by blast
  have "set (L TimerList) = set (elapsed_timers s L) \<union> set (pending_timers s L)"
    by (metis split set_append)
  with 1 2 show "set (elapsed_timers s L) = {t \<in> set (L TimerList). wake_time s t \<le> disastrOS_time s}"
    "set (pending_timers s L) = {t \<in> set (L TimerList). disastrOS_time s < wake_time s t}"
    by fastforce+
qed

lemma wake_all_wf:
  assumes run: "sched_wf s L F r" and ok: "timers_ok s L"
  shows "\<exists>s'. wake_loop None s = Some (Inr s') \<and> sched_wf s' (awake_lists s L) (awake_free s L F) r \<and>
    kernel_frame (awake_contents s L) s'"
proof -
  let ?ts = "elapsed_timers s L" and ?us = "pending_timers s L" and ?ps = "woken_pcbs s L"
  note wf = sched_wfD(1) [OF run]
  have split: "L TimerList = ?ts @ ?us" by (simp add: elapsed_timers_def pending_timers_def)
  have el: "\<And>t. t \<in> set ?ts \<Longrightarrow> wake_time s t \<le> disastrOS_time s"
    by (auto simp: elapsed_timers_def dest: set_takeWhileD)
  have rest: "?us = [] \<or> disastrOS_time s < wake_time s (hd ?us)"
    unfolding pending_timers_def by (metis hd_dropWhile not_le)
  have owners: "timer_pcb (timers s t) = Some (timer_owner s t)" "timer_owner s t \<in> set (L WaitingList)"
    if "t \<in> set ?ts" for t
    using that ok split by (auto simp: timers_ok_def timer_owner_def)
  have ps: "map (\<lambda>t. timer_pcb (timers s t)) ?ts = map Some ?ps" "set ?ps \<subseteq> set (L WaitingList)"
    using owners by (auto simp: woken_pcbs_def)
  have "distinct (map (timer_owner s) (?ts @ ?us))" using ok split by (simp add: timers_ok_def)
  then have dist: "distinct ?ps" by (simp add: woken_pcbs_def)
  have ready: "L ReadyList = [] @ L ReadyList" by simp
  obtain s' where s': "wake_loop (last_of [] None) s = Some (Inr s')"
    "kernel_wf s' (L(TimerList := ?us, WaitingList := filter (\<lambda>p. p \<notin> set ?ps) (L WaitingList),
        ReadyList := [] @ ?ps @ L ReadyList)) (F(KTimerItem := rev (map idx_of ?ts) @ F KTimerItem))"
    "kernel_frame (s\<lparr>pcbs := \<lambda>p. if p \<in> set ?ps then woken (pcbs s p) else pcbs s p\<rparr>) s'"
    "\<forall>q. live s F q \<longrightarrow> q \<notin> set ?ts \<longrightarrow> live s' (F(KTimerItem := rev (map idx_of ?ts) @ F KTimerItem)) q"
    "\<forall>q. \<not> listed L q \<longrightarrow> unlinked s' q = unlinked s q"
    using wake_loop_wf [OF wf split ready el rest ps(1) dist ps(2)] by blast
  note r = sched_wfD [OF run]
  have "\<not> listed (awake_lists s L) r"
  proof -
    have "set ?us \<subseteq> set (L TimerList)" by (simp add: split)
    then have "set (awake_lists s L h) \<subseteq> (\<Union>g. set (L g))" for h
      using ps(2) by (cases h) (auto simp: awake_lists_def)
    with r(5) show ?thesis by (force simp: listed_def)
  qed
  moreover have "r \<notin> set ?ts" using r(5) split by (metis not_listedD Un_iff set_append)
  ultimately have "sched_wf s' (awake_lists s L) (awake_free s L F) r"
    using s'(2-5) r by (simp add: sched_wf_def fresh_block_def awake_lists_def awake_free_def kernel_frame_def)
  with s'(1,3) show ?thesis by (auto simp: awake_contents_def)
qed

lemma rotate_ready_wf:
  assumes run: "sched_wf s L F r" and L: "L ReadyList = n # q"
  shows "\<exists>s'. rotate_ready s = Inr s' \<and> sched_wf s' (L(ReadyList := q @ [r])) F n \<and>
    kernel_frame ((set_status n Running (set_status r Ready s))\<lparr>running := Some n\<rparr>) s'"
proof -
  note r = sched_wfD [OF run]
  obtain s1 where s1: "List_detach ReadyList (list_first ReadyList s) s = Inr (Some n, s1)"
    "kernel_wf s1 (L(ReadyList := q)) F" "lists_only s s1" "unlinked s1 n" "\<not> listed (L(ReadyList := q)) n"
    "kind_of n = KPCB" "live s1 F n" "\<forall>p. \<not> listed L p \<longrightarrow> unlinked s1 p = unlinked s p"
    using wf_dequeue [OF r(1) L] by auto
  have run1: "running s1 = Some r" "pcbs s1 = pcbs s" "live s1 F r = live s F r"
    using lists_only_fields [OF s1(3)] r(2) by (simp_all add: live_def)
  have nr: "n \<noteq> r" using not_listedD [OF r(5), of ReadyList] L by auto
  let ?s2 = "set_status r Ready s1"
  have "\<not> listed (L(ReadyList := q)) r"
    using r(5) not_listedD [OF r(5), of ReadyList] L by (auto simp: listed_def split: if_splits)
  then have r2: "kernel_wf ?s2 (L(ReadyList := q)) F" "fresh_block ?s2 (L(ReadyList := q)) F r"
    using s1 r run1 by (simp_all add: fresh_block_def set_status_def upd_pcb_def)
  have n2: "fresh_block ?s2 (L(ReadyList := q)) F n"
    using s1 by (simp add: fresh_block_def set_status_def upd_pcb_def)
  obtain s3 where s3: "List_insert ReadyList (list_last ReadyList ?s2) (Some r) ?s2 = Inr (Some r, s3)"
    "kernel_wf s3 (L(ReadyList := q @ [r])) F" "lists_only ?s2 s3"
    "\<forall>p. \<not> listed (L(ReadyList := q)) p \<longrightarrow> p \<noteq> r \<longrightarrow> unlinked s3 p = unlinked ?s2 p"
    using wf_enqueue_fresh [OF r2, of ReadyList] r(3) by auto
  have n3: "fresh_block s3 ((L(ReadyList := q))(ReadyList := (L(ReadyList := q)) ReadyList @ [r])) F n"
    by (rule fresh_block_linked [OF n2 nr s3(3)]) (use s3(4) in blast)
  have "rotate_ready s = Inr ((set_status n Running s3)\<lparr>running := Some n\<rparr>)"
    using L r(3) s1(6)
    by (simp add: rotate_ready_def wf_list_first [OF r(1)] s1(1) [simplified wf_list_first [OF r(1)] L first_of_simps]
        run1 Let_def s3(1))
  moreover have "sched_wf ((set_status n Running s3)\<lparr>running := Some n\<rparr>) (L(ReadyList := q @ [r])) F n"
    using s3(2) n3 s1(6) by (simp add: sched_wf_def set_status_def upd_pcb_def fresh_block_def)
  moreover have "kernel_frame ((set_status n Running (set_status r Ready s))\<lparr>running := Some n\<rparr>)
      ((set_status n Running s3)\<lparr>running := Some n\<rparr>)"
    using lists_only_frame [OF s1(3)] lists_only_frame [OF s3(3)]
    by (simp add: kernel_frame_def set_status_def upd_pcb_def)
  ultimately show ?thesis by blast
qed

lemma rotate_ready_empty:
  assumes "sched_wf s L F r" and "L ReadyList = []"
  shows "rotate_ready s = Inr s"
  using assms by (simp add: rotate_ready_def wf_list_first [OF sched_wfD(1)])

text \<open>The timers of a state are fine when they were, and the waiting processes are still there.\<close>

lemma timers_ok_cong:
  assumes "timers_ok s L" and "timers s' = timers s" and "L' TimerList = L TimerList"
    and "set (L WaitingList) \<subseteq> set (L' WaitingList)"
  shows "timers_ok s' L'"
proof -
  have "wake_time s' = wake_time s" "timer_owner s' = timer_owner s"
    using assms(2) by (simp_all add: wake_time_def timer_owner_def fun_eq_iff)
  with assms show ?thesis by (auto simp: timers_ok_def timers_sorted_def)
qed

lemma timers_ok_awake:
  assumes "timers_ok s L" and "timers s' = timers s"
  shows "timers_ok s' (awake_lists s L)"
proof -
  let ?ts = "elapsed_timers s L" and ?us = "pending_timers s L"
  have same: "wake_time s' = wake_time s" "timer_owner s' = timer_owner s"
    using assms(2) by (simp_all add: wake_time_def timer_owner_def fun_eq_iff)
  have split: "L TimerList = ?ts @ ?us" by (simp add: elapsed_timers_def pending_timers_def)
  have "timer_owner s t \<notin> set (woken_pcbs s L)" if "t \<in> set ?us" for t
    using assms(1) that by (auto simp: timers_ok_def split woken_pcbs_def image_iff)
  with assms show ?thesis
    by (auto simp: timers_ok_def awake_lists_def same split timers_sorted_def sorted_append)
qed

lemma schedule_wf:
  assumes run: "sched_wf s L F r" and ok: "timers_ok s L"
    and Q: "woken_pcbs s L @ L ReadyList = n # q"
  shows "\<exists>s'. internal_schedule s = Inr s' \<and>
    sched_wf s' ((awake_lists s L)(ReadyList := q @ [r])) (awake_free s L F) n \<and>
    timers_ok s' ((awake_lists s L)(ReadyList := q @ [r])) \<and>
    kernel_frame ((set_status n Running (set_status r Ready (awake_contents s L)))\<lparr>running := Some n\<rparr>) s'"
proof -
  obtain s1 where s1: "wake_loop None s = Some (Inr s1)"
    "sched_wf s1 (awake_lists s L) (awake_free s L F) r" "kernel_frame (awake_contents s L) s1"
    using wake_all_wf [OF run ok] by blast
  have "awake_lists s L ReadyList = n # q" using Q by (simp add: awake_lists_def)
  then obtain s2 where s2: "rotate_ready s1 = Inr s2"
    "sched_wf s2 ((awake_lists s L)(ReadyList := q @ [r])) (awake_free s L F) n"
    "kernel_frame ((set_status n Running (set_status r Ready s1))\<lparr>running := Some n\<rparr>) s2"
    using rotate_ready_wf [OF s1(2)] by blast
  have "timers s2 = timers s"
    using s1(3) s2(3) by (simp add: kernel_frame_def awake_contents_def set_status_def upd_pcb_def)
  then have "timers_ok s2 ((awake_lists s L)(ReadyList := q @ [r]))"
    using timers_ok_cong [OF timers_ok_awake [OF ok, of s2], of s2] by simp
  moreover have "kernel_frame ((set_status n Running (set_status r Ready (awake_contents s L)))\<lparr>running := Some n\<rparr>) s2"
    using s1(3) s2(3) by (simp add: kernel_frame_def set_status_def upd_pcb_def)
  ultimately show ?thesis using s1(1) s2(1,2) by (simp add: internal_schedule_def)
qed

lemma schedule_alone:
  assumes run: "sched_wf s L F r" and ok: "timers_ok s L"
    and Q: "woken_pcbs s L @ L ReadyList = []"
  shows "internal_schedule s = Inr s"
proof -
  have "elapsed_timers s L = []" using Q by (simp add: woken_pcbs_def)
  then have "L TimerList = [] \<or> \<not> wake_time s (hd (L TimerList)) \<le> disastrOS_time s"
    by (cases "L TimerList") (auto simp: elapsed_timers_def split: if_splits)
  then have "TimerList_current TimerList (disastrOS_time s) s = Inr None"
    using TimerList_current_wf [OF sched_wfD(1) [OF run], of TimerList] by (cases "L TimerList") auto
  then have "wake_loop None s = Some (Inr s)" by (simp add: wake_loop.simps)
  with Q show ?thesis by (simp add: internal_schedule_def rotate_ready_empty [OF run])
qed

section \<open>Sleeping\<close>

definition asleep_lists :: "kernel \<Rightarrow> ptr \<Rightarrow> int \<Rightarrow> ptr \<Rightarrow> (headref \<Rightarrow> ptr list) \<Rightarrow> (headref \<Rightarrow> ptr list)" where
  "asleep_lists s r t n L =
     L(TimerList := add_timer s t n (L TimerList), WaitingList := L WaitingList @ [r])"

definition asleep_contents :: "ptr \<Rightarrow> int \<Rightarrow> ptr \<Rightarrow> kernel \<Rightarrow> kernel" where
  "asleep_contents r t n s =
     set_status r Waiting (s\<lparr>timers := (timers s)(n := \<lparr>timer_awakening_time = t, timer_pcb = Some r\<rparr>)\<rparr>)"

lemma timers_ok_add:
  assumes ok: "timers_ok s L" and n: "n \<notin> set (L TimerList)" and r: "r \<notin> set (L WaitingList)"
    and s': "timers s' = (timers s)(n := \<lparr>timer_awakening_time = t, timer_pcb = Some r\<rparr>)"
    and L': "L' TimerList = add_timer s t n (L TimerList)"
      "set (L' WaitingList) = insert r (set (L WaitingList))"
  shows "timers_ok s' L'"
proof -
  have old: "wake_time s' p = wake_time s p" "timer_owner s' p = timer_owner s p"
    "timer_pcb (timers s' p) = timer_pcb (timers s p)"
    if "p \<in> set (L TimerList)" for p
    using that n s' by (auto simp: wake_time_def timer_owner_def)
  have new: "wake_time s' n = t" "timer_owner s' n = r" "timer_pcb (timers s' n) = Some r"
    by (simp_all add: wake_time_def timer_owner_def s')
  have "timers_sorted s' (L' TimerList)"
    unfolding L' by (rule add_timer_sorted [OF _ n old(1) new(1)]) (use ok in \<open>auto simp: timers_ok_def\<close>)
  moreover have "distinct (map (timer_owner s') (L' TimerList))"
  proof -
    let ?P = "\<lambda>p. wake_time s p \<le> t"
    let ?a = "map (timer_owner s') (takeWhile ?P (L TimerList))"
    let ?b = "map (timer_owner s') (dropWhile ?P (L TimerList))"
    have "?a @ ?b = map (timer_owner s) (L TimerList)"
      using old(2) by (metis map_append map_cong takeWhile_dropWhile_id)
    moreover have "r \<notin> set (map (timer_owner s) (L TimerList))" "distinct (map (timer_owner s) (L TimerList))"
      using ok r by (auto simp: timers_ok_def)
    ultimately have "distinct (?a @ ?b)" "r \<notin> set (?a @ ?b)" by simp_all
    then have "distinct (?a @ r # ?b)" by auto
    then show ?thesis by (simp add: L' add_timer_def new)
  qed
  ultimately show ?thesis
    using ok old new by (auto simp: timers_ok_def L' add_timer_set)
qed

lemma sleep_wf:
  assumes run: "sched_wf s L F r" and ok: "timers_ok s L" and no: "pcb_timer (pcbs s r) = None"
    and F: "F KTimerItem = i # is" and rng: "int32_range (disastrOS_time s + int_arg r 0 s)"
  defines "t \<equiv> disastrOS_time s + int_arg r 0 s" and "n \<equiv> Ptr KTimerItem i"
  shows "\<exists>s1. internal_sleep s =
      (if list_first ReadyList s1 \<noteq> None
       then andThen (List_detach ReadyList (list_first ReadyList s1) s1) (\<lambda>(p, s2). Inr (s2\<lparr>running := p\<rparr>))
       else andThen (disastrOS_printStatus (s1\<lparr>running := None\<rparr>)) (\<lambda>_. Inr (s1\<lparr>running := None\<rparr>))) \<and>
    kernel_wf s1 (asleep_lists s r t n L) (F(KTimerItem := is)) \<and>
    timers_ok s1 (asleep_lists s r t n L) \<and> kernel_frame (asleep_contents r t n s) s1"
proof -
  note r = sched_wfD [OF run]
  let ?F = "F(KTimerItem := is)" and ?L1 = "L(TimerList := add_timer s t n (L TimerList))"
  obtain s1 where s1: "TimerList_add TimerList t (Some r) s = Inr (Some n, s1)" "kernel_wf s1 ?L1 ?F"
    "kernel_frame (s\<lparr>timers := (timers s)(n := \<lparr>timer_awakening_time = t, timer_pcb = Some r\<rparr>)\<rparr>) s1"
    "\<forall>p. live s F p \<longrightarrow> p \<noteq> n \<and> live s1 ?F p" "\<forall>p. p \<noteq> n \<longrightarrow> \<not> listed L p \<longrightarrow> unlinked s1 p = unlinked s p"
    using TimerList_add_wf [OF r(1), of TimerList i "is" t "Some r"] F unfolding n_def by auto
  have rn: "r \<noteq> n" using s1(4) r(7) by blast
  have nn: "n \<notin> set (L TimerList)" using kernel_wf_live [OF r(1)] s1(4) by blast
  let ?s2 = "set_status r Waiting s1"
  have "\<not> listed ?L1 r"
    using r(5) rn not_listedD [OF r(5), of TimerList] by (auto simp: listed_def add_timer_set split: if_splits)
  then have 2: "kernel_wf ?s2 ?L1 ?F" "fresh_block ?s2 ?L1 ?F r"
    using s1 r rn by (simp_all add: fresh_block_def set_status_def upd_pcb_def)
  obtain s3 where s3: "List_insert WaitingList (list_last WaitingList ?s2) (Some r) ?s2 = Inr (Some r, s3)"
    "kernel_wf s3 (?L1(WaitingList := L WaitingList @ [r])) ?F" "lists_only ?s2 s3"
    using wf_enqueue_fresh [OF 2, of WaitingList] r(3) by auto
  have "internal_sleep s = (if list_first ReadyList s3 \<noteq> None
       then andThen (List_detach ReadyList (list_first ReadyList s3) s3) (\<lambda>(p, s2). Inr (s2\<lparr>running := p\<rparr>))
       else andThen (disastrOS_printStatus (s3\<lparr>running := None\<rparr>)) (\<lambda>_. Inr (s3\<lparr>running := None\<rparr>)))"
    using rng no r(3) by (simp add: internal_sleep_def r(2) s1(1) [unfolded t_def] s3(1) Let_def t_def)
  moreover have fr: "kernel_frame (asleep_contents r t n s) s3"
    using s1(3) lists_only_frame [OF s3(3)]
    by (simp add: kernel_frame_def asleep_contents_def set_status_def upd_pcb_def)
  moreover have "timers_ok s3 (asleep_lists s r t n L)"
    by (rule timers_ok_add [OF ok nn, of r s3 t])
      (use not_listedD [OF r(5)] fr in \<open>simp_all add: asleep_lists_def kernel_frame_def asleep_contents_def
        set_status_def upd_pcb_def\<close>)
  ultimately show ?thesis using s3(2) unfolding asleep_lists_def by blast
qed

text \<open>Handing the processor to the first ready process.\<close>

lemma run_next_wf:
  assumes wf: "kernel_wf s L F" and L: "L ReadyList = p # q"
  shows "\<exists>s1. List_detach ReadyList (list_first ReadyList s) s = Inr (Some p, s1) \<and> kind_of p = KPCB \<and>
    sched_wf (s1\<lparr>running := Some p\<rparr>) (L(ReadyList := q)) F p \<and> lists_only s s1"
  using wf_dequeue [OF wf L] by (auto simp: sched_wf_def fresh_block_def)

lemma sleep_next:
  assumes run: "sched_wf s L F r" and ok: "timers_ok s L" and no: "pcb_timer (pcbs s r) = None"
    and F: "F KTimerItem = i # is" and rng: "int32_range (disastrOS_time s + int_arg r 0 s)"
    and L: "L ReadyList = p # q"
  defines "t \<equiv> disastrOS_time s + int_arg r 0 s" and "n \<equiv> Ptr KTimerItem i"
  shows "\<exists>s'. internal_sleep s = Inr s' \<and>
    sched_wf s' ((asleep_lists s r t n L)(ReadyList := q)) (F(KTimerItem := is)) p \<and>
    timers_ok s' ((asleep_lists s r t n L)(ReadyList := q)) \<and>
    kernel_frame ((asleep_contents r t n s)\<lparr>running := Some p\<rparr>) s'"
proof -
  obtain s1 where s1: "internal_sleep s = (if list_first ReadyList s1 \<noteq> None
       then andThen (List_detach ReadyList (list_first ReadyList s1) s1) (\<lambda>(p, s2). Inr (s2\<lparr>running := p\<rparr>))
       else andThen (disastrOS_printStatus (s1\<lparr>running := None\<rparr>)) (\<lambda>_. Inr (s1\<lparr>running := None\<rparr>)))"
    "kernel_wf s1 (asleep_lists s r t n L) (F(KTimerItem := is))"
    "timers_ok s1 (asleep_lists s r t n L)" "kernel_frame (asleep_contents r t n s) s1"
    using sleep_wf [OF run ok no F rng] unfolding t_def n_def by blast
  have "asleep_lists s r t n L ReadyList = p # q" using L by (simp add: asleep_lists_def)
  then obtain s2 where s2: "List_detach ReadyList (list_first ReadyList s1) s1 = Inr (Some p, s2)"
    "sched_wf (s2\<lparr>running := Some p\<rparr>) ((asleep_lists s r t n L)(ReadyList := q)) (F(KTimerItem := is)) p"
    "lists_only s1 s2" "list_first ReadyList s1 = Some p"
    using run_next_wf [OF s1(2)] wf_list_first [OF s1(2), of ReadyList] by auto
  have "timers_ok (s2\<lparr>running := Some p\<rparr>) ((asleep_lists s r t n L)(ReadyList := q))"
    by (rule timers_ok_cong [OF s1(3)]) (simp_all add: lists_only_fields [OF s2(3)])
  then show ?thesis
    using s1(1,4) s2 lists_only_frame [OF s2(3)] by (auto simp: kernel_frame_def)
qed

text \<open>When nobody is ready the last process to fall asleep leaves the machine without one.\<close>

lemma sleep_last:
  assumes run: "sched_wf s L F r" and ok: "timers_ok s L" and no: "pcb_timer (pcbs s r) = None"
    and F: "F KTimerItem = i # is" and rng: "int32_range (disastrOS_time s + int_arg r 0 s)"
    and L: "L ReadyList = []"
  defines "t \<equiv> disastrOS_time s + int_arg r 0 s" and "n \<equiv> Ptr KTimerItem i"
  shows "\<exists>s'. internal_sleep s = andThen (disastrOS_printStatus s') (\<lambda>_. Inr s') \<and> running s' = None \<and>
    kernel_wf s' (asleep_lists s r t n L) (F(KTimerItem := is)) \<and> timers_ok s' (asleep_lists s r t n L) \<and>
    kernel_frame ((asleep_contents r t n s)\<lparr>running := None\<rparr>) s'"
proof -
  obtain s1 where s1: "internal_sleep s = (if list_first ReadyList s1 \<noteq> None
       then andThen (List_detach ReadyList (list_first ReadyList s1) s1) (\<lambda>(p, s2). Inr (s2\<lparr>running := p\<rparr>))
       else andThen (disastrOS_printStatus (s1\<lparr>running := None\<rparr>)) (\<lambda>_. Inr (s1\<lparr>running := None\<rparr>)))"
    "kernel_wf s1 (asleep_lists s r t n L) (F(KTimerItem := is))" "timers_ok s1 (asleep_lists s r t n L)"
    "kernel_frame (asleep_contents r t n s) s1"
    using sleep_wf [OF run ok no F rng] unfolding t_def n_def by blast
  have "list_first ReadyList s1 = None"
    using L by (simp add: wf_list_first [OF s1(2)]) (simp add: asleep_lists_def)
  moreover have "timers_ok (s1\<lparr>running := None\<rparr>) (asleep_lists s r t n L)" by (rule timers_ok_cong [OF s1(3)]) simp_all
  ultimately show ?thesis using s1 by (intro exI [of _ "s1\<lparr>running := None\<rparr>"]) (simp add: kernel_frame_def)
qed

lemma sleep_refused:
  assumes run: "sched_wf s L F r" and no: "pcb_timer (pcbs s r) = None"
    and F: "F KTimerItem = []" and rng: "int32_range (disastrOS_time s + int_arg r 0 s)"
  shows "internal_sleep s = Inr (set_retvalue r DSOS_ESLEEP s)"
  using sched_wfD(2,3) [OF run] no rng TimerList_add_exhausted [OF sched_wfD(1) [OF run], of TimerList] F
  by (simp add: internal_sleep_def Let_def)

section \<open>New processes\<close>

definition new_pcb :: "int \<Rightarrow> PCB \<Rightarrow> PCB" where
  "new_pcb pid c = c\<lparr>pcb_pid := pid, pcb_return_value := 0, pcb_status := Invalid, pcb_last_fd := 0,
     pcb_signals := 0, pcb_signals_mask := -1, pcb_parent := None, pcb_timer := None,
     pcb_last_sem_fd := 0, pcb_last_mq_fd := 0\<rparr>"

text \<open>The semaphore descriptors are missing here: the new process has those the block had before.\<close>

definition new_pcb_lists :: "ptr \<Rightarrow> (headref \<Rightarrow> ptr list) \<Rightarrow> (headref \<Rightarrow> ptr list)" where
  "new_pcb_lists p L = L(PcbDescriptors p := [], PcbChildren p := [], PcbMqDescriptors p := [])"

lemma List_init_unlinked [simp]: "unlinked (List_init h s) p = unlinked s p"
  by (simp add: unlinked_def List_init_def set_defs)

lemma List_init_live [simp]: "live (List_init h s) F p = live s F p"
  by (simp add: live_def List_init_def set_defs)

lemma full_mask: "to_int32 0xFFFFFFFF = -1"
  by (simp add: to_int32_def signed_take_bit_eq_if_negative mask_eq_exp_minus_1)

lemma PCB_alloc_wf:
  assumes wf: "kernel_wf s L F" and F: "F KPCB = i # is" and rng: "int32_range (last_pid s + 1)"
  defines "n \<equiv> Ptr KPCB i"
  shows "\<exists>s'. PCB_alloc s = Inr (Some n, s') \<and> kernel_wf s' (new_pcb_lists n L) (F(KPCB := is)) \<and>
    fresh_block s' (new_pcb_lists n L) (F(KPCB := is)) n \<and>
    kernel_frame (s\<lparr>pcbs := (pcbs s)(n := new_pcb (last_pid s) (pcbs s n)), last_pid := last_pid s + 1\<rparr>) s' \<and>
    (\<forall>p. live s F p \<longrightarrow> p \<noteq> n \<and> live s' (F(KPCB := is)) p) \<and>
    (\<forall>p. p \<noteq> n \<longrightarrow> unlinked s' p = unlinked s p)"
proof -
  obtain s1 where a: "alloc_block KPCB s = Inr (Some n, s1)"
    "kernel_wf (clear_links n s1) L (F(KPCB := is))" "fresh_block (clear_links n s1) L (F(KPCB := is)) n"
    "kernel_frame s (clear_links n s1)"
    "\<forall>p. live s F p \<longrightarrow> p \<noteq> n \<and> live (clear_links n s1) (F(KPCB := is)) p"
    "\<forall>p. p \<noteq> n \<longrightarrow> unlinked (clear_links n s1) p = unlinked s p"
    using wf_new [OF wf F] unfolding n_def by blast
  have k: "kind_of n = KPCB" by (simp add: n_def)
  obtain s' where s': "PCB_alloc s = Inr (Some n, s')" and
    e: "s' = List_init (PcbMqDescriptors n) (upd_pcb n (\<lambda>c. c\<lparr>pcb_last_mq_fd := 0\<rparr>)
       (List_init (PcbDescriptors n) (upd_pcb n (\<lambda>c. c\<lparr>pcb_last_sem_fd := 0\<rparr>)
       (List_init (PcbChildren n) (upd_pcb n (\<lambda>c. c\<lparr>pcb_parent := None, pcb_timer := None\<rparr>)
       (List_init (PcbDescriptors n) (upd_pcb n (\<lambda>c. c\<lparr>pcb_return_value := 0, pcb_status := Invalid,
          pcb_last_fd := 0, pcb_signals := 0, pcb_signals_mask := -1\<rparr>)
       ((upd_pcb n (\<lambda>c. c\<lparr>pcb_pid := last_pid s\<rparr>) (clear_links n s1))\<lparr>last_pid := last_pid s + 1\<rparr>))))))))"
    using rng a(4) k by (simp add: PCB_alloc_def a(1) kernel_frame_def upd_pcb_def full_mask Let_def)
  have L: "L(PcbDescriptors n := [], PcbChildren n := [], PcbDescriptors n := [], PcbMqDescriptors n := []) =
      new_pcb_lists n L"
    by (auto simp: new_pcb_lists_def)
  have "kernel_wf s' (L(PcbDescriptors n := [], PcbChildren n := [], PcbDescriptors n := [], PcbMqDescriptors n := []))
      (F(KPCB := is))"
    unfolding e upd_pcb_def by (intro wf_init_list kernel_wf_simps [THEN iffD2]) (use a(2) in simp_all)
  moreover have "fresh_block s' (L(PcbDescriptors n := [], PcbChildren n := [], PcbDescriptors n := [], PcbMqDescriptors n := []))
      (F(KPCB := is)) n"
    unfolding e upd_pcb_def by (intro fresh_block_init_list fresh_block_simps [THEN iffD2]) (use a(3) in simp_all)
  moreover have "kernel_frame (s\<lparr>pcbs := (pcbs s)(n := new_pcb (last_pid s) (pcbs s n)), last_pid := last_pid s + 1\<rparr>) s'"
    using a(4) by (simp add: e kernel_frame_def upd_pcb_def new_pcb_def)
  moreover have "live s' (F(KPCB := is)) p = live (clear_links n s1) (F(KPCB := is)) p"
    "unlinked s' p = unlinked (clear_links n s1) p" for p
    unfolding e upd_pcb_def by simp_all
  ultimately show ?thesis using s' a(5,6) unfolding L by auto
qed

lemma PCBPtr_alloc_wf:
  assumes wf: "kernel_wf s L F" and F: "F KPCBPtr = i # is"
  defines "n \<equiv> Ptr KPCBPtr i"
  shows "\<exists>s'. PCBPtr_alloc d s = Inr (Some n, s') \<and> kernel_wf s' L (F(KPCBPtr := is)) \<and>
    kernel_frame (s\<lparr>pcb_ptrs := (pcb_ptrs s)(n := d)\<rparr>) s' \<and>
    fresh_block s' L (F(KPCBPtr := is)) n \<and>
    (\<forall>p. live s F p \<longrightarrow> p \<noteq> n \<and> live s' (F(KPCBPtr := is)) p) \<and>
    (\<forall>p. p \<noteq> n \<longrightarrow> unlinked s' p = unlinked s p)"
  using wf_new [OF wf F] unfolding n_def
  by (auto simp: PCBPtr_alloc_def kernel_frame_def Let_def)

text \<open>An exhausted pool is not reported: the constructors write through the null pointer.\<close>

lemma PCB_alloc_exhausted:
  "kernel_wf s L F \<Longrightarrow> F KPCB = [] \<Longrightarrow> PCB_alloc s = Inl NullDeref"
  by (simp add: PCB_alloc_def wf_alloc_empty)

lemma PCB_alloc_needs:
  assumes "kernel_wf s L F" and "PCB_alloc s = Inr x"
  shows "int32_range (last_pid s + 1) \<and> F KPCB \<noteq> []"
proof -
  have ne: "F KPCB \<noteq> []" using PCB_alloc_exhausted [OF assms(1)] assms(2) by auto
  then obtain i xs where F: "F KPCB = i # xs" by (cases "F KPCB") auto
  obtain P where "alloc_block KPCB s = Inr (Some (Ptr KPCB i), s\<lparr>pools := P\<rparr>)"
    using wf_alloc [OF assms(1) F] by blast
  then have "PCB_alloc s = Inl SignedOverflow" if "\<not> int32_range (last_pid s + 1)"
    using that by (simp add: PCB_alloc_def checked_int_def Let_def clear_links_def upd_pcb_def List_init_def set_defs)
  then show ?thesis using ne assms(2) by fastforce
qed

lemma PCBPtr_alloc_exhausted:
  "kernel_wf s L F \<Longrightarrow> F KPCBPtr = [] \<Longrightarrow> PCBPtr_alloc d s = Inl NullDeref"
  by (simp add: PCBPtr_alloc_def wf_alloc_empty)

definition child_lists :: "ptr \<Rightarrow> ptr \<Rightarrow> ptr \<Rightarrow> (headref \<Rightarrow> ptr list) \<Rightarrow> (headref \<Rightarrow> ptr list)" where
  "child_lists r n pp L =
     (new_pcb_lists n L)(PcbChildren r := L (PcbChildren r) @ [pp], ReadyList := L ReadyList @ [n])"

definition child_contents :: "ptr \<Rightarrow> ptr \<Rightarrow> ptr \<Rightarrow> kernel \<Rightarrow> kernel" where
  "child_contents r n pp s =
     set_retvalue r (last_pid s)
       (s\<lparr>pcbs := (pcbs s)(n := (new_pcb (last_pid s) (pcbs s n))\<lparr>pcb_status := Ready, pcb_parent := Some r\<rparr>),
          pcb_ptrs := (pcb_ptrs s)(pp := Some n), last_pid := last_pid s + 1\<rparr>)"

lemma make_child_wf:
  assumes run: "sched_wf s L F r" and F: "F KPCB = i # is" "F KPCBPtr = j # js"
    and rng: "int32_range (last_pid s + 1)"
  defines "n \<equiv> Ptr KPCB i" and "pp \<equiv> Ptr KPCBPtr j"
  shows "\<exists>s'. make_child s = Inr (Some n, s') \<and>
    sched_wf s' (child_lists r n pp L) (F(KPCB := is, KPCBPtr := js)) r \<and> n \<noteq> r \<and>
    kernel_frame (child_contents r n pp s) s'"
proof -
  note r = sched_wfD [OF run]
  let ?F1 = "F(KPCB := is)" and ?F2 = "F(KPCB := is, KPCBPtr := js)" and ?L0 = "new_pcb_lists n L"
  obtain s1 where s1: "PCB_alloc s = Inr (Some n, s1)" "kernel_wf s1 ?L0 ?F1" "fresh_block s1 ?L0 ?F1 n"
    "kernel_frame (s\<lparr>pcbs := (pcbs s)(n := new_pcb (last_pid s) (pcbs s n)), last_pid := last_pid s + 1\<rparr>) s1"
    "\<forall>p. live s F p \<longrightarrow> p \<noteq> n \<and> live s1 ?F1 p" "\<forall>p. p \<noteq> n \<longrightarrow> unlinked s1 p = unlinked s p"
    using PCB_alloc_wf [OF r(1) F(1) rng] unfolding n_def by blast
  have nr: "n \<noteq> r" using s1(5) r(7) by blast
  have "\<not> listed ?L0 r" using r(5) by (auto simp: listed_def new_pcb_lists_def)
  then have r1: "fresh_block s1 ?L0 ?F1 r" using s1(5,6) r nr by (auto simp: fresh_block_def)
  have run1: "running s1 = Some r" using s1(4) r(2) by (simp add: kernel_frame_def)
  let ?s2 = "upd_pcb n (\<lambda>c. c\<lparr>pcb_status := Ready, pcb_parent := Some r\<rparr>) s1"
  have 2: "kernel_wf ?s2 ?L0 ?F1" "fresh_block ?s2 ?L0 ?F1 n" "fresh_block ?s2 ?L0 ?F1 r"
    using s1 r1 by (simp_all add: upd_pcb_def)
  have "?F1 KPCBPtr = j # js" using F by simp
  then obtain s3 where s3: "PCBPtr_alloc (Some n) ?s2 = Inr (Some pp, s3)" "kernel_wf s3 ?L0 ?F2"
    "kernel_frame (?s2\<lparr>pcb_ptrs := (pcb_ptrs ?s2)(pp := Some n)\<rparr>) s3" "fresh_block s3 ?L0 ?F2 pp"
    "\<forall>p. live ?s2 ?F1 p \<longrightarrow> p \<noteq> pp \<and> live s3 ?F2 p" "\<forall>p. p \<noteq> pp \<longrightarrow> unlinked s3 p = unlinked ?s2 p"
    using PCBPtr_alloc_wf [OF 2(1)] unfolding pp_def by blast
  have n3: "fresh_block s3 ?L0 ?F2 n" and r3: "fresh_block s3 ?L0 ?F2 r"
    by (rule fresh_block_other [OF 2(2)]; use s3(5,6) in blast)
      (rule fresh_block_other [OF 2(3)]; use s3(5,6) in blast)
  have kinds: "kind_of pp = KPCBPtr" "kind_of n = KPCB" "n \<noteq> pp" "r \<noteq> pp"
    using r(3) by (auto simp: n_def pp_def)
  let ?L1 = "?L0(PcbChildren r := ?L0 (PcbChildren r) @ [pp])"
  obtain s4 where s4: "List_insert (PcbChildren r) (list_last (PcbChildren r) s3) (Some pp) s3 = Inr (Some pp, s4)"
    "kernel_wf s4 ?L1 ?F2" "lists_only s3 s4" "\<forall>p. \<not> listed ?L0 p \<longrightarrow> p \<noteq> pp \<longrightarrow> unlinked s4 p = unlinked s3 p"
    using wf_enqueue_fresh [OF s3(2,4), of "PcbChildren r"] kinds(1) by auto
  have n4: "fresh_block s4 ?L1 ?F2 n" and r4: "fresh_block s4 ?L1 ?F2 r"
    by (rule fresh_block_linked [OF n3 kinds(3) s4(3)]; use s4(4) in blast)
      (rule fresh_block_linked [OF r3 kinds(4) s4(3)]; use s4(4) in blast)
  let ?L2 = "?L1(ReadyList := ?L1 ReadyList @ [n])"
  obtain s5 where s5: "List_insert ReadyList (list_last ReadyList s4) (Some n) s4 = Inr (Some n, s5)"
    "kernel_wf s5 ?L2 ?F2" "lists_only s4 s5" "\<forall>p. \<not> listed ?L1 p \<longrightarrow> p \<noteq> n \<longrightarrow> unlinked s5 p = unlinked s4 p"
    using wf_enqueue_fresh [OF s4(2) n4, of ReadyList] kinds(2) by auto
  have r5: "fresh_block s5 ?L2 ?F2 r"
    by (rule fresh_block_linked [OF r4 nr [symmetric] s5(3)]) (use s5(4) in blast)
  have L: "?L2 = child_lists r n pp L"
    using nr by (auto simp: child_lists_def new_pcb_lists_def)
  note fr = s1(4) s3(3) lists_only_frame [OF s4(3)] lists_only_frame [OF s5(3)]
  have pid: "pcb_pid (pcbs s5 n) = last_pid s"
    using fr by (simp add: kernel_frame_def upd_pcb_def new_pcb_def)
  have run3: "running s3 = Some r" using fr run1 by (simp add: kernel_frame_def upd_pcb_def)
  have "make_child s = Inr (Some n, set_retvalue r (last_pid s) s5)"
    using r(3) by (simp add: make_child_def s1(1) run1 s3(1) run3 s4(1) s5(1) pid Let_def)
  moreover have "sched_wf (set_retvalue r (last_pid s) s5) (child_lists r n pp L) ?F2 r"
    using s5(2) r5 r(3) run3 lists_only_fields [OF s4(3)] lists_only_fields [OF s5(3)] unfolding L
    by (simp add: sched_wf_def upd_defs)
  moreover have "kernel_frame (child_contents r n pp s) (set_retvalue r (last_pid s) s5)"
    using fr nr by (simp add: kernel_frame_def child_contents_def upd_defs)
  ultimately show ?thesis using nr by blast
qed

text \<open>With one of the two pools used up, the allocation itself dereferences the missing block.\<close>

lemma make_child_full:
  assumes run: "sched_wf s L F r"
    and full: "F KPCB = [] \<or> F KPCB = i # is \<and> F KPCBPtr = [] \<and> int32_range (last_pid s + 1)"
  shows "make_child s = Inl NullDeref"
proof (cases "F KPCB = []")
  case True
  then show ?thesis using PCB_alloc_exhausted [OF sched_wfD(1) [OF run]] by (simp add: make_child_def)
next
  case False
  then have F: "F KPCB = i # is" "F KPCBPtr = []" "int32_range (last_pid s + 1)" using full by auto
  let ?n = "Ptr KPCB i" and ?L = "new_pcb_lists (Ptr KPCB i) L" and ?F = "F(KPCB := is)"
  obtain s1 where s1: "PCB_alloc s = Inr (Some ?n, s1)" "kernel_wf s1 ?L ?F"
    using PCB_alloc_wf [OF sched_wfD(1) [OF run] F(1,3)] by blast
  have "PCBPtr_alloc (Some ?n) (upd_pcb ?n f s1) = Inl NullDeref" for f
    by (rule PCBPtr_alloc_exhausted [where L = ?L and F = ?F]) (use s1(2) F(2) in \<open>simp_all add: upd_pcb_def\<close>)
  then show ?thesis by (simp add: make_child_def s1(1) Let_def)
qed

lemma timers_ok_child:
  assumes "timers_ok s L" and "timers s' = timers s"
  shows "timers_ok s' (child_lists r n pp L)"
  by (rule timers_ok_cong [OF assms]) (simp_all add: child_lists_def new_pcb_lists_def)

lemma fork_wf:
  assumes run: "sched_wf s L F r" and ok: "timers_ok s L" and F: "F KPCB = i # is" "F KPCBPtr = j # js"
    and rng: "int32_range (last_pid s + 1)"
  defines "n \<equiv> Ptr KPCB i" and "pp \<equiv> Ptr KPCBPtr j"
  shows "\<exists>s'. internal_fork s = Inr s' \<and> sched_wf s' (child_lists r n pp L) (F(KPCB := is, KPCBPtr := js)) r \<and>
    timers_ok s' (child_lists r n pp L) \<and> kernel_frame (child_contents r n pp s) s'"
proof -
  obtain s1 where s1: "make_child s = Inr (Some n, s1)"
    "sched_wf s1 (child_lists r n pp L) (F(KPCB := is, KPCBPtr := js)) r"
    "kernel_frame (child_contents r n pp s) s1"
    using make_child_wf [OF run F rng] unfolding n_def pp_def by blast
  then have "timers s1 = timers s" by (simp add: kernel_frame_def child_contents_def upd_defs)
  with s1 timers_ok_child [OF ok] show ?thesis by (simp add: internal_fork_def)
qed

lemma spawn_wf:
  assumes run: "sched_wf s L F r" and ok: "timers_ok s L" and F: "F KPCB = i # is" "F KPCBPtr = j # js"
    and rng: "int32_range (last_pid s + 1)"
  defines "n \<equiv> Ptr KPCB i" and "pp \<equiv> Ptr KPCBPtr j"
  shows "\<exists>s'. internal_spawn s = Inr s' \<and> sched_wf s' (child_lists r n pp L) (F(KPCB := is, KPCBPtr := js)) r \<and>
    timers_ok s' (child_lists r n pp L) \<and>
    kernel_frame (upd_pcb n (\<lambda>c. c\<lparr>pcb_cpu_entry := Some (syscall_arg r 0 s, syscall_arg r 1 s)\<rparr>)
      (child_contents r n pp s)) s'"
proof -
  obtain s1 where s1: "make_child s = Inr (Some n, s1)"
    "sched_wf s1 (child_lists r n pp L) (F(KPCB := is, KPCBPtr := js)) r" "n \<noteq> r"
    "kernel_frame (child_contents r n pp s) s1"
    using make_child_wf [OF run F rng] unfolding n_def pp_def by blast
  let ?s = "upd_pcb n (\<lambda>c. c\<lparr>pcb_cpu_entry := Some (syscall_arg r 0 s1, syscall_arg r 1 s1)\<rparr>) s1"
  have args: "syscall_arg r k s1 = syscall_arg r k s" for k
    using s1(3,4) by (simp add: kernel_frame_def child_contents_def upd_defs syscall_arg_def)
  have "timers ?s = timers s"
    using s1(4) by (simp add: kernel_frame_def child_contents_def upd_defs)
  then have "timers_ok ?s (child_lists r n pp L)" using timers_ok_child [OF ok] by blast
  moreover have "internal_spawn s = Inr ?s"
    using s1(1) sched_wfD(2,3) [OF s1(2)] by (simp add: internal_spawn_def)
  moreover have "sched_wf ?s (child_lists r n pp L) (F(KPCB := is, KPCBPtr := js)) r"
    using s1(2) by (simp add: sched_wf_def upd_pcb_def)
  moreover have "kernel_frame (upd_pcb n (\<lambda>c. c\<lparr>pcb_cpu_entry := Some (syscall_arg r 0 s, syscall_arg r 1 s)\<rparr>)
      (child_contents r n pp s)) ?s"
    using s1(4) by (simp add: kernel_frame_def upd_pcb_def args)
  ultimately show ?thesis by blast
qed

end
