(* ===== verification/ExitWait.thy ===== *)
theory ExitWait
  imports Process
begin

text \<open>
  The end of processes: the system calls wait (\<^verbatim>\<open>src/disastrOS_wait.c\<close>) and exit
  (\<^verbatim>\<open>src/disastrOS_exit.c\<close>), and the shutdown. A process that exits leaves its
  children to the init process and becomes a zombie; it is freed by the parent that waits for it,
  either in exit, when the parent is waiting already, or in wait.
\<close>

section \<open>Waiting for a child\<close>

text \<open>
  The search of wait: unlike the other searches it is left with the last child in hand when
  nothing matches. Items are paired with the process they lead to.
\<close>

partial_function (option) wait_scan ::
  "('p \<Rightarrow> fault + ('q \<times> bool)) \<Rightarrow> ('p \<Rightarrow> 'p option) \<Rightarrow> ('p \<times> 'q) option \<Rightarrow> 'p option
   \<Rightarrow> (fault + ('p \<times> 'q) option) option" where
  "wait_scan visit nxt awaited aux =
     (case aux of
        None \<Rightarrow> Some (Inr awaited)
      | Some p \<Rightarrow>
          (case visit p of
             Inl e \<Rightarrow> Some (Inl e)
           | Inr (q, stop) \<Rightarrow>
               if stop then Some (Inr (Some (p, q))) else wait_scan visit nxt (Some (p, q)) (nxt p)))"

definition wait_visit :: "int \<Rightarrow> kernel \<Rightarrow> ptr \<Rightarrow> fault + (ptr \<times> bool)" where
  "wait_visit pid_to_wait s aux =
     andThen (deref KPCBPtr (Some aux)) (\<lambda>pp.
     andThen (deref KPCB (pcb_ptrs s pp)) (\<lambda>p.
     Inr (p, pid_to_wait = 0 \<and> pcb_status (pcbs s p) = Zombie \<or>
             pid_to_wait \<noteq> 0 \<and> pcb_pid (pcbs s p) = pid_to_wait)))"

text \<open>\<open>if (result) *result = v\<close>, with \<open>result\<close> the second argument of the call.\<close>

definition store_result :: "ptr \<Rightarrow> int \<Rightarrow> kernel \<Rightarrow> kernel" where
  "store_result r v s =
     (if syscall_arg r 1 s \<noteq> 0 then s\<lparr>umem := (umem s)(syscall_arg r 1 s := v)\<rparr> else s)"

definition reap :: "ptr \<Rightarrow> ptr \<Rightarrow> ptr \<Rightarrow> kernel \<Rightarrow> fault + kernel" where
  "reap r awaited_pcb_ptr awaited_pcb s =
     andThen (List_detach (PcbChildren r) (Some awaited_pcb_ptr) s) (\<lambda>(_, s1).
     andThen (PCBPtr_free awaited_pcb_ptr s1) (\<lambda>(_, s2).
     andThen (List_detach ZombieList (Some awaited_pcb) s2) (\<lambda>(_, s3).
     let s4 = set_retvalue r (pcb_pid (pcbs s3 awaited_pcb)) s3;
         s5 = store_result r (pcb_return_value (pcbs s4 awaited_pcb)) s4
     in andThen (PCB_free awaited_pcb s5) (\<lambda>(_, s6). Inr s6))))"

definition wait_sleep :: "ptr \<Rightarrow> kernel \<Rightarrow> fault + kernel" where
  "wait_sleep r s =
     (let s1 = set_status r Waiting s in
      andThen (List_insert WaitingList (list_last WaitingList s1) (Some r) s1) (\<lambda>(_, s2).
      andThen (List_detach ReadyList (list_first ReadyList s2) s2) (\<lambda>(next_running, s3).
      Inr (s3\<lparr>running := next_running\<rparr>))))"

definition internal_wait :: "kernel \<Rightarrow> fault + kernel" where
  "internal_wait s =
     andThen (deref KPCB (running s)) (\<lambda>r.
     let pid_to_wait = int_arg r 0 s in
     if list_first (PcbChildren r) s = None then Inr (set_retvalue r DSOS_EWAIT s)
     else
       andThen (loop_result (wait_scan (wait_visit pid_to_wait s) (\<lambda>p. item_next (links s p)) None
           (list_first (PcbChildren r) s))) (\<lambda>awaited.
       case awaited of
         Some (pp, p) \<Rightarrow>
           if pcb_status (pcbs s p) = Zombie then reap r pp p s
           else
             wait_sleep r s
       | None \<Rightarrow>
           if pid_to_wait > 0 then Inr (set_retvalue r DSOS_EWAIT s)
           else
             wait_sleep r s))"

section \<open>Exit and shutdown\<close>

unbundle bit_operations_syntax

text \<open>\<open>pcb->signals |= (sig & pcb->signals_mask)\<close>\<close>

definition send_signal :: "int \<Rightarrow> ptr \<Rightarrow> kernel \<Rightarrow> kernel" where
  "send_signal sig p s =
     upd_pcb p (\<lambda>c. c\<lparr>pcb_signals := pcb_signals c OR (sig AND pcb_signals_mask c)\<rparr>) s"

text \<open>The children of a process that exits become children of the init process.\<close>

definition reparent_one :: "ptr \<Rightarrow> ptr \<Rightarrow> kernel \<Rightarrow> fault + kernel" where
  "reparent_one r ini s =
     andThen (List_detach (PcbChildren r) (list_first (PcbChildren r) s) s) (\<lambda>(item, s1).
     if item = None then Inl AssertFail
     else
       andThen (List_insert (PcbChildren ini) (list_last (PcbChildren ini) s1) item s1) (\<lambda>(_, s2).
       andThen (deref KPCBPtr item) (\<lambda>pp.
       andThen (deref KPCB (pcb_ptrs s2 pp)) (\<lambda>p.
       Inr (send_signal DSOS_SIGHUP p s2)))))"

partial_function (option) reparent_loop :: "ptr \<Rightarrow> ptr \<Rightarrow> kernel \<Rightarrow> (fault + kernel) option" where
  "reparent_loop r ini s =
     (if list_first (PcbChildren r) s = None then Some (Inr s)
      else
        (case reparent_one r ini s of
           Inl e \<Rightarrow> Some (Inl e)
         | Inr s' \<Rightarrow> reparent_loop r ini s'))"

definition release_timer :: "ptr \<Rightarrow> ptr \<Rightarrow> kernel \<Rightarrow> fault + kernel" where
  "release_timer r timer s =
     (if timer_pcb (timers s timer) = Some r
      then andThen (List_detach TimerList (Some timer) s) (\<lambda>(detach_result, s1).
             if detach_result = None then Inl AssertFail
             else andThen (TimerItem_free timer s1) (\<lambda>(_, s2). Inr s2))
      else Inr s)"

partial_function (option) release_timers :: "ptr \<Rightarrow> ptr option \<Rightarrow> kernel \<Rightarrow> (fault + kernel) option" where
  "release_timers r aux s =
     (case aux of
        None \<Rightarrow> Some (Inr s)
      | Some t \<Rightarrow>
          let nxt = item_next (links s t) in
          (case andThen (deref KTimerItem aux) (\<lambda>timer. release_timer r timer s) of
             Inl e \<Rightarrow> Some (Inl e)
           | Inr s' \<Rightarrow> release_timers r nxt s'))"

definition release_descriptor :: "ptr \<Rightarrow> kernel \<Rightarrow> fault + kernel" where
  "release_descriptor r s =
     andThen (deref KDescriptor (list_first (PcbDescriptors r) s)) (\<lambda>des.
     andThen (List_detach (PcbDescriptors r) (Some des) s) (\<lambda>(_, s1).
     andThen (deref KResource (desc_object (descs s1 des))) (\<lambda>res.
     andThen (List_detach (ResDescriptors res) (desc_ptr (descs s1 des)) s1) (\<lambda>(_, s2).
     andThen (deref KDescriptorPtr (desc_ptr (descs s2 des))) (\<lambda>dp.
     andThen (DescriptorPtr_free dp s2) (\<lambda>(_, s3).
     andThen (Descriptor_free des s3) (\<lambda>(_, s4). Inr s4)))))))"

partial_function (option) release_descriptors :: "ptr \<Rightarrow> kernel \<Rightarrow> (fault + kernel) option" where
  "release_descriptors r s =
     (if list_first (PcbDescriptors r) s = None then Some (Inr s)
      else
        (case release_descriptor r s of
           Inl e \<Rightarrow> Some (Inl e)
         | Inr s' \<Rightarrow> release_descriptors r s'))"

text \<open>The parent waits for this process: it takes the return value and runs again.\<close>

definition exit_to_parent :: "ptr \<Rightarrow> ptr \<Rightarrow> kernel \<Rightarrow> fault + kernel" where
  "exit_to_parent r par s =
     andThen (List_detach WaitingList (Some par) s) (\<lambda>(parent, s1).
     if parent = None then Inl AssertFail
     else
       let s2 = set_status par Running s1 in
       andThen (PCBPtr_byPID (PcbChildren par) (pcb_pid (pcbs s2 r)) s2) (\<lambda>self_in_parent.
       andThen (List_detach (PcbChildren par) self_in_parent s2) (\<lambda>(_, s3).
       let s4 = set_retvalue par (pcb_pid (pcbs s3 r)) s3;
           s5 = store_result par (pcb_return_value (pcbs s4 r)) s4
       in
       andThen (loop_result (release_timers r (list_first TimerList s5) s5)) (\<lambda>s6.
       andThen (loop_result (release_descriptors r s6)) (\<lambda>s7.
       andThen (List_detach ZombieList (Some r) s7) (\<lambda>(suppressed_item, s8).
       andThen (deref KPCB suppressed_item) (\<lambda>p.
       andThen (PCB_free p s8) (\<lambda>(_, s9). Inr (s9\<lparr>running := parent\<rparr>)))))))))"

text \<open>The parent is doing something else: the process stays a zombie, the next one runs.\<close>

definition exit_to_ready :: "kernel \<Rightarrow> fault + kernel" where
  "exit_to_ready s =
     andThen (List_detach ReadyList (list_first ReadyList s) s) (\<lambda>(next_running, s1).
     case next_running of
       None \<Rightarrow> Inl AssertFail
     | Some n \<Rightarrow> andThen (deref KPCB (Some n)) (\<lambda>n. Inr ((set_status n Running s1)\<lparr>running := Some n\<rparr>)))"

definition awaits :: "ptr \<Rightarrow> ptr \<Rightarrow> kernel \<Rightarrow> bool" where
  "awaits par r s \<longleftrightarrow>
     pcb_status (pcbs s par) = Waiting \<and> pcb_syscall_num (pcbs s par) = DSOS_CALL_WAIT \<and>
     (syscall_arg par 0 s = 0 \<or> syscall_arg par 0 s = pcb_pid (pcbs s r))"

definition internal_exit :: "kernel \<Rightarrow> fault + kernel" where
  "internal_exit s =
     andThen (deref KPCB (running s)) (\<lambda>r.
     let s1 = upd_pcb r (\<lambda>c. c\<lparr>pcb_return_value := int_arg r 0 s\<rparr>) s in
     if init_pcb s1 = None then Inl AssertFail
     else
       andThen (deref KPCB (init_pcb s1)) (\<lambda>ini.
       andThen (loop_result (reparent_loop r ini s1)) (\<lambda>s2.
       let s3 = set_status r Zombie s2 in
       andThen (List_insert ZombieList (list_last ZombieList s3) (Some r) s3) (\<lambda>(_, s4).
       andThen (deref KPCB (pcb_parent (pcbs s4 r))) (\<lambda>par.
       let s5 = send_signal DSOS_SIGCHLD par s4 in
       if awaits par r s5 then exit_to_parent r par s5 else exit_to_ready s5)))))"

definition internal_shutdown :: "kernel \<Rightarrow> kernel" where
  "internal_shutdown s = s\<lparr>shutdown_now := 1\<rparr>"

section \<open>Wait on well-formed states\<close>

definition children_ok :: "kernel \<Rightarrow> (headref \<Rightarrow> ptr list) \<Rightarrow> ptr \<Rightarrow> bool" where
  "children_ok s L r \<longleftrightarrow> (\<forall>pp\<in>set (L (PcbChildren r)). \<exists>c. pcb_ptrs s pp = Some c \<and> kind_of c = KPCB)"

definition child :: "kernel \<Rightarrow> ptr \<Rightarrow> ptr" where
  "child s pp = the (pcb_ptrs s pp)"

definition wait_match :: "int \<Rightarrow> kernel \<Rightarrow> ptr \<Rightarrow> bool" where
  "wait_match pid s pp \<longleftrightarrow>
     pid = 0 \<and> pcb_status (pcbs s (child s pp)) = Zombie \<or> pid \<noteq> 0 \<and> pcb_pid (pcbs s (child s pp)) = pid"

text \<open>The child the search ends at: the first that matches, or the last one when none does.\<close>

definition awaited :: "int \<Rightarrow> kernel \<Rightarrow> ptr list \<Rightarrow> ptr" where
  "awaited pid s pps = (case List.find (wait_match pid s) pps of Some pp \<Rightarrow> pp | None \<Rightarrow> last pps)"

lemma awaited_in_set: "pps \<noteq> [] \<Longrightarrow> awaited pid s pps \<in> set pps"
  by (auto simp: awaited_def dest: find_in_set split: option.splits)

lemma wait_scan_linked:
  assumes "linked lk pv xs None" and "\<And>x. x \<in> set xs \<Longrightarrow> visit x = Inr (q x, P x)"
  shows "wait_scan visit (\<lambda>p. item_next (lk p)) acc (first_of xs None) =
    Some (Inr (case List.find P xs of
        Some x \<Rightarrow> Some (x, q x)
      | None \<Rightarrow> if xs = [] then acc else Some (last xs, q (last xs))))"
  using assms
proof (induction xs arbitrary: pv acc)
  case Nil
  then show ?case by (simp add: wait_scan.simps)
next
  case (Cons x xs)
  then show ?case by (subst wait_scan.simps) (auto split: option.splits)
qed

lemma wait_search_wf:
  fixes pid :: int
  assumes wf: "kernel_wf s L F" and ok: "children_ok s L r" and ne: "L (PcbChildren r) \<noteq> []"
  defines "pp \<equiv> awaited pid s (L (PcbChildren r))"
  shows "loop_result (wait_scan (wait_visit pid s) (\<lambda>p. item_next (links s p)) None
      (list_first (PcbChildren r) s)) = Inr (Some (pp, child s pp))"
proof -
  have "wait_visit pid s x = Inr (child s x, wait_match pid s x)" if "x \<in> set (L (PcbChildren r))" for x
    using kernel_wf_kind [OF wf that] ok that
    by (auto simp: wait_visit_def wait_match_def child_def children_ok_def)
  moreover have "linked (links s) None (L (PcbChildren r)) None"
    using represents_dlist [OF kernel_wf_represents [OF wf], of "PcbChildren r"] by (simp add: dlist_def)
  ultimately have "wait_scan (wait_visit pid s) (\<lambda>p. item_next (links s p)) None
      (first_of (L (PcbChildren r)) None) = Some (Inr (Some (pp, child s pp)))"
    using ne by (subst wait_scan_linked) (auto simp: pp_def awaited_def split: option.splits)
  then show ?thesis by (simp add: wf_list_first [OF wf])
qed

lemma wait_no_children:
  assumes run: "sched_wf s L F r" and "L (PcbChildren r) = []"
  shows "internal_wait s = Inr (set_retvalue r DSOS_EWAIT s)"
  using sched_wfD(2,3) [OF run] assms(2)
  by (simp add: internal_wait_def wf_list_first [OF sched_wfD(1) [OF run]])

lemma wait_cases_wf:
  assumes run: "sched_wf s L F r" and ok: "children_ok s L r" and ne: "L (PcbChildren r) \<noteq> []"
  defines "pp \<equiv> awaited (int_arg r 0 s) s (L (PcbChildren r))"
  shows "internal_wait s =
    (if pcb_status (pcbs s (child s pp)) = Zombie then reap r pp (child s pp) s else wait_sleep r s)"
  using sched_wfD(2,3) [OF run] ne wait_search_wf [OF sched_wfD(1) [OF run] ok ne, of "int_arg r 0 s"]
  by (simp add: internal_wait_def wf_list_first [OF sched_wfD(1) [OF run]] pp_def Let_def)

definition reaped_lists :: "ptr \<Rightarrow> ptr \<Rightarrow> ptr \<Rightarrow> (headref \<Rightarrow> ptr list) \<Rightarrow> (headref \<Rightarrow> ptr list)" where
  "reaped_lists r pp c L =
     L(PcbChildren r := remove1 pp (L (PcbChildren r)), ZombieList := remove1 c (L ZombieList))"

definition reaped_free :: "ptr \<Rightarrow> ptr \<Rightarrow> (kind \<Rightarrow> int list) \<Rightarrow> (kind \<Rightarrow> int list)" where
  "reaped_free pp c F = F(KPCBPtr := idx_of pp # F KPCBPtr, KPCB := idx_of c # F KPCB)"

lemma store_result_wf [simp]:
  "kernel_wf (store_result r v s) L F = kernel_wf s L F"
  "live (store_result r v s) F p = live s F p"
  "unlinked (store_result r v s) p = unlinked s p"
  by (simp_all add: store_result_def)

lemma reap_wf:
  assumes run: "sched_wf s L F r" and pp: "pp \<in> set (L (PcbChildren r))" and c: "c \<in> set (L ZombieList)"
  shows "\<exists>s'. reap r pp c s = Inr s' \<and> sched_wf s' (reaped_lists r pp c L) (reaped_free pp c F) r \<and>
    kernel_frame (store_result r (pcb_return_value (pcbs s c)) (set_retvalue r (pcb_pid (pcbs s c)) s)) s'"
proof -
  note r = sched_wfD [OF run]
  let ?L1 = "L(PcbChildren r := remove1 pp (L (PcbChildren r)))" and ?F1 = "F(KPCBPtr := idx_of pp # F KPCBPtr)"
  have rne: "r \<noteq> c" "r \<noteq> pp" using c pp r(5) by (auto simp: listed_def)
  obtain s1 where s1: "List_detach (PcbChildren r) (Some pp) s = Inr (Some pp, s1)" "kernel_wf s1 ?L1 F"
    "lists_only s s1" "\<not> listed ?L1 pp" "kind_of pp = KPCBPtr" "live s1 F pp"
    "\<forall>p. \<not> listed L p \<longrightarrow> unlinked s1 p = unlinked s p"
    using wf_remove [OF r(1) pp] by auto
  have live1: "live s1 F q = live s F q" for q by (rule live_cong) (rule lists_only_fields(1) [OF s1(3)])
  obtain P where P: "free_block KPCBPtr pp s1 = Inr (Success, s1\<lparr>pools := P\<rparr>)"
    "kernel_wf (s1\<lparr>pools := P\<rparr>) ?L1 ?F1"
    "\<forall>q. live s1 F q \<longrightarrow> q \<noteq> pp \<longrightarrow> live (s1\<lparr>pools := P\<rparr>) ?F1 q"
    using wf_free [OF s1(2,6,4,5)] by blast
  let ?s2 = "s1\<lparr>pools := P\<rparr>" and ?L2 = "reaped_lists r pp c L"
  have "c \<in> set (?L1 ZombieList)" "?L1 ZombieList = L ZombieList" using c by simp_all
  then obtain s3 where s3: "List_detach ZombieList (Some c) ?s2 = Inr (Some c, s3)" "kernel_wf s3 ?L2 ?F1"
    "lists_only ?s2 s3" "\<not> listed ?L2 c" "kind_of c = KPCB" "live s3 ?F1 c"
    "\<forall>p. \<not> listed ?L1 p \<longrightarrow> unlinked s3 p = unlinked ?s2 p"
    using wf_remove [OF P(2), of c ZombieList] unfolding reaped_lists_def by auto
  let ?s5 = "store_result r (pcb_return_value (pcbs s c)) (set_retvalue r (pcb_pid (pcbs s c)) s3)"
  have same: "pcbs s3 = pcbs s" "umem s3 = umem s" "running s3 = running s"
    using lists_only_fields [OF s1(3)] lists_only_fields [OF s3(3)] by simp_all
  have 5: "kernel_wf ?s5 ?L2 ?F1" "live ?s5 ?F1 c"
    using s3 by (simp_all add: upd_defs)
  obtain Q where Q: "free_block KPCB c ?s5 = Inr (Success, ?s5\<lparr>pools := Q\<rparr>)"
    "kernel_wf (?s5\<lparr>pools := Q\<rparr>) ?L2 (?F1(KPCB := idx_of c # ?F1 KPCB))"
    "\<forall>q. live ?s5 ?F1 q \<longrightarrow> q \<noteq> c \<longrightarrow> live (?s5\<lparr>pools := Q\<rparr>) (?F1(KPCB := idx_of c # ?F1 KPCB)) q"
    using wf_free [OF 5 s3(4,5)] by blast
  have F: "?F1(KPCB := idx_of c # ?F1 KPCB) = reaped_free pp c F" by (simp add: reaped_free_def)
  have "reap r pp c s = Inr (?s5\<lparr>pools := Q\<rparr>)"
    using rne Q(1) by (simp add: reap_def s1(1) PCBPtr_free_def P(1) s3(1) PCB_free_def same upd_defs)
  moreover have "sched_wf (?s5\<lparr>pools := Q\<rparr>) ?L2 (reaped_free pp c F) r"
  proof -
    have nl: "\<not> listed ?L1 r" "\<not> listed ?L2 r"
      using r(5) by (auto simp: listed_def reaped_lists_def dest: notin_set_remove1 split: if_splits)
    have "live s3 ?F1 r" using P(3) r(7) rne live1 lists_only_fields(1) [OF s3(3)] by (simp add: live_def)
    then have "live (?s5\<lparr>pools := Q\<rparr>) (reaped_free pp c F) r" using Q(3) rne F by (simp add: upd_defs)
    moreover have "running ?s5 = Some r" using r(2) same by (simp add: store_result_def upd_defs)
    moreover have "unlinked ?s5 r" using nl s3(7) s1(7) r(5,6) by (simp add: upd_defs)
    ultimately show ?thesis using Q(2) [unfolded F] r(3) nl by (simp add: sched_wf_def fresh_block_def)
  qed
  moreover have "kernel_frame (store_result r (pcb_return_value (pcbs s c)) (set_retvalue r (pcb_pid (pcbs s c)) s))
      (?s5\<lparr>pools := Q\<rparr>)"
    using lists_only_fields [OF s1(3)] lists_only_fields [OF s3(3)]
    by (simp add: kernel_frame_def store_result_def upd_defs syscall_arg_def)
  ultimately show ?thesis by blast
qed

text \<open>A parent that has to wait hands the processor on; with nobody ready this cannot work.\<close>

lemma wait_sleep_wf:
  assumes run: "sched_wf s L F r" and L: "L ReadyList = p # q"
  shows "\<exists>s'. wait_sleep r s = Inr s' \<and>
    sched_wf s' (L(WaitingList := L WaitingList @ [r], ReadyList := q)) F p \<and>
    kernel_frame ((set_status r Waiting s)\<lparr>running := Some p\<rparr>) s'"
proof -
  note r = sched_wfD [OF run]
  let ?s1 = "set_status r Waiting s" and ?L = "L(WaitingList := L WaitingList @ [r])"
  have 1: "kernel_wf ?s1 L F" "fresh_block ?s1 L F r" using r by (simp_all add: set_status_def upd_pcb_def)
  obtain s2 where s2: "List_insert WaitingList (list_last WaitingList ?s1) (Some r) ?s1 = Inr (Some r, s2)"
    "kernel_wf s2 ?L F" "lists_only ?s1 s2"
    using wf_enqueue_fresh [OF 1, of WaitingList] r(3) by auto
  have "?L ReadyList = p # q" using L by simp
  then obtain s3 where s3: "List_detach ReadyList (list_first ReadyList s2) s2 = Inr (Some p, s3)"
    "sched_wf (s3\<lparr>running := Some p\<rparr>) (?L(ReadyList := q)) F p" "lists_only s2 s3"
    using run_next_wf [OF s2(2)] by blast
  have "wait_sleep r s = Inr (s3\<lparr>running := Some p\<rparr>)" by (simp add: wait_sleep_def s2(1) s3(1) Let_def)
  then show ?thesis
    using s3(2) lists_only_frame [OF s2(3)] lists_only_frame [OF s3(3)] by (auto simp: kernel_frame_def)
qed

lemma wait_sleep_stuck:
  assumes run: "sched_wf s L F r" and L: "L ReadyList = []"
  shows "wait_sleep r s = Inl NullDeref"
proof -
  note r = sched_wfD [OF run]
  let ?s1 = "set_status r Waiting s" and ?L = "L(WaitingList := L WaitingList @ [r])"
  have 1: "kernel_wf ?s1 L F" "fresh_block ?s1 L F r" using r by (simp_all add: set_status_def upd_pcb_def)
  obtain s2 where s2: "List_insert WaitingList (list_last WaitingList ?s1) (Some r) ?s1 = Inr (Some r, s2)"
    "kernel_wf s2 ?L F"
    using wf_enqueue_fresh [OF 1, of WaitingList] r(3) by auto
  have "List_detach ReadyList (list_first ReadyList s2) s2 = Inl NullDeref"
    by (rule wf_dequeue_empty [OF s2(2)]) (simp add: L)
  with s2(1) show ?thesis by (simp add: wait_sleep_def Let_def)
qed

section \<open>Exit on well-formed states\<close>

definition hung_up :: "PCB \<Rightarrow> PCB" where
  "hung_up c = c\<lparr>pcb_signals := pcb_signals c OR (DSOS_SIGHUP AND pcb_signals_mask c)\<rparr>"

lemma hung_up_twice [simp]: "hung_up (hung_up c) = hung_up c"
  by (simp add: hung_up_def or.assoc)

lemma send_hangup: "send_signal DSOS_SIGHUP p s = upd_pcb p hung_up s"
  by (simp add: send_signal_def hung_up_def upd_pcb_def)

definition hang_up_children :: "ptr set \<Rightarrow> kernel \<Rightarrow> kernel" where
  "hang_up_children ps s = s\<lparr>pcbs := \<lambda>p. if p \<in> ps then hung_up (pcbs s p) else pcbs s p\<rparr>"

definition reparented :: "ptr \<Rightarrow> ptr \<Rightarrow> (headref \<Rightarrow> ptr list) \<Rightarrow> (headref \<Rightarrow> ptr list)" where
  "reparented r ini L = L(PcbChildren r := [], PcbChildren ini := L (PcbChildren ini) @ L (PcbChildren r))"

lemma reparent_one_wf:
  assumes wf: "kernel_wf s L F" and L: "L (PcbChildren r) = pp # pps" and ri: "r \<noteq> ini"
    and c: "pcb_ptrs s pp = Some c" "kind_of c = KPCB"
  shows "\<exists>s'. reparent_one r ini s = Inr s' \<and>
    kernel_wf s' (L(PcbChildren r := pps, PcbChildren ini := L (PcbChildren ini) @ [pp])) F \<and>
    kernel_frame (upd_pcb c hung_up s) s' \<and> pools s' = pools s \<and>
    (\<forall>p. \<not> listed L p \<longrightarrow> unlinked s' p = unlinked s p)"
proof -
  let ?L1 = "L(PcbChildren r := pps)"
  obtain s1 where s1: "List_detach (PcbChildren r) (list_first (PcbChildren r) s) s = Inr (Some pp, s1)"
    "kernel_wf s1 ?L1 F" "lists_only s s1" "unlinked s1 pp" "\<not> listed ?L1 pp" "kind_of pp = KPCBPtr"
    "live s1 F pp" "\<forall>p. \<not> listed L p \<longrightarrow> unlinked s1 p = unlinked s p"
    using wf_dequeue [OF wf L] by auto
  obtain s2 where s2: "List_insert (PcbChildren ini) (list_last (PcbChildren ini) s1) (Some pp) s1 = Inr (Some pp, s2)"
    "kernel_wf s2 (?L1(PcbChildren ini := ?L1 (PcbChildren ini) @ [pp])) F" "lists_only s1 s2"
    "\<forall>p. \<not> listed ?L1 p \<longrightarrow> p \<noteq> pp \<longrightarrow> unlinked s2 p = unlinked s1 p"
    using wf_enqueue [OF s1(2,5,4), of "PcbChildren ini"] s1(6,7) by auto
  have same: "pcb_ptrs s2 = pcb_ptrs s"
    using lists_only_fields [OF s1(3)] lists_only_fields [OF s2(3)] by simp
  have "reparent_one r ini s = Inr (upd_pcb c hung_up s2)"
    using c s1(6) by (simp add: reparent_one_def s1(1) s2(1) same send_hangup [simplified])
  moreover have "unlinked s2 p = unlinked s p" if p: "\<not> listed L p" for p
  proof -
    have "p \<noteq> pp" "\<not> listed ?L1 p"
      using p not_listedD [OF p, of "PcbChildren r"] L by (auto simp: listed_def split: if_splits)
    with s1(8) s2(4) p show ?thesis by blast
  qed
  moreover have "?L1 (PcbChildren ini) = L (PcbChildren ini)" using ri by simp
  ultimately show ?thesis
    using s2(2) lists_only_fields [OF s1(3)] lists_only_fields [OF s2(3)]
    by (intro exI [of _ "upd_pcb c hung_up s2"]) (simp add: kernel_frame_def upd_pcb_def)
qed

lemma reparent_loop_wf:
  assumes "kernel_wf s L F" and "L (PcbChildren r) = pps" and ri: "r \<noteq> ini"
    and "\<And>pp. pp \<in> set pps \<Longrightarrow> \<exists>c. pcb_ptrs s pp = Some c \<and> kind_of c = KPCB"
  shows "\<exists>s'. reparent_loop r ini s = Some (Inr s') \<and>
    kernel_wf s' (L(PcbChildren r := [], PcbChildren ini := L (PcbChildren ini) @ pps)) F \<and>
    kernel_frame (hang_up_children (child s ` set pps) s) s' \<and> pools s' = pools s \<and>
    (\<forall>p. \<not> listed L p \<longrightarrow> unlinked s' p = unlinked s p)"
  using assms(1,2,4)
proof (induction pps arbitrary: s L)
  case Nil
  have "reparent_loop r ini s = Some (Inr s)"
    by (subst reparent_loop.simps) (simp add: wf_list_first [OF Nil(1)] Nil(2))
  moreover have "L(PcbChildren r := [], PcbChildren ini := L (PcbChildren ini) @ []) = L" using Nil(2) by auto
  ultimately show ?case
    using Nil(1) by (intro exI [of _ s]) (simp add: hang_up_children_def del: fun_upd_apply)
next
  case (Cons pp pps)
  obtain c where c: "pcb_ptrs s pp = Some c" "kind_of c = KPCB" using Cons.prems(3) by auto
  let ?L = "L(PcbChildren r := pps, PcbChildren ini := L (PcbChildren ini) @ [pp])"
  obtain s1 where s1: "reparent_one r ini s = Inr s1" "kernel_wf s1 ?L F"
    "kernel_frame (upd_pcb c hung_up s) s1" "pools s1 = pools s" "\<forall>p. \<not> listed L p \<longrightarrow> unlinked s1 p = unlinked s p"
    using reparent_one_wf [OF Cons.prems(1,2) ri c] by blast
  have same: "pcb_ptrs s1 = pcb_ptrs s" "child s1 = child s"
    using s1(3) by (simp_all add: kernel_frame_def upd_pcb_def child_def fun_eq_iff)
  have L: "?L (PcbChildren r) = pps" using ri by simp
  have ok: "\<exists>c. pcb_ptrs s1 x = Some c \<and> kind_of c = KPCB" if "x \<in> set pps" for x
    using Cons.prems(3) that same by simp
  obtain s2 where s2: "reparent_loop r ini s1 = Some (Inr s2)"
    "kernel_wf s2 (?L(PcbChildren r := [], PcbChildren ini := ?L (PcbChildren ini) @ pps)) F"
    "kernel_frame (hang_up_children (child s1 ` set pps) s1) s2" "pools s2 = pools s1"
    "\<forall>p. \<not> listed ?L p \<longrightarrow> unlinked s2 p = unlinked s1 p"
    using Cons.IH [OF s1(2) L ok] by blast
  have "reparent_loop r ini s = Some (Inr s2)"
    using Cons.prems(2) s2(1)
    by (subst reparent_loop.simps) (simp add: wf_list_first [OF Cons.prems(1)] s1(1))
  moreover have "?L(PcbChildren r := [], PcbChildren ini := ?L (PcbChildren ini) @ pps) =
      L(PcbChildren r := [], PcbChildren ini := L (PcbChildren ini) @ pp # pps)"
    using ri by auto
  moreover have "kernel_frame (hang_up_children (child s ` set (pp # pps)) s) s2"
  proof -
    have "child s pp = c" using c by (simp add: child_def)
    then show ?thesis
      using s1(3) s2(3) by (auto simp: kernel_frame_def hang_up_children_def upd_pcb_def same fun_eq_iff)
  qed
  moreover have "unlinked s2 p = unlinked s p" if p: "\<not> listed L p" for p
  proof -
    have "\<not> listed ?L p"
      using p not_listedD [OF p, of "PcbChildren r"] not_listedD [OF p, of "PcbChildren ini"] Cons.prems(2)
      by (auto simp: listed_def split: if_splits)
    with s2(5) s1(5) p show ?thesis by blast
  qed
  ultimately show ?case
    using s2(2,4) s1(4) by (intro exI [of _ s2]) metis
qed

text \<open>A process that is its own heir, init, moves its children to itself for ever.\<close>

lemma reparent_loop_self:
  assumes "kernel_wf s L F" and "L (PcbChildren r) \<noteq> []"
    and "\<And>pp. pp \<in> set (L (PcbChildren r)) \<Longrightarrow> \<exists>c. pcb_ptrs s pp = Some c \<and> kind_of c = KPCB"
  shows "\<exists>s'. reparent_one r r s = Inr s' \<and>
    kernel_wf s' (L(PcbChildren r := rotate1 (L (PcbChildren r)))) F \<and> pcb_ptrs s' = pcb_ptrs s"
proof -
  obtain pp pps where L: "L (PcbChildren r) = pp # pps" using assms(2) by (cases "L (PcbChildren r)") auto
  obtain c where c: "pcb_ptrs s pp = Some c" "kind_of c = KPCB" using assms(3) L by auto
  obtain s1 where s1: "List_detach (PcbChildren r) (list_first (PcbChildren r) s) s = Inr (Some pp, s1)"
    "kernel_wf s1 (L(PcbChildren r := pps)) F" "lists_only s s1" "unlinked s1 pp"
    "\<not> listed (L(PcbChildren r := pps)) pp" "kind_of pp = KPCBPtr" "live s1 F pp"
    using wf_dequeue [OF assms(1) L] by auto
  obtain s2 where s2: "List_insert (PcbChildren r) (list_last (PcbChildren r) s1) (Some pp) s1 = Inr (Some pp, s2)"
    "kernel_wf s2 (L(PcbChildren r := pps @ [pp])) F" "lists_only s1 s2"
    using wf_enqueue [OF s1(2,5,4), of "PcbChildren r"] s1(6,7) by auto
  have same: "pcb_ptrs s2 = pcb_ptrs s"
    using lists_only_fields [OF s1(3)] lists_only_fields [OF s2(3)] by simp
  have "reparent_one r r s = Inr (upd_pcb c hung_up s2)"
    using c s1(6) by (simp add: reparent_one_def s1(1) s2(1) same send_hangup [simplified])
  with s2(2) same L show ?thesis by (simp add: upd_pcb_def)
qed

lemma reparent_loop_diverges:
  assumes "kernel_wf s L F" and "L (PcbChildren r) \<noteq> []"
    and "\<And>pp. pp \<in> set (L (PcbChildren r)) \<Longrightarrow> \<exists>c. pcb_ptrs s pp = Some c \<and> kind_of c = KPCB"
  shows "reparent_loop r r s = None"
proof -
  define bad where "bad a b s \<longleftrightarrow> a = r \<and> b = r \<and> (\<exists>L. kernel_wf s L F \<and> L (PcbChildren r) \<noteq> [] \<and>
      (\<forall>pp\<in>set (L (PcbChildren r)). \<exists>c. pcb_ptrs s pp = Some c \<and> kind_of c = KPCB))" for a b s
  have step: "\<exists>s'. reparent_one a b s = Inr s' \<and> bad a b s' \<and> list_first (PcbChildren a) s \<noteq> None"
    if bad: "bad a b s" for a b s
  proof -
    obtain L where ab: "a = r" "b = r" and L: "kernel_wf s L F" "L (PcbChildren r) \<noteq> []"
      "\<And>pp. pp \<in> set (L (PcbChildren r)) \<Longrightarrow> \<exists>c. pcb_ptrs s pp = Some c \<and> kind_of c = KPCB"
      using bad unfolding bad_def by blast
    obtain s' where s': "reparent_one r r s = Inr s'"
      "kernel_wf s' (L(PcbChildren r := rotate1 (L (PcbChildren r)))) F" "pcb_ptrs s' = pcb_ptrs s"
      using reparent_loop_self [OF L] by blast
    have "bad r r s'"
      unfolding bad_def using L(2,3) s'(2,3)
      by (intro conjI refl exI [of _ "L(PcbChildren r := rotate1 (L (PcbChildren r)))"]) auto
    moreover have "list_first (PcbChildren r) s \<noteq> None" using L by (simp add: wf_list_first [OF L(1)])
    ultimately show ?thesis using s'(1) ab by blast
  qed
  have no: "bad a b s \<longrightarrow> False" if "reparent_loop a b s = Some y" for a b s y
  proof (rule reparent_loop.raw_induct [where P = "\<lambda>a b s y. bad a b s \<longrightarrow> False", OF _ that])
    fix loop a b s y
    assume IH: "\<And>a b s y. loop a b s = Some y \<Longrightarrow> bad a b s \<longrightarrow> False"
      and run: "(if list_first (PcbChildren a) s = None then Some (Inr s)
        else case reparent_one a b s of Inl e \<Rightarrow> Some (Inl e) | Inr s' \<Rightarrow> loop a b s') = Some y"
    show "bad a b s \<longrightarrow> False"
    proof
      assume "bad a b s"
      then obtain s' where "reparent_one a b s = Inr s'" "bad a b s'" "list_first (PcbChildren a) s \<noteq> None"
        using step by blast
      with run have "loop a b s' = Some y" by simp
      with IH \<open>bad a b s'\<close> show False by blast
    qed
  qed
  have "bad r r s" unfolding bad_def using assms by blast
  with no show ?thesis by (metis option.exhaust)
qed

subsection \<open>Timers and descriptors of a process that dies\<close>

lemma release_timers_wf:
  fixes r :: ptr
  assumes "kernel_wf s L F" and "L TimerList = ys @ zs"
  defines "mine \<equiv> \<lambda>t. timer_pcb (timers s t) = Some r"
  shows "\<exists>s'. release_timers r (first_of zs None) s = Some (Inr s') \<and>
    kernel_wf s' (L(TimerList := ys @ filter (\<lambda>t. \<not> mine t) zs))
      (F(KTimerItem := rev (map idx_of (filter mine zs)) @ F KTimerItem)) \<and> kernel_frame s s' \<and>
    (\<forall>q. fresh_block s L F q \<longrightarrow> fresh_block s' (L(TimerList := ys @ filter (\<lambda>t. \<not> mine t) zs))
      (F(KTimerItem := rev (map idx_of (filter mine zs)) @ F KTimerItem)) q)"
  using assms(1,2) unfolding mine_def
proof (induction zs arbitrary: s L F ys)
  case Nil
  have "L(TimerList := ys @ filter (\<lambda>t. timer_pcb (timers s t) \<noteq> Some r) []) = L" using Nil(2) by auto
  then show ?case
    using Nil(1) by (intro exI [of _ s]) (simp add: release_timers.simps del: fun_upd_apply)
next
  case (Cons t zs)
  note wf = Cons.prems(1)
  have nxt: "item_next (links s t) = first_of zs None"
    using represents_dlist [OF kernel_wf_represents [OF wf], of TimerList] Cons.prems(2)
    by (simp add: dlist_def)
  have k: "kind_of t = KTimerItem" using kernel_wf_kind [OF wf, of t TimerList] Cons.prems(2) by simp
  show ?case
  proof (cases "timer_pcb (timers s t) = Some r")
    case False
    then have "release_timers r (first_of (t # zs) None) s = release_timers r (first_of zs None) s"
      using k by (subst release_timers.simps) (simp add: nxt release_timer_def)
    with Cons.IH [OF wf, of "ys @ [t]"] Cons.prems(2) False show ?thesis by simp
  next
    case True
    let ?L = "L(TimerList := ys @ zs)" and ?F = "F(KTimerItem := idx_of t # F KTimerItem)"
    have dist: "distinct (L TimerList)"
      using represents_dlist [OF kernel_wf_represents [OF wf], of TimerList] by (simp add: dlist_def)
    have tin: "t \<in> set (L TimerList)" and rm: "remove1 t (L TimerList) = ys @ zs"
      using Cons.prems(2) dist by (simp_all add: remove1_middle)
    obtain s1 where s1: "List_detach TimerList (Some t) s = Inr (Some t, s1)" "kernel_wf s1 ?L F"
      "lists_only s s1" "\<not> listed ?L t" "live s1 F t" "\<forall>q. \<not> listed L q \<longrightarrow> unlinked s1 q = unlinked s q"
      using wf_remove [OF wf tin] unfolding rm by blast
    obtain P where P: "free_block KTimerItem t s1 = Inr (Success, s1\<lparr>pools := P\<rparr>)"
      "kernel_wf (s1\<lparr>pools := P\<rparr>) ?L ?F"
      "\<forall>q. live s1 F q \<longrightarrow> q \<noteq> t \<longrightarrow> live (s1\<lparr>pools := P\<rparr>) ?F q"
      using wf_free [OF s1(2,5,4) k] by blast
    let ?s = "s1\<lparr>pools := P\<rparr>"
    have same: "timers ?s = timers s" "kernel_frame s ?s"
      using lists_only_fields [OF s1(3)] by (simp_all add: kernel_frame_def)
    have fresh: "fresh_block ?s ?L ?F q" if q: "fresh_block s L F q" for q
    proof -
      have "q \<noteq> t" using q tin by (auto simp: fresh_block_def listed_def)
      moreover have "\<not> listed ?L q"
        using q not_listedD [of L q TimerList] Cons.prems(2)
        by (auto simp: fresh_block_def listed_def split: if_splits)
      moreover have "live s1 F q = live s F q" by (rule live_cong) (rule lists_only_fields(1) [OF s1(3)])
      ultimately show ?thesis using q P(3) s1(6) by (simp add: fresh_block_def)
    qed
    have "release_timers r (first_of (t # zs) None) s = release_timers r (first_of zs None) ?s"
      using k True by (subst release_timers.simps) (simp add: nxt release_timer_def s1(1) TimerItem_free_def P(1))
    moreover have "?L TimerList = ys @ zs" by simp
    note IH = Cons.IH [OF P(2) this, unfolded same(1)]
    have L: "?L(TimerList := ys @ filter (\<lambda>t. timer_pcb (timers s t) \<noteq> Some r) zs) =
        L(TimerList := ys @ filter (\<lambda>t. timer_pcb (timers s t) \<noteq> Some r) (t # zs))"
      "?F(KTimerItem := rev (map idx_of (filter (\<lambda>t. timer_pcb (timers s t) = Some r) zs)) @ ?F KTimerItem) =
        F(KTimerItem := rev (map idx_of (filter (\<lambda>t. timer_pcb (timers s t) = Some r) (t # zs))) @ F KTimerItem)"
      using True by simp_all
    show ?thesis
      using IH kernel_frame_trans [OF same(2)] fresh unfolding L calculation by blast
  qed
qed

definition owned_ptr :: "kernel \<Rightarrow> ptr \<Rightarrow> ptr" where
  "owned_ptr s d = the (desc_ptr (descs s d))"

text \<open>Without the descriptors of process \<open>r\<close>, and without the pointers to them.\<close>

definition released_lists :: "kernel \<Rightarrow> ptr \<Rightarrow> ptr list \<Rightarrow> (headref \<Rightarrow> ptr list) \<Rightarrow> (headref \<Rightarrow> ptr list)" where
  "released_lists s r ds L = (\<lambda>h. case h of
       PcbDescriptors p \<Rightarrow> if p = r then [] else L h
     | ResDescriptors x \<Rightarrow> filter (\<lambda>dp. dp \<notin> owned_ptr s ` set ds) (L h)
     | _ \<Rightarrow> L h)"

definition released_free :: "kernel \<Rightarrow> ptr list \<Rightarrow> (kind \<Rightarrow> int list) \<Rightarrow> (kind \<Rightarrow> int list)" where
  "released_free s ds F =
     F(KDescriptorPtr := rev (map (\<lambda>d. idx_of (owned_ptr s d)) ds) @ F KDescriptorPtr,
       KDescriptor := rev (map idx_of ds) @ F KDescriptor)"

lemma release_descriptor_wf:
  assumes wf: "kernel_wf s L F" and L: "L (PcbDescriptors r) = d # ds" and linked: "desc_linked s L d res dp"
  shows "\<exists>s'. release_descriptor r s = Inr s' \<and>
    kernel_wf s' (closed_lists r res d dp L)
      (F(KDescriptorPtr := idx_of dp # F KDescriptorPtr, KDescriptor := idx_of d # F KDescriptor)) \<and>
    kernel_frame s s' \<and>
    (\<forall>q. fresh_block s L F q \<longrightarrow> fresh_block s' (closed_lists r res d dp L)
      (F(KDescriptorPtr := idx_of dp # F KDescriptorPtr, KDescriptor := idx_of d # F KDescriptor)) q)"
proof -
  let ?L = "closed_lists r res d dp L"
  have din: "d \<in> set (L (PcbDescriptors r))" and dpin: "dp \<in> set (L (ResDescriptors res))"
    using L linked by (simp_all add: desc_linked_def)
  have k: "kind_of d = KDescriptor" "kind_of dp = KDescriptorPtr"
    using kernel_wf_kind [OF wf din] kernel_wf_kind [OF wf dpin] by simp_all
  obtain s1 s2 where s: "List_detach (PcbDescriptors r) (Some d) s = Inr (Some d, s1)"
    "List_detach (ResDescriptors res) (Some dp) s1 = Inr (Some dp, s2)" "kernel_wf s2 ?L F"
    "lists_only s s1" "lists_only s s2" "live s2 F d" "live s2 F dp" "\<not> listed ?L d" "\<not> listed ?L dp"
    "\<forall>q. fresh_block s L F q \<longrightarrow> fresh_block s2 ?L F q"
    using wf_remove2 [OF wf din dpin] unfolding closed_lists_def by blast
  have kk: "KDescriptorPtr \<noteq> KDescriptor" by simp
  obtain s3 s4 where f: "free_block KDescriptorPtr dp s2 = Inr (Success, s3)"
    "free_block KDescriptor d s3 = Inr (Success, s4)"
    "kernel_wf s4 ?L (F(KDescriptorPtr := idx_of dp # F KDescriptorPtr, KDescriptor := idx_of d # F KDescriptor))"
    "kernel_frame s2 s4" "\<forall>x. fresh_block s2 ?L F x \<longrightarrow> x \<noteq> dp \<longrightarrow> x \<noteq> d \<longrightarrow> fresh_block s4 ?L
      (F(KDescriptorPtr := idx_of dp # F KDescriptorPtr, KDescriptor := idx_of d # F KDescriptor)) x"
    using wf_free2 [OF s(3) s(7,9) k(2) s(6,8) k(1) kk] by blast
  have same: "descs s1 = descs s" "descs s2 = descs s"
    by (rule lists_only_fields(6) [OF s(4)], rule lists_only_fields(6) [OF s(5)])
  have "release_descriptor r s = Inr s4"
    using linked k L s(1,2) f(1,2)
    by (simp add: release_descriptor_def wf_list_first [OF wf] desc_linked_def same Descriptor_free_def
        DescriptorPtr_free_def)
  moreover have "q \<noteq> d" "q \<noteq> dp" if "fresh_block s L F q" for q
    using that din dpin by (auto simp: fresh_block_def listed_def)
  ultimately show ?thesis
    using f(3,5) s(10) kernel_frame_trans [OF lists_only_frame [OF s(5)] f(4)] by blast
qed

lemma desc_linked_after:
  assumes d: "desc_linked s L d res dp" and e: "desc_linked s L e res' dp'" and ne: "d \<noteq> e"
    and fr: "kernel_frame s s'"
  shows "desc_linked s' (closed_lists r res d dp L) e res' dp'"
proof -
  have "dp \<noteq> dp'" using d e ne by (auto simp: desc_linked_def)
  with d e fr show ?thesis by (auto simp: desc_linked_def closed_lists_def kernel_frame_def)
qed

lemma released_lists_Cons:
  assumes wf: "kernel_wf s L F" and ds: "L (PcbDescriptors r) = d # ds"
    and linked: "desc_linked s L d res dp" and same: "owned_ptr s' = owned_ptr s"
  shows "released_lists s' r ds (closed_lists r res d dp L) = released_lists s r (d # ds) L"
proof
  fix h
  have dp: "owned_ptr s d = dp" "dp \<in> set (L (ResDescriptors res))"
    using linked by (simp_all add: desc_linked_def owned_ptr_def)
  show "released_lists s' r ds (closed_lists r res d dp L) h = released_lists s r (d # ds) L h"
  proof (cases "\<exists>x. h = ResDescriptors x")
    case True
    then obtain x where h: "h = ResDescriptors x" by blast
    have dist: "distinct (L h)"
      using represents_dlist [OF kernel_wf_represents [OF wf], of h] by (simp add: dlist_def)
    show ?thesis
    proof (cases "x = res")
      case True
      with dist h dp show ?thesis
        by (auto simp: released_lists_def closed_lists_def same distinct_remove1_removeAll
            removeAll_filter_not_eq intro!: filter_cong)
    next
      case False
      then have "dp \<notin> set (L h)"
        using represents_disjoint [OF kernel_wf_represents [OF wf] dp(2), of "ResDescriptors x"] h by blast
      with False h dp show ?thesis
        by (auto simp: released_lists_def closed_lists_def same intro!: filter_cong)
    qed
  qed (cases h; auto simp: released_lists_def closed_lists_def)
qed

lemma release_descriptors_wf:
  assumes "kernel_wf s L F" and "L (PcbDescriptors r) = ds"
    and "\<And>d. d \<in> set ds \<Longrightarrow> \<exists>res dp. desc_linked s L d res dp"
  shows "\<exists>s'. release_descriptors r s = Some (Inr s') \<and>
    kernel_wf s' (released_lists s r ds L) (released_free s ds F) \<and> kernel_frame s s' \<and>
    (\<forall>q. fresh_block s L F q \<longrightarrow> fresh_block s' (released_lists s r ds L) (released_free s ds F) q)"
  using assms
proof (induction ds arbitrary: s L F)
  case Nil
  have "release_descriptors r s = Some (Inr s)"
    by (subst release_descriptors.simps) (simp add: wf_list_first [OF Nil(1)] Nil(2))
  moreover have "released_lists s r [] L = L" "released_free s [] F = F"
    using Nil(2) by (auto simp: released_lists_def released_free_def fun_eq_iff split: headref.splits)
  ultimately show ?case using Nil(1) by simp
next
  case (Cons d ds)
  note wf = Cons.prems(1)
  obtain res dp where d: "desc_linked s L d res dp" using Cons.prems(3) [of d] by auto
  let ?L = "closed_lists r res d dp L"
  let ?F = "F(KDescriptorPtr := idx_of dp # F KDescriptorPtr, KDescriptor := idx_of d # F KDescriptor)"
  obtain s1 where s1: "release_descriptor r s = Inr s1" "kernel_wf s1 ?L ?F" "kernel_frame s s1"
    "\<forall>q. fresh_block s L F q \<longrightarrow> fresh_block s1 ?L ?F q"
    using release_descriptor_wf [OF wf Cons.prems(2) d] by blast
  have same: "owned_ptr s1 = owned_ptr s"
    using s1(3) by (simp add: owned_ptr_def kernel_frame_def fun_eq_iff)
  have "d \<notin> set ds"
    using represents_dlist [OF kernel_wf_represents [OF wf], of "PcbDescriptors r"] Cons.prems(2)
    by (simp add: dlist_def)
  then have ok: "\<exists>res dp. desc_linked s1 ?L e res dp" if "e \<in> set ds" for e
    using Cons.prems(3) [of e] that desc_linked_after [OF d _ _ s1(3)] by (metis list.set_intros(2))
  have "?L (PcbDescriptors r) = ds" using Cons.prems(2) by (simp add: closed_lists_def)
  then obtain s2 where s2: "release_descriptors r s1 = Some (Inr s2)"
    "kernel_wf s2 (released_lists s1 r ds ?L) (released_free s1 ds ?F)" "kernel_frame s1 s2"
    "\<forall>q. fresh_block s1 ?L ?F q \<longrightarrow> fresh_block s2 (released_lists s1 r ds ?L) (released_free s1 ds ?F) q"
    using Cons.IH [OF s1(2) _ ok] by blast
  have "release_descriptors r s = Some (Inr s2)"
    using s2(1) Cons.prems(2) by (subst release_descriptors.simps) (simp add: wf_list_first [OF wf] s1(1))
  moreover have "released_free s1 ds ?F = released_free s (d # ds) F"
    using d by (simp add: released_free_def same desc_linked_def owned_ptr_def fun_upd_twist)
  ultimately show ?case
    using s2(2-4) s1(4) kernel_frame_trans [OF s1(3) s2(3)]
    unfolding released_lists_Cons [OF wf Cons.prems(2) d same] by (intro exI [of _ s2]) metis
qed

subsection \<open>The system call\<close>

definition exit_contents :: "ptr \<Rightarrow> ptr \<Rightarrow> ptr set \<Rightarrow> kernel \<Rightarrow> kernel" where
  "exit_contents r par cs s =
     send_signal DSOS_SIGCHLD par
       (set_status r Zombie
         (hang_up_children cs (upd_pcb r (\<lambda>c. c\<lparr>pcb_return_value := int_arg r 0 s\<rparr>) s)))"

definition zombie_lists :: "ptr \<Rightarrow> ptr \<Rightarrow> (headref \<Rightarrow> ptr list) \<Rightarrow> (headref \<Rightarrow> ptr list)" where
  "zombie_lists r ini L = (reparented r ini L)(ZombieList := L ZombieList @ [r])"

lemma awaits_exit_contents:
  assumes "par \<noteq> r"
  shows "awaits par r (exit_contents r par cs s) = awaits par r s"
  using assms
  by (auto simp: awaits_def exit_contents_def send_signal_def set_status_def hang_up_children_def hung_up_def
      upd_pcb_def syscall_arg_def)

lemma awaits_cong: "pcbs s' = pcbs s \<Longrightarrow> awaits par r s' = awaits par r s"
  by (simp add: awaits_def syscall_arg_def)

text \<open>Up to the choice of who runs next.\<close>

lemma exit_begin:
  assumes run: "sched_wf s L F r" and ini: "init_pcb s = Some ini" "kind_of ini = KPCB" "ini \<noteq> r"
    and ok: "children_ok s L r"
  shows "\<exists>s1. internal_exit s = andThen (deref KPCB (pcb_parent (pcbs s r))) (\<lambda>par.
       let s5 = send_signal DSOS_SIGCHLD par s1 in if awaits par r s5 then exit_to_parent r par s5 else exit_to_ready s5) \<and>
    kernel_wf s1 (zombie_lists r ini L) F \<and>
    (\<forall>par. kernel_frame (exit_contents r par (child s ` set (L (PcbChildren r))) s) (send_signal DSOS_SIGCHLD par s1))"
proof -
  note r = sched_wfD [OF run]
  let ?s1 = "upd_pcb r (\<lambda>c. c\<lparr>pcb_return_value := int_arg r 0 s\<rparr>) s" and ?cs = "child s ` set (L (PcbChildren r))"
  have wf1: "kernel_wf ?s1 L F" using r(1) by (simp add: upd_pcb_def)
  have same1: "pcb_ptrs ?s1 = pcb_ptrs s" "child ?s1 = child s" "init_pcb ?s1 = Some ini"
    using ini(1) by (simp_all add: upd_pcb_def child_def fun_eq_iff)
  have ok1: "\<And>pp. pp \<in> set (L (PcbChildren r)) \<Longrightarrow> \<exists>c. pcb_ptrs ?s1 pp = Some c \<and> kind_of c = KPCB"
    using ok by (simp add: children_ok_def same1)
  obtain s2 where s2: "reparent_loop r ini ?s1 = Some (Inr s2)" "kernel_wf s2 (reparented r ini L) F"
    "kernel_frame (hang_up_children ?cs ?s1) s2" "pools s2 = pools ?s1"
    "\<forall>p. \<not> listed L p \<longrightarrow> unlinked s2 p = unlinked ?s1 p"
    using reparent_loop_wf [OF wf1 refl ini(3) [symmetric] ok1] unfolding same1 reparented_def by blast
  let ?s3 = "set_status r Zombie s2" and ?L = "reparented r ini L"
  have "\<not> listed ?L r" using r(5) by (auto simp: listed_def reparented_def split: if_splits)
  then have 3: "kernel_wf ?s3 ?L F" "fresh_block ?s3 ?L F r"
    using s2 r by (simp_all add: fresh_block_def set_status_def upd_pcb_def live_def)
  obtain s4 where s4: "List_insert ZombieList (list_last ZombieList ?s3) (Some r) ?s3 = Inr (Some r, s4)"
    "kernel_wf s4 (?L(ZombieList := ?L ZombieList @ [r])) F" "lists_only ?s3 s4"
    using wf_enqueue_fresh [OF 3, of ZombieList] r(3) by auto
  have fr: "kernel_frame (exit_contents r par ?cs s) (send_signal DSOS_SIGCHLD par s4)" for par
    using s2(3) lists_only_frame [OF s4(3)]
    by (simp add: kernel_frame_def exit_contents_def send_signal_def set_status_def upd_pcb_def)
  have "pcb_parent (pcbs s4 r) = pcb_parent (pcbs s r)"
    using s2(3) lists_only_fields(2) [OF s4(3)]
    by (simp add: kernel_frame_def set_status_def upd_pcb_def hang_up_children_def hung_up_def)
  then have "internal_exit s = andThen (deref KPCB (pcb_parent (pcbs s r))) (\<lambda>par.
      let s5 = send_signal DSOS_SIGCHLD par s4 in if awaits par r s5 then exit_to_parent r par s5 else exit_to_ready s5)"
    using r(2,3) ini(2) by (simp add: internal_exit_def Let_def same1 s2(1) s4(1))
  moreover have "kernel_wf s4 (zombie_lists r ini L) F" using s4(2) by (simp add: zombie_lists_def) (simp add: reparented_def)
  ultimately show ?thesis using fr by blast
qed

lemma exit_common:
  assumes run: "sched_wf s L F r" and ini: "init_pcb s = Some ini" "kind_of ini = KPCB" "ini \<noteq> r"
    and ok: "children_ok s L r" and par: "pcb_parent (pcbs s r) = Some par" "kind_of par = KPCB" "par \<noteq> r"
  shows "\<exists>s1. internal_exit s = (if awaits par r s then exit_to_parent r par s1 else exit_to_ready s1) \<and>
    kernel_wf s1 (zombie_lists r ini L) F \<and>
    kernel_frame (exit_contents r par (child s ` set (L (PcbChildren r))) s) s1"
proof -
  let ?cs = "child s ` set (L (PcbChildren r))"
  obtain s1 where s1: "internal_exit s = andThen (deref KPCB (pcb_parent (pcbs s r))) (\<lambda>par.
      let s5 = send_signal DSOS_SIGCHLD par s1 in if awaits par r s5 then exit_to_parent r par s5 else exit_to_ready s5)"
    "kernel_wf s1 (zombie_lists r ini L) F" "\<forall>par. kernel_frame (exit_contents r par ?cs s) (send_signal DSOS_SIGCHLD par s1)"
    using exit_begin [OF run ini ok] by blast
  let ?s5 = "send_signal DSOS_SIGCHLD par s1"
  have fr: "kernel_frame (exit_contents r par ?cs s) ?s5" using s1(3) by blast
  have "awaits par r ?s5 = awaits par r s"
    using awaits_cong [of ?s5 "exit_contents r par ?cs s"] fr awaits_exit_contents [OF par(3)]
    by (simp add: kernel_frame_def)
  then have "internal_exit s = (if awaits par r s then exit_to_parent r par ?s5 else exit_to_ready ?s5)"
    using s1(1) par(1,2) by (simp add: Let_def)
  moreover have "kernel_wf ?s5 (zombie_lists r ini L) F" using s1(2) by (simp add: send_signal_def upd_pcb_def)
  ultimately show ?thesis using fr by blast
qed

text \<open>A process without a parent that is not init: the first process of an earlier start.\<close>

lemma exit_no_parent:
  assumes run: "sched_wf s L F r" and ini: "init_pcb s = Some ini" "kind_of ini = KPCB" "ini \<noteq> r"
    and ok: "children_ok s L r" and par: "pcb_parent (pcbs s r) = None"
  shows "internal_exit s = Inl NullDeref"
  using exit_begin [OF run ini ok] par by auto

lemma exit_ready_wf:
  assumes run: "sched_wf s L F r" and ini: "init_pcb s = Some ini" "kind_of ini = KPCB" "ini \<noteq> r"
    and ok: "children_ok s L r" and par: "pcb_parent (pcbs s r) = Some par" "kind_of par = KPCB" "par \<noteq> r"
    and no: "\<not> awaits par r s" and L: "L ReadyList = p # q"
  shows "\<exists>s'. internal_exit s = Inr s' \<and> sched_wf s' ((zombie_lists r ini L)(ReadyList := q)) F p \<and>
    kernel_frame ((set_status p Running (exit_contents r par (child s ` set (L (PcbChildren r))) s))\<lparr>running := Some p\<rparr>) s'"
proof -
  obtain s1 where s1: "internal_exit s = exit_to_ready s1" "kernel_wf s1 (zombie_lists r ini L) F"
    "kernel_frame (exit_contents r par (child s ` set (L (PcbChildren r))) s) s1"
    using exit_common [OF run ini ok par] no by auto
  have "zombie_lists r ini L ReadyList = p # q" using L by (simp add: zombie_lists_def reparented_def)
  then obtain s2 where s2: "List_detach ReadyList (list_first ReadyList s1) s1 = Inr (Some p, s2)" "kind_of p = KPCB"
    "sched_wf (s2\<lparr>running := Some p\<rparr>) ((zombie_lists r ini L)(ReadyList := q)) F p" "lists_only s1 s2"
    using run_next_wf [OF s1(2)] by blast
  have "exit_to_ready s1 = Inr ((set_status p Running s2)\<lparr>running := Some p\<rparr>)"
    using s2(1,2) by (simp add: exit_to_ready_def)
  moreover have "sched_wf ((set_status p Running s2)\<lparr>running := Some p\<rparr>) ((zombie_lists r ini L)(ReadyList := q)) F p"
    using s2(3) by (simp add: sched_wf_def set_status_def upd_pcb_def fresh_block_def)
  ultimately show ?thesis
    using s1(1,3) lists_only_frame [OF s2(4)] by (auto simp: kernel_frame_def set_status_def upd_pcb_def)
qed

lemma exit_ready_stuck:
  assumes run: "sched_wf s L F r" and ini: "init_pcb s = Some ini" "kind_of ini = KPCB" "ini \<noteq> r"
    and ok: "children_ok s L r" and par: "pcb_parent (pcbs s r) = Some par" "kind_of par = KPCB" "par \<noteq> r"
    and no: "\<not> awaits par r s" and L: "L ReadyList = []"
  shows "internal_exit s = Inl NullDeref"
proof -
  obtain s1 where s1: "internal_exit s = exit_to_ready s1" "kernel_wf s1 (zombie_lists r ini L) F"
    using exit_common [OF run ini ok par] no by auto
  have "List_detach ReadyList (list_first ReadyList s1) s1 = Inl NullDeref"
    by (rule wf_dequeue_empty [OF s1(2)]) (simp add: L zombie_lists_def reparented_def)
  with s1(1) show ?thesis by (simp add: exit_to_ready_def)
qed

text \<open>When init exits: with children the loop never ends, without it has no parent to signal.\<close>

lemma exit_init_diverges:
  assumes run: "sched_wf s L F r" and ini: "init_pcb s = Some r" and ok: "children_ok s L r"
    and ne: "L (PcbChildren r) \<noteq> []"
  shows "internal_exit s = Inl Diverges"
proof -
  note r = sched_wfD [OF run]
  let ?s1 = "upd_pcb r (\<lambda>c. c\<lparr>pcb_return_value := int_arg r 0 s\<rparr>) s"
  have "reparent_loop r r ?s1 = None"
    by (rule reparent_loop_diverges [of _ L F]) (use r ne ok in \<open>auto simp: upd_pcb_def children_ok_def\<close>)
  then show ?thesis using r(2,3) ini by (simp add: internal_exit_def Let_def upd_pcb_def)
qed

lemma exit_init_no_parent:
  assumes run: "sched_wf s L F r" and ini: "init_pcb s = Some r" and none: "L (PcbChildren r) = []"
    and par: "pcb_parent (pcbs s r) = None"
  shows "internal_exit s = Inl NullDeref"
proof -
  note r = sched_wfD [OF run]
  let ?s1 = "upd_pcb r (\<lambda>c. c\<lparr>pcb_return_value := int_arg r 0 s\<rparr>) s"
  have wf1: "kernel_wf ?s1 L F" using r(1) by (simp add: upd_pcb_def)
  have loop: "reparent_loop r r ?s1 = Some (Inr ?s1)"
    by (subst reparent_loop.simps) (simp add: wf_list_first [OF wf1] none)
  let ?s3 = "set_status r Zombie ?s1"
  have 3: "kernel_wf ?s3 L F" "fresh_block ?s3 L F r" using r by (simp_all add: set_status_def upd_pcb_def)
  obtain s4 where s4: "List_insert ZombieList (list_last ZombieList ?s3) (Some r) ?s3 = Inr (Some r, s4)"
    "lists_only ?s3 s4"
    using wf_enqueue_fresh [OF 3, of ZombieList] r(3) by auto
  have "pcb_parent (pcbs s4 r) = None"
    using lists_only_fields(2) [OF s4(2)] par by (simp add: set_status_def upd_pcb_def)
  moreover have "init_pcb ?s1 = Some r" using ini by (simp add: upd_pcb_def)
  ultimately show ?thesis using r(2,3) loop s4(1) by (simp add: internal_exit_def Let_def)
qed

subsection \<open>A parent that waits\<close>

definition pid_lookup :: "kernel \<Rightarrow> int \<Rightarrow> ptr list \<Rightarrow> ptr option" where
  "pid_lookup s pid pps = List.find (\<lambda>pp. pcb_pid (pcbs s (child s pp)) = pid) pps"

lemma PCBPtr_byPID_wf:
  assumes wf: "kernel_wf s L F" and ok: "children_ok s L p"
  shows "PCBPtr_byPID (PcbChildren p) pid s = Inr (pid_lookup s pid (L (PcbChildren p)))"
  unfolding PCBPtr_byPID_def pid_lookup_def
  by (rule wf_scan [OF wf]) (use kernel_wf_kind [OF wf] ok in \<open>fastforce simp: points_to_pid_def children_ok_def child_def\<close>)

definition others_timers :: "kernel \<Rightarrow> ptr \<Rightarrow> ptr list \<Rightarrow> ptr list" where
  "others_timers s r ts = filter (\<lambda>t. timer_pcb (timers s t) \<noteq> Some r) ts"

definition own_timers :: "kernel \<Rightarrow> ptr \<Rightarrow> ptr list \<Rightarrow> ptr list" where
  "own_timers s r ts = filter (\<lambda>t. timer_pcb (timers s t) = Some r) ts"

text \<open>The lists and the free blocks after the process is gone; the block of \<open>self\<close> is not freed.\<close>

definition gone_lists :: "kernel \<Rightarrow> ptr \<Rightarrow> ptr \<Rightarrow> ptr \<Rightarrow> (headref \<Rightarrow> ptr list) \<Rightarrow> (headref \<Rightarrow> ptr list)" where
  "gone_lists s r par self L =
     (released_lists s r (L (PcbDescriptors r))
       (L(WaitingList := remove1 par (L WaitingList),
          PcbChildren par := remove1 self (L (PcbChildren par)),
          TimerList := others_timers s r (L TimerList))))
     (ZombieList := remove1 r (L ZombieList))"

definition gone_free :: "kernel \<Rightarrow> ptr \<Rightarrow> (headref \<Rightarrow> ptr list) \<Rightarrow> (kind \<Rightarrow> int list) \<Rightarrow> (kind \<Rightarrow> int list)" where
  "gone_free s r L F =
     (released_free s (L (PcbDescriptors r))
       (F(KTimerItem := rev (map idx_of (own_timers s r (L TimerList))) @ F KTimerItem)))
     (KPCB := idx_of r # F KPCB)"

definition gone_contents :: "ptr \<Rightarrow> ptr \<Rightarrow> kernel \<Rightarrow> kernel" where
  "gone_contents r par s =
     (store_result par (pcb_return_value (pcbs s r))
       (set_retvalue par (pcb_pid (pcbs s r)) (set_status par Running s)))\<lparr>running := Some par\<rparr>"

lemma exit_to_parent_wf:
  assumes wf: "kernel_wf s L F" and par: "par \<in> set (L WaitingList)" and r: "r \<in> set (L ZombieList)"
    and ok: "children_ok s L par" and self: "pid_lookup s (pcb_pid (pcbs s r)) (L (PcbChildren par)) = Some self"
    and linked: "\<And>d. d \<in> set (L (PcbDescriptors r)) \<Longrightarrow> \<exists>res dp. desc_linked s L d res dp"
  shows "\<exists>s'. exit_to_parent r par s = Inr s' \<and>
    sched_wf s' (gone_lists s r par self L) (gone_free s r L F) par \<and> kernel_frame (gone_contents r par s) s'"
proof -
  let ?ds = "L (PcbDescriptors r)"
  let ?L0 = "L(WaitingList := remove1 par (L WaitingList))"
  let ?L1 = "?L0(PcbChildren par := remove1 self (L (PcbChildren par)))"
  let ?L2 = "?L1(TimerList := others_timers s r (L TimerList))"
  let ?F2 = "F(KTimerItem := rev (map idx_of (own_timers s r (L TimerList))) @ F KTimerItem)"
  let ?L3 = "released_lists s r ?ds ?L2" and ?F3 = "released_free s ?ds ?F2"
  have ne: "par \<noteq> r"
    using represents_disjoint [OF kernel_wf_represents [OF wf] par, of ZombieList] r by auto
  have kr: "kind_of r = KPCB" using kernel_wf_kind [OF wf r] by simp
  obtain s1 where s1: "List_detach WaitingList (Some par) s = Inr (Some par, s1)" "kernel_wf s1 ?L0 F"
    "lists_only s s1" "unlinked s1 par" "\<not> listed ?L0 par" "kind_of par = KPCB" "live s1 F par"
    using wf_remove [OF wf par] by auto
  let ?s2 = "set_status par Running s1"
  have wf2: "kernel_wf ?s2 ?L0 F" "fresh_block ?s2 ?L0 F par"
    using s1 by (simp_all add: set_status_def upd_pcb_def fresh_block_def)
  have same2: "pcb_ptrs ?s2 = pcb_ptrs s" "child ?s2 = child s" "pcb_pid (pcbs ?s2 p) = pcb_pid (pcbs s p)"
    "pcb_return_value (pcbs ?s2 p) = pcb_return_value (pcbs s p)" for p
    using lists_only_fields [OF s1(3)] by (simp_all add: set_status_def upd_pcb_def child_def fun_eq_iff)
  have ok2: "children_ok ?s2 ?L0 par" using ok by (simp add: children_ok_def same2)
  have look: "PCBPtr_byPID (PcbChildren par) (pcb_pid (pcbs s r)) ?s2 = Inr (Some self)"
    using PCBPtr_byPID_wf [OF wf2(1) ok2] self by (simp add: pid_lookup_def same2)
  have selfin: "self \<in> set (?L0 (PcbChildren par))" "?L0 (PcbChildren par) = L (PcbChildren par)"
    using self by (auto simp: pid_lookup_def dest: find_in_set)
  obtain s3 where s3: "List_detach (PcbChildren par) (Some self) ?s2 = Inr (Some self, s3)" "kernel_wf s3 ?L1 F"
    "lists_only ?s2 s3" "\<forall>p. \<not> listed ?L0 p \<longrightarrow> unlinked s3 p = unlinked ?s2 p"
    using wf_remove [OF wf2(1) selfin(1)] unfolding selfin(2) by blast
  let ?s5 = "store_result par (pcb_return_value (pcbs s r)) (set_retvalue par (pcb_pid (pcbs s r)) s3)"
  have same3: "pcbs s3 = pcbs ?s2" "live s3 F q = live ?s2 F q" for q
    using lists_only_fields [OF s3(3)] by (simp_all add: live_def)
  have "\<not> listed ?L1 par"
    using s1(5) selfin by (auto simp: listed_def dest: notin_set_remove1 split: if_splits)
  then have wf5: "kernel_wf ?s5 ?L1 F" "fresh_block ?s5 ?L1 F par"
    using s3(2,4) wf2(2) same3 by (simp_all add: fresh_block_def upd_defs)
  have timers5: "timers ?s5 = timers s" "descs ?s5 = descs s" "desc_ptrs ?s5 = desc_ptrs s"
    using lists_only_fields [OF s1(3)] lists_only_fields [OF s3(3)]
    by (simp_all add: store_result_def upd_defs set_status_def)
  have T: "?L1 TimerList = [] @ L TimerList" by simp
  obtain s6 where s6: "release_timers r (first_of (L TimerList) None) ?s5 = Some (Inr s6)"
    "kernel_wf s6 ?L2 ?F2" "kernel_frame ?s5 s6" "\<forall>q. fresh_block ?s5 ?L1 F q \<longrightarrow> fresh_block s6 ?L2 ?F2 q"
    using release_timers_wf [OF wf5(1) T, of r] unfolding timers5(1) others_timers_def own_timers_def append_Nil
    by blast
  have same6: "descs s6 = descs s" "desc_ptrs s6 = desc_ptrs s"
    using s6(3) timers5 by (simp_all add: kernel_frame_def)
  have linked6: "\<And>d. d \<in> set ?ds \<Longrightarrow> \<exists>res dp. desc_linked s6 ?L2 d res dp"
    using linked by (simp add: desc_linked_def same6)
  have ds: "?L2 (PcbDescriptors r) = ?ds" by simp
  have "owned_ptr s6 = owned_ptr s" by (simp add: owned_ptr_def same6 fun_eq_iff)
  then have rel: "released_lists s6 r = released_lists s r" "released_free s6 = released_free s"
    by (intro ext, simp only: released_lists_def released_free_def)+
  obtain s7 where s7: "release_descriptors r s6 = Some (Inr s7)" "kernel_wf s7 ?L3 ?F3" "kernel_frame s6 s7"
    "\<forall>q. fresh_block s6 ?L2 ?F2 q \<longrightarrow> fresh_block s7 ?L3 ?F3 q"
    using release_descriptors_wf [OF s6(2) ds linked6] unfolding rel by blast
  have rin: "r \<in> set (?L3 ZombieList)" "?L3 ZombieList = L ZombieList"
    using r by (simp_all add: released_lists_def)
  let ?L4 = "?L3(ZombieList := remove1 r (L ZombieList))"
  obtain s8 where s8: "List_detach ZombieList (Some r) s7 = Inr (Some r, s8)" "kernel_wf s8 ?L4 ?F3"
    "lists_only s7 s8" "\<not> listed ?L4 r" "live s8 ?F3 r"
    "\<forall>p. \<not> listed ?L3 p \<longrightarrow> unlinked s8 p = unlinked s7 p"
    using wf_remove [OF s7(2) rin(1)] unfolding rin(2) by blast
  obtain P where P: "free_block KPCB r s8 = Inr (Success, s8\<lparr>pools := P\<rparr>)"
    "kernel_wf (s8\<lparr>pools := P\<rparr>) ?L4 (?F3(KPCB := idx_of r # ?F3 KPCB))"
    "\<forall>q. live s8 ?F3 q \<longrightarrow> q \<noteq> r \<longrightarrow> live (s8\<lparr>pools := P\<rparr>) (?F3(KPCB := idx_of r # ?F3 KPCB)) q"
    using wf_free [OF s8(2,5,4) kr] by blast
  have F: "?F3(KPCB := idx_of r # ?F3 KPCB) = gone_free s r L F"
    by (simp add: gone_free_def released_free_def)
  have L: "?L4 = gone_lists s r par self L" by (simp add: gone_lists_def)
  let ?s' = "s8\<lparr>pools := P, running := Some par\<rparr>"
  have first: "list_first TimerList ?s5 = first_of (L TimerList) None"
    by (simp add: wf_list_first [OF wf5(1)])
  have pid2: "pcb_pid (pcbs s3 r) = pcb_pid (pcbs s r)" "pcb_return_value (pcbs s3 r) = pcb_return_value (pcbs s r)"
    by (simp_all add: same3 same2)
  have rv: "pcb_return_value (pcbs (set_retvalue par v s3) r) = pcb_return_value (pcbs s r)" for v
    using ne pid2 by (simp add: upd_defs)
  have "exit_to_parent r par s = Inr ?s'"
    using look first kr pid2
    by (simp add: exit_to_parent_def Let_def s1(1) same2 s3(1) rv s6(1) s7(1) s8(1) PCB_free_def P(1))
  moreover have "sched_wf ?s' (gone_lists s r par self L) (gone_free s r L F) par"
  proof -
    have f7: "fresh_block s7 ?L3 ?F3 par" using s7(4) s6(4) wf5(2) by blast
    then have nl: "\<not> listed ?L3 par" by (simp add: fresh_block_def)
    moreover have "\<not> listed ?L4 par"
      using nl not_listedD [OF nl, of ZombieList] unfolding rin(2)
      by (auto simp: listed_def dest: notin_set_remove1 split: if_splits)
    moreover have "live s8 ?F3 par" using f7 lists_only_fields(1) [OF s8(3)] by (simp add: fresh_block_def live_def)
    ultimately show ?thesis
      using P(2,3) s8(6) f7 s1(6) ne unfolding F L by (simp add: sched_wf_def fresh_block_def)
  qed
  moreover have "kernel_frame (gone_contents r par s) ?s'"
    using lists_only_fields [OF s1(3)] lists_only_fields [OF s3(3)] s6(3) s7(3) lists_only_fields [OF s8(3)]
    by (simp add: kernel_frame_def gone_contents_def store_result_def upd_defs set_status_def syscall_arg_def)
  ultimately show ?thesis by blast
qed

lemma gone_cong:
  assumes "timers s' = timers s" and "descs s' = descs s"
  shows "gone_lists s' = gone_lists s" "gone_free s' = gone_free s"
proof -
  have "owned_ptr s' = owned_ptr s" by (simp add: owned_ptr_def assms fun_eq_iff)
  then show "gone_lists s' = gone_lists s" "gone_free s' = gone_free s"
    by (intro ext, simp only: gone_lists_def gone_free_def released_lists_def released_free_def
        others_timers_def own_timers_def assms)+
qed

lemma exit_parent_wf:
  assumes run: "sched_wf s L F r" and ini: "init_pcb s = Some ini" "kind_of ini = KPCB" "ini \<noteq> r"
    and ok: "children_ok s L r" "children_ok s L par"
    and par: "pcb_parent (pcbs s r) = Some par" "par \<in> set (L WaitingList)" and waits: "awaits par r s"
    and self: "pid_lookup s (pcb_pid (pcbs s r)) (zombie_lists r ini L (PcbChildren par)) = Some self"
    and linked: "\<And>d. d \<in> set (L (PcbDescriptors r)) \<Longrightarrow> \<exists>res dp. desc_linked s L d res dp"
  defines "s0 \<equiv> exit_contents r par (child s ` set (L (PcbChildren r))) s" and "L0 \<equiv> zombie_lists r ini L"
  shows "\<exists>s'. internal_exit s = Inr s' \<and> sched_wf s' (gone_lists s r par self L0) (gone_free s r L0 F) par \<and>
    kernel_frame (gone_contents r par s0) s'"
proof -
  note wf = sched_wfD(1) [OF run]
  have ne: "par \<noteq> r" using sched_wfD(5) [OF run] par(2) by (auto simp: listed_def)
  have k: "kind_of par = KPCB" using kernel_wf_kind [OF wf par(2)] by simp
  obtain s1 where s1: "internal_exit s = exit_to_parent r par s1" "kernel_wf s1 L0 F" "kernel_frame s0 s1"
    using exit_common [OF run ini ok(1) par(1) k ne] waits unfolding s0_def L0_def by auto
  have same: "timers s1 = timers s" "descs s1 = descs s" "desc_ptrs s1 = desc_ptrs s" "pcb_ptrs s1 = pcb_ptrs s"
    using s1(3) by (simp_all add: kernel_frame_def s0_def exit_contents_def send_signal_def set_status_def
        upd_pcb_def hang_up_children_def)
  have pid: "pcb_pid (pcbs s1 p) = pcb_pid (pcbs s p)" for p
    using s1(3) by (simp add: kernel_frame_def s0_def exit_contents_def send_signal_def set_status_def
        upd_pcb_def hang_up_children_def hung_up_def)
  have child: "child s1 = child s" by (simp add: child_def same fun_eq_iff)
  have "children_ok s1 L0 par"
    using ok by (auto simp: children_ok_def same L0_def zombie_lists_def reparented_def split: if_splits)
  moreover have "par \<in> set (L0 WaitingList)" "r \<in> set (L0 ZombieList)"
    using par(2) by (simp_all add: L0_def zombie_lists_def reparented_def)
  moreover have "pid_lookup s1 (pcb_pid (pcbs s1 r)) (L0 (PcbChildren par)) = Some self"
    using self by (simp add: pid_lookup_def pid child L0_def)
  moreover have "\<exists>res dp. desc_linked s1 L0 d res dp" if "d \<in> set (L0 (PcbDescriptors r))" for d
    using linked [of d] that by (simp add: L0_def zombie_lists_def reparented_def desc_linked_def same)
  ultimately obtain s' where s': "exit_to_parent r par s1 = Inr s'"
    "sched_wf s' (gone_lists s r par self L0) (gone_free s r L0 F) par" "kernel_frame (gone_contents r par s1) s'"
    using exit_to_parent_wf [OF s1(2)] unfolding gone_cong [OF same(1,2)] by blast
  have "kernel_frame (gone_contents r par s0) s'"
    using s'(3) s1(3) by (simp add: kernel_frame_def gone_contents_def store_result_def upd_defs set_status_def
        syscall_arg_def)
  with s1(1) s'(1,2) show ?thesis by auto
qed

text \<open>The pointer to the process in its parent's list is detached and never given back.\<close>

lemma exit_leaks_child_pointer:
  assumes "kernel_wf s0 L F" and "self \<in> set (L (PcbChildren par))"
  shows "\<not> listed (gone_lists s r par self L) self \<and> idx_of self \<notin> set (gone_free s r L F KPCBPtr)"
proof
  have k: "kind_of self = KPCBPtr" and "live s0 F self"
    using kernel_wf_kind [OF assms(1,2)] kernel_wf_live [OF assms(1,2)] by simp_all
  then show "idx_of self \<notin> set (gone_free s r L F KPCBPtr)" by (simp add: gone_free_def released_free_def live_def)
  have only: "h = PcbChildren par" if "self \<in> set (L h)" for h
    using represents_disjoint [OF kernel_wf_represents [OF assms(1)] assms(2) that] by simp
  have "self \<notin> set (remove1 self (L (PcbChildren par)))"
    using represents_distinct [OF kernel_wf_represents [OF assms(1)]] by simp
  then show "\<not> listed (gone_lists s r par self L) self"
    unfolding listed_def
    by (auto simp: gone_lists_def released_lists_def others_timers_def
        split: headref.splits if_splits dest!: set_remove1_subset [THEN subsetD] dest: only)
qed

end
