(* ===== verification/OpenDescriptor.thy ===== *)
theory OpenDescriptor
  imports Process
begin

text \<open>
  The step that opening a semaphore and opening a message queue share: a descriptor for the
  process and a pointer to it for the object, each put at the end of its list. The module of the
  object fixes the pools, the type of the object, the two lists, the counter of the process and the error code.
\<close>

definition open_descriptor ::
  "kind \<Rightarrow> kind \<Rightarrow> kind \<Rightarrow> headref \<Rightarrow> headref \<Rightarrow> (PCB \<Rightarrow> int) \<Rightarrow> (int \<Rightarrow> PCB \<Rightarrow> PCB) \<Rightarrow> int
   \<Rightarrow> ptr \<Rightarrow> ptr \<Rightarrow> kernel \<Rightarrow> fault + kernel" where
  "open_descriptor k kp ko own objl last_fd set_last_fd err r obj s =
     andThen (desc_alloc k (last_fd (pcbs s r)) (Some obj) (Some r) s) (\<lambda>(des, s1).
     case des of
       None \<Rightarrow> Inr (set_retvalue r err s1)
     | Some des \<Rightarrow>
         andThen (desc_ptr_alloc kp (Some des) s1) (\<lambda>(desptr, s2).
         case desptr of
           None \<Rightarrow> Inr (set_retvalue r err s2)
         | Some desptr \<Rightarrow>
             let s3 = upd_desc des (\<lambda>d. d\<lparr>desc_ptr := Some desptr\<rparr>) s2 in
             andThen (List_insert own (list_last own s3) (Some des) s3) (\<lambda>(_, s4).
             andThen (deref ko (Some obj)) (\<lambda>_.
             andThen (List_insert objl (list_last objl s4) (Some desptr) s4) (\<lambda>(_, s5).
             andThen (checked_int (last_fd (pcbs s5 r) + 1)) (\<lambda>next_fd.
             let s6 = upd_pcb r (set_last_fd next_fd) s5 in
             Inr (set_retvalue r (last_fd (pcbs s6 r) - 1) s6)))))))"

definition opened_desc ::
  "(PCB \<Rightarrow> int) \<Rightarrow> (int \<Rightarrow> PCB \<Rightarrow> PCB) \<Rightarrow> ptr \<Rightarrow> ptr \<Rightarrow> ptr \<Rightarrow> ptr \<Rightarrow> kernel \<Rightarrow> kernel" where
  "opened_desc last_fd set_last_fd r obj d dp s =
     s\<lparr>descs := (descs s)(d := \<lparr>desc_pcb = Some r, desc_object = Some obj,
          desc_fd = last_fd (pcbs s r), desc_ptr = Some dp\<rparr>),
       desc_ptrs := (desc_ptrs s)(dp := Some d),
       pcbs := (pcbs s)(r := (set_last_fd (last_fd (pcbs s r) + 1) (pcbs s r))
          \<lparr>pcb_syscall_retvalue := last_fd (pcbs s r)\<rparr>)\<rparr>"

lemma open_descriptor_wf:
  assumes run: "sched_wf s L F r" and F: "F k = i # is" "F kp = j # js" and kk: "k \<noteq> kp" "kind_of obj = ko"
    and lists: "item_kind own = k" "item_kind objl = kp" and kinds: "k \<noteq> KPCB" "kp \<noteq> KPCB"
    and fd: "\<And>v c. last_fd (set_last_fd v c) = v" and rng: "int32_range (last_fd (pcbs s r) + 1)"
  defines "d \<equiv> Ptr k i" and "dp \<equiv> Ptr kp j"
  shows "\<exists>s'. open_descriptor k kp ko own objl last_fd set_last_fd err r obj s = Inr s' \<and>
    sched_wf s' (L(own := L own @ [d], objl := L objl @ [dp])) (F(k := is, kp := js)) r \<and>
    kernel_frame (opened_desc last_fd set_last_fd r obj d dp s) s'"
proof -
  note r = sched_wfD [OF run]
  let ?fd = "last_fd (pcbs s r)" and ?F1 = "F(k := is)" and ?F2 = "F(k := is, kp := js)"
  let ?L1 = "L(own := L own @ [d])"
  obtain s1 where s1: "desc_alloc k ?fd (Some obj) (Some r) s = Inr (Some d, s1)" "kernel_wf s1 L ?F1"
    "kernel_frame (s\<lparr>descs := (descs s)(d := (descs s d)\<lparr>desc_fd := ?fd, desc_object := Some obj, desc_pcb := Some r\<rparr>)\<rparr>) s1"
    "fresh_block s1 L ?F1 d" "\<forall>p. live s F p \<longrightarrow> p \<noteq> d \<and> live s1 ?F1 p" "\<forall>p. p \<noteq> d \<longrightarrow> unlinked s1 p = unlinked s p"
    using desc_alloc_wf [OF r(1) F(1)] unfolding d_def by blast
  have r1: "fresh_block s1 L ?F1 r" by (rule fresh_block_other [OF r(4)]; use s1(5,6) in blast)
  have "?F1 kp = j # js" using F(2) kk(1) by simp
  then obtain s2 where s2: "desc_ptr_alloc kp (Some d) s1 = Inr (Some dp, s2)" "kernel_wf s2 L ?F2"
    "kernel_frame (s1\<lparr>desc_ptrs := (desc_ptrs s1)(dp := Some d)\<rparr>) s2" "fresh_block s2 L ?F2 dp"
    "\<forall>p. live s1 ?F1 p \<longrightarrow> p \<noteq> dp \<and> live s2 ?F2 p" "\<forall>p. p \<noteq> dp \<longrightarrow> unlinked s2 p = unlinked s1 p"
    using desc_ptr_alloc_wf [OF s1(2)] unfolding dp_def by blast
  have d2: "fresh_block s2 L ?F2 d" by (rule fresh_block_other [OF s1(4)]; use s2(5,6) in blast)
  have r2: "fresh_block s2 L ?F2 r" by (rule fresh_block_other [OF r1]; use s2(5,6) in blast)
  have ne: "d \<noteq> dp" "dp \<noteq> d" "r \<noteq> d" "r \<noteq> dp"
    using kk r(3) kinds by (auto simp: d_def dp_def)
  let ?s3 = "upd_desc d (\<lambda>d. d\<lparr>desc_ptr := Some dp\<rparr>) s2"
  have 3: "kernel_wf ?s3 L ?F2" "fresh_block ?s3 L ?F2 d" "fresh_block ?s3 L ?F2 dp" "fresh_block ?s3 L ?F2 r"
    using s2(2,4) d2 r2 by (simp_all add: upd_desc_def)
  have "kind_of d = item_kind own" "kind_of dp = item_kind objl" by (simp_all add: d_def dp_def lists)
  note kd = this
  obtain s4 where s4: "List_insert own (list_last own ?s3) (Some d) ?s3 = Inr (Some d, s4)"
    "kernel_wf s4 ?L1 ?F2" "lists_only ?s3 s4" "\<forall>p. \<not> listed L p \<longrightarrow> p \<noteq> d \<longrightarrow> unlinked s4 p = unlinked ?s3 p"
    using wf_enqueue_fresh [OF 3(1,2) kd(1)] by blast
  have dp4: "fresh_block s4 ?L1 ?F2 dp"
    by (rule fresh_block_linked [OF 3(3) ne(2) s4(3)]) (use s4(4) in blast)
  have r4: "fresh_block s4 ?L1 ?F2 r"
    by (rule fresh_block_linked [OF 3(4) ne(3) s4(3)]) (use s4(4) in blast)
  have own: "own \<noteq> objl" using lists kk by auto
  have o: "?L1 objl = L objl" using own by simp
  obtain s5 where s5: "List_insert objl (list_last objl s4) (Some dp) s4 = Inr (Some dp, s5)"
    "kernel_wf s5 (?L1(objl := L objl @ [dp])) ?F2" "lists_only s4 s5"
    "\<forall>p. \<not> listed ?L1 p \<longrightarrow> p \<noteq> dp \<longrightarrow> unlinked s5 p = unlinked s4 p"
    using wf_enqueue_fresh [OF s4(2) dp4 kd(2)] unfolding o by blast
  have r5: "fresh_block s5 (?L1(objl := L objl @ [dp])) ?F2 r"
    using fresh_block_linked [OF r4 ne(4) s5(3), of objl] s5(4) unfolding o by blast
  note fr = s1(3) s2(3) lists_only_frame [OF s4(3)] lists_only_frame [OF s5(3)]
  have same: "pcbs s5 = pcbs s" "running s5 = Some r"
    using fr r(2) by (simp_all add: kernel_frame_def upd_desc_def)
  let ?s' = "set_retvalue r ?fd (upd_pcb r (set_last_fd (?fd + 1)) s5)"
  have "open_descriptor k kp ko own objl last_fd set_last_fd err r obj s = Inr ?s'"
    using rng kk(2) by (simp add: open_descriptor_def s1(1) s2(1) s4(1) s5(1) same Let_def)
      (simp add: upd_pcb_def fd)
  moreover have "sched_wf ?s' (?L1(objl := L objl @ [dp])) ?F2 r"
    using s5(2) r5 r(3) same by (simp add: sched_wf_def upd_defs)
  moreover have "kernel_frame (opened_desc last_fd set_last_fd r obj d dp s) ?s'"
    using fr by (simp add: kernel_frame_def upd_defs opened_desc_def)
  ultimately show ?thesis by blast
qed

lemma open_descriptor_no_desc:
  assumes "kernel_wf s L F" and "F k = []"
  shows "open_descriptor k kp ko own objl last_fd set_last_fd err r obj s = Inr (set_retvalue r err s)"
  by (simp add: open_descriptor_def desc_alloc_def wf_alloc_empty [OF assms])

text \<open>Without a block for the pointer the descriptor is lost: it is in no list and not freed.\<close>

lemma open_descriptor_no_ptr:
  assumes run: "sched_wf s L F r" and F: "F k = i # is" "F kp = []" and kk: "k \<noteq> kp" "k \<noteq> KPCB"
  shows "\<exists>s'. open_descriptor k kp ko own objl last_fd set_last_fd err r obj s = Inr s' \<and>
    sched_wf s' L (F(k := is)) r \<and> retvalue r s' = err \<and>
    kernel_frame (set_retvalue r err (s\<lparr>descs := (descs s)(Ptr k i := (descs s (Ptr k i))
      \<lparr>desc_fd := last_fd (pcbs s r), desc_object := Some obj, desc_pcb := Some r\<rparr>)\<rparr>)) s'"
proof -
  note r = sched_wfD [OF run]
  let ?fd = "last_fd (pcbs s r)" and ?F1 = "F(k := is)" and ?d = "Ptr k i"
  obtain s1 where s1: "desc_alloc k ?fd (Some obj) (Some r) s = Inr (Some ?d, s1)" "kernel_wf s1 L ?F1"
    "kernel_frame (s\<lparr>descs := (descs s)(?d := (descs s ?d)\<lparr>desc_fd := ?fd, desc_object := Some obj, desc_pcb := Some r\<rparr>)\<rparr>) s1"
    "\<forall>p. live s F p \<longrightarrow> p \<noteq> ?d \<and> live s1 ?F1 p" "\<forall>p. p \<noteq> ?d \<longrightarrow> unlinked s1 p = unlinked s p"
    using desc_alloc_wf [OF r(1) F(1)] by blast
  have r1: "fresh_block s1 L ?F1 r" by (rule fresh_block_other [OF r(4)]; use s1(4,5) in blast)
  have "?F1 kp = []" using F(2) kk(1) by simp
  then have "open_descriptor k kp ko own objl last_fd set_last_fd err r obj s = Inr (set_retvalue r err s1)"
    by (simp add: open_descriptor_def s1(1) desc_ptr_alloc_def wf_alloc_empty [OF s1(2)])
  moreover have "sched_wf (set_retvalue r err s1) L ?F1 r"
    using s1(2,3) r1 r(2,3) by (simp add: sched_wf_def upd_defs kernel_frame_def)
  moreover have "kernel_frame (set_retvalue r err (s\<lparr>descs := (descs s)(?d := (descs s ?d)
      \<lparr>desc_fd := ?fd, desc_object := Some obj, desc_pcb := Some r\<rparr>)\<rparr>)) (set_retvalue r err s1)"
    using s1(3) by (simp add: kernel_frame_def upd_defs)
  ultimately show ?thesis by (auto simp: retvalue_def upd_defs)
qed

end
