(* ===== verification/Semaphore.thy ===== *)
theory Semaphore
  imports OpenDescriptor
begin

text \<open>
  Semaphores: \<^verbatim>\<open>src/disastrOS_semaphore.c\<close>, \<^verbatim>\<open>src/disastrOS_semdescriptor.c\<close> and
  the system calls open, close, wait and post. A process that has to wait moves its descriptor
  pointer from the descriptors of the semaphore to its waiting descriptors. The last section
  relates wait and post to a counter with a queue of processes.
\<close>

section \<open>Semaphores and their descriptors\<close>

text \<open>The list of waiting descriptors is not initialised.\<close>

definition Semaphore_alloc :: "int \<Rightarrow> int \<Rightarrow> kernel \<Rightarrow> fault + (ptr option \<times> kernel)" where
  "Semaphore_alloc sid count s =
     andThen (alloc_block KSemaphore s) (\<lambda>(r, s1).
       case r of
         None \<Rightarrow> Inr (None, s1)
       | Some r \<Rightarrow>
           Inr (Some r, List_init (SemDescriptors r)
                  (upd_sem r (\<lambda>_. \<lparr>sem_id = sid, sem_count = count\<rparr>) (clear_links r s1))))"

definition Semaphore_free :: "ptr \<Rightarrow> kernel \<Rightarrow> fault + (PoolAllocatorResult \<times> kernel)" where
  "Semaphore_free r s =
     (if list_first (SemDescriptors r) s \<noteq> None then Inl AssertFail
      else if list_last (SemDescriptors r) s \<noteq> None then Inl AssertFail
      else free_block KSemaphore r s)"

definition has_sem_id :: "int \<Rightarrow> kernel \<Rightarrow> ptr \<Rightarrow> fault + bool" where
  "has_sem_id sid s aux = andThen (deref KSemaphore (Some aux)) (\<lambda>r. Inr (sem_id (sems s r) = sid))"

definition SemaphoreList_byId :: "headref \<Rightarrow> int \<Rightarrow> kernel \<Rightarrow> fault + ptr option" where
  "SemaphoreList_byId l sid s = List_scan (has_sem_id sid s) l s"

definition SemDescriptor_alloc :: "int \<Rightarrow> ptr option \<Rightarrow> ptr option \<Rightarrow> kernel \<Rightarrow> fault + (ptr option \<times> kernel)" where
  "SemDescriptor_alloc = desc_alloc KSemDescriptor"

definition SemDescriptor_free :: "ptr \<Rightarrow> kernel \<Rightarrow> fault + (PoolAllocatorResult \<times> kernel)" where
  "SemDescriptor_free d s = free_block KSemDescriptor d s"

definition SemDescriptorList_byFd :: "headref \<Rightarrow> int \<Rightarrow> kernel \<Rightarrow> fault + ptr option" where
  "SemDescriptorList_byFd l fd s = List_scan (has_fd KSemDescriptor fd s) l s"

definition SemDescriptorPtr_alloc :: "ptr option \<Rightarrow> kernel \<Rightarrow> fault + (ptr option \<times> kernel)" where
  "SemDescriptorPtr_alloc = desc_ptr_alloc KSemDescriptorPtr"

definition SemDescriptorPtr_free :: "ptr \<Rightarrow> kernel \<Rightarrow> fault + (PoolAllocatorResult \<times> kernel)" where
  "SemDescriptorPtr_free d s = free_block KSemDescriptorPtr d s"

section \<open>The system calls\<close>

definition set_last_sem_fd :: "int \<Rightarrow> PCB \<Rightarrow> PCB" where
  "set_last_sem_fd v c = c\<lparr>pcb_last_sem_fd := v\<rparr>"

definition semOpen_attach :: "ptr \<Rightarrow> ptr \<Rightarrow> kernel \<Rightarrow> fault + kernel" where
  "semOpen_attach r sem =
     open_descriptor KSemDescriptor KSemDescriptorPtr KSemaphore (PcbSemDescriptors r) (SemDescriptors sem)
       pcb_last_sem_fd set_last_sem_fd DSOS_ESEMAPHOREOPEN r sem"

text \<open>The count is read as an unsigned integer, so the test for a negative one never succeeds.\<close>

definition internal_semOpen :: "kernel \<Rightarrow> fault + kernel" where
  "internal_semOpen s =
     andThen (deref KPCB (running s)) (\<lambda>r.
     let sid = int_arg r 0 s; flags = int_arg r 1 s; count = syscall_arg r 2 s mod 2 ^ 32;
         refuse = \<lambda>s. Inr (set_retvalue r DSOS_ESEMAPHOREOPEN s)
     in
     andThen (checked_int (pcb_last_sem_fd (pcbs s r) + 1)) (\<lambda>fds.
     if fds > MAX_NUM_SEMDESCRIPTORS_PER_PROCESS then refuse s
     else if sid < 0 then refuse s
     else if count < 0 then refuse s
     else
       andThen (SemaphoreList_byId SemaphoresList sid s) (\<lambda>sem.
       if flags AND DSOS_CREATE \<noteq> 0 \<and> sem \<noteq> None \<and> flags AND DSOS_EXCL \<noteq> 0 then refuse s
       else if flags AND DSOS_CREATE \<noteq> 0 \<and> sem = None then
         if list_size SemaphoresList s + 1 > MAX_NUM_SEMAPHORES then refuse s
         else
           andThen (Semaphore_alloc sid (to_int32 count) s) (\<lambda>(sem, s1).
           case sem of
             None \<Rightarrow> refuse s1
           | Some sem \<Rightarrow>
               andThen (List_insert SemaphoresList (list_last SemaphoresList s1) (Some sem) s1) (\<lambda>(_, s2).
               semOpen_attach r sem s2))
       else
         (case sem of
            None \<Rightarrow> refuse s
          | Some sem \<Rightarrow> semOpen_attach r sem s))))"

text \<open>What the other three calls start with: the descriptor, and the semaphore it is for.\<close>

definition sem_of_fd :: "ptr \<Rightarrow> int \<Rightarrow> kernel \<Rightarrow> fault + (ptr \<times> ptr) option" where
  "sem_of_fd r fd s =
     (if fd < 0 \<or> fd > MAX_NUM_SEMDESCRIPTORS_PER_PROCESS then Inr None
      else
        andThen (SemDescriptorList_byFd (PcbSemDescriptors r) fd s) (\<lambda>des.
        case des of
          None \<Rightarrow> Inr None
        | Some des \<Rightarrow>
            (case desc_object (descs s des) of
               None \<Rightarrow> Inr None
             | Some sem \<Rightarrow> Inr (Some (des, sem)))))"

text \<open>The end of close, reached with the descriptors gone: the last to close destroys the semaphore.\<close>

definition semClose_end :: "ptr \<Rightarrow> ptr \<Rightarrow> kernel \<Rightarrow> fault + kernel" where
  "semClose_end r sem s =
     (if list_size (SemDescriptors sem) s = 0
      then
        andThen (List_detach SemaphoresList (Some sem) s) (\<lambda>(sem, s6).
        case sem of
          None \<Rightarrow> Inr (set_retvalue r DSOS_ESEMAPHORECLOSE s6)
        | Some sem \<Rightarrow> andThen (Semaphore_free sem s6) (\<lambda>(_, s7). Inr (set_retvalue r 0 s7)))
      else Inr (set_retvalue r 0 s))"

definition internal_semClose :: "kernel \<Rightarrow> fault + kernel" where
  "internal_semClose s =
     andThen (deref KPCB (running s)) (\<lambda>r.
     let refuse = \<lambda>s. Inr (set_retvalue r DSOS_ESEMAPHORECLOSE s) in
     andThen (sem_of_fd r (int_arg r 0 s) s) (\<lambda>found.
     case found of
       None \<Rightarrow> refuse s
     | Some (semDes, sem) \<Rightarrow>
         andThen (List_detach (PcbSemDescriptors r) (Some semDes) s) (\<lambda>(_, s1).
         case desc_ptr (descs s1 semDes) of
           None \<Rightarrow> refuse s1
         | Some semDesPtr \<Rightarrow>
             andThen (deref KSemaphore (Some sem)) (\<lambda>sem.
             andThen (List_detach (SemDescriptors sem) (Some semDesPtr) s1) (\<lambda>(_, s2).
             andThen (SemDescriptor_free semDes s2) (\<lambda>(_, s3).
             andThen (SemDescriptorPtr_free semDesPtr s3) (\<lambda>(_, s4).
             andThen (checked_int (pcb_last_sem_fd (pcbs s4 r) - 1)) (\<lambda>fds.
             semClose_end r sem (upd_pcb r (set_last_sem_fd fds) s4)))))))))"

text \<open>The end of wait: the next process runs, this one joins the waiting list.\<close>

definition semWait_switch :: "ptr \<Rightarrow> kernel \<Rightarrow> fault + kernel" where
  "semWait_switch r s =
     andThen (List_detach ReadyList (list_first ReadyList s) s) (\<lambda>(newRunning, s1).
     if newRunning = None then Inr (set_retvalue r DSOS_ESEMAPHOREWAIT s1)
     else
       andThen (List_insert WaitingList (list_last WaitingList s1) (Some r) s1) (\<lambda>(_, s2).
       Inr (s2\<lparr>running := newRunning\<rparr>)))"

definition internal_semWait :: "kernel \<Rightarrow> fault + kernel" where
  "internal_semWait s =
     andThen (deref KPCB (running s)) (\<lambda>r.
     let refuse = \<lambda>s. Inr (set_retvalue r DSOS_ESEMAPHOREWAIT s) in
     andThen (sem_of_fd r (int_arg r 0 s) s) (\<lambda>found.
     case found of
       None \<Rightarrow> refuse s
     | Some (semDes, sem) \<Rightarrow>
         andThen (deref KSemaphore (Some sem)) (\<lambda>sem.
         if sem_count (sems s sem) > 0
         then Inr (set_retvalue r 0 (upd_sem sem (\<lambda>c. c\<lparr>sem_count := sem_count c - 1\<rparr>) s))
         else
           (case desc_ptr (descs s semDes) of
              None \<Rightarrow> refuse s
            | Some semDesPtr \<Rightarrow>
                andThen (List_detach (SemDescriptors sem) (Some semDesPtr) s) (\<lambda>(semDesPtr, s1).
                if semDesPtr = None then refuse s1
                else
                  andThen (List_insert (SemWaiting sem) (list_last (SemWaiting sem) s1) semDesPtr s1) (\<lambda>(_, s2).
                  semWait_switch r s2))))))"

definition internal_semPost :: "kernel \<Rightarrow> fault + kernel" where
  "internal_semPost s =
     andThen (deref KPCB (running s)) (\<lambda>r.
     let refuse = \<lambda>s. Inr (set_retvalue r DSOS_ESEMAPHOREPOST s) in
     andThen (sem_of_fd r (int_arg r 0 s) s) (\<lambda>found.
     case found of
       None \<Rightarrow> refuse s
     | Some (semDes, sem) \<Rightarrow>
         andThen (deref KSemaphore (Some sem)) (\<lambda>sem.
         andThen (checked_int (sem_count (sems s sem) + 1)) (\<lambda>count.
         let s1 = upd_sem sem (\<lambda>c. c\<lparr>sem_count := count\<rparr>) s in
         if count > 0
         then
           if list_size (SemWaiting sem) s1 \<noteq> 0
           then
             let s2 = upd_sem sem (\<lambda>c. c\<lparr>sem_count := sem_count c - 1\<rparr>) s1 in
             andThen (List_detach (SemWaiting sem) (list_first (SemWaiting sem) s2) s2) (\<lambda>(semDesPtr, s3).
             andThen (deref KSemDescriptorPtr semDesPtr) (\<lambda>dp.
             andThen (deref KSemDescriptor (desc_ptrs s3 dp)) (\<lambda>semDes.
             case desc_pcb (descs s3 semDes) of
               None \<Rightarrow> refuse s3
             | Some awakening \<Rightarrow>
                 andThen (List_detach WaitingList (Some awakening) s3) (\<lambda>(_, s4).
                 andThen (List_insert ReadyList (list_last ReadyList s4) (Some awakening) s4) (\<lambda>(_, s5).
                 andThen (List_insert (SemDescriptors sem) (list_last (SemDescriptors sem) s5) semDesPtr s5)
                   (\<lambda>(_, s6). Inr s6))))))
           else Inr (set_retvalue r 0 s1)
         else Inr (set_retvalue r 0 s1)))))"

section \<open>Searches on well-formed states\<close>

lemma SemaphoreList_byId_wf:
  assumes "kernel_wf s L F" and "item_kind h = KSemaphore"
  shows "SemaphoreList_byId h i s = Inr (List.find (\<lambda>p. sem_id (sems s p) = i) (L h))"
  unfolding SemaphoreList_byId_def
  by (rule wf_scan [OF assms(1)]) (simp add: has_sem_id_def kernel_wf_kind [OF assms(1)] assms(2))

definition sem_lookup :: "kernel \<Rightarrow> (headref \<Rightarrow> ptr list) \<Rightarrow> int \<Rightarrow> ptr option" where
  "sem_lookup s L sid = List.find (\<lambda>p. sem_id (sems s p) = sid) (L SemaphoresList)"

text \<open>The descriptor a file descriptor names, with its semaphore.\<close>

definition sem_handle :: "kernel \<Rightarrow> (headref \<Rightarrow> ptr list) \<Rightarrow> ptr \<Rightarrow> int \<Rightarrow> (ptr \<times> ptr) option" where
  "sem_handle s L r fd =
     (if fd < 0 \<or> fd > 32 then None
      else case fd_lookup s (L (PcbSemDescriptors r)) fd of
             None \<Rightarrow> None
           | Some d \<Rightarrow> map_option (\<lambda>sem. (d, sem)) (desc_object (descs s d)))"

lemma sem_of_fd_wf:
  assumes "kernel_wf s L F"
  shows "sem_of_fd r fd s = Inr (sem_handle s L r fd)"
  using has_fd_wf [OF assms, of "PcbSemDescriptors r" KSemDescriptor fd]
  by (simp add: sem_of_fd_def sem_handle_def SemDescriptorList_byFd_def fd_lookup_def split: option.splits)

lemma sem_handle_listed:
  "sem_handle s L r fd = Some (d, sem) \<Longrightarrow> d \<in> set (L (PcbSemDescriptors r))"
  by (auto simp: sem_handle_def fd_lookup_def split: if_splits option.splits dest: find_in_set)

section \<open>Wait\<close>

lemma semWait_bad_fd:
  assumes run: "sched_wf s L F r" and h: "sem_handle s L r (int_arg r 0 s) = None"
  shows "internal_semWait s = Inr (set_retvalue r DSOS_ESEMAPHOREWAIT s)"
  using sched_wfD(2,3) [OF run] sem_of_fd_wf [OF sched_wfD(1) [OF run]] h
  by (simp add: internal_semWait_def Let_def)

lemma semWait_takes:
  assumes run: "sched_wf s L F r" and h: "sem_handle s L r (int_arg r 0 s) = Some (d, sem)"
    and k: "kind_of sem = KSemaphore" and pos: "sem_count (sems s sem) > 0"
  shows "internal_semWait s = Inr (set_retvalue r 0 (upd_sem sem (\<lambda>c. c\<lparr>sem_count := sem_count c - 1\<rparr>) s))"
  using sched_wfD(2,3) [OF run] sem_of_fd_wf [OF sched_wfD(1) [OF run]] h k pos
  by (simp add: internal_semWait_def Let_def)

definition blocked_lists :: "ptr \<Rightarrow> ptr \<Rightarrow> ptr \<Rightarrow> (headref \<Rightarrow> ptr list) \<Rightarrow> (headref \<Rightarrow> ptr list)" where
  "blocked_lists r sem dp L =
     L(SemDescriptors sem := remove1 dp (L (SemDescriptors sem)), SemWaiting sem := L (SemWaiting sem) @ [dp],
       ReadyList := tl (L ReadyList), WaitingList := L WaitingList @ [r])"

lemma semWait_queue:
  assumes run: "sched_wf s L F r" and h: "sem_handle s L r (int_arg r 0 s) = Some (d, sem)"
    and k: "kind_of sem = KSemaphore" and none: "sem_count (sems s sem) \<le> 0"
    and dp: "desc_ptr (descs s d) = Some dp" "dp \<in> set (L (SemDescriptors sem))"
  defines "L1 \<equiv> L(SemDescriptors sem := remove1 dp (L (SemDescriptors sem)), SemWaiting sem := L (SemWaiting sem) @ [dp])"
  shows "\<exists>s2. internal_semWait s = semWait_switch r s2 \<and>
    sched_wf s2 L1 F r \<and> lists_only s s2"
proof -
  note r = sched_wfD [OF run]
  obtain s1 s2 where s: "List_detach (SemDescriptors sem) (Some dp) s = Inr (Some dp, s1)"
    "List_insert (SemWaiting sem) (list_last (SemWaiting sem) s1) (Some dp) s1 = Inr (Some dp, s2)"
    "kernel_wf s2 L1 F" "lists_only s s2" "\<forall>q. fresh_block s L F q \<longrightarrow> fresh_block s2 L1 F q"
    using wf_move [OF r(1) dp(2), of "SemWaiting sem"] unfolding L1_def by auto
  have "internal_semWait s = semWait_switch r s2"
    using r(2,3) sem_of_fd_wf [OF r(1)] h k none dp(1) s(1,2) by (simp add: internal_semWait_def Let_def)
  moreover have "sched_wf s2 L1 F r"
    using s(3,5) r lists_only_fields(13) [OF s(4)] by (simp add: sched_wf_def)
  ultimately show ?thesis using s(4) by blast
qed

lemma semWait_blocks:
  assumes run: "sched_wf s L F r" and h: "sem_handle s L r (int_arg r 0 s) = Some (d, sem)"
    and k: "kind_of sem = KSemaphore" and none: "sem_count (sems s sem) \<le> 0"
    and dp: "desc_ptr (descs s d) = Some dp" "dp \<in> set (L (SemDescriptors sem))"
    and L: "L ReadyList = p # q"
  shows "\<exists>s'. internal_semWait s = Inr s' \<and> sched_wf s' (blocked_lists r sem dp L) F p \<and>
    kernel_frame (s\<lparr>running := Some p\<rparr>) s'"
proof -
  let ?L1 = "L(SemDescriptors sem := remove1 dp (L (SemDescriptors sem)), SemWaiting sem := L (SemWaiting sem) @ [dp])"
  obtain s2 where s2: "internal_semWait s = semWait_switch r s2"
    "sched_wf s2 ?L1 F r" "lists_only s s2"
    using semWait_queue [OF run h k none dp] by blast
  note r2 = sched_wfD [OF s2(2)]
  let ?L2 = "?L1(ReadyList := q)"
  have rd: "?L1 ReadyList = p # q" using L by simp
  have p: "p \<in> set (?L1 ReadyList)" "remove1 p (?L1 ReadyList) = q" "list_first ReadyList s2 = Some p"
    using L by (simp_all add: wf_list_first [OF r2(1)])
  obtain s3 where s3: "List_detach ReadyList (Some p) s2 = Inr (Some p, s3)" "kernel_wf s3 ?L2 F"
    "lists_only s2 s3" "fresh_block s3 ?L2 F p" "\<forall>q. fresh_block s2 ?L1 F q \<longrightarrow> fresh_block s3 ?L2 F q"
    using wf_take [OF r2(1) p(1)] unfolding p(2) by blast
  have kp: "kind_of p = KPCB" using kernel_wf_kind [OF r2(1) p(1)] by simp
  have rp: "r \<noteq> p" using not_listedD [OF r2(5), of ReadyList] p(1) by blast
  have "fresh_block s3 ?L2 F r" "kind_of r = item_kind WaitingList" using s3(5) r2(3,4) by simp_all
  from wf_put [OF s3(2) this] obtain s4 where s4:
    "List_insert WaitingList (list_last WaitingList s3) (Some r) s3 = Inr (Some r, s4)"
    "kernel_wf s4 (?L2(WaitingList := ?L2 WaitingList @ [r])) F" "lists_only s3 s4"
    "fresh_block s4 (?L2(WaitingList := ?L2 WaitingList @ [r])) F p"
    using s3(4) rp by blast
  have e: "?L2(WaitingList := ?L2 WaitingList @ [r]) = blocked_lists r sem dp L"
    using L by (simp add: blocked_lists_def)
  have "internal_semWait s = Inr (s4\<lparr>running := Some p\<rparr>)"
    unfolding s2(1) by (simp add: semWait_switch_def p(3) s3(1) s4(1))
  moreover have "sched_wf (s4\<lparr>running := Some p\<rparr>) (blocked_lists r sem dp L) F p"
    using s4(2,4) kp unfolding e by (simp add: sched_wf_def fresh_block_def)
  ultimately show ?thesis
    using lists_only_frame [OF s2(3)] lists_only_frame [OF s3(3)] lists_only_frame [OF s4(3)]
    by (auto simp: kernel_frame_def)
qed

lemma semWait_stuck:
  assumes run: "sched_wf s L F r" and h: "sem_handle s L r (int_arg r 0 s) = Some (d, sem)"
    and k: "kind_of sem = KSemaphore" and none: "sem_count (sems s sem) \<le> 0"
    and dp: "desc_ptr (descs s d) = Some dp" "dp \<in> set (L (SemDescriptors sem))"
    and L: "L ReadyList = []"
  shows "internal_semWait s = Inl NullDeref"
proof -
  let ?L1 = "L(SemDescriptors sem := remove1 dp (L (SemDescriptors sem)), SemWaiting sem := L (SemWaiting sem) @ [dp])"
  obtain s2 where s2: "internal_semWait s = semWait_switch r s2"
    "sched_wf s2 ?L1 F r"
    using semWait_queue [OF run h k none dp] by blast
  have "List_detach ReadyList (list_first ReadyList s2) s2 = Inl NullDeref"
    by (rule wf_dequeue_empty [OF sched_wfD(1) [OF s2(2)]]) (simp add: L)
  with s2(1) show ?thesis by (simp add: semWait_switch_def)
qed

section \<open>Post\<close>

lemma semPost_bad_fd:
  assumes run: "sched_wf s L F r" and h: "sem_handle s L r (int_arg r 0 s) = None"
  shows "internal_semPost s = Inr (set_retvalue r DSOS_ESEMAPHOREPOST s)"
  using sched_wfD(2,3) [OF run] sem_of_fd_wf [OF sched_wfD(1) [OF run]] h
  by (simp add: internal_semPost_def Let_def)

lemma semPost_counts:
  assumes run: "sched_wf s L F r" and h: "sem_handle s L r (int_arg r 0 s) = Some (d, sem)"
    and k: "kind_of sem = KSemaphore" and rng: "int32_range (sem_count (sems s sem) + 1)"
    and no: "sem_count (sems s sem) < 0 \<or> L (SemWaiting sem) = []"
  shows "internal_semPost s =
    Inr (set_retvalue r 0 (upd_sem sem (\<lambda>c. c\<lparr>sem_count := sem_count (sems s sem) + 1\<rparr>) s))"
proof -
  note r = sched_wfD [OF run]
  let ?s = "upd_sem sem (\<lambda>c. c\<lparr>sem_count := sem_count (sems s sem) + 1\<rparr>) s"
  have "kernel_wf ?s L F" using r(1) by (simp add: upd_sem_def)
  then show ?thesis
    using r(2,3) sem_of_fd_wf [OF r(1)] h k rng no
    by (auto simp: internal_semPost_def Let_def wf_list_size)
qed

definition posted_lists :: "ptr \<Rightarrow> ptr \<Rightarrow> ptr \<Rightarrow> (headref \<Rightarrow> ptr list) \<Rightarrow> (headref \<Rightarrow> ptr list)" where
  "posted_lists sem dp w L =
     L(SemWaiting sem := tl (L (SemWaiting sem)), WaitingList := remove1 w (L WaitingList),
       ReadyList := L ReadyList @ [w], SemDescriptors sem := L (SemDescriptors sem) @ [dp])"

lemma semPost_wakes:
  assumes run: "sched_wf s L F r" and h: "sem_handle s L r (int_arg r 0 s) = Some (d, sem)"
    and k: "kind_of sem = KSemaphore" and rng: "int32_range (sem_count (sems s sem) + 1)"
    and some: "sem_count (sems s sem) \<ge> 0" "L (SemWaiting sem) = dp # dps"
    and dp: "desc_ptrs s dp = Some d2" "kind_of d2 = KSemDescriptor"
    and w: "desc_pcb (descs s d2) = Some w" "w \<in> set (L WaitingList)"
  shows "\<exists>s'. internal_semPost s = Inr s' \<and> sched_wf s' (posted_lists sem dp w L) F r \<and> kernel_frame s s'"
proof -
  note r = sched_wfD [OF run]
  let ?s1 = "upd_sem sem (\<lambda>c. c\<lparr>sem_count := sem_count (sems s sem) + 1\<rparr>) s"
  let ?s2 = "upd_sem sem (\<lambda>c. c\<lparr>sem_count := sem_count c - 1\<rparr>) ?s1"
  have e: "?s2 = s" by (cases s) (simp add: upd_sem_def fun_upd_idem_iff)
  have wf1: "kernel_wf ?s1 L F" using r(1) by (simp add: upd_sem_def)
  let ?L1 = "L(SemWaiting sem := dps)"
  have din: "dp \<in> set (L (SemWaiting sem))" "remove1 dp (L (SemWaiting sem)) = dps" using some by simp_all
  obtain s3 where s3: "List_detach (SemWaiting sem) (Some dp) s = Inr (Some dp, s3)" "kernel_wf s3 ?L1 F"
    "lists_only s s3" "fresh_block s3 ?L1 F dp" "\<forall>q. fresh_block s L F q \<longrightarrow> fresh_block s3 ?L1 F q"
    using wf_take [OF r(1) din(1)] unfolding din(2) by blast
  have kd: "kind_of dp = KSemDescriptorPtr" using kernel_wf_kind [OF r(1) din(1)] by simp
  have win: "w \<in> set (?L1 WaitingList)" and L1: "?L1 WaitingList = L WaitingList" "?L1 ReadyList = L ReadyList"
    using w by simp_all
  have nr: "WaitingList \<noteq> ReadyList" "item_kind ReadyList = item_kind WaitingList" by simp_all
  let ?L2 = "?L1(WaitingList := remove1 w (L WaitingList), ReadyList := L ReadyList @ [w])"
  obtain s4 s5 where s5: "List_detach WaitingList (Some w) s3 = Inr (Some w, s4)"
    "List_insert ReadyList (list_last ReadyList s4) (Some w) s4 = Inr (Some w, s5)" "kernel_wf s5 ?L2 F"
    "lists_only s3 s5" "\<forall>q. fresh_block s3 ?L1 F q \<longrightarrow> fresh_block s5 ?L2 F q"
    using wf_move [OF s3(2) win nr] unfolding L1 by blast
  have "fresh_block s5 ?L2 F dp" "kind_of dp = item_kind (SemDescriptors sem)" using s5(5) s3(4) kd by simp_all
  from wf_put [OF s5(3) this] obtain s6 where s6:
    "List_insert (SemDescriptors sem) (list_last (SemDescriptors sem) s5) (Some dp) s5 = Inr (Some dp, s6)"
    "kernel_wf s6 (?L2(SemDescriptors sem := ?L2 (SemDescriptors sem) @ [dp])) F" "lists_only s5 s6"
    "\<forall>q. fresh_block s5 ?L2 F q \<longrightarrow> q \<noteq> dp \<longrightarrow> fresh_block s6 (?L2(SemDescriptors sem := ?L2 (SemDescriptors sem) @ [dp])) F q"
    by blast
  have e6: "?L2(SemDescriptors sem := ?L2 (SemDescriptors sem) @ [dp]) = posted_lists sem dp w L"
    using some by (simp add: posted_lists_def)
  have same: "desc_ptrs s3 = desc_ptrs s" "descs s3 = descs s" using lists_only_fields [OF s3(3)] by simp_all
  have first: "list_first (SemWaiting sem) s = Some dp" using some(2) by (simp add: wf_list_first [OF r(1)])
  have size: "list_size (SemWaiting sem) ?s1 \<noteq> 0" using some(2) by (simp add: wf_list_size [OF wf1])
  have count: "sem_count (sems s sem) + 1 > 0" using some(1) by simp
  have "internal_semPost s = Inr s6"
    using r(2,3) sem_of_fd_wf [OF r(1)] h k rng size count dp w(1) kd
    by (simp add: internal_semPost_def Let_def e first s3(1) same s5(1,2) s6(1))
  moreover have "r \<noteq> dp" using r(3) kd by auto
  then have "sched_wf s6 (posted_lists sem dp w L) F r"
    using s6(2,4) s5(5) s3(5) r lists_only_fields(13) [OF s3(3)] lists_only_fields(13) [OF s5(4)]
      lists_only_fields(13) [OF s6(3)] unfolding e6 by (simp add: sched_wf_def)
  moreover have "kernel_frame s s6"
    using lists_only_frame [OF s3(3)] lists_only_frame [OF s5(4)] lists_only_frame [OF s6(3)]
    by (simp add: kernel_frame_def)
  ultimately show ?thesis by blast
qed

section \<open>Close\<close>

lemma semClose_bad_fd:
  assumes run: "sched_wf s L F r" and h: "sem_handle s L r (int_arg r 0 s) = None"
  shows "internal_semClose s = Inr (set_retvalue r DSOS_ESEMAPHORECLOSE s)"
  using sched_wfD(2,3) [OF run] sem_of_fd_wf [OF sched_wfD(1) [OF run]] h
  by (simp add: internal_semClose_def Let_def)

definition semclosed_lists :: "ptr \<Rightarrow> ptr \<Rightarrow> ptr \<Rightarrow> ptr \<Rightarrow> (headref \<Rightarrow> ptr list) \<Rightarrow> (headref \<Rightarrow> ptr list)" where
  "semclosed_lists r sem d dp L =
     L(PcbSemDescriptors r := remove1 d (L (PcbSemDescriptors r)),
       SemDescriptors sem := remove1 dp (L (SemDescriptors sem)))"

definition semclosed_free :: "ptr \<Rightarrow> ptr \<Rightarrow> (kind \<Rightarrow> int list) \<Rightarrow> (kind \<Rightarrow> int list)" where
  "semclosed_free d dp F =
     F(KSemDescriptor := idx_of d # F KSemDescriptor, KSemDescriptorPtr := idx_of dp # F KSemDescriptorPtr)"

lemma semClose_common:
  assumes run: "sched_wf s L F r" and h: "sem_handle s L r (int_arg r 0 s) = Some (d, sem)"
    and k: "kind_of sem = KSemaphore" and rng: "int32_range (pcb_last_sem_fd (pcbs s r) - 1)"
    and dp: "desc_ptr (descs s d) = Some dp" "dp \<in> set (L (SemDescriptors sem))"
  shows "\<exists>s1. internal_semClose s = semClose_end r sem s1 \<and>
    sched_wf s1 (semclosed_lists r sem d dp L) (semclosed_free d dp F) r \<and>
    kernel_frame (upd_pcb r (set_last_sem_fd (pcb_last_sem_fd (pcbs s r) - 1)) s) s1"
proof -
  note r = sched_wfD [OF run]
  let ?L = "semclosed_lists r sem d dp L" and ?F = "semclosed_free d dp F"
  have din: "d \<in> set (L (PcbSemDescriptors r))" by (rule sem_handle_listed [OF h])
  have kd: "kind_of d = KSemDescriptor" "kind_of dp = KSemDescriptorPtr"
    using kernel_wf_kind [OF r(1) din] kernel_wf_kind [OF r(1) dp(2)] by simp_all
  have ne: "PcbSemDescriptors r \<noteq> SemDescriptors sem" by simp
  obtain s1 s2 where s: "List_detach (PcbSemDescriptors r) (Some d) s = Inr (Some d, s1)"
    "List_detach (SemDescriptors sem) (Some dp) s1 = Inr (Some dp, s2)" "kernel_wf s2 ?L F"
    "lists_only s s1" "lists_only s s2" "live s2 F d" "live s2 F dp" "\<not> listed ?L d" "\<not> listed ?L dp"
    "\<forall>q. fresh_block s L F q \<longrightarrow> fresh_block s2 ?L F q"
    using wf_remove2 [OF r(1) din dp(2) ne] unfolding semclosed_lists_def by blast
  have kk: "KSemDescriptor \<noteq> KSemDescriptorPtr" by simp
  obtain s3 s4 where f: "free_block KSemDescriptor d s2 = Inr (Success, s3)"
    "free_block KSemDescriptorPtr dp s3 = Inr (Success, s4)" "kernel_wf s4 ?L ?F" "kernel_frame s2 s4"
    "\<forall>x. fresh_block s2 ?L F x \<longrightarrow> x \<noteq> d \<longrightarrow> x \<noteq> dp \<longrightarrow> fresh_block s4 ?L ?F x"
    using wf_free2 [OF s(3) s(6,8) kd(1) s(7,9) kd(2) kk] unfolding semclosed_free_def by blast
  have same: "descs s1 = descs s" "pcbs s4 = pcbs s" "running s4 = running s"
    using lists_only_fields [OF s(4)] lists_only_fields [OF s(5)] f(4) by (simp_all add: kernel_frame_def)
  let ?s5 = "upd_pcb r (set_last_sem_fd (pcb_last_sem_fd (pcbs s r) - 1)) s4"
  have "internal_semClose s = semClose_end r sem ?s5"
    using r(2,3) sem_of_fd_wf [OF r(1)] h k dp(1) rng
    by (simp add: internal_semClose_def Let_def s(1,2) same f(1,2) SemDescriptor_free_def SemDescriptorPtr_free_def)
  moreover have "sched_wf ?s5 ?L ?F r"
  proof -
    have "r \<noteq> d" "r \<noteq> dp" using r(3) kd by auto
    with f(3,5) s(10) r same show ?thesis by (simp add: sched_wf_def upd_pcb_def)
  qed
  moreover have "kernel_frame (upd_pcb r (set_last_sem_fd (pcb_last_sem_fd (pcbs s r) - 1)) s) ?s5"
    using kernel_frame_trans [OF lists_only_frame [OF s(5)] f(4)] by (simp add: kernel_frame_def upd_pcb_def)
  ultimately show ?thesis by blast
qed

lemma semClose_keeps:
  assumes run: "sched_wf s L F r" and h: "sem_handle s L r (int_arg r 0 s) = Some (d, sem)"
    and k: "kind_of sem = KSemaphore" and rng: "int32_range (pcb_last_sem_fd (pcbs s r) - 1)"
    and dp: "desc_ptr (descs s d) = Some dp" "dp \<in> set (L (SemDescriptors sem))"
    and others: "remove1 dp (L (SemDescriptors sem)) \<noteq> []"
  shows "\<exists>s'. internal_semClose s = Inr s' \<and>
    sched_wf s' (semclosed_lists r sem d dp L) (semclosed_free d dp F) r \<and>
    kernel_frame (set_retvalue r 0 (upd_pcb r (set_last_sem_fd (pcb_last_sem_fd (pcbs s r) - 1)) s)) s'"
proof -
  obtain s1 where s1: "internal_semClose s = semClose_end r sem s1"
    "sched_wf s1 (semclosed_lists r sem d dp L) (semclosed_free d dp F) r"
    "kernel_frame (upd_pcb r (set_last_sem_fd (pcb_last_sem_fd (pcbs s r) - 1)) s) s1"
    using semClose_common [OF run h k rng dp] by blast
  have "list_size (SemDescriptors sem) s1 \<noteq> 0"
    using others by (simp add: wf_list_size [OF sched_wfD(1) [OF s1(2)]]) (simp add: semclosed_lists_def)
  then have "internal_semClose s = Inr (set_retvalue r 0 s1)" by (simp add: s1(1) semClose_end_def)
  moreover have "sched_wf (set_retvalue r 0 s1) (semclosed_lists r sem d dp L) (semclosed_free d dp F) r"
    using s1(2) by (simp add: sched_wf_def upd_defs)
  ultimately show ?thesis using s1(3) by (auto simp: kernel_frame_def upd_defs)
qed

text \<open>The last one to close destroys the semaphore, whoever may be waiting.\<close>

lemma semClose_destroys:
  assumes run: "sched_wf s L F r" and h: "sem_handle s L r (int_arg r 0 s) = Some (d, sem)"
    and k: "kind_of sem = KSemaphore" and rng: "int32_range (pcb_last_sem_fd (pcbs s r) - 1)"
    and dp: "desc_ptr (descs s d) = Some dp" "L (SemDescriptors sem) = [dp]"
    and sem: "sem \<in> set (L SemaphoresList)"
  shows "\<exists>s'. internal_semClose s = Inr s' \<and>
    sched_wf s' ((semclosed_lists r sem d dp L)(SemaphoresList := remove1 sem (L SemaphoresList)))
      ((semclosed_free d dp F)(KSemaphore := idx_of sem # F KSemaphore)) r \<and>
    kernel_frame (set_retvalue r 0 (upd_pcb r (set_last_sem_fd (pcb_last_sem_fd (pcbs s r) - 1)) s)) s'"
proof -
  let ?L = "semclosed_lists r sem d dp L" and ?F = "semclosed_free d dp F"
  let ?L' = "?L(SemaphoresList := remove1 sem (L SemaphoresList))"
  have "dp \<in> set (L (SemDescriptors sem))" using dp(2) by simp
  then obtain s1 where s1: "internal_semClose s = semClose_end r sem s1" "sched_wf s1 ?L ?F r"
    "kernel_frame (upd_pcb r (set_last_sem_fd (pcb_last_sem_fd (pcbs s r) - 1)) s) s1"
    using semClose_common [OF run h k rng dp(1)] by blast
  note r1 = sched_wfD [OF s1(2)]
  have semin: "sem \<in> set (?L SemaphoresList)" "?L SemaphoresList = L SemaphoresList"
    using sem by (simp_all add: semclosed_lists_def)
  obtain s2 where s2: "List_detach SemaphoresList (Some sem) s1 = Inr (Some sem, s2)" "kernel_wf s2 ?L' ?F"
    "lists_only s1 s2" "fresh_block s2 ?L' ?F sem" "\<forall>q. fresh_block s1 ?L ?F q \<longrightarrow> fresh_block s2 ?L' ?F q"
    using wf_take [OF r1(1) semin(1)] unfolding semin(2) by blast
  have sf: "live s2 ?F sem" "\<not> listed ?L' sem" using s2(4) by (simp_all add: fresh_block_def)
  have Fs: "?F KSemaphore = F KSemaphore" by (simp add: semclosed_free_def)
  obtain P where P: "free_block KSemaphore sem s2 = Inr (Success, s2\<lparr>pools := P\<rparr>)"
    "kernel_wf (s2\<lparr>pools := P\<rparr>) ?L' (?F(KSemaphore := idx_of sem # F KSemaphore))"
    "\<forall>q. live s2 ?F q \<longrightarrow> q \<noteq> sem \<longrightarrow> live (s2\<lparr>pools := P\<rparr>) (?F(KSemaphore := idx_of sem # F KSemaphore)) q"
    using wf_free [OF s2(2) sf k] unfolding Fs by blast
  have "?L (SemDescriptors sem) = []" "?L' (SemDescriptors sem) = []"
    using dp(2) by (simp_all add: semclosed_lists_def)
  then have "semClose_end r sem s1 = Inr (set_retvalue r 0 (s2\<lparr>pools := P\<rparr>))"
    by (simp add: semClose_end_def wf_list_size [OF r1(1)] s2(1) Semaphore_free_def wf_list_first [OF s2(2)]
        wf_list_last [OF s2(2)] P(1))
  moreover have "sched_wf (set_retvalue r 0 (s2\<lparr>pools := P\<rparr>)) ?L' (?F(KSemaphore := idx_of sem # F KSemaphore)) r"
  proof -
    have "r \<noteq> sem" using r1(3) k by auto
    moreover have "fresh_block s2 ?L' ?F r" using s2(5) r1(4) by blast
    ultimately show ?thesis
      using P(2,3) r1(2,3) lists_only_fields(13) [OF s2(3)] by (simp add: sched_wf_def fresh_block_def upd_defs)
  qed
  moreover have "kernel_frame (set_retvalue r 0 (upd_pcb r (set_last_sem_fd (pcb_last_sem_fd (pcbs s r) - 1)) s))
      (set_retvalue r 0 (s2\<lparr>pools := P\<rparr>))"
    using s1(3) lists_only_frame [OF s2(3)] by (simp add: kernel_frame_def upd_defs)
  ultimately show ?thesis using s1(1) by auto
qed

section \<open>Open\<close>

definition semopened_contents :: "ptr \<Rightarrow> ptr \<Rightarrow> ptr \<Rightarrow> ptr \<Rightarrow> kernel \<Rightarrow> kernel" where
  "semopened_contents r sem d dp s = opened_desc pcb_last_sem_fd set_last_sem_fd r sem d dp s"

definition semopened_lists :: "ptr \<Rightarrow> ptr \<Rightarrow> ptr \<Rightarrow> ptr \<Rightarrow> (headref \<Rightarrow> ptr list) \<Rightarrow> (headref \<Rightarrow> ptr list)" where
  "semopened_lists r sem d dp L =
     L(PcbSemDescriptors r := L (PcbSemDescriptors r) @ [d], SemDescriptors sem := L (SemDescriptors sem) @ [dp])"

lemma semOpen_attach_wf:
  assumes run: "sched_wf s L F r" and F: "F KSemDescriptor = i # is" "F KSemDescriptorPtr = j # js"
    and k: "kind_of sem = KSemaphore" and rng: "int32_range (pcb_last_sem_fd (pcbs s r) + 1)"
  defines "d \<equiv> Ptr KSemDescriptor i" and "dp \<equiv> Ptr KSemDescriptorPtr j"
  shows "\<exists>s'. semOpen_attach r sem s = Inr s' \<and>
    sched_wf s' (semopened_lists r sem d dp L) (F(KSemDescriptor := is, KSemDescriptorPtr := js)) r \<and>
    kernel_frame (semopened_contents r sem d dp s) s'"
  unfolding semOpen_attach_def semopened_lists_def semopened_contents_def d_def dp_def
  by (rule open_descriptor_wf [OF run F]) (use rng k in \<open>simp_all add: set_last_sem_fd_def\<close>)

lemma semOpen_existing:
  assumes run: "sched_wf s L F r" and sem: "sem_lookup s L (int_arg r 0 s) = Some sem"
    and args: "pcb_last_sem_fd (pcbs s r) < 32" "0 \<le> int_arg r 0 s" "int32_range (pcb_last_sem_fd (pcbs s r))"
    and excl: "int_arg r 1 s AND DSOS_CREATE = 0 \<or> int_arg r 1 s AND DSOS_EXCL = 0"
    and F: "F KSemDescriptor = i # is" "F KSemDescriptorPtr = j # js"
  defines "d \<equiv> Ptr KSemDescriptor i" and "dp \<equiv> Ptr KSemDescriptorPtr j"
  shows "\<exists>s'. internal_semOpen s = Inr s' \<and>
    sched_wf s' (semopened_lists r sem d dp L) (F(KSemDescriptor := is, KSemDescriptorPtr := js)) r \<and>
    kernel_frame (semopened_contents r sem d dp s) s'"
proof -
  note r = sched_wfD [OF run]
  have rng: "int32_range (pcb_last_sem_fd (pcbs s r) + 1)"
    using args by (simp add: int32_range_def)
  have "SemaphoreList_byId SemaphoresList (int_arg r 0 s) s = Inr (Some sem)"
    using SemaphoreList_byId_wf [OF r(1), of SemaphoresList] sem by (simp add: sem_lookup_def)
  then have "internal_semOpen s = semOpen_attach r sem s"
    using r(2,3) args excl rng by (auto simp: internal_semOpen_def Let_def)
  moreover have "kind_of sem = KSemaphore"
    using kernel_wf_kind [OF r(1), of sem SemaphoresList] sem by (auto simp: sem_lookup_def dest: find_in_set)
  ultimately show ?thesis using semOpen_attach_wf [OF run F _ rng] by (simp add: d_def dp_def)
qed

lemma semOpen_refused:
  assumes run: "sched_wf s L F r" and rng: "int32_range (pcb_last_sem_fd (pcbs s r) + 1)"
    and no: "pcb_last_sem_fd (pcbs s r) \<ge> 32 \<or> int_arg r 0 s < 0 \<or>
      int_arg r 1 s AND DSOS_CREATE = 0 \<and> sem_lookup s L (int_arg r 0 s) = None \<or>
      int_arg r 1 s AND DSOS_CREATE \<noteq> 0 \<and> int_arg r 1 s AND DSOS_EXCL \<noteq> 0 \<and>
        sem_lookup s L (int_arg r 0 s) \<noteq> None \<or>
      int_arg r 1 s AND DSOS_CREATE \<noteq> 0 \<and> sem_lookup s L (int_arg r 0 s) = None \<and>
        (length (L SemaphoresList) \<ge> 1024 \<or> F KSemaphore = [])"
  shows "internal_semOpen s = Inr (set_retvalue r DSOS_ESEMAPHOREOPEN s)"
proof -
  note r = sched_wfD [OF run]
  have "SemaphoreList_byId SemaphoresList (int_arg r 0 s) s = Inr (sem_lookup s L (int_arg r 0 s))"
    using SemaphoreList_byId_wf [OF r(1), of SemaphoresList] by (simp add: sem_lookup_def)
  moreover have "F KSemaphore = [] \<Longrightarrow> Semaphore_alloc i c s = Inr (None, s)" for i c
    by (simp add: Semaphore_alloc_def wf_alloc_empty [OF r(1)])
  ultimately show ?thesis
    using r(2,3) no rng by (auto simp: internal_semOpen_def Let_def wf_list_size [OF r(1)] split: option.splits)
qed

text \<open>A new semaphore starts with no descriptors, but with the waiting list its block had before.\<close>

definition newsem_lists :: "ptr \<Rightarrow> (headref \<Rightarrow> ptr list) \<Rightarrow> (headref \<Rightarrow> ptr list)" where
  "newsem_lists n L = L(SemDescriptors n := [], SemaphoresList := L SemaphoresList @ [n])"

lemma Semaphore_create_wf:
  assumes run: "sched_wf s L F r" and F: "F KSemaphore = i # is"
  defines "n \<equiv> Ptr KSemaphore i"
  shows "\<exists>s1 s2. Semaphore_alloc sid count s = Inr (Some n, s1) \<and>
    List_insert SemaphoresList (list_last SemaphoresList s1) (Some n) s1 = Inr (Some n, s2) \<and>
    sched_wf s2 (newsem_lists n L) (F(KSemaphore := is)) r \<and>
    kernel_frame (s\<lparr>sems := (sems s)(n := \<lparr>sem_id = sid, sem_count = count\<rparr>)\<rparr>) s2"
proof -
  note r = sched_wfD [OF run]
  let ?F = "F(KSemaphore := is)" and ?L = "L(SemDescriptors n := [])"
  obtain a where a: "alloc_block KSemaphore s = Inr (Some n, a)" "kernel_wf (clear_links n a) L ?F"
    "fresh_block (clear_links n a) L ?F n" "kernel_frame s (clear_links n a)"
    "\<forall>p. live s F p \<longrightarrow> p \<noteq> n \<and> live (clear_links n a) ?F p"
    "\<forall>p. p \<noteq> n \<longrightarrow> unlinked (clear_links n a) p = unlinked s p"
    using wf_new [OF r(1) F] unfolding n_def by blast
  have ra: "fresh_block (clear_links n a) L ?F r" by (rule fresh_block_other [OF r(4)]; use a(5,6) in blast)
  let ?a = "upd_sem n (\<lambda>_. \<lparr>sem_id = sid, sem_count = count\<rparr>) (clear_links n a)"
  let ?s1 = "List_init (SemDescriptors n) ?a"
  have "kernel_wf ?a L ?F" "fresh_block ?a L ?F n" "fresh_block ?a L ?F r"
    using a(2,3) ra by (simp_all add: upd_sem_def)
  then have 1: "kernel_wf ?s1 ?L ?F" "fresh_block ?s1 ?L ?F n" "fresh_block ?s1 ?L ?F r"
    by (simp_all add: wf_init_list fresh_block_init_list)
  have k: "kind_of n = item_kind SemaphoresList" and rn: "r \<noteq> n" using r(3) by (auto simp: n_def)
  have e: "?L(SemaphoresList := ?L SemaphoresList @ [n]) = newsem_lists n L" by (simp add: newsem_lists_def)
  obtain s2 where s2: "List_insert SemaphoresList (list_last SemaphoresList ?s1) (Some n) ?s1 = Inr (Some n, s2)"
    "kernel_wf s2 (newsem_lists n L) ?F" "lists_only ?s1 s2" "fresh_block s2 (newsem_lists n L) ?F r"
    using wf_put [OF 1(1,2) k] 1(3) rn unfolding e by blast
  have "kernel_frame (s\<lparr>sems := (sems s)(n := \<lparr>sem_id = sid, sem_count = count\<rparr>)\<rparr>) s2"
    using a(4) lists_only_frame [OF s2(3)] by (simp add: kernel_frame_def upd_sem_def)
  moreover from this have "sched_wf s2 (newsem_lists n L) ?F r"
    using s2(2,4) r(2,3) by (simp add: sched_wf_def kernel_frame_def)
  ultimately show ?thesis
    using s2(1) by (simp add: Semaphore_alloc_def a(1))
qed

lemma semOpen_creates:
  assumes run: "sched_wf s L F r" and sem: "sem_lookup s L (int_arg r 0 s) = None"
    and args: "pcb_last_sem_fd (pcbs s r) < 32" "0 \<le> int_arg r 0 s" "int32_range (pcb_last_sem_fd (pcbs s r))"
    and create: "int_arg r 1 s AND DSOS_CREATE \<noteq> 0" "length (L SemaphoresList) < 1024"
    and F: "F KSemaphore = k # ks" "F KSemDescriptor = i # is" "F KSemDescriptorPtr = j # js"
  defines "n \<equiv> Ptr KSemaphore k" and "d \<equiv> Ptr KSemDescriptor i" and "dp \<equiv> Ptr KSemDescriptorPtr j"
  defines "s0 \<equiv> s\<lparr>sems := (sems s)(n := \<lparr>sem_id = int_arg r 0 s, sem_count = int_arg r 2 s\<rparr>)\<rparr>"
  shows "\<exists>s'. internal_semOpen s = Inr s' \<and>
    sched_wf s' (semopened_lists r n d dp (newsem_lists n L))
      (F(KSemaphore := ks, KSemDescriptor := is, KSemDescriptorPtr := js)) r \<and>
    kernel_frame (semopened_contents r n d dp s0) s'"
proof -
  note r = sched_wfD [OF run]
  have rng: "int32_range (pcb_last_sem_fd (pcbs s r) + 1)" using args by (simp add: int32_range_def)
  have look: "SemaphoreList_byId SemaphoresList (int_arg r 0 s) s = Inr None"
    using SemaphoreList_byId_wf [OF r(1), of SemaphoresList] sem by (simp add: sem_lookup_def)
  have count: "to_int32 (syscall_arg r 2 s mod 4294967296) = int_arg r 2 s"
      "\<not> syscall_arg r 2 s mod 4294967296 < 0"
    using signed_take_bit_take_bit [of 31 32 "syscall_arg r 2 s"]
    by (simp_all add: to_int32_def int_arg_def take_bit_eq_mod not_less)
  obtain s1 s2 where s1: "Semaphore_alloc (int_arg r 0 s) (int_arg r 2 s) s = Inr (Some n, s1)"
    and s2: "List_insert SemaphoresList (list_last SemaphoresList s1) (Some n) s1 = Inr (Some n, s2)"
    "sched_wf s2 (newsem_lists n L) (F(KSemaphore := ks)) r" "kernel_frame s0 s2"
    using Semaphore_create_wf [OF run F(1)] unfolding n_def s0_def by blast
  have "internal_semOpen s = semOpen_attach r n s2"
    using r(2,3) args create rng look
    by (simp add: internal_semOpen_def Let_def wf_list_size [OF r(1)] count s1 s2(1))
  moreover have kn: "kind_of n = KSemaphore" by (simp add: n_def)
  moreover have p: "pcbs s2 = pcbs s" using s2(3) by (simp add: kernel_frame_def s0_def)
  have "(F(KSemaphore := ks)) KSemDescriptor = i # is" "(F(KSemaphore := ks)) KSemDescriptorPtr = j # js"
    using F by simp_all
  then obtain s' where "semOpen_attach r n s2 = Inr s'"
    "sched_wf s' (semopened_lists r n d dp (newsem_lists n L))
      (F(KSemaphore := ks, KSemDescriptor := is, KSemDescriptorPtr := js)) r"
    "kernel_frame (semopened_contents r n d dp s2) s'"
    using semOpen_attach_wf [OF s2(2), of i "is" j js n] rng kn unfolding p d_def dp_def by blast
  moreover from this(3) s2(3) have "kernel_frame (semopened_contents r n d dp s0) s'"
    by (simp add: kernel_frame_def semopened_contents_def opened_desc_def)
  ultimately show ?thesis by auto
qed

end
