(* ===== verification/SemaphoreSpec.thy ===== *)
theory SemaphoreSpec
  imports Semaphore
begin

text \<open>
  What a semaphore promises: a count and a queue of waiting processes. The interface is a locale,
  whose lemmas count the waits and posts of any sequence of calls; the abstract operations are an
  instance, and the system calls wait and post are shown to implement them.
\<close>

section \<open>The interface of a counting semaphore\<close>

datatype 'p sem_event = Wait 'p | Post

locale counting_semaphore =
  fixes wait :: "'p \<Rightarrow> 's \<Rightarrow> 's" and post :: "'s \<Rightarrow> 's" and count :: "'s \<Rightarrow> int" and waiting :: "'s \<Rightarrow> 'p list"
    and ok :: "'s \<Rightarrow> bool"
  assumes ok_count: "ok s \<Longrightarrow> 0 \<le> count s"
    and ok_idle: "ok s \<Longrightarrow> 0 < count s \<Longrightarrow> waiting s = []"
    and wait_ok: "ok s \<Longrightarrow> ok (wait p s)"
    and post_ok: "ok s \<Longrightarrow> ok (post s)"
    and wait_free: "ok s \<Longrightarrow> 0 < count s \<Longrightarrow> count (wait p s) = count s - 1 \<and> waiting (wait p s) = waiting s"
    and wait_full: "ok s \<Longrightarrow> count s = 0 \<Longrightarrow> count (wait p s) = 0 \<and> waiting (wait p s) = waiting s @ [p]"
    and post_idle: "ok s \<Longrightarrow> waiting s = [] \<Longrightarrow> count (post s) = count s + 1 \<and> waiting (post s) = []"
    and post_wakes: "ok s \<Longrightarrow> waiting s = p # ps \<Longrightarrow> count (post s) = count s \<and> waiting (post s) = ps"
begin

text \<open>The waits of a sequence, in order, and the processes let through.\<close>

primrec run :: "'p sem_event list \<Rightarrow> 's \<Rightarrow> 's" where
  "run [] s = s"
| "run (e # es) s = run es (case e of Wait p \<Rightarrow> wait p s | Post \<Rightarrow> post s)"

primrec waits :: "'p sem_event list \<Rightarrow> 'p list" where
  "waits [] = []"
| "waits (e # es) = (case e of Wait p \<Rightarrow> [p] | Post \<Rightarrow> []) @ waits es"

primrec posts :: "'p sem_event list \<Rightarrow> int" where
  "posts [] = 0"
| "posts (e # es) = (case e of Wait p \<Rightarrow> 0 | Post \<Rightarrow> 1) + posts es"

lemma run_ok: "ok s \<Longrightarrow> ok (run es s)"
  by (induction es arbitrary: s) (auto simp: wait_ok post_ok split: sem_event.splits)

text \<open>The count less the number of waiting processes goes down with a wait and up with a post.\<close>

lemma value_wait: "ok s \<Longrightarrow> count (wait p s) - int (length (waiting (wait p s))) = count s - int (length (waiting s)) - 1"
  using ok_count [of s] wait_free [of s p] wait_full [of s p] ok_idle [of s] by (cases "count s = 0") auto

lemma value_post: "ok s \<Longrightarrow> count (post s) - int (length (waiting (post s))) = count s - int (length (waiting s)) + 1"
  using post_idle [of s] post_wakes [of s] by (cases "waiting s") auto

lemma conservation:
  "ok s \<Longrightarrow> count (run es s) - int (length (waiting (run es s))) =
    count s - int (length (waiting s)) + posts es - int (length (waits es))"
proof (induction es arbitrary: s)
  case (Cons e es)
  then show ?case by (cases e) (auto simp: value_wait value_post wait_ok post_ok)
qed simp

text \<open>
  At most as many waits get through as the initial count and the posts allow, and those that wait
  are the latest to have asked: nobody is overtaken.
\<close>

lemma bounded: "ok s \<Longrightarrow> int (length (waits es)) - int (length (waiting (run es s))) \<le> count s - int (length (waiting s)) + posts es"
  using conservation [of s es] ok_count [OF run_ok, of s es] by simp

lemma waiting_suffix: "ok s \<Longrightarrow> \<exists>served. waiting s @ waits es = served @ waiting (run es s)"
proof (induction es arbitrary: s)
  case (Cons e es)
  show ?case
  proof (cases e)
    case (Wait p)
    obtain served where v: "waiting (wait p s) @ waits es = served @ waiting (run es (wait p s))"
      using Cons.IH [OF wait_ok [OF Cons.prems]] by blast
    show ?thesis
    proof (cases "count s = 0")
      case True
      then show ?thesis using v wait_full [OF Cons.prems True, of p] Wait by auto
    next
      case False
      then have pos: "0 < count s" using ok_count [OF Cons.prems] by simp
      have "waiting s @ waits (e # es) = (p # served) @ waiting (run (e # es) s)"
        using v wait_free [OF Cons.prems pos, of p] ok_idle [OF Cons.prems pos] Wait by simp
      then show ?thesis by blast
    qed
  next
    case Post
    obtain served where v: "waiting (post s) @ waits es = served @ waiting (run es (post s))"
      using Cons.IH [OF post_ok [OF Cons.prems]] by blast
    show ?thesis
    proof (cases "waiting s")
      case Nil
      then show ?thesis using v post_idle [OF Cons.prems Nil] Post by auto
    next
      case (Cons w ws)
      have "waiting s @ waits (e # es) = (w # served) @ waiting (run (e # es) s)"
        using v post_wakes [OF Cons.prems Cons] Cons Post by simp
      then show ?thesis by blast
    qed
  qed
qed simp

end

section \<open>The abstract semaphore\<close>

definition asem_wait :: "ptr \<Rightarrow> int \<times> ptr list \<Rightarrow> int \<times> ptr list" where
  "asem_wait p = (\<lambda>(c, q). if c > 0 then (c - 1, q) else (c, q @ [p]))"

definition asem_post :: "int \<times> ptr list \<Rightarrow> int \<times> ptr list" where
  "asem_post = (\<lambda>(c, q). case q of [] \<Rightarrow> (c + 1, []) | w # ws \<Rightarrow> (c, ws))"

definition asem_ok :: "int \<times> ptr list \<Rightarrow> bool" where
  "asem_ok = (\<lambda>(c, q). 0 \<le> c \<and> (0 < c \<longrightarrow> q = []))"

interpretation asem: counting_semaphore asem_wait asem_post fst snd asem_ok
  by unfold_locales (auto simp: asem_wait_def asem_post_def asem_ok_def split: list.splits if_splits)

section \<open>The system calls implement it\<close>

definition waiter :: "kernel \<Rightarrow> ptr \<Rightarrow> ptr" where
  "waiter s dp = the (desc_pcb (descs s (the (desc_ptrs s dp))))"

definition sem_abs :: "kernel \<Rightarrow> (headref \<Rightarrow> ptr list) \<Rightarrow> ptr \<Rightarrow> int \<times> ptr list" where
  "sem_abs s L sem = (sem_count (sems s sem), map (waiter s) (L (SemWaiting sem)))"

text \<open>A descriptor of process \<open>r\<close> for semaphore \<open>sem\<close>, with its pointer in the list of the semaphore.\<close>

definition sem_linked :: "kernel \<Rightarrow> (headref \<Rightarrow> ptr list) \<Rightarrow> ptr \<Rightarrow> ptr \<Rightarrow> ptr \<Rightarrow> ptr \<Rightarrow> bool" where
  "sem_linked s L r sem d dp \<longleftrightarrow>
     sem_handle s L r (int_arg r 0 s) = Some (d, sem) \<and> kind_of sem = KSemaphore \<and>
     desc_pcb (descs s d) = Some r \<and> desc_ptr (descs s d) = Some dp \<and>
     dp \<in> set (L (SemDescriptors sem)) \<and> desc_ptrs s dp = Some d"

lemma sem_linkedD:
  assumes "sem_linked s L r sem d dp"
  shows "sem_handle s L r (int_arg r 0 s) = Some (d, sem)" "kind_of sem = KSemaphore" "desc_pcb (descs s d) = Some r"
    "desc_ptr (descs s d) = Some dp" "dp \<in> set (L (SemDescriptors sem))" "desc_ptrs s dp = Some d"
  using assms by (simp_all add: sem_linked_def)

lemma semWait_refines:
  assumes run: "sched_wf s L F r" and lk: "sem_linked s L r sem d dp" and ok: "asem_ok (sem_abs s L sem)"
    and go: "0 < sem_count (sems s sem) \<or> L ReadyList = p # q"
  shows "\<exists>s' L' r'. internal_semWait s = Inr s' \<and> sched_wf s' L' F r' \<and>
    sem_abs s' L' sem = asem_wait r (sem_abs s L sem) \<and>
    (\<forall>x. x \<noteq> sem \<longrightarrow> sem_abs s' L' x = sem_abs s L x) \<and>
    (if 0 < sem_count (sems s sem) then r' = r \<and> retvalue r s' = 0 else r' = p \<and> r \<in> set (L' WaitingList))"
proof -
  note l = sem_linkedD [OF lk]
  show ?thesis
  proof (cases "0 < sem_count (sems s sem)")
    case True
    let ?s' = "set_retvalue r 0 (upd_sem sem (\<lambda>c. c\<lparr>sem_count := sem_count c - 1\<rparr>) s)"
    have "sched_wf ?s' L F r" using run by (simp add: upd_defs)
    moreover have w: "waiter ?s' = waiter s" by (simp add: waiter_def fun_eq_iff upd_defs)
    have "sem_abs ?s' L sem = asem_wait r (sem_abs s L sem)"
      using True by (simp add: sem_abs_def w asem_wait_def) (simp add: upd_defs)
    moreover have "sem_abs ?s' L x = sem_abs s L x" if "x \<noteq> sem" for x
      using that by (simp add: sem_abs_def w) (simp add: upd_defs)
    moreover have "retvalue r ?s' = 0" by (simp add: retvalue_def upd_defs)
    ultimately show ?thesis using semWait_takes [OF run l(1,2) True] True by (intro exI conjI) auto
  next
    case False
    let ?L = "blocked_lists r sem dp L"
    have none: "sem_count (sems s sem) \<le> 0" and L: "L ReadyList = p # q" using False go by auto
    obtain s' where s': "internal_semWait s = Inr s'" "sched_wf s' ?L F p" "kernel_frame (s\<lparr>running := Some p\<rparr>) s'"
      using semWait_blocks [OF run l(1,2) none l(4,5) L] by blast
    have w: "waiter s' = waiter s" using s'(3) by (simp add: waiter_def fun_eq_iff kernel_frame_def)
    have sems: "sems s' = sems s" using s'(3) by (simp add: kernel_frame_def)
    have "waiter s dp = r" using l(3,6) by (simp add: waiter_def)
    then have "sem_abs s' ?L sem = asem_wait r (sem_abs s L sem)"
      using False by (simp add: sem_abs_def w sems asem_wait_def blocked_lists_def)
    moreover have "sem_abs s' ?L x = sem_abs s L x" if "x \<noteq> sem" for x
      using that by (simp add: sem_abs_def w sems blocked_lists_def)
    moreover have "r \<in> set (?L WaitingList)" by (simp add: blocked_lists_def)
    ultimately show ?thesis using s' False by (intro exI conjI) auto
  qed
qed

lemma semPost_refines:
  assumes run: "sched_wf s L F r" and lk: "sem_linked s L r sem d dp" and ok: "asem_ok (sem_abs s L sem)"
    and rng: "int32_range (sem_count (sems s sem) + 1)"
    and waiters: "\<And>wp. wp \<in> set (L (SemWaiting sem)) \<Longrightarrow> \<exists>wd. desc_ptrs s wp = Some wd \<and> kind_of wd = KSemDescriptor \<and>
      desc_pcb (descs s wd) \<noteq> None \<and> waiter s wp \<in> set (L WaitingList)"
  shows "\<exists>s' L'. internal_semPost s = Inr s' \<and> sched_wf s' L' F r \<and>
    sem_abs s' L' sem = asem_post (sem_abs s L sem) \<and>
    (\<forall>x. x \<noteq> sem \<longrightarrow> sem_abs s' L' x = sem_abs s L x) \<and>
    L' ReadyList = L ReadyList @ take 1 (snd (sem_abs s L sem))"
proof -
  note l = sem_linkedD [OF lk]
  have pos: "0 \<le> sem_count (sems s sem)" using ok by (simp add: asem_ok_def sem_abs_def)
  show ?thesis
  proof (cases "L (SemWaiting sem)")
    case Nil
    let ?s' = "set_retvalue r 0 (upd_sem sem (\<lambda>c. c\<lparr>sem_count := sem_count (sems s sem) + 1\<rparr>) s)"
    have "sched_wf ?s' L F r" using run by (simp add: upd_defs)
    moreover have w: "waiter ?s' = waiter s" by (simp add: waiter_def fun_eq_iff upd_defs)
    have "sem_abs ?s' L sem = asem_post (sem_abs s L sem)"
      using Nil by (simp add: sem_abs_def w asem_post_def) (simp add: upd_defs)
    moreover have "sem_abs ?s' L x = sem_abs s L x" if "x \<noteq> sem" for x
      using that by (simp add: sem_abs_def w) (simp add: upd_defs)
    moreover have "L ReadyList = L ReadyList @ take 1 (snd (sem_abs s L sem))" using Nil by (simp add: sem_abs_def)
    ultimately show ?thesis using semPost_counts [OF run l(1,2) rng] Nil by blast
  next
    case (Cons wp ws)
    have wpin: "wp \<in> set (L (SemWaiting sem))" using Cons by simp
    obtain wd w where wd: "desc_ptrs s wp = Some wd" "kind_of wd = KSemDescriptor" "desc_pcb (descs s wd) = Some w"
      "w \<in> set (L WaitingList)" "waiter s wp = w"
      using waiters [OF wpin] by (auto simp: waiter_def)
    let ?L = "posted_lists sem wp w L"
    obtain s' where s': "internal_semPost s = Inr s'" "sched_wf s' ?L F r" "kernel_frame s s'"
      using semPost_wakes [OF run l(1,2) rng pos Cons wd(1-4)] by blast
    have wt: "waiter s' = waiter s" and sems: "sems s' = sems s"
      using s'(3) by (simp_all add: waiter_def fun_eq_iff kernel_frame_def)
    have "sem_abs s' ?L sem = asem_post (sem_abs s L sem)"
      using Cons by (simp add: sem_abs_def wt sems asem_post_def posted_lists_def)
    moreover have "sem_abs s' ?L x = sem_abs s L x" if "x \<noteq> sem" for x
      using that by (simp add: sem_abs_def wt sems posted_lists_def)
    moreover have "?L ReadyList = L ReadyList @ take 1 (snd (sem_abs s L sem))"
      using Cons wd(5) by (simp add: sem_abs_def posted_lists_def)
    ultimately show ?thesis using s' by blast
  qed
qed

end
