(* ===== verification/MessageQueue.thy ===== *)
theory MessageQueue
  imports OpenDescriptor
begin

text \<open>
  Message queues: \<^verbatim>\<open>src/disastrOS_mq.c\<close>, \<^verbatim>\<open>src/disastrOS_mqdescriptor.c\<close> and
  the system calls open, close, write, read and unlink. A message queue has one queue per priority.
  Opening links the queues of a new message queue behind the last item of the system's list of
  message queues, instead of the last item of its own list: this works for the first message queue
  (its queues are pushed in front of each other), and leaves every later one without a first queue.
\<close>

section \<open>Message queues, queues and messages\<close>

definition MessageQueue_alloc :: "int \<Rightarrow> int \<Rightarrow> kernel \<Rightarrow> fault + (ptr option \<times> kernel)" where
  "MessageQueue_alloc mid priority s =
     andThen (alloc_block KMessageQueue s) (\<lambda>(r, s1).
       case r of
         None \<Rightarrow> Inr (None, s1)
       | Some r \<Rightarrow>
           Inr (Some r, List_init (MqDescriptors r) (List_init (MqQueues r)
             (upd_mq r (\<lambda>_. \<lparr>mq_id = mid, mq_priority = priority, mq_num_messages = 0\<rparr>) (clear_links r s1)))))"

definition Queue_alloc :: "int \<Rightarrow> kernel \<Rightarrow> fault + (ptr option \<times> kernel)" where
  "Queue_alloc priority s =
     andThen (alloc_block KQueue s) (\<lambda>(r, s1).
       case r of
         None \<Rightarrow> Inr (None, s1)
       | Some r \<Rightarrow>
           let s2 = clear_links r s1
           in Inr (Some r, List_init (QueueMessages r) (s2\<lparr>queue_priority := (queue_priority s2)(r := priority)\<rparr>)))"

text \<open>A message keeps the address of the text, not the text.\<close>

definition Message_alloc :: "int \<Rightarrow> int \<Rightarrow> kernel \<Rightarrow> fault + (ptr option \<times> kernel)" where
  "Message_alloc text text_length s =
     andThen (alloc_block KMessage s) (\<lambda>(r, s1).
       case r of
         None \<Rightarrow> Inr (None, s1)
       | Some r \<Rightarrow>
           Inr (Some r, upd_msg r (\<lambda>_. \<lparr>msg_text_length = text_length, msg_text = text\<rparr>) (clear_links r s1)))"

definition MessageQueue_free :: "ptr \<Rightarrow> kernel \<Rightarrow> fault + (PoolAllocatorResult \<times> kernel)" where
  "MessageQueue_free r s =
     (if list_first (MqDescriptors r) s \<noteq> None then Inl AssertFail
      else if list_last (MqDescriptors r) s \<noteq> None then Inl AssertFail
      else free_block KMessageQueue r s)"

definition Queue_free :: "ptr \<Rightarrow> kernel \<Rightarrow> fault + (PoolAllocatorResult \<times> kernel)" where
  "Queue_free r s =
     (if list_first (QueueMessages r) s \<noteq> None then Inl AssertFail
      else if list_last (QueueMessages r) s \<noteq> None then Inl AssertFail
      else free_block KQueue r s)"

definition Message_free :: "ptr \<Rightarrow> kernel \<Rightarrow> fault + (PoolAllocatorResult \<times> kernel)" where
  "Message_free r s = free_block KMessage r s"

text \<open>
  The searches cast list items without a check. A message queue and a queue both have an
  \<^verbatim>\<open>int\<close> right behind their links, so reading the identifier of a queue gives its
  priority, and reading the priority of a message queue gives its identifier.
\<close>

definition first_int :: "kernel \<Rightarrow> ptr \<Rightarrow> fault + int" where
  "first_int s p =
     (if kind_of p = KMessageQueue then Inr (mq_id (mqs s p))
      else if kind_of p = KQueue then Inr (queue_priority s p)
      else Inl BadCast)"

definition MessageQueueList_byId :: "headref \<Rightarrow> int \<Rightarrow> kernel \<Rightarrow> fault + ptr option" where
  "MessageQueueList_byId l mid s = List_scan (\<lambda>aux. andThen (first_int s aux) (\<lambda>v. Inr (v = mid))) l s"

definition QueueList_byPriority :: "headref \<Rightarrow> int \<Rightarrow> kernel \<Rightarrow> fault + ptr option" where
  "QueueList_byPriority l priority s =
     List_scan (\<lambda>aux. andThen (first_int s aux) (\<lambda>v. Inr (v = priority))) l s"

definition MQDescriptor_alloc :: "int \<Rightarrow> ptr option \<Rightarrow> ptr option \<Rightarrow> kernel \<Rightarrow> fault + (ptr option \<times> kernel)" where
  "MQDescriptor_alloc = desc_alloc KMQDescriptor"

definition MQDescriptor_free :: "ptr \<Rightarrow> kernel \<Rightarrow> fault + (PoolAllocatorResult \<times> kernel)" where
  "MQDescriptor_free d s = free_block KMQDescriptor d s"

definition MQDescriptorList_byFd :: "headref \<Rightarrow> int \<Rightarrow> kernel \<Rightarrow> fault + ptr option" where
  "MQDescriptorList_byFd l fd s = List_scan (has_fd KMQDescriptor fd s) l s"

definition MQDescriptorPtr_alloc :: "ptr option \<Rightarrow> kernel \<Rightarrow> fault + (ptr option \<times> kernel)" where
  "MQDescriptorPtr_alloc = desc_ptr_alloc KMQDescriptorPtr"

definition MQDescriptorPtr_free :: "ptr \<Rightarrow> kernel \<Rightarrow> fault + (PoolAllocatorResult \<times> kernel)" where
  "MQDescriptorPtr_free d s = free_block KMQDescriptorPtr d s"

section \<open>Open\<close>

definition set_last_mq_fd :: "int \<Rightarrow> PCB \<Rightarrow> PCB" where
  "set_last_mq_fd v c = c\<lparr>pcb_last_mq_fd := v\<rparr>"

definition mqOpen_attach :: "ptr \<Rightarrow> ptr \<Rightarrow> kernel \<Rightarrow> fault + kernel" where
  "mqOpen_attach r mq =
     open_descriptor KMQDescriptor KMQDescriptorPtr KMessageQueue (PcbMqDescriptors r) (MqDescriptors mq)
       pcb_last_mq_fd set_last_mq_fd DSOS_EMQOPEN r mq"

text \<open>
  The loop that makes the queues, \<open>n\<close> of them with the priorities from \<open>i\<close> on. The result
  tells whether all could be made; the position of each is the last item of the wrong list.
\<close>

primrec mqOpen_queues :: "nat \<Rightarrow> int \<Rightarrow> ptr \<Rightarrow> ptr \<Rightarrow> kernel \<Rightarrow> fault + (bool \<times> kernel)" where
  "mqOpen_queues 0 i r mq s = Inr (True, s)"
| "mqOpen_queues (Suc n) i r mq s =
     andThen (Queue_alloc i s) (\<lambda>(q, s1).
     case q of
       None \<Rightarrow> Inr (False, set_retvalue r DSOS_EMQOPEN s1)
     | Some q \<Rightarrow>
         andThen (List_insert (MqQueues mq) (list_last MessageQueuesList s1) (Some q) s1) (\<lambda>(_, s2).
         mqOpen_queues n (i + 1) r mq s2))"

definition mqOpen_create :: "ptr \<Rightarrow> int \<Rightarrow> int \<Rightarrow> kernel \<Rightarrow> fault + kernel" where
  "mqOpen_create r mid priority s =
     (let refuse = \<lambda>s. Inr (set_retvalue r DSOS_EMQOPEN s) in
      if list_size MessageQueuesList s + 1 > MAX_NUM_MQS then refuse s
      else if priority < 0 \<or> priority > MAX_NUM_QUEUES then refuse s
      else
        andThen (MessageQueue_alloc mid priority s) (\<lambda>(mq, s1).
        case mq of
          None \<Rightarrow> refuse s1
        | Some mq \<Rightarrow>
            andThen (mqOpen_queues (nat (priority + 1)) 0 r mq s1) (\<lambda>(complete, s2).
            if \<not> complete then Inr s2
            else
              andThen (List_insert MessageQueuesList (list_last MessageQueuesList s2) (Some mq) s2) (\<lambda>(_, s3).
              mqOpen_attach r mq s3))))"

definition internal_mqOpen :: "kernel \<Rightarrow> fault + kernel" where
  "internal_mqOpen s =
     andThen (deref KPCB (running s)) (\<lambda>r.
     let mid = int_arg r 0 s; flags = int_arg r 1 s; priority = int_arg r 2 s;
         refuse = \<lambda>s. Inr (set_retvalue r DSOS_EMQOPEN s)
     in
     andThen (checked_int (pcb_last_mq_fd (pcbs s r) + 1)) (\<lambda>fds.
     if fds > MAX_NUM_MQDESCRIPTORS_PER_PROCESS then refuse s
     else if mid < 0 then refuse s
     else
       andThen (MessageQueueList_byId MessageQueuesList mid s) (\<lambda>mq.
       if flags AND DSOS_CREATE \<noteq> 0 \<and> mq \<noteq> None \<and> flags AND DSOS_EXCL \<noteq> 0 then refuse s
       else if flags AND DSOS_CREATE \<noteq> 0 \<and> mq = None then mqOpen_create r mid priority s
       else
         (case mq of
            None \<Rightarrow> refuse s
          | Some mq \<Rightarrow> mqOpen_attach r mq s))))"

section \<open>Close\<close>

definition mq_of_fd :: "ptr \<Rightarrow> int \<Rightarrow> kernel \<Rightarrow> fault + (ptr \<times> ptr) option" where
  "mq_of_fd r fd s =
     andThen (MQDescriptorList_byFd (PcbMqDescriptors r) fd s) (\<lambda>des.
     case des of
       None \<Rightarrow> Inr None
     | Some des \<Rightarrow>
         (case desc_object (descs s des) of
            None \<Rightarrow> Inr None
          | Some mq \<Rightarrow> Inr (Some (des, mq))))"

definition mq_fd_bad :: "int \<Rightarrow> bool" where
  "mq_fd_bad fd \<longleftrightarrow> fd < 0 \<or> fd > MAX_NUM_MQDESCRIPTORS_PER_PROCESS"

definition internal_mqClose :: "kernel \<Rightarrow> fault + kernel" where
  "internal_mqClose s =
     andThen (deref KPCB (running s)) (\<lambda>r.
     let fd = int_arg r 0 s; refuse = \<lambda>s. Inr (set_retvalue r DSOS_EMQCLOSE s) in
     if mq_fd_bad fd then refuse s
     else
       andThen (mq_of_fd r fd s) (\<lambda>found.
       case found of
         None \<Rightarrow> refuse s
       | Some (mqDes, mq) \<Rightarrow>
           andThen (List_detach (PcbMqDescriptors r) (Some mqDes) s) (\<lambda>(_, s1).
           case desc_ptr (descs s1 mqDes) of
             None \<Rightarrow> refuse s1
           | Some mqDesPtr \<Rightarrow>
               andThen (deref KMessageQueue (Some mq)) (\<lambda>mq.
               andThen (List_detach (MqDescriptors mq) (Some mqDesPtr) s1) (\<lambda>(_, s2).
               andThen (MQDescriptor_free mqDes s2) (\<lambda>(_, s3).
               andThen (MQDescriptorPtr_free mqDesPtr s3) (\<lambda>(_, s4).
               andThen (checked_int (pcb_last_mq_fd (pcbs s4 r) - 1)) (\<lambda>fds.
               Inr (set_retvalue r 0 (upd_pcb r (set_last_mq_fd fds) s4))))))))))"

section \<open>Write and read\<close>

text \<open>A priority that is not below that of the message queue is normalised to the last one.\<close>

definition effective_priority :: "int \<Rightarrow> int \<Rightarrow> int" where
  "effective_priority mq_prio p = (if p < 0 \<or> p > mq_prio - 1 then mq_prio else p)"

text \<open>
  With debugging compiled in, as the build does it, write begins by printing the text of the message, up to its first
  zero and before the arguments are looked at.
\<close>

definition internal_mqWrite :: "kernel \<Rightarrow> fault + kernel" where
  "internal_mqWrite s =
     andThen (deref KPCB (running s)) (\<lambda>r.
     let fd = int_arg r 0 s; buf = syscall_arg r 1 s; buf_size = int_arg r 2 s; priority = int_arg r 3 s;
         refuse = \<lambda>s. Inr (set_retvalue r DSOS_EMQWRITE s)
     in
     andThen (print_string buf s) (\<lambda>_.
     if mq_fd_bad fd then refuse s
     else if buf = 0 then refuse s
     else if buf_size < 0 \<or> buf_size > MAX_MESSAGE_LENGTH then refuse s
     else
       andThen (mq_of_fd r fd s) (\<lambda>found.
       case found of
         None \<Rightarrow> refuse s
       | Some (mqDes, mq) \<Rightarrow>
           andThen (deref KMessageQueue (Some mq)) (\<lambda>mq.
           if mq_num_messages (mqs s mq) + 1 > MAX_NUM_MESSAGES_PER_MQ then Inr (set_retvalue r 0 s)
           else
             let priority = effective_priority (mq_priority (mqs s mq)) priority in
             andThen (QueueList_byPriority (MqQueues mq) priority s) (\<lambda>q.
             case q of
               None \<Rightarrow> refuse s
             | Some q \<Rightarrow>
                 andThen (Message_alloc buf buf_size s) (\<lambda>(m, s1).
                 case m of
                   None \<Rightarrow> refuse s1
                 | Some m \<Rightarrow>
                     andThen (deref KQueue (Some q)) (\<lambda>q.
                     andThen (List_insert (QueueMessages q) (list_last (QueueMessages q) s1) (Some m) s1) (\<lambda>(_, s2).
                     let s3 = upd_mq mq (\<lambda>c. c\<lparr>mq_num_messages := mq_num_messages c + 1\<rparr>) s2
                     in Inr (set_retvalue r priority s3)))))))))"

definition store_user :: "int \<Rightarrow> int \<Rightarrow> kernel \<Rightarrow> fault + kernel" where
  "store_user a v s = (if a = 0 then Inl NullDeref else Inr (s\<lparr>umem := (umem s)(a := v)\<rparr>))"

definition load_user :: "int \<Rightarrow> kernel \<Rightarrow> fault + int" where
  "load_user a s = (if a = 0 then Inl NullDeref else Inr (umem s a))"

text \<open>
  Delivery of one message. All of its text is printed, as debugging output, and its first character is
  copied.
\<close>

definition mqRead_deliver :: "ptr \<Rightarrow> ptr \<Rightarrow> int \<Rightarrow> int \<Rightarrow> int \<Rightarrow> ptr \<Rightarrow> kernel \<Rightarrow> fault + kernel" where
  "mqRead_deliver r mq buf prio_addr i m s =
     (let s1 = upd_mq mq (\<lambda>c. c\<lparr>mq_num_messages := mq_num_messages c - 1\<rparr>) s in
      andThen (print_string (msg_text (msgs s1 m)) s1) (\<lambda>_.
      andThen (load_user (msg_text (msgs s1 m)) s1) (\<lambda>char.
      andThen (store_user buf char s1) (\<lambda>s2.
      andThen (Message_free m s2) (\<lambda>(_, s3).
      andThen (store_user prio_addr i s3) (\<lambda>s4.
      Inr (set_retvalue r (msg_text_length (msgs s4 m)) s4)))))))"

text \<open>
  The loop over the priorities from \<open>i\<close> on, \<open>n\<close> of them. A message that does not fit the
  buffer is already detached when that is found out, and the loop goes on with the next priority.
\<close>

primrec mqRead_loop :: "nat \<Rightarrow> int \<Rightarrow> ptr \<Rightarrow> ptr \<Rightarrow> int \<Rightarrow> int \<Rightarrow> int \<Rightarrow> kernel \<Rightarrow> fault + kernel" where
  "mqRead_loop 0 i r mq buf buf_size prio_addr s = Inr (set_retvalue r 0 s)"
| "mqRead_loop (Suc n) i r mq buf buf_size prio_addr s =
     andThen (QueueList_byPriority (MqQueues mq) i s) (\<lambda>q.
     if q = None then Inr (set_retvalue r DSOS_EMQREAD s)
     else
       andThen (deref KQueue q) (\<lambda>q.
       andThen (if list_size (QueueMessages q) s \<noteq> 0
                then List_detach (QueueMessages q) (list_first (QueueMessages q) s) s
                else Inr (None, s)) (\<lambda>(m, s1).
       if m = None then mqRead_loop n (i + 1) r mq buf buf_size prio_addr s1
       else
         andThen (deref KMessage m) (\<lambda>m.
         if buf_size \<ge> msg_text_length (msgs s1 m) then mqRead_deliver r mq buf prio_addr i m s1
         else mqRead_loop n (i + 1) r mq buf buf_size prio_addr s1))))"

definition internal_mqRead :: "kernel \<Rightarrow> fault + kernel" where
  "internal_mqRead s =
     andThen (deref KPCB (running s)) (\<lambda>r.
     let fd = int_arg r 0 s; buf = syscall_arg r 1 s; buf_size = int_arg r 2 s; prio_addr = syscall_arg r 3 s;
         refuse = \<lambda>s. Inr (set_retvalue r DSOS_EMQREAD s)
     in
     if mq_fd_bad fd then refuse s
     else
       andThen (mq_of_fd r fd s) (\<lambda>found.
       case found of
         None \<Rightarrow> refuse s
       | Some (mqDes, mq) \<Rightarrow>
           andThen (deref KMessageQueue (Some mq)) (\<lambda>mq.
           if mq_num_messages (mqs s mq) = 0 then Inr (set_retvalue r 0 s)
           else mqRead_loop (nat (mq_priority (mqs s mq))) 0 r mq buf buf_size prio_addr s)))"

section \<open>Unlink\<close>

primrec mqUnlink_queues :: "nat \<Rightarrow> ptr \<Rightarrow> kernel \<Rightarrow> fault + kernel" where
  "mqUnlink_queues 0 mq s = Inr s"
| "mqUnlink_queues (Suc n) mq s =
     andThen (List_detach (MqQueues mq) (list_first (MqQueues mq) s) s) (\<lambda>(q, s1).
     if q = None then mqUnlink_queues n mq s1
     else
       andThen (deref KQueue q) (\<lambda>q.
       if list_size (QueueMessages q) s1 = 0
       then andThen (Queue_free q s1) (\<lambda>(_, s2). mqUnlink_queues n mq s2)
       else mqUnlink_queues n mq s1))"

definition internal_mqUnlink :: "kernel \<Rightarrow> fault + kernel" where
  "internal_mqUnlink s =
     andThen (deref KPCB (running s)) (\<lambda>r.
     let refuse = \<lambda>s. Inr (set_retvalue r DSOS_EMQUNLINK s) in
     andThen (MessageQueueList_byId MessageQueuesList (int_arg r 0 s) s) (\<lambda>mq.
     if mq = None then refuse s
     else
       andThen (deref KMessageQueue mq) (\<lambda>mq.
       if mq_num_messages (mqs s mq) \<noteq> 0 then refuse s
       else if list_size (MqDescriptors mq) s \<noteq> 0 then refuse s
       else
         andThen (List_detach MessageQueuesList (Some mq) s) (\<lambda>(mq', s1).
         case mq' of
           None \<Rightarrow> refuse s1
         | Some mq \<Rightarrow>
             andThen (mqUnlink_queues (nat (mq_priority (mqs s1 mq) + 1)) mq s1) (\<lambda>s2.
             andThen (MessageQueue_free mq s2) (\<lambda>(_, s3).
             Inr (set_retvalue r 0 s3)))))))"

section \<open>Searches on well-formed states\<close>

definition mq_lookup :: "kernel \<Rightarrow> (headref \<Rightarrow> ptr list) \<Rightarrow> int \<Rightarrow> ptr option" where
  "mq_lookup s L mid = List.find (\<lambda>p. mq_id (mqs s p) = mid) (L MessageQueuesList)"

definition queue_lookup :: "kernel \<Rightarrow> (headref \<Rightarrow> ptr list) \<Rightarrow> ptr \<Rightarrow> int \<Rightarrow> ptr option" where
  "queue_lookup s L mq p = List.find (\<lambda>q. queue_priority s q = p) (L (MqQueues mq))"

lemma MessageQueueList_byId_wf:
  assumes "kernel_wf s L F"
  shows "MessageQueueList_byId MessageQueuesList mid s = Inr (mq_lookup s L mid)"
  unfolding MessageQueueList_byId_def mq_lookup_def
  by (rule wf_scan [OF assms]) (use kernel_wf_kind [OF assms] in \<open>simp add: first_int_def\<close>)

lemma QueueList_byPriority_wf:
  assumes "kernel_wf s L F"
  shows "QueueList_byPriority (MqQueues mq) p s = Inr (queue_lookup s L mq p)"
  unfolding QueueList_byPriority_def queue_lookup_def
  by (rule wf_scan [OF assms]) (use kernel_wf_kind [OF assms] in \<open>simp add: first_int_def\<close>)

lemma queue_lookup_in: "queue_lookup s L mq p = Some q \<Longrightarrow> q \<in> set (L (MqQueues mq))"
  by (auto simp: queue_lookup_def dest: find_in_set)

definition mq_handle :: "kernel \<Rightarrow> (headref \<Rightarrow> ptr list) \<Rightarrow> ptr \<Rightarrow> int \<Rightarrow> (ptr \<times> ptr) option" where
  "mq_handle s L r fd =
     (case fd_lookup s (L (PcbMqDescriptors r)) fd of
        None \<Rightarrow> None
      | Some d \<Rightarrow> map_option (\<lambda>mq. (d, mq)) (desc_object (descs s d)))"

lemma mq_of_fd_wf:
  assumes "kernel_wf s L F"
  shows "mq_of_fd r fd s = Inr (mq_handle s L r fd)"
  using has_fd_wf [OF assms, of "PcbMqDescriptors r" KMQDescriptor fd]
  by (simp add: mq_of_fd_def mq_handle_def MQDescriptorList_byFd_def fd_lookup_def split: option.splits)

lemma mq_handle_listed:
  "mq_handle s L r fd = Some (d, mq) \<Longrightarrow> d \<in> set (L (PcbMqDescriptors r))"
  by (auto simp: mq_handle_def fd_lookup_def split: option.splits dest: find_in_set)

section \<open>Write\<close>

definition write_contents :: "ptr \<Rightarrow> ptr \<Rightarrow> ptr \<Rightarrow> int \<Rightarrow> int \<Rightarrow> int \<Rightarrow> kernel \<Rightarrow> kernel" where
  "write_contents r mq m buf len p s =
     set_retvalue r p (upd_mq mq (\<lambda>c. c\<lparr>mq_num_messages := mq_num_messages c + 1\<rparr>)
       (upd_msg m (\<lambda>_. \<lparr>msg_text_length = len, msg_text = buf\<rparr>) s))"

lemma mqWrite_wf:
  assumes run: "sched_wf s L F r" and fd: "\<not> mq_fd_bad (int_arg r 0 s)"
    and h: "mq_handle s L r (int_arg r 0 s) = Some (d, mq)" and k: "kind_of mq = KMessageQueue"
    and args: "text_ends s (syscall_arg r 1 s)" "0 \<le> int_arg r 2 s" "int_arg r 2 s \<le> 32"
    and room: "mq_num_messages (mqs s mq) < 128"
    and q: "queue_lookup s L mq (effective_priority (mq_priority (mqs s mq)) (int_arg r 3 s)) = Some q"
    and F: "F KMessage = i # is"
  defines "m \<equiv> Ptr KMessage i"
  shows "\<exists>s'. internal_mqWrite s = Inr s' \<and>
    sched_wf s' (L(QueueMessages q := L (QueueMessages q) @ [m])) (F(KMessage := is)) r \<and>
    kernel_frame (write_contents r mq m (syscall_arg r 1 s) (int_arg r 2 s)
      (effective_priority (mq_priority (mqs s mq)) (int_arg r 3 s)) s) s'"
proof -
  note r = sched_wfD [OF run]
  let ?F = "F(KMessage := is)" and ?e = "effective_priority (mq_priority (mqs s mq)) (int_arg r 3 s)"
  let ?c = "\<lparr>msg_text_length = int_arg r 2 s, msg_text = syscall_arg r 1 s\<rparr>"
  obtain a where a: "alloc_block KMessage s = Inr (Some m, a)" "kernel_wf (clear_links m a) L ?F"
    "fresh_block (clear_links m a) L ?F m" "kernel_frame s (clear_links m a)"
    "\<forall>p. live s F p \<longrightarrow> p \<noteq> m \<and> live (clear_links m a) ?F p"
    "\<forall>p. p \<noteq> m \<longrightarrow> unlinked (clear_links m a) p = unlinked s p"
    using wf_new [OF r(1) F] unfolding m_def by blast
  have ra: "fresh_block (clear_links m a) L ?F r" by (rule fresh_block_other [OF r(4)]; use a(5,6) in blast)
  let ?s1 = "upd_msg m (\<lambda>_. ?c) (clear_links m a)"
  have 1: "kernel_wf ?s1 L ?F" "fresh_block ?s1 L ?F m" "fresh_block ?s1 L ?F r"
    using a(2,3) ra by (simp_all add: upd_msg_def)
  have km: "kind_of m = item_kind (QueueMessages q)" and rm: "r \<noteq> m" using r(3) by (auto simp: m_def)
  obtain s2 where s2: "List_insert (QueueMessages q) (list_last (QueueMessages q) ?s1) (Some m) ?s1 = Inr (Some m, s2)"
    "kernel_wf s2 (L(QueueMessages q := L (QueueMessages q) @ [m])) ?F" "lists_only ?s1 s2"
    "fresh_block s2 (L(QueueMessages q := L (QueueMessages q) @ [m])) ?F r"
    using wf_put [OF 1(1,2) km] 1(3) rm by blast
  let ?s3 = "set_retvalue r ?e (upd_mq mq (\<lambda>c. c\<lparr>mq_num_messages := mq_num_messages c + 1\<rparr>) s2)"
  have kq: "kind_of q = KQueue" using kernel_wf_kind [OF r(1) queue_lookup_in [OF q]] by simp
  have alloc: "Message_alloc (syscall_arg r 1 s) (int_arg r 2 s) s = Inr (Some m, ?s1)"
    by (simp add: Message_alloc_def a(1))
  have look: "QueueList_byPriority (MqQueues mq) ?e s = Inr (Some q)"
    using QueueList_byPriority_wf [OF r(1)] q by simp
  have "internal_mqWrite s = Inr ?s3"
    using r(2,3) fd mq_of_fd_wf [OF r(1)] h k args text_endsD [OF args(1)] room kq look
    by (simp add: internal_mqWrite_def Let_def andThen_print_string alloc s2(1) del: One_nat_def)
  moreover have fr: "kernel_frame (write_contents r mq m (syscall_arg r 1 s) (int_arg r 2 s) ?e s) ?s3"
    using a(4) lists_only_frame [OF s2(3)] by (simp add: kernel_frame_def write_contents_def upd_defs)
  moreover have "sched_wf ?s3 (L(QueueMessages q := L (QueueMessages q) @ [m])) ?F r"
    using s2(2,4) r(2,3) fr by (simp add: sched_wf_def upd_defs kernel_frame_def write_contents_def)
  ultimately show ?thesis by blast
qed

text \<open>A full message queue is reported with 0, the value of a message written with the highest priority.\<close>

lemma mqWrite_full:
  assumes run: "sched_wf s L F r" and fd: "\<not> mq_fd_bad (int_arg r 0 s)"
    and h: "mq_handle s L r (int_arg r 0 s) = Some (d, mq)" and k: "kind_of mq = KMessageQueue"
    and args: "text_ends s (syscall_arg r 1 s)" "0 \<le> int_arg r 2 s" "int_arg r 2 s \<le> 32"
    and full: "mq_num_messages (mqs s mq) \<ge> 128"
  shows "internal_mqWrite s = Inr (set_retvalue r 0 s)"
  using sched_wfD(2,3) [OF run] fd mq_of_fd_wf [OF sched_wfD(1) [OF run]] h k args text_endsD [OF args(1)] full
  by (simp add: internal_mqWrite_def Let_def andThen_print_string)

text \<open>A text that cannot be printed stops the call before it looks at anything else.\<close>

lemma mqWrite_unreadable:
  assumes "running s = Some r" and "kind_of r = KPCB" and "\<not> text_ends s (syscall_arg r 1 s)"
  shows "internal_mqWrite s = Inl (if syscall_arg r 1 s = 0 then NullDeref else Diverges)"
  using assms by (simp add: internal_mqWrite_def Let_def andThen_print_string)

section \<open>Read\<close>

lemma mqRead_skip:
  assumes wf: "kernel_wf s L F"
    and empty: "\<And>j. j < k \<Longrightarrow> \<exists>q. queue_lookup s L mq (i + int j) = Some q \<and> L (QueueMessages q) = []"
  shows "mqRead_loop (k + n) i r mq buf len pa s = mqRead_loop n (i + int k) r mq buf len pa s"
  using empty
proof (induction k arbitrary: i)
  case 0
  then show ?case by simp
next
  case (Suc k)
  obtain q where q: "queue_lookup s L mq i = Some q" "L (QueueMessages q) = []" using Suc.prems [of 0] by auto
  have kq: "kind_of q = KQueue" using kernel_wf_kind [OF wf queue_lookup_in [OF q(1)]] by simp
  have "mqRead_loop (Suc k + n) i r mq buf len pa s = mqRead_loop (k + n) (i + 1) r mq buf len pa s"
    using q kq by (simp add: QueueList_byPriority_wf [OF wf] wf_list_size [OF wf])
  moreover have "\<exists>q. queue_lookup s L mq (i + 1 + int j) = Some q \<and> L (QueueMessages q) = []" if "j < k" for j
    using Suc.prems [of "Suc j"] that by (simp add: algebra_simps)
  ultimately show ?case using Suc.IH [of "i + 1"] by (simp add: algebra_simps)
qed

definition read_contents :: "ptr \<Rightarrow> ptr \<Rightarrow> int \<Rightarrow> int \<Rightarrow> int \<Rightarrow> ptr \<Rightarrow> kernel \<Rightarrow> kernel" where
  "read_contents r mq buf pa p m s =
     set_retvalue r (msg_text_length (msgs s m))
       (upd_mq mq (\<lambda>c. c\<lparr>mq_num_messages := mq_num_messages c - 1\<rparr>)
         (s\<lparr>umem := (umem s)(buf := umem s (msg_text (msgs s m)), pa := p)\<rparr>))"

text \<open>
  The text is printed to its end, and the kernel writes to the two addresses without a check: a text
  without an end and a null address are faults.
\<close>

definition delivered :: "kernel \<Rightarrow> ptr \<Rightarrow> int \<Rightarrow> int \<Rightarrow> kernel \<Rightarrow> fault + kernel" where
  "delivered s m buf pa s' =
     (if \<not> text_ends s (msg_text (msgs s m)) then Inl Diverges
      else if buf = 0 \<or> pa = 0 then Inl NullDeref else Inr s')"

lemma mqRead_take:
  assumes run: "sched_wf s L F r" and q: "queue_lookup s L mq i = Some q" "L (QueueMessages q) = m # ms"
    and fits: "msg_text_length (msgs s m) \<le> len" and addr: "msg_text (msgs s m) \<noteq> 0"
  shows "\<exists>s'. mqRead_loop (Suc n) i r mq buf len pa s = delivered s m buf pa s' \<and>
    sched_wf s' (L(QueueMessages q := ms)) (F(KMessage := idx_of m # F KMessage)) r \<and>
    kernel_frame (read_contents r mq buf pa i m s) s'"
proof -
  note r = sched_wfD [OF run]
  let ?L = "L(QueueMessages q := ms)" and ?F = "F(KMessage := idx_of m # F KMessage)"
  have kq: "kind_of q = KQueue" using kernel_wf_kind [OF r(1) queue_lookup_in [OF q(1)]] by simp
  have min: "m \<in> set (L (QueueMessages q))" "remove1 m (L (QueueMessages q)) = ms" using q(2) by simp_all
  have km: "kind_of m = KMessage" using kernel_wf_kind [OF r(1) min(1)] by simp
  obtain s1 where s1: "List_detach (QueueMessages q) (Some m) s = Inr (Some m, s1)" "kernel_wf s1 ?L F"
    "lists_only s s1" "fresh_block s1 ?L F m" "\<forall>x. fresh_block s L F x \<longrightarrow> fresh_block s1 ?L F x"
    using wf_take [OF r(1) min(1)] unfolding min(2) by blast
  note same = lists_only_fields [OF s1(3)]
  let ?c = "umem s (msg_text (msgs s m))"
  let ?s2 = "(upd_mq mq (\<lambda>c. c\<lparr>mq_num_messages := mq_num_messages c - 1\<rparr>) s1)\<lparr>umem := (umem s)(buf := ?c)\<rparr>"
  have 2: "kernel_wf ?s2 ?L F" "live ?s2 F m" "\<not> listed ?L m"
    using s1(2,4) by (simp_all add: upd_mq_def fresh_block_def)
  obtain P where P: "free_block KMessage m ?s2 = Inr (Success, ?s2\<lparr>pools := P\<rparr>)"
    "kernel_wf (?s2\<lparr>pools := P\<rparr>) ?L ?F" "\<forall>x. live ?s2 F x \<longrightarrow> x \<noteq> m \<longrightarrow> live (?s2\<lparr>pools := P\<rparr>) ?F x"
    using wf_free [OF 2 km] by blast
  let ?s4 = "?s2\<lparr>pools := P, umem := (umem s)(buf := ?c, pa := i)\<rparr>"
  let ?s' = "set_retvalue r (msg_text_length (msgs s m)) ?s4"
  have del: "mqRead_deliver r mq buf pa i m s1 = delivered s m buf pa ?s'"
    using addr P(1) by (cases "buf = 0") (simp_all add: Let_def mqRead_deliver_def andThen_print_string text_ends_def
      delivered_def load_user_def store_user_def Message_free_def same upd_mq_def)
  have first: "list_first (QueueMessages q) s = Some m" "list_size (QueueMessages q) s \<noteq> 0"
    using q(2) by (simp_all add: wf_list_first [OF r(1)] wf_list_size [OF r(1)])
  have "mqRead_loop (Suc n) i r mq buf len pa s = delivered s m buf pa ?s'"
    using q kq km fits by (simp add: QueueList_byPriority_wf [OF r(1)] first s1(1) same del)
  moreover have "sched_wf ?s' ?L ?F r"
  proof -
    have "r \<noteq> m" using r(3) km by auto
    moreover have "fresh_block s1 ?L F r" using s1(5) r(4) by blast
    moreover have "kernel_wf ?s' ?L ?F"
      using P(2) by (subst kernel_wf_cong [where s = "?s2\<lparr>pools := P\<rparr>"]) (simp_all add: upd_defs)
    moreover have "live ?s' ?F x = live (?s2\<lparr>pools := P\<rparr>) ?F x" "unlinked ?s' x = unlinked s1 x"
      "live ?s2 F x = live s1 F x" "running ?s' = running s1" for x
      by (simp_all add: live_def unlinked_def upd_defs)
    ultimately show ?thesis using P(3) r(2,3) same(13) by (simp add: sched_wf_def fresh_block_def)
  qed
  moreover have "kernel_frame (read_contents r mq buf pa i m s) ?s'"
    using same by (simp add: kernel_frame_def read_contents_def upd_defs)
  ultimately show ?thesis by blast
qed

lemma mqRead_common:
  assumes run: "sched_wf s L F r" and fd: "\<not> mq_fd_bad (int_arg r 0 s)"
    and h: "mq_handle s L r (int_arg r 0 s) = Some (d, mq)" and k: "kind_of mq = KMessageQueue"
    and some: "mq_num_messages (mqs s mq) \<noteq> 0"
  shows "internal_mqRead s = mqRead_loop (nat (mq_priority (mqs s mq))) 0 r mq (syscall_arg r 1 s) (int_arg r 2 s)
    (syscall_arg r 3 s) s"
  using sched_wfD(2,3) [OF run] fd mq_of_fd_wf [OF sched_wfD(1) [OF run]] h k some
  by (simp add: internal_mqRead_def Let_def)

text \<open>The queues with priorities before \<open>p\<close> are there and empty.\<close>

definition empty_below :: "kernel \<Rightarrow> (headref \<Rightarrow> ptr list) \<Rightarrow> ptr \<Rightarrow> int \<Rightarrow> bool" where
  "empty_below s L mq p \<longleftrightarrow>
     (\<forall>i. 0 \<le> i \<longrightarrow> i < p \<longrightarrow> (\<exists>q. queue_lookup s L mq i = Some q \<and> L (QueueMessages q) = []))"

lemma empty_below_skip:
  assumes "kernel_wf s L F" and "empty_below s L mq p" and "0 \<le> p"
  shows "mqRead_loop (nat p + n) 0 r mq buf len pa s = mqRead_loop n p r mq buf len pa s"
  using mqRead_skip [OF assms(1), of "nat p" mq 0 n r buf len pa] assms(2,3) by (force simp: empty_below_def)

lemma mqRead_delivers_wf:
  assumes run: "sched_wf s L F r" and fd: "\<not> mq_fd_bad (int_arg r 0 s)"
    and h: "mq_handle s L r (int_arg r 0 s) = Some (d, mq)" and k: "kind_of mq = KMessageQueue"
    and some: "mq_num_messages (mqs s mq) \<noteq> 0"
    and p: "0 \<le> p" "p < mq_priority (mqs s mq)" "empty_below s L mq p"
    and q: "queue_lookup s L mq p = Some q" "L (QueueMessages q) = m # ms"
    and fits: "msg_text_length (msgs s m) \<le> int_arg r 2 s"
    and addr: "msg_text (msgs s m) \<noteq> 0"
  shows "\<exists>s'. internal_mqRead s = delivered s m (syscall_arg r 1 s) (syscall_arg r 3 s) s' \<and>
    sched_wf s' (L(QueueMessages q := ms)) (F(KMessage := idx_of m # F KMessage)) r \<and>
    kernel_frame (read_contents r mq (syscall_arg r 1 s) (syscall_arg r 3 s) p m s) s'"
proof -
  have n: "nat (mq_priority (mqs s mq)) = nat p + Suc (nat (mq_priority (mqs s mq) - p - 1))"
    using p(1,2) by simp
  have "internal_mqRead s = mqRead_loop (Suc (nat (mq_priority (mqs s mq) - p - 1))) p r mq (syscall_arg r 1 s)
      (int_arg r 2 s) (syscall_arg r 3 s) s"
    unfolding mqRead_common [OF run fd h k some] n by (rule empty_below_skip [OF sched_wfD(1) [OF run] p(3,1)])
  with mqRead_take [OF run q fits addr] show ?thesis by simp
qed

text \<open>The loop stops before the last priority: what is only there is never delivered.\<close>

lemma mqRead_misses_last:
  assumes run: "sched_wf s L F r" and fd: "\<not> mq_fd_bad (int_arg r 0 s)"
    and h: "mq_handle s L r (int_arg r 0 s) = Some (d, mq)" and k: "kind_of mq = KMessageQueue"
    and p: "0 \<le> mq_priority (mqs s mq)" "empty_below s L mq (mq_priority (mqs s mq))"
  shows "internal_mqRead s = Inr (set_retvalue r 0 s)"
proof (cases "mq_num_messages (mqs s mq) = 0")
  case True
  then show ?thesis
    using sched_wfD(2,3) [OF run] fd mq_of_fd_wf [OF sched_wfD(1) [OF run]] h k
    by (simp add: internal_mqRead_def Let_def)
next
  case False
  with empty_below_skip [OF sched_wfD(1) [OF run] p(2,1), of 0] show ?thesis
    by (simp add: mqRead_common [OF run fd h k])
qed

text \<open>A message that does not fit is taken out of its queue all the same, and lost.\<close>

lemma mqRead_too_long:
  assumes run: "sched_wf s L F r" and q: "queue_lookup s L mq i = Some q" "L (QueueMessages q) = m # ms"
    and long: "msg_text_length (msgs s m) > len"
  shows "\<exists>s1. mqRead_loop (Suc n) i r mq buf len pa s = mqRead_loop n (i + 1) r mq buf len pa s1 \<and>
    sched_wf s1 (L(QueueMessages q := ms)) F r \<and> lists_only s s1"
proof -
  note r = sched_wfD [OF run]
  have kq: "kind_of q = KQueue" using kernel_wf_kind [OF r(1) queue_lookup_in [OF q(1)]] by simp
  have min: "m \<in> set (L (QueueMessages q))" "remove1 m (L (QueueMessages q)) = ms" using q(2) by simp_all
  have km: "kind_of m = KMessage" using kernel_wf_kind [OF r(1) min(1)] by simp
  obtain s1 where s1: "List_detach (QueueMessages q) (Some m) s = Inr (Some m, s1)"
    "kernel_wf s1 (L(QueueMessages q := ms)) F" "lists_only s s1"
    "\<forall>x. fresh_block s L F x \<longrightarrow> fresh_block s1 (L(QueueMessages q := ms)) F x"
    using wf_take [OF r(1) min(1)] unfolding min(2) by blast
  have first: "list_first (QueueMessages q) s = Some m" "list_size (QueueMessages q) s \<noteq> 0"
    using q(2) by (simp_all add: wf_list_first [OF r(1)] wf_list_size [OF r(1)])
  have "mqRead_loop (Suc n) i r mq buf len pa s = mqRead_loop n (i + 1) r mq buf len pa s1"
    using q kq km long lists_only_fields(11) [OF s1(3)]
    by (simp add: QueueList_byPriority_wf [OF r(1)] first s1(1))
  moreover have "sched_wf s1 (L(QueueMessages q := ms)) F r"
    using s1(2,4) r lists_only_fields(13) [OF s1(3)] by (simp add: sched_wf_def)
  ultimately show ?thesis using s1(3) by blast
qed

lemma mqRead_loses:
  assumes run: "sched_wf s L F r" and fd: "\<not> mq_fd_bad (int_arg r 0 s)"
    and h: "mq_handle s L r (int_arg r 0 s) = Some (d, mq)" and k: "kind_of mq = KMessageQueue"
    and some: "mq_num_messages (mqs s mq) \<noteq> 0"
    and p: "0 \<le> p" "p < mq_priority (mqs s mq)" "empty_below s L mq p"
    and q: "queue_lookup s L mq p = Some q" "L (QueueMessages q) = m # ms"
    and long: "msg_text_length (msgs s m) > int_arg r 2 s"
  shows "\<exists>s1. internal_mqRead s = mqRead_loop (nat (mq_priority (mqs s mq) - p - 1)) (p + 1) r mq (syscall_arg r 1 s)
      (int_arg r 2 s) (syscall_arg r 3 s) s1 \<and>
    sched_wf s1 (L(QueueMessages q := ms)) F r \<and> kernel_frame s s1"
proof -
  have n: "nat (mq_priority (mqs s mq)) = nat p + Suc (nat (mq_priority (mqs s mq) - p - 1))"
    using p(1,2) by simp
  have "internal_mqRead s = mqRead_loop (Suc (nat (mq_priority (mqs s mq) - p - 1))) p r mq (syscall_arg r 1 s)
      (int_arg r 2 s) (syscall_arg r 3 s) s"
    unfolding mqRead_common [OF run fd h k some] n by (rule empty_below_skip [OF sched_wfD(1) [OF run] p(3,1)])
  then show ?thesis
    using mqRead_too_long [OF run q long] lists_only_frame by fastforce
qed

text \<open>The search that goes on finds nothing when the later queues are empty.\<close>

lemma mqRead_rest_empty:
  assumes "kernel_wf s L F" and "\<And>i. a \<le> i \<Longrightarrow> i < a + int n \<Longrightarrow> \<exists>q. queue_lookup s L mq i = Some q \<and> L (QueueMessages q) = []"
  shows "mqRead_loop n a r mq buf len pa s = Inr (set_retvalue r 0 s)"
  using mqRead_skip [OF assms(1), of n mq a 0 r buf len pa] assms(2) by force

section \<open>Opening the first message queue\<close>

primrec queue_lists :: "ptr \<Rightarrow> int list \<Rightarrow> (headref \<Rightarrow> ptr list) \<Rightarrow> (headref \<Rightarrow> ptr list)" where
  "queue_lists mq [] L = L"
| "queue_lists mq (x # xs) L =
     queue_lists mq xs (L(QueueMessages (Ptr KQueue x) := [], MqQueues mq := Ptr KQueue x # L (MqQueues mq)))"

primrec queue_prios :: "int \<Rightarrow> int list \<Rightarrow> (ptr \<Rightarrow> int) \<Rightarrow> (ptr \<Rightarrow> int)" where
  "queue_prios i [] f = f"
| "queue_prios i (x # xs) f = queue_prios (i + 1) xs (f(Ptr KQueue x := i))"

lemma queue_lists_other:
  "(\<And>q. h \<noteq> QueueMessages q) \<Longrightarrow> h \<noteq> MqQueues mq \<Longrightarrow> queue_lists mq xs L h = L h"
  by (induction xs arbitrary: L) auto

lemma queue_lists_queues: "queue_lists mq xs L (MqQueues mq) = rev (map (Ptr KQueue) xs) @ L (MqQueues mq)"
  by (induction xs arbitrary: L) auto

lemma queue_lists_messages:
  "queue_lists mq xs L (QueueMessages q) = (if q \<in> Ptr KQueue ` set xs then [] else L (QueueMessages q))"
  by (induction xs arbitrary: L) auto

lemma queue_prios_other: "p \<notin> Ptr KQueue ` set xs \<Longrightarrow> queue_prios i xs f p = f p"
  by (induction xs arbitrary: i f) auto

lemma queue_prios_nth:
  "distinct xs \<Longrightarrow> j < length xs \<Longrightarrow> queue_prios i xs f (Ptr KQueue (xs ! j)) = i + int j"
proof (induction xs arbitrary: i f j)
  case (Cons x xs)
  show ?case
  proof (cases j)
    case 0
    moreover have "Ptr KQueue x \<notin> Ptr KQueue ` set xs" using Cons.prems by auto
    ultimately show ?thesis by (simp add: queue_prios_other)
  next
    case (Suc k)
    with Cons show ?thesis by simp
  qed
qed simp

lemma Queue_alloc_wf:
  assumes wf: "kernel_wf s L F" and F: "F KQueue = i # is"
  defines "n \<equiv> Ptr KQueue i"
  shows "\<exists>s'. Queue_alloc p s = Inr (Some n, s') \<and> kernel_wf s' (L(QueueMessages n := [])) (F(KQueue := is)) \<and>
    fresh_block s' (L(QueueMessages n := [])) (F(KQueue := is)) n \<and>
    kernel_frame (s\<lparr>queue_priority := (queue_priority s)(n := p)\<rparr>) s' \<and>
    (\<forall>x. fresh_block s L F x \<longrightarrow> x \<noteq> n \<and> fresh_block s' (L(QueueMessages n := [])) (F(KQueue := is)) x)"
proof -
  let ?F = "F(KQueue := is)" and ?L = "L(QueueMessages n := [])"
  obtain a where a: "alloc_block KQueue s = Inr (Some n, a)" "kernel_wf (clear_links n a) L ?F"
    "fresh_block (clear_links n a) L ?F n" "kernel_frame s (clear_links n a)"
    "\<forall>p. live s F p \<longrightarrow> p \<noteq> n \<and> live (clear_links n a) ?F p"
    "\<forall>p. p \<noteq> n \<longrightarrow> unlinked (clear_links n a) p = unlinked s p"
    using wf_new [OF wf F] unfolding n_def by blast
  let ?a = "(clear_links n a)\<lparr>queue_priority := (queue_priority (clear_links n a))(n := p)\<rparr>"
  let ?s = "List_init (QueueMessages n) ?a"
  have "kernel_wf ?a L ?F" "fresh_block ?a L ?F n" using a(2,3) by simp_all
  then have "kernel_wf ?s ?L ?F" "fresh_block ?s ?L ?F n"
    by (simp_all add: wf_init_list fresh_block_init_list)
  moreover have "x \<noteq> n \<and> fresh_block ?s ?L ?F x" if "fresh_block s L F x" for x
  proof -
    have "fresh_block (clear_links n a) L ?F x"
      by (rule fresh_block_other [OF that, of n]; use a(5,6) in blast)
    then have "fresh_block ?a L ?F x" by simp
    moreover have "x \<noteq> n" using that a(5) by (simp add: fresh_block_def)
    ultimately show ?thesis using fresh_block_init_list by blast
  qed
  moreover have "kernel_frame (s\<lparr>queue_priority := (queue_priority s)(n := p)\<rparr>) ?s"
    using a(4) by (simp add: kernel_frame_def)
  moreover have "Queue_alloc p s = Inr (Some n, ?s)" by (simp add: Queue_alloc_def a(1) Let_def)
  ultimately show ?thesis by blast
qed

text \<open>With no message queue yet the wrong position is the front of the right list.\<close>

lemma mqOpen_queues_steps:
  assumes "kernel_wf s L F" and "L MessageQueuesList = []" and "F KQueue = xs @ ys"
  shows "\<exists>s'. mqOpen_queues (length xs + m) i r mq s = mqOpen_queues m (i + int (length xs)) r mq s' \<and>
    kernel_wf s' (queue_lists mq xs L) (F(KQueue := ys)) \<and>
    kernel_frame (s\<lparr>queue_priority := queue_prios i xs (queue_priority s)\<rparr>) s' \<and>
    (\<forall>x. fresh_block s L F x \<longrightarrow> fresh_block s' (queue_lists mq xs L) (F(KQueue := ys)) x)"
  using assms
proof (induction xs arbitrary: s L F i)
  case Nil
  have "F(KQueue := ys) = F" using Nil(3) by auto
  then show ?case using Nil(1) by (intro exI [of _ s]) simp
next
  case (Cons x xs)
  let ?n = "Ptr KQueue x" and ?F = "F(KQueue := xs @ ys)"
  let ?Lq = "L(QueueMessages ?n := [])"
  let ?Lm = "?Lq(MqQueues mq := ?n # L (MqQueues mq))"
  have Fq: "F KQueue = x # (xs @ ys)" using Cons.prems(3) by simp
  obtain s1 where s1: "Queue_alloc i s = Inr (Some ?n, s1)" "kernel_wf s1 ?Lq ?F" "fresh_block s1 ?Lq ?F ?n"
    "kernel_frame (s\<lparr>queue_priority := (queue_priority s)(?n := i)\<rparr>) s1"
    "\<forall>y. fresh_block s L F y \<longrightarrow> y \<noteq> ?n \<and> fresh_block s1 ?Lq ?F y"
    using Queue_alloc_wf [OF Cons.prems(1) Fq, of i] by blast
  have last: "list_last MessageQueuesList s1 = last_of [] None"
    using Cons.prems(2) by (simp add: wf_list_last [OF s1(2)])
  have front: "?Lq (MqQueues mq) = [] @ L (MqQueues mq)" by simp
  have n1: "\<not> listed ?Lq ?n" "unlinked s1 ?n" "live s1 ?F ?n" using s1(3) by (simp_all add: fresh_block_def)
  have k: "kind_of ?n = item_kind (MqQueues mq)" by simp
  obtain s2 where s2: "List_insert (MqQueues mq) (last_of [] None) (Some ?n) s1 = Inr (Some ?n, s2)"
    "kernel_wf s2 ?Lm ?F" "lists_only s1 s2"
    "\<forall>p. \<not> listed ?Lq p \<longrightarrow> p \<noteq> ?n \<longrightarrow> unlinked s2 p = unlinked s1 p"
    using wf_insert [OF s1(2) front n1(1,2) k n1(3)] unfolding append_Nil by blast
  have fresh: "fresh_block s2 ?Lm ?F y" if y: "fresh_block s L F y" for y
  proof -
    have "y \<noteq> ?n" "fresh_block s1 ?Lq ?F y" using s1(5) y by blast+
    moreover from this have "\<not> listed ?Lm y"
      using not_listedD [of ?Lq y "MqQueues mq"] by (auto simp: fresh_block_def listed_def split: if_splits)
    moreover have "live s2 ?F y = live s1 ?F y" by (rule live_cong) (rule lists_only_fields(1) [OF s2(3)])
    ultimately show ?thesis using s2(4) by (simp add: fresh_block_def)
  qed
  have L': "?Lm MessageQueuesList = []" and F': "?F KQueue = xs @ ys" using Cons.prems(2) by simp_all
  obtain s3 where s3: "mqOpen_queues (length xs + m) (i + 1) r mq s2 = mqOpen_queues m (i + 1 + int (length xs)) r mq s3"
    "kernel_wf s3 (queue_lists mq xs ?Lm) (?F(KQueue := ys))"
    "kernel_frame (s2\<lparr>queue_priority := queue_prios (i + 1) xs (queue_priority s2)\<rparr>) s3"
    "\<forall>x. fresh_block s2 ?Lm ?F x \<longrightarrow> fresh_block s3 (queue_lists mq xs ?Lm) (?F(KQueue := ys)) x"
    using Cons.IH [OF s2(2) L' F'] by blast
  have "queue_lists mq xs ?Lm = queue_lists mq (x # xs) L" "?F(KQueue := ys) = F(KQueue := ys)"
    by simp_all
  note e = this
  have "mqOpen_queues (length (x # xs) + m) i r mq s = mqOpen_queues (length xs + m) (i + 1) r mq s2"
    using last s2(1) by (simp add: s1(1))
  moreover have "i + 1 + int (length xs) = i + int (length (x # xs))" by simp
  ultimately have "mqOpen_queues (length (x # xs) + m) i r mq s = mqOpen_queues m (i + int (length (x # xs))) r mq s3"
    using s3(1) by simp
  moreover have "kernel_frame (s\<lparr>queue_priority := queue_prios i (x # xs) (queue_priority s)\<rparr>) s3"
    using s1(4) lists_only_frame [OF s2(3)] s3(3) by (simp add: kernel_frame_def)
  ultimately show ?case using s3(2,4) fresh unfolding e by blast
qed

lemma mqOpen_queues_wf:
  assumes "kernel_wf s L F" and "L MessageQueuesList = []" and "F KQueue = xs @ ys"
  shows "\<exists>s'. mqOpen_queues (length xs) i r mq s = Inr (True, s') \<and>
    kernel_wf s' (queue_lists mq xs L) (F(KQueue := ys)) \<and>
    kernel_frame (s\<lparr>queue_priority := queue_prios i xs (queue_priority s)\<rparr>) s' \<and>
    (\<forall>x. fresh_block s L F x \<longrightarrow> fresh_block s' (queue_lists mq xs L) (F(KQueue := ys)) x)"
  using mqOpen_queues_steps [OF assms, of 0 i r mq] by simp

text \<open>When the pool runs out the queues made so far stay linked to a message queue that is in no list.\<close>

lemma mqOpen_queues_short:
  assumes wf: "kernel_wf s L F" and none: "L MessageQueuesList = []" and n: "length (F KQueue) < n"
  shows "\<exists>s'. mqOpen_queues n i r mq s = Inr (False, set_retvalue r DSOS_EMQOPEN s') \<and>
    kernel_wf s' (queue_lists mq (F KQueue) L) (F(KQueue := [])) \<and>
    kernel_frame (s\<lparr>queue_priority := queue_prios i (F KQueue) (queue_priority s)\<rparr>) s' \<and>
    (\<forall>x. fresh_block s L F x \<longrightarrow> fresh_block s' (queue_lists mq (F KQueue) L) (F(KQueue := [])) x)"
proof -
  obtain m where m: "n = length (F KQueue) + Suc m" using less_imp_Suc_add [OF n] by auto
  have "F KQueue = F KQueue @ []" by simp
  from mqOpen_queues_steps [OF wf none this, of "Suc m" i r mq]
  obtain s' where s': "mqOpen_queues n i r mq s = mqOpen_queues (Suc m) (i + int (length (F KQueue))) r mq s'"
    "kernel_wf s' (queue_lists mq (F KQueue) L) (F(KQueue := []))"
    "kernel_frame (s\<lparr>queue_priority := queue_prios i (F KQueue) (queue_priority s)\<rparr>) s'"
    "\<forall>x. fresh_block s L F x \<longrightarrow> fresh_block s' (queue_lists mq (F KQueue) L) (F(KQueue := [])) x"
    unfolding m by blast
  have "Queue_alloc p s' = Inr (None, s')" for p by (simp add: Queue_alloc_def wf_alloc_empty [OF s'(2)])
  then have "mqOpen_queues n i r mq s = Inr (False, set_retvalue r DSOS_EMQOPEN s')" using s'(1) by simp
  then show ?thesis using s'(2-) by blast
qed

definition newmq_lists :: "ptr \<Rightarrow> int list \<Rightarrow> (headref \<Rightarrow> ptr list) \<Rightarrow> (headref \<Rightarrow> ptr list)" where
  "newmq_lists n xs L = (queue_lists n xs (L(MqQueues n := [], MqDescriptors n := [])))(MessageQueuesList := [n])"

definition newmq_contents :: "ptr \<Rightarrow> int list \<Rightarrow> int \<Rightarrow> int \<Rightarrow> kernel \<Rightarrow> kernel" where
  "newmq_contents n xs mid prio s =
     s\<lparr>mqs := (mqs s)(n := \<lparr>mq_id = mid, mq_priority = prio, mq_num_messages = 0\<rparr>),
       queue_priority := queue_prios 0 xs (queue_priority s)\<rparr>"

definition mqopened_lists :: "ptr \<Rightarrow> ptr \<Rightarrow> ptr \<Rightarrow> ptr \<Rightarrow> (headref \<Rightarrow> ptr list) \<Rightarrow> (headref \<Rightarrow> ptr list)" where
  "mqopened_lists r mq d dp L =
     L(PcbMqDescriptors r := L (PcbMqDescriptors r) @ [d], MqDescriptors mq := L (MqDescriptors mq) @ [dp])"

lemma mqOpen_attach_wf:
  assumes run: "sched_wf s L F r" and F: "F KMQDescriptor = i # is" "F KMQDescriptorPtr = j # js"
    and k: "kind_of mq = KMessageQueue" and rng: "int32_range (pcb_last_mq_fd (pcbs s r) + 1)"
  defines "d \<equiv> Ptr KMQDescriptor i" and "dp \<equiv> Ptr KMQDescriptorPtr j"
  shows "\<exists>s'. mqOpen_attach r mq s = Inr s' \<and>
    sched_wf s' (mqopened_lists r mq d dp L) (F(KMQDescriptor := is, KMQDescriptorPtr := js)) r \<and>
    kernel_frame (opened_desc pcb_last_mq_fd set_last_mq_fd r mq d dp s) s'"
  unfolding mqOpen_attach_def mqopened_lists_def d_def dp_def
  by (rule open_descriptor_wf [OF run F]) (use rng k in \<open>simp_all add: set_last_mq_fd_def\<close>)

lemma mqOpen_existing:
  assumes run: "sched_wf s L F r" and mq: "mq_lookup s L (int_arg r 0 s) = Some mq"
    and args: "pcb_last_mq_fd (pcbs s r) < 16" "0 \<le> int_arg r 0 s" "int32_range (pcb_last_mq_fd (pcbs s r))"
    and excl: "int_arg r 1 s AND DSOS_CREATE = 0 \<or> int_arg r 1 s AND DSOS_EXCL = 0"
    and F: "F KMQDescriptor = i # is" "F KMQDescriptorPtr = j # js"
  defines "d \<equiv> Ptr KMQDescriptor i" and "dp \<equiv> Ptr KMQDescriptorPtr j"
  shows "\<exists>s'. internal_mqOpen s = Inr s' \<and>
    sched_wf s' (mqopened_lists r mq d dp L) (F(KMQDescriptor := is, KMQDescriptorPtr := js)) r \<and>
    kernel_frame (opened_desc pcb_last_mq_fd set_last_mq_fd r mq d dp s) s'"
proof -
  note r = sched_wfD [OF run]
  have rng: "int32_range (pcb_last_mq_fd (pcbs s r) + 1)" using args by (simp add: int32_range_def)
  have "internal_mqOpen s = mqOpen_attach r mq s"
    using r(2,3) args excl rng MessageQueueList_byId_wf [OF r(1)] mq by (auto simp: internal_mqOpen_def Let_def)
  moreover have "kind_of mq = KMessageQueue"
    using kernel_wf_kind [OF r(1), of mq MessageQueuesList] mq by (auto simp: mq_lookup_def dest: find_in_set)
  ultimately show ?thesis using mqOpen_attach_wf [OF run F _ rng] by (simp add: d_def dp_def)
qed

definition created_mq :: "int \<Rightarrow> int \<Rightarrow> MessageQueue" where
  "created_mq mid prio = \<lparr>mq_id = mid, mq_priority = prio, mq_num_messages = 0\<rparr>"

lemma MessageQueue_alloc_wf:
  assumes wf: "kernel_wf s L F" and F: "F KMessageQueue = k # ks"
  defines "n \<equiv> Ptr KMessageQueue k"
  shows "\<exists>s1. MessageQueue_alloc mid prio s = Inr (Some n, s1) \<and>
    kernel_wf s1 (L(MqQueues n := [], MqDescriptors n := [])) (F(KMessageQueue := ks)) \<and>
    kernel_frame (s\<lparr>mqs := (mqs s)(n := created_mq mid prio)\<rparr>) s1 \<and>
    fresh_block s1 (L(MqQueues n := [], MqDescriptors n := [])) (F(KMessageQueue := ks)) n \<and>
    (\<forall>x. fresh_block s L F x \<longrightarrow> fresh_block s1 (L(MqQueues n := [], MqDescriptors n := [])) (F(KMessageQueue := ks)) x)"
proof -
  let ?F = "F(KMessageQueue := ks)"
  obtain a where a: "alloc_block KMessageQueue s = Inr (Some n, a)" "kernel_wf (clear_links n a) L ?F"
    "fresh_block (clear_links n a) L ?F n" "kernel_frame s (clear_links n a)"
    "\<forall>p. live s F p \<longrightarrow> p \<noteq> n \<and> live (clear_links n a) ?F p"
    "\<forall>p. p \<noteq> n \<longrightarrow> unlinked (clear_links n a) p = unlinked s p"
    using wf_new [OF wf F] unfolding n_def by blast
  let ?a = "upd_mq n (\<lambda>_. created_mq mid prio) (clear_links n a)"
  have "fresh_block (clear_links n a) L ?F x" if "fresh_block s L F x" for x
    by (rule fresh_block_other [OF that]; use a(5,6) in blast)
  then have "kernel_wf ?a L ?F" "fresh_block ?a L ?F n" "\<And>x. fresh_block s L F x \<Longrightarrow> fresh_block ?a L ?F x"
    using a(2,3) by (simp_all add: upd_mq_def)
  moreover have "kernel_frame (s\<lparr>mqs := (mqs s)(n := created_mq mid prio)\<rparr>) ?a"
    using a(4) by (simp add: kernel_frame_def upd_mq_def)
  ultimately show ?thesis
    by (intro exI [of _ "List_init (MqDescriptors n) (List_init (MqQueues n) ?a)"])
      (simp add: MessageQueue_alloc_def created_mq_def a(1) wf_init_list fresh_block_init_list kernel_frame_def)
qed

lemma mqOpen_create_first:
  assumes run: "sched_wf s L F r" and none: "L MessageQueuesList = []" and prio: "0 \<le> prio" "prio \<le> 64"
    and F: "F KMessageQueue = k # ks" "F KQueue = xs @ ys" "length xs = nat (prio + 1)"
  defines "n \<equiv> Ptr KMessageQueue k"
  shows "\<exists>s3. mqOpen_create r mid prio s = mqOpen_attach r n s3 \<and>
    sched_wf s3 (newmq_lists n xs L) (F(KMessageQueue := ks, KQueue := ys)) r \<and>
    kernel_frame (newmq_contents n xs mid prio s) s3"
proof -
  note r = sched_wfD [OF run]
  let ?F1 = "F(KMessageQueue := ks)" and ?F2 = "F(KMessageQueue := ks, KQueue := ys)"
  let ?L1 = "L(MqQueues n := [], MqDescriptors n := [])"
  have size: "list_size MessageQueuesList s = 0" using none by (simp add: wf_list_size [OF r(1)])
  obtain s1 where s1: "MessageQueue_alloc mid prio s = Inr (Some n, s1)" "kernel_wf s1 ?L1 ?F1"
    "kernel_frame (s\<lparr>mqs := (mqs s)(n := created_mq mid prio)\<rparr>) s1" "fresh_block s1 ?L1 ?F1 n" "fresh_block s1 ?L1 ?F1 r"
    using MessageQueue_alloc_wf [OF r(1) F(1), of mid prio] r(4) unfolding n_def by blast
  have none1: "?L1 MessageQueuesList = []" and Fq: "?F1 KQueue = xs @ ys" using none F(2) by simp_all
  obtain s2 where s2: "mqOpen_queues (length xs) 0 r n s1 = Inr (True, s2)"
    "kernel_wf s2 (queue_lists n xs ?L1) ?F2"
    "kernel_frame (s1\<lparr>queue_priority := queue_prios 0 xs (queue_priority s1)\<rparr>) s2"
    "\<forall>x. fresh_block s1 ?L1 ?F1 x \<longrightarrow> fresh_block s2 (queue_lists n xs ?L1) ?F2 x"
    using mqOpen_queues_wf [OF s1(2) none1 Fq] by blast
  have e: "(queue_lists n xs ?L1)(MessageQueuesList := queue_lists n xs ?L1 MessageQueuesList @ [n]) =
      newmq_lists n xs L"
    using none by (simp add: newmq_lists_def queue_lists_other)
  have k: "kind_of n = item_kind MessageQueuesList" and rn: "r \<noteq> n" using r(3) by (auto simp: n_def)
  have f2: "fresh_block s2 (queue_lists n xs ?L1) ?F2 n" "fresh_block s2 (queue_lists n xs ?L1) ?F2 r"
    using s2(4) s1(4,5) by blast+
  obtain s3 where s3: "List_insert MessageQueuesList (list_last MessageQueuesList s2) (Some n) s2 = Inr (Some n, s3)"
    "kernel_wf s3 (newmq_lists n xs L) ?F2" "lists_only s2 s3" "fresh_block s3 (newmq_lists n xs L) ?F2 r"
    using wf_put [OF s2(2) f2(1) k] f2(2) rn unfolding e by blast
  have fr: "kernel_frame (newmq_contents n xs mid prio s) s3"
    using s1(3) s2(3) lists_only_frame [OF s3(3)]
    by (simp add: kernel_frame_def newmq_contents_def created_mq_def)
  then have "running s3 = Some r" using r(2) by (simp add: kernel_frame_def newmq_contents_def)
  then have "sched_wf s3 (newmq_lists n xs L) ?F2 r" using s3(2,4) r(3) by (simp add: sched_wf_def)
  moreover have "mqOpen_create r mid prio s = mqOpen_attach r n s3"
    using prio size s2(1) F(3) by (simp add: mqOpen_create_def Let_def s1(1) s3(1))
  ultimately show ?thesis using fr by blast
qed

text \<open>With too few queues in the pool the call fails, and the new message queue is in no list.\<close>

definition lostmq_lists :: "ptr \<Rightarrow> int list \<Rightarrow> (headref \<Rightarrow> ptr list) \<Rightarrow> (headref \<Rightarrow> ptr list)" where
  "lostmq_lists n xs L = queue_lists n xs (L(MqQueues n := [], MqDescriptors n := []))"

lemma mqOpen_create_short:
  assumes run: "sched_wf s L F r" and none: "L MessageQueuesList = []" and prio: "0 \<le> prio" "prio \<le> 64"
    and F: "F KMessageQueue = k # ks" "length (F KQueue) < nat (prio + 1)"
  defines "n \<equiv> Ptr KMessageQueue k"
  shows "\<exists>s2. mqOpen_create r mid prio s = Inr (set_retvalue r DSOS_EMQOPEN s2) \<and>
    sched_wf s2 (lostmq_lists n (F KQueue) L) (F(KMessageQueue := ks, KQueue := [])) r \<and>
    kernel_frame (newmq_contents n (F KQueue) mid prio s) s2"
proof -
  note r = sched_wfD [OF run]
  let ?xs = "F KQueue" and ?F1 = "F(KMessageQueue := ks)" and ?F2 = "F(KMessageQueue := ks, KQueue := [])"
  let ?L1 = "L(MqQueues n := [], MqDescriptors n := [])"
  have size: "list_size MessageQueuesList s = 0" using none by (simp add: wf_list_size [OF r(1)])
  obtain s1 where s1: "MessageQueue_alloc mid prio s = Inr (Some n, s1)" "kernel_wf s1 ?L1 ?F1"
    "kernel_frame (s\<lparr>mqs := (mqs s)(n := created_mq mid prio)\<rparr>) s1" "fresh_block s1 ?L1 ?F1 r"
    using MessageQueue_alloc_wf [OF r(1) F(1), of mid prio] r(4) unfolding n_def by blast
  have none1: "?L1 MessageQueuesList = []" and Fq: "length (?F1 KQueue) < nat (prio + 1)" "?F1 KQueue = ?xs" using none F(2) by simp_all
  obtain s2 where s2: "mqOpen_queues (nat (prio + 1)) 0 r n s1 = Inr (False, set_retvalue r DSOS_EMQOPEN s2)"
    "kernel_wf s2 (lostmq_lists n ?xs L) ?F2"
    "kernel_frame (s1\<lparr>queue_priority := queue_prios 0 ?xs (queue_priority s1)\<rparr>) s2"
    "fresh_block s2 (lostmq_lists n ?xs L) ?F2 r"
    using mqOpen_queues_short [OF s1(2) none1 Fq(1), of 0 r n] s1(4) unfolding Fq(2) lostmq_lists_def by blast
  have fr: "kernel_frame (newmq_contents n ?xs mid prio s) s2"
    using s1(3) s2(3) by (simp add: kernel_frame_def newmq_contents_def created_mq_def)
  then have "running s2 = Some r" using r(2) by (simp add: kernel_frame_def newmq_contents_def)
  then have "sched_wf s2 (lostmq_lists n ?xs L) ?F2 r" using s2(2,4) r(3) by (simp add: sched_wf_def)
  moreover have "mqOpen_create r mid prio s = Inr (set_retvalue r DSOS_EMQOPEN s2)"
    using prio size s2(1) by (simp add: mqOpen_create_def Let_def s1(1))
  ultimately show ?thesis using fr by blast
qed

lemma mqOpen_creates_first:
  assumes run: "sched_wf s L F r" and none: "L MessageQueuesList = []"
    and args: "pcb_last_mq_fd (pcbs s r) < 16" "0 \<le> int_arg r 0 s" "int32_range (pcb_last_mq_fd (pcbs s r))"
    and create: "int_arg r 1 s AND DSOS_CREATE \<noteq> 0" "0 \<le> int_arg r 2 s"
    and F: "F KMessageQueue = k # ks" "F KQueue = xs @ ys" "length xs = nat (int_arg r 2 s + 1)"
      "F KMQDescriptor = i # is" "F KMQDescriptorPtr = j # js" "int_arg r 2 s \<le> 64"
  defines "n \<equiv> Ptr KMessageQueue k" and "d \<equiv> Ptr KMQDescriptor i" and "dp \<equiv> Ptr KMQDescriptorPtr j"
  defines "s0 \<equiv> newmq_contents n xs (int_arg r 0 s) (int_arg r 2 s) s"
  shows "\<exists>s'. internal_mqOpen s = Inr s' \<and>
    sched_wf s' (mqopened_lists r n d dp (newmq_lists n xs L))
      (F(KMessageQueue := ks, KQueue := ys, KMQDescriptor := is, KMQDescriptorPtr := js)) r \<and>
    kernel_frame (opened_desc pcb_last_mq_fd set_last_mq_fd r n d dp s0) s'"
proof -
  note r = sched_wfD [OF run]
  let ?F2 = "F(KMessageQueue := ks, KQueue := ys)"
  have rng: "int32_range (pcb_last_mq_fd (pcbs s r) + 1)" using args by (simp add: int32_range_def)
  have look: "MessageQueueList_byId MessageQueuesList (int_arg r 0 s) s = Inr None"
    using MessageQueueList_byId_wf [OF r(1)] none by (simp add: mq_lookup_def)
  obtain s3 where s3: "mqOpen_create r (int_arg r 0 s) (int_arg r 2 s) s = mqOpen_attach r n s3"
    "sched_wf s3 (newmq_lists n xs L) ?F2 r" "kernel_frame s0 s3"
    using mqOpen_create_first [OF run none create(2) F(6,1-3)] unfolding n_def s0_def by blast
  have p: "pcbs s3 = pcbs s" using s3(3) by (simp add: kernel_frame_def s0_def newmq_contents_def)
  have "?F2 KMQDescriptor = i # is" "?F2 KMQDescriptorPtr = j # js" "kind_of n = KMessageQueue" using F(4,5) by (simp_all add: n_def)
  with s3(2) obtain s' where s': "mqOpen_attach r n s3 = Inr s'"
    "sched_wf s' (mqopened_lists r n d dp (newmq_lists n xs L)) (?F2(KMQDescriptor := is, KMQDescriptorPtr := js)) r"
    "kernel_frame (opened_desc pcb_last_mq_fd set_last_mq_fd r n d dp s3) s'"
    using mqOpen_attach_wf [of s3 "newmq_lists n xs L" ?F2 r i "is" j js n] rng unfolding p d_def dp_def by blast
  have "internal_mqOpen s = Inr s'"
    using r(2,3) args create rng look s3(1) s'(1) by (simp add: internal_mqOpen_def Let_def)
  moreover have "kernel_frame (opened_desc pcb_last_mq_fd set_last_mq_fd r n d dp s0) s'"
    using s'(3) s3(3) by (simp add: kernel_frame_def opened_desc_def)
  ultimately show ?thesis using s'(2) by blast
qed

end
