(* ===== verification/MessageQueueLife.thy ===== *)
theory MessageQueueLife
  imports MessageQueue
begin

text \<open>
  The rest of the life of message queues: closing and unlinking them on well-formed states.
\<close>

section \<open>Close\<close>

lemma close_descriptor_wf:
  assumes wf: "kernel_wf s L F" and d: "d \<in> set (L h)" and dp: "dp \<in> set (L h')" and hh: "h \<noteq> h'"
    and k: "item_kind h = k" "item_kind h' = k'" "k \<noteq> k'"
  defines "L' \<equiv> L(h := remove1 d (L h), h' := remove1 dp (L h'))"
    and "F' \<equiv> F(k := idx_of d # F k, k' := idx_of dp # F k')"
  shows "\<exists>s1 s2 s3 s4. List_detach h (Some d) s = Inr (Some d, s1) \<and> List_detach h' (Some dp) s1 = Inr (Some dp, s2) \<and>
    free_block k d s2 = Inr (Success, s3) \<and> free_block k' dp s3 = Inr (Success, s4) \<and> lists_only s s1 \<and>
    kernel_wf s4 L' F' \<and> kernel_frame s s4 \<and>
    (\<forall>q. fresh_block s L F q \<longrightarrow> kind_of q \<noteq> k \<longrightarrow> kind_of q \<noteq> k' \<longrightarrow> fresh_block s4 L' F' q)"
proof -
  have kd: "kind_of d = k" "kind_of dp = k'" using kernel_wf_kind [OF wf d] kernel_wf_kind [OF wf dp] k by simp_all
  obtain s1 s2 where s: "List_detach h (Some d) s = Inr (Some d, s1)" "List_detach h' (Some dp) s1 = Inr (Some dp, s2)"
    "kernel_wf s2 L' F" "lists_only s s1" "lists_only s s2" "live s2 F d" "live s2 F dp" "\<not> listed L' d"
    "\<not> listed L' dp" "\<forall>q. fresh_block s L F q \<longrightarrow> fresh_block s2 L' F q"
    using wf_remove2 [OF wf d dp hh] unfolding L'_def by blast
  obtain s3 s4 where f: "free_block k d s2 = Inr (Success, s3)" "free_block k' dp s3 = Inr (Success, s4)"
    "kernel_wf s4 L' F'" "kernel_frame s2 s4"
    "\<forall>x. fresh_block s2 L' F x \<longrightarrow> x \<noteq> d \<longrightarrow> x \<noteq> dp \<longrightarrow> fresh_block s4 L' F' x"
    using wf_free2 [OF s(3) s(6,8) kd(1) s(7,9) kd(2) k(3)] unfolding F'_def by blast
  have "\<forall>q. fresh_block s L F q \<longrightarrow> kind_of q \<noteq> k \<longrightarrow> kind_of q \<noteq> k' \<longrightarrow> fresh_block s4 L' F' q"
    using s(10) f(5) kd by metis
  then show ?thesis using s f kernel_frame_trans [OF lists_only_frame [OF s(5)] f(4)] by blast
qed

lemma mqClose_bad_fd:
  assumes run: "sched_wf s L F r" and h: "mq_fd_bad (int_arg r 0 s) \<or> mq_handle s L r (int_arg r 0 s) = None"
  shows "internal_mqClose s = Inr (set_retvalue r DSOS_EMQCLOSE s)"
  using sched_wfD(2,3) [OF run] mq_of_fd_wf [OF sched_wfD(1) [OF run]] h
  by (auto simp: internal_mqClose_def Let_def)

definition mqclosed_lists :: "ptr \<Rightarrow> ptr \<Rightarrow> ptr \<Rightarrow> ptr \<Rightarrow> (headref \<Rightarrow> ptr list) \<Rightarrow> (headref \<Rightarrow> ptr list)" where
  "mqclosed_lists r mq d dp L =
     L(PcbMqDescriptors r := remove1 d (L (PcbMqDescriptors r)),
       MqDescriptors mq := remove1 dp (L (MqDescriptors mq)))"

definition mqclosed_free :: "ptr \<Rightarrow> ptr \<Rightarrow> (kind \<Rightarrow> int list) \<Rightarrow> (kind \<Rightarrow> int list)" where
  "mqclosed_free d dp F =
     F(KMQDescriptor := idx_of d # F KMQDescriptor, KMQDescriptorPtr := idx_of dp # F KMQDescriptorPtr)"

lemma mqClose_wf:
  assumes run: "sched_wf s L F r" and fd: "\<not> mq_fd_bad (int_arg r 0 s)"
    and h: "mq_handle s L r (int_arg r 0 s) = Some (d, mq)" and k: "kind_of mq = KMessageQueue"
    and rng: "int32_range (pcb_last_mq_fd (pcbs s r) - 1)"
    and dp: "desc_ptr (descs s d) = Some dp" "dp \<in> set (L (MqDescriptors mq))"
  shows "\<exists>s'. internal_mqClose s = Inr s' \<and>
    sched_wf s' (mqclosed_lists r mq d dp L) (mqclosed_free d dp F) r \<and>
    kernel_frame (set_retvalue r 0 (upd_pcb r (set_last_mq_fd (pcb_last_mq_fd (pcbs s r) - 1)) s)) s'"
proof -
  note r = sched_wfD [OF run]
  let ?L = "mqclosed_lists r mq d dp L" and ?F = "mqclosed_free d dp F"
  have din: "d \<in> set (L (PcbMqDescriptors r))" by (rule mq_handle_listed [OF h])
  have ne: "PcbMqDescriptors r \<noteq> MqDescriptors mq" "item_kind (PcbMqDescriptors r) = KMQDescriptor"
    "item_kind (MqDescriptors mq) = KMQDescriptorPtr" "KMQDescriptor \<noteq> KMQDescriptorPtr" by simp_all
  obtain s1 s2 s3 s4 where s: "List_detach (PcbMqDescriptors r) (Some d) s = Inr (Some d, s1)"
    "List_detach (MqDescriptors mq) (Some dp) s1 = Inr (Some dp, s2)"
    "free_block KMQDescriptor d s2 = Inr (Success, s3)" "free_block KMQDescriptorPtr dp s3 = Inr (Success, s4)"
    "lists_only s s1" "kernel_wf s4 ?L ?F" "kernel_frame s s4"
    "\<forall>q. fresh_block s L F q \<longrightarrow> kind_of q \<noteq> KMQDescriptor \<longrightarrow> kind_of q \<noteq> KMQDescriptorPtr \<longrightarrow> fresh_block s4 ?L ?F q"
    using close_descriptor_wf [OF r(1) din dp(2) ne] unfolding mqclosed_lists_def mqclosed_free_def by blast
  have same: "descs s1 = descs s" "pcbs s4 = pcbs s" "running s4 = running s"
    using lists_only_fields [OF s(5)] s(7) by (simp_all add: kernel_frame_def)
  let ?s5 = "set_retvalue r 0 (upd_pcb r (set_last_mq_fd (pcb_last_mq_fd (pcbs s r) - 1)) s4)"
  have "internal_mqClose s = Inr ?s5"
    using r(2,3) mq_of_fd_wf [OF r(1)] fd h k dp(1) rng
    by (simp add: internal_mqClose_def Let_def s(1-4) same MQDescriptor_free_def MQDescriptorPtr_free_def)
  moreover have "sched_wf ?s5 ?L ?F r"
    using s(6,8) r same by (simp add: sched_wf_def upd_defs)
  moreover have "kernel_frame (set_retvalue r 0 (upd_pcb r (set_last_mq_fd (pcb_last_mq_fd (pcbs s r) - 1)) s)) ?s5"
    using s(7) by (simp add: kernel_frame_def upd_defs)
  ultimately show ?thesis by blast
qed

section \<open>Unlink\<close>

lemma mqUnlink_queues_wf:
  assumes "kernel_wf s L F" and "L (MqQueues mq) = qs" and "\<And>q. q \<in> set qs \<Longrightarrow> L (QueueMessages q) = []"
  shows "\<exists>s'. mqUnlink_queues (length qs) mq s = Inr s' \<and>
    kernel_wf s' (L(MqQueues mq := [])) (F(KQueue := rev (map idx_of qs) @ F KQueue)) \<and> kernel_frame s s' \<and>
    (\<forall>p. fresh_block s L F p \<longrightarrow> kind_of p \<noteq> KQueue \<longrightarrow>
      fresh_block s' (L(MqQueues mq := [])) (F(KQueue := rev (map idx_of qs) @ F KQueue)) p)"
  using assms
proof (induction qs arbitrary: s L F)
  case Nil
  have "L(MqQueues mq := []) = L" "F(KQueue := rev (map idx_of []) @ F KQueue) = F" using Nil.prems(2) by auto
  then show ?case using Nil.prems(1) by simp
next
  case (Cons q qs)
  have q: "q \<in> set (L (MqQueues mq))" using Cons.prems(2) by simp
  have k: "kind_of q = KQueue" using kernel_wf_kind [OF Cons.prems(1) q] by simp
  let ?L = "L(MqQueues mq := qs)" and ?F = "F(KQueue := idx_of q # F KQueue)"
  have e: "remove1 q (L (MqQueues mq)) = qs" using Cons.prems(2) by simp
  obtain s1 where s1: "List_detach (MqQueues mq) (Some q) s = Inr (Some q, s1)" "kernel_wf s1 ?L F" "lists_only s s1"
    "fresh_block s1 ?L F q" "\<forall>p. fresh_block s L F p \<longrightarrow> fresh_block s1 ?L F p"
    using wf_take [OF Cons.prems(1) q] unfolding e by blast
  have first: "list_first (MqQueues mq) s = Some q" using wf_list_first [OF Cons.prems(1)] Cons.prems(2) by simp
  have none: "?L (QueueMessages q) = []" using Cons.prems(3) by simp
  then have size: "list_size (QueueMessages q) s1 = 0" "list_first (QueueMessages q) s1 = None"
    "list_last (QueueMessages q) s1 = None"
    by (simp_all add: wf_list_size [OF s1(2)] wf_list_first [OF s1(2)] wf_list_last [OF s1(2)])
  have qf: "live s1 F q" "\<not> listed ?L q" using s1(4) by (simp_all add: fresh_block_def)
  obtain P where P: "free_block KQueue q s1 = Inr (Success, s1\<lparr>pools := P\<rparr>)" "kernel_wf (s1\<lparr>pools := P\<rparr>) ?L ?F"
    "\<forall>p. live s1 F p \<longrightarrow> p \<noteq> q \<longrightarrow> live (s1\<lparr>pools := P\<rparr>) ?F p"
    using wf_free [OF s1(2) qf k] by blast
  have L: "?L (MqQueues mq) = qs" "\<And>x. x \<in> set qs \<Longrightarrow> ?L (QueueMessages x) = []" using Cons.prems(3) by simp_all
  obtain s' where s': "mqUnlink_queues (length qs) mq (s1\<lparr>pools := P\<rparr>) = Inr s'"
    "kernel_wf s' (?L(MqQueues mq := [])) (?F(KQueue := rev (map idx_of qs) @ ?F KQueue))"
    "kernel_frame (s1\<lparr>pools := P\<rparr>) s'"
    "\<forall>p. fresh_block (s1\<lparr>pools := P\<rparr>) ?L ?F p \<longrightarrow> kind_of p \<noteq> KQueue \<longrightarrow>
      fresh_block s' (?L(MqQueues mq := [])) (?F(KQueue := rev (map idx_of qs) @ ?F KQueue)) p"
    using Cons.IH [OF P(2) L] by blast
  have LF: "?L(MqQueues mq := []) = L(MqQueues mq := [])"
    "?F(KQueue := rev (map idx_of qs) @ ?F KQueue) = F(KQueue := rev (map idx_of (q # qs)) @ F KQueue)" by simp_all
  have keep: "fresh_block (s1\<lparr>pools := P\<rparr>) ?L ?F p" if "fresh_block s L F p" "kind_of p \<noteq> KQueue" for p
    using s1(5) P(3) that k by (auto simp: fresh_block_def)
  have "mqUnlink_queues (length (q # qs)) mq s = Inr s'"
    using s'(1) by (simp add: first s1(1) k size Queue_free_def P(1))
  moreover have "kernel_frame s s'"
    using lists_only_frame [OF s1(3)] s'(3) by (simp add: kernel_frame_def)
  ultimately show ?case using s'(2,4) keep unfolding LF by blast
qed

definition unlinked_lists :: "ptr \<Rightarrow> (headref \<Rightarrow> ptr list) \<Rightarrow> (headref \<Rightarrow> ptr list)" where
  "unlinked_lists mq L = L(MessageQueuesList := remove1 mq (L MessageQueuesList), MqQueues mq := [])"

definition unlinked_free :: "ptr \<Rightarrow> ptr list \<Rightarrow> (kind \<Rightarrow> int list) \<Rightarrow> (kind \<Rightarrow> int list)" where
  "unlinked_free mq qs F =
     F(KQueue := rev (map idx_of qs) @ F KQueue, KMessageQueue := idx_of mq # F KMessageQueue)"

lemma mqUnlink_wf:
  assumes run: "sched_wf s L F r" and mq: "mq_lookup s L (int_arg r 0 s) = Some mq"
    and none: "mq_num_messages (mqs s mq) = 0" "L (MqDescriptors mq) = []"
    and qs: "int (length (L (MqQueues mq))) = mq_priority (mqs s mq) + 1"
    and empty: "\<And>q. q \<in> set (L (MqQueues mq)) \<Longrightarrow> L (QueueMessages q) = []"
  shows "\<exists>s'. internal_mqUnlink s = Inr s' \<and>
    sched_wf s' (unlinked_lists mq L) (unlinked_free mq (L (MqQueues mq)) F) r \<and>
    kernel_frame (set_retvalue r 0 s) s'"
proof -
  note r = sched_wfD [OF run]
  let ?L = "L(MessageQueuesList := remove1 mq (L MessageQueuesList))" and ?qs = "L (MqQueues mq)"
  let ?L1 = "unlinked_lists mq L" and ?F1 = "F(KQueue := rev (map idx_of ?qs) @ F KQueue)"
  let ?F2 = "unlinked_free mq ?qs F"
  have mqin: "mq \<in> set (L MessageQueuesList)" using mq by (auto simp: mq_lookup_def dest: find_in_set)
  have k: "kind_of mq = KMessageQueue" using kernel_wf_kind [OF r(1) mqin] by simp
  obtain s1 where s1: "List_detach MessageQueuesList (Some mq) s = Inr (Some mq, s1)" "kernel_wf s1 ?L F"
    "lists_only s s1" "fresh_block s1 ?L F mq" "\<forall>p. fresh_block s L F p \<longrightarrow> fresh_block s1 ?L F p"
    using wf_take [OF r(1) mqin] by blast
  have q: "?L (MqQueues mq) = ?qs" "\<And>q. q \<in> set ?qs \<Longrightarrow> ?L (QueueMessages q) = []" using empty by simp_all
  have n: "nat (mq_priority (mqs s1 mq) + 1) = length ?qs" using qs lists_only_fields(9) [OF s1(3)] by simp
  obtain s2 where s2: "mqUnlink_queues (length ?qs) mq s1 = Inr s2" "kernel_wf s2 ?L1 ?F1" "kernel_frame s1 s2"
    "\<forall>p. fresh_block s1 ?L F p \<longrightarrow> kind_of p \<noteq> KQueue \<longrightarrow> fresh_block s2 ?L1 ?F1 p"
    using mqUnlink_queues_wf [OF s1(2) q] unfolding unlinked_lists_def by blast
  have f2: "fresh_block s2 ?L1 ?F1 mq" "fresh_block s2 ?L1 ?F1 r" using s1(4,5) s2(4) r(3,4) k by simp_all
  then have "live s2 ?F1 mq" "\<not> listed ?L1 mq" by (simp_all add: fresh_block_def)
  then obtain P where P: "free_block KMessageQueue mq s2 = Inr (Success, s2\<lparr>pools := P\<rparr>)"
    "kernel_wf (s2\<lparr>pools := P\<rparr>) ?L1 ?F2" "\<forall>p. live s2 ?F1 p \<longrightarrow> p \<noteq> mq \<longrightarrow> live (s2\<lparr>pools := P\<rparr>) ?F2 p"
    using wf_free [OF s2(2) _ _ k] unfolding unlinked_free_def by force
  have "?L1 (MqDescriptors mq) = []" using none by (simp add: unlinked_lists_def)
  then have free: "list_first (MqDescriptors mq) s2 = None" "list_last (MqDescriptors mq) s2 = None"
    by (simp_all add: wf_list_first [OF s2(2)] wf_list_last [OF s2(2)])
  have fr: "kernel_frame s s2" by (rule kernel_frame_trans [OF lists_only_frame [OF s1(3)] s2(3)])
  let ?s' = "set_retvalue r 0 (s2\<lparr>pools := P\<rparr>)"
  have "internal_mqUnlink s = Inr ?s'"
    using r(2,3) MessageQueueList_byId_wf [OF r(1)] mq k none n s2(1) P(1) wf_list_size [OF r(1)]
    by (simp add: internal_mqUnlink_def Let_def s1(1) MessageQueue_free_def free)
  moreover have "sched_wf ?s' ?L1 ?F2 r"
  proof -
    have "r \<noteq> mq" using r(3) k by auto
    with P(2,3) f2(2) r(2,3) fr show ?thesis by (simp add: sched_wf_def upd_defs fresh_block_def kernel_frame_def)
  qed
  moreover have "kernel_frame (set_retvalue r 0 s) ?s'" using fr by (simp add: kernel_frame_def upd_defs)
  ultimately show ?thesis by blast
qed

end
