(* ===== verification/KernelEntry.thy ===== *)
theory KernelEntry
  imports ExitWait SemaphoreSpec MessageQueueLife
begin

text \<open>
  The ways into the kernel, from \<^verbatim>\<open>src/disastrOS.c\<close>: the start, the trap that dispatches
  system calls, the functions processes call, and the timer interrupt. This is what they do to the state
  of the kernel: after a system call the process named by \<open>running\<close> goes on, and the value
  it gets is the one stored in its control block. The switch of machine contexts and the log file are in
  \<^verbatim>\<open>Contexts\<close>.
\<close>

section \<open>The pools\<close>

text \<open>
  The sizes of the structures and the addresses of the buffers are the platform's. The buffers of
  the descriptor pools have room for all descriptors of all processes, but the pools are made with
  one descriptor per process.
\<close>

record platform =
  struct_size :: "kind \<Rightarrow> int"
  buffer_address :: "kind \<Rightarrow> int"

definition buffer_items :: "kind \<Rightarrow> int" where
  "buffer_items k = (case k of
       KPCB \<Rightarrow> MAX_NUM_PROCESSES
     | KPCBPtr \<Rightarrow> MAX_NUM_PROCESSES
     | KTimerItem \<Rightarrow> MAX_NUM_PROCESSES
     | KResource \<Rightarrow> MAX_NUM_RESOURCES
     | KDescriptor \<Rightarrow> MAX_NUM_DESCRIPTORS_PER_PROCESS * MAX_NUM_PROCESSES
     | KDescriptorPtr \<Rightarrow> MAX_NUM_DESCRIPTORS_PER_PROCESS * MAX_NUM_PROCESSES
     | KSemaphore \<Rightarrow> MAX_NUM_SEMAPHORES
     | KSemDescriptor \<Rightarrow> MAX_NUM_SEMDESCRIPTORS_PER_PROCESS * MAX_NUM_PROCESSES
     | KSemDescriptorPtr \<Rightarrow> MAX_NUM_SEMDESCRIPTORS_PER_PROCESS * MAX_NUM_PROCESSES
     | KMessageQueue \<Rightarrow> MAX_NUM_MQS
     | KQueue \<Rightarrow> MAX_NUM_QUEUES
     | KMessage \<Rightarrow> MAX_NUM_MESSAGES
     | KMQDescriptor \<Rightarrow> MAX_NUM_MQDESCRIPTORS_PER_PROCESS * MAX_NUM_PROCESSES
     | KMQDescriptorPtr \<Rightarrow> MAX_NUM_MQDESCRIPTORS_PER_PROCESS * MAX_NUM_PROCESSES)"

text \<open>\<open>result = PoolAllocator_init(...); assert(! result)\<close>\<close>

definition init_pool :: "platform \<Rightarrow> kind \<Rightarrow> int \<Rightarrow> kernel \<Rightarrow> fault + kernel" where
  "init_pool pf k num_items s =
     andThen (PoolAllocator_init (pools s k) (struct_size pf k) num_items (buffer_address pf k)
         (to_int32 (buffer_items k * (struct_size pf k + sizeof_int)))) (\<lambda>(result, a).
     if result \<noteq> Success then Inl AssertFail else Inr (s\<lparr>pools := (pools s)(k := a)\<rparr>))"

definition PCB_init :: "platform \<Rightarrow> kernel \<Rightarrow> fault + kernel" where
  "PCB_init pf s =
     andThen (init_pool pf KPCB MAX_NUM_PROCESSES s) (init_pool pf KPCBPtr MAX_NUM_PROCESSES)"

definition Timer_init :: "platform \<Rightarrow> kernel \<Rightarrow> fault + kernel" where
  "Timer_init pf s = init_pool pf KTimerItem MAX_NUM_PROCESSES s"

definition Resource_init :: "platform \<Rightarrow> kernel \<Rightarrow> fault + kernel" where
  "Resource_init pf s = init_pool pf KResource MAX_NUM_RESOURCES s"

definition Descriptor_init :: "platform \<Rightarrow> kernel \<Rightarrow> fault + kernel" where
  "Descriptor_init pf s =
     andThen (init_pool pf KDescriptor MAX_NUM_PROCESSES s) (init_pool pf KDescriptorPtr MAX_NUM_PROCESSES)"

definition Semaphore_init :: "platform \<Rightarrow> kernel \<Rightarrow> fault + kernel" where
  "Semaphore_init pf s = init_pool pf KSemaphore MAX_NUM_SEMAPHORES s"

definition SemDescriptor_init :: "platform \<Rightarrow> kernel \<Rightarrow> fault + kernel" where
  "SemDescriptor_init pf s =
     andThen (init_pool pf KSemDescriptor MAX_NUM_PROCESSES s) (init_pool pf KSemDescriptorPtr MAX_NUM_PROCESSES)"

definition MessageQueue_init :: "platform \<Rightarrow> kernel \<Rightarrow> fault + kernel" where
  "MessageQueue_init pf s = init_pool pf KMessageQueue MAX_NUM_MQS s"

definition MQDescriptor_init :: "platform \<Rightarrow> kernel \<Rightarrow> fault + kernel" where
  "MQDescriptor_init pf s =
     andThen (init_pool pf KMQDescriptor MAX_NUM_PROCESSES s) (init_pool pf KMQDescriptorPtr MAX_NUM_PROCESSES)"

definition Queue_init :: "platform \<Rightarrow> kernel \<Rightarrow> fault + kernel" where
  "Queue_init pf s = init_pool pf KQueue MAX_NUM_QUEUES s"

definition Message_init :: "platform \<Rightarrow> kernel \<Rightarrow> fault + kernel" where
  "Message_init pf s = init_pool pf KMessage MAX_NUM_MESSAGES s"

section \<open>Starting\<close>

definition init_pools :: "platform \<Rightarrow> kernel \<Rightarrow> fault + kernel" where
  "init_pools pf s =
     andThen (PCB_init pf s) (\<lambda>s. andThen (Timer_init pf s) (\<lambda>s. andThen (Resource_init pf s) (\<lambda>s.
     andThen (Descriptor_init pf s) (\<lambda>s. andThen (Semaphore_init pf s) (\<lambda>s.
     andThen (SemDescriptor_init pf s) (\<lambda>s. andThen (MessageQueue_init pf s) (\<lambda>s.
     andThen (MQDescriptor_init pf s) (\<lambda>s. andThen (Queue_init pf s) (Message_init pf)))))))))"

definition init_lists :: "kernel \<Rightarrow> kernel" where
  "init_lists s =
     List_init TimerList (List_init MessageQueuesList (List_init SemaphoresList (List_init ResourcesList
       (List_init ZombieList (List_init WaitingList (List_init ReadyList s))))))"

text \<open>The first process. This part of the start runs again each time control comes back to its context.\<close>

definition start_first_process :: "int \<Rightarrow> int \<Rightarrow> kernel \<Rightarrow> fault + kernel" where
  "start_first_process f f_args s =
     andThen (PCB_alloc s) (\<lambda>(r, s1).
     andThen (deref KPCB r) (\<lambda>p.
     let s2 = set_status p Running (s1\<lparr>running := r\<rparr>) in
     Inr (upd_pcb p (\<lambda>c. c\<lparr>pcb_cpu_entry := Some (f, f_args)\<rparr>) (s2\<lparr>init_pcb := r\<rparr>))))"

definition disastrOS_start :: "platform \<Rightarrow> int \<Rightarrow> int \<Rightarrow> kernel \<Rightarrow> fault + kernel" where
  "disastrOS_start pf f f_args s =
     andThen (init_pools pf s) (\<lambda>s1.
     start_first_process f f_args (init_lists (s1\<lparr>init_pcb := None, running := None\<rparr>)))"

section \<open>System calls\<close>

definition syscall_vector :: "int \<Rightarrow> (kernel \<Rightarrow> fault + kernel) option" where
  "syscall_vector n =
     (if n = DSOS_CALL_PREEMPT then Some internal_preempt
      else if n = DSOS_CALL_FORK then Some internal_fork
      else if n = DSOS_CALL_SPAWN then Some internal_spawn
      else if n = DSOS_CALL_WAIT then Some internal_wait
      else if n = DSOS_CALL_EXIT then Some internal_exit
      else if n = DSOS_CALL_SLEEP then Some internal_sleep
      else if n = DSOS_CALL_OPEN_RESOURCE then Some internal_openResource
      else if n = DSOS_CALL_CLOSE_RESOURCE then Some internal_closeResource
      else if n = DSOS_CALL_DESTROY_RESOURCE then Some internal_destroyResource
      else if n = DSOS_CALL_SHUTDOWN then Some (\<lambda>s. Inr (internal_shutdown s))
      else if n = DSOS_CALL_SEMOPEN then Some internal_semOpen
      else if n = DSOS_CALL_SEMCLOSE then Some internal_semClose
      else if n = DSOS_CALL_SEMPOST then Some internal_semPost
      else if n = DSOS_CALL_SEMWAIT then Some internal_semWait
      else if n = DSOS_CALL_MQOPEN then Some internal_mqOpen
      else if n = DSOS_CALL_MQCLOSE then Some internal_mqClose
      else if n = DSOS_CALL_MQREAD then Some internal_mqRead
      else if n = DSOS_CALL_MQWRITE then Some internal_mqWrite
      else if n = DSOS_CALL_MQUNLINK then Some internal_mqUnlink
      else None)"

definition syscall_numarg :: "int \<Rightarrow> nat" where
  "syscall_numarg n =
     (if n \<in> {DSOS_CALL_SPAWN, DSOS_CALL_WAIT} then 2
      else if n \<in> {DSOS_CALL_EXIT, DSOS_CALL_SLEEP, DSOS_CALL_CLOSE_RESOURCE, DSOS_CALL_DESTROY_RESOURCE,
        DSOS_CALL_SEMCLOSE, DSOS_CALL_SEMPOST, DSOS_CALL_SEMWAIT, DSOS_CALL_MQCLOSE, DSOS_CALL_MQUNLINK} then 1
      else if n \<in> {DSOS_CALL_OPEN_RESOURCE, DSOS_CALL_SEMOPEN, DSOS_CALL_MQOPEN} then 3
      else if n \<in> {DSOS_CALL_MQREAD, DSOS_CALL_MQWRITE} then 4
      else 0)"

text \<open>Both tables have \<open>DSOS_MAX_SYSCALLS\<close> entries; the test lets that number itself pass.\<close>

definition syscall_in_range :: "int \<Rightarrow> bool" where
  "syscall_in_range n \<longleftrightarrow> \<not> (n < 0 \<or> n > DSOS_MAX_SYSCALLS)"

definition table_entry :: "(int \<Rightarrow> 'a) \<Rightarrow> int \<Rightarrow> fault + 'a" where
  "table_entry table n = (if 0 \<le> n \<and> n < DSOS_MAX_SYSCALLS then Inr (table n) else Inl OutOfBounds)"

definition disastrOS_trap :: "kernel \<Rightarrow> fault + kernel" where
  "disastrOS_trap s =
     andThen (deref KPCB (running s)) (\<lambda>r.
     let n = pcb_syscall_num (pcbs s r) in
     if \<not> syscall_in_range n then Inr (set_retvalue r DSOS_ESYSCALL_OUT_OF_RANGE s)
     else
       andThen (table_entry syscall_vector n) (\<lambda>my_syscall.
       case my_syscall of
         None \<Rightarrow> Inr (set_retvalue r DSOS_ESYSCALL_NOT_IMPLEMENTED s)
       | Some handler \<Rightarrow> handler s))"

text \<open>
  The call of a process: the arguments and the number go to its control block, then the trap. The
  result is \<open>Inl\<close> for a value returned at once, \<open>Inr\<close> for the state after the trap; the process
  finds its value in the control block when it runs again. \<open>args\<close> are the variable arguments.
\<close>

definition enter_syscall :: "int \<Rightarrow> (nat \<Rightarrow> int) \<Rightarrow> nat \<Rightarrow> ptr \<Rightarrow> kernel \<Rightarrow> kernel" where
  "enter_syscall n args nargs r s =
     upd_pcb r (\<lambda>c. c\<lparr>pcb_syscall_args := (\<lambda>i. if i < nargs then args i else pcb_syscall_args c i),
       pcb_syscall_num := n\<rparr>) s"

definition disastrOS_syscall :: "int \<Rightarrow> (nat \<Rightarrow> int) \<Rightarrow> kernel \<Rightarrow> fault + (int + kernel)" where
  "disastrOS_syscall n args s =
     (if running s = None then Inl AssertFail
      else if \<not> syscall_in_range n then Inr (Inl DSOS_ESYSCALL_OUT_OF_RANGE)
      else
        andThen (table_entry syscall_numarg n) (\<lambda>nargs.
        andThen (deref KPCB (running s)) (\<lambda>r.
        andThen (disastrOS_trap (enter_syscall n args nargs r s)) (\<lambda>s'. Inr (Inr s')))))"

definition args_of :: "int list \<Rightarrow> nat \<Rightarrow> int" where
  "args_of xs i = (if i < length xs then xs ! i else 0)"

section \<open>The calls of the processes\<close>

definition disastrOS_fork :: "kernel \<Rightarrow> fault + (int + kernel)" where
  "disastrOS_fork = disastrOS_syscall DSOS_CALL_FORK (args_of [])"

definition disastrOS_wait :: "int \<Rightarrow> int \<Rightarrow> kernel \<Rightarrow> fault + (int + kernel)" where
  "disastrOS_wait pid retval = disastrOS_syscall DSOS_CALL_WAIT (args_of [pid, retval])"

definition disastrOS_exit :: "int \<Rightarrow> kernel \<Rightarrow> fault + (int + kernel)" where
  "disastrOS_exit exitval = disastrOS_syscall DSOS_CALL_EXIT (args_of [exitval])"

definition disastrOS_preempt :: "kernel \<Rightarrow> fault + (int + kernel)" where
  "disastrOS_preempt = disastrOS_syscall DSOS_CALL_PREEMPT (args_of [])"

definition disastrOS_spawn :: "int \<Rightarrow> int \<Rightarrow> kernel \<Rightarrow> fault + (int + kernel)" where
  "disastrOS_spawn f f_args = disastrOS_syscall DSOS_CALL_SPAWN (args_of [f, f_args])"

definition disastrOS_shutdown :: "kernel \<Rightarrow> fault + (int + kernel)" where
  "disastrOS_shutdown = disastrOS_syscall DSOS_CALL_SHUTDOWN (args_of [])"

definition disastrOS_sleep :: "int \<Rightarrow> kernel \<Rightarrow> fault + (int + kernel)" where
  "disastrOS_sleep sleep_time = disastrOS_syscall DSOS_CALL_SLEEP (args_of [sleep_time])"

definition disastrOS_openResource :: "int \<Rightarrow> int \<Rightarrow> int \<Rightarrow> kernel \<Rightarrow> fault + (int + kernel)" where
  "disastrOS_openResource resource_id rtype mode = disastrOS_syscall DSOS_CALL_OPEN_RESOURCE (args_of [resource_id, rtype, mode])"

definition disastrOS_closeResource :: "int \<Rightarrow> kernel \<Rightarrow> fault + (int + kernel)" where
  "disastrOS_closeResource fd = disastrOS_syscall DSOS_CALL_CLOSE_RESOURCE (args_of [fd])"

definition disastrOS_destroyResource :: "int \<Rightarrow> kernel \<Rightarrow> fault + (int + kernel)" where
  "disastrOS_destroyResource resource_id = disastrOS_syscall DSOS_CALL_DESTROY_RESOURCE (args_of [resource_id])"

definition disastrOS_semOpen :: "int \<Rightarrow> int \<Rightarrow> int \<Rightarrow> kernel \<Rightarrow> fault + (int + kernel)" where
  "disastrOS_semOpen sid flags count = disastrOS_syscall DSOS_CALL_SEMOPEN (args_of [sid, flags, count])"

definition disastrOS_semClose :: "int \<Rightarrow> kernel \<Rightarrow> fault + (int + kernel)" where
  "disastrOS_semClose fd = disastrOS_syscall DSOS_CALL_SEMCLOSE (args_of [fd])"

definition disastrOS_semPost :: "int \<Rightarrow> kernel \<Rightarrow> fault + (int + kernel)" where
  "disastrOS_semPost fd = disastrOS_syscall DSOS_CALL_SEMPOST (args_of [fd])"

definition disastrOS_semWait :: "int \<Rightarrow> kernel \<Rightarrow> fault + (int + kernel)" where
  "disastrOS_semWait fd = disastrOS_syscall DSOS_CALL_SEMWAIT (args_of [fd])"

definition disastrOS_mqOpen :: "int \<Rightarrow> int \<Rightarrow> int \<Rightarrow> kernel \<Rightarrow> fault + (int + kernel)" where
  "disastrOS_mqOpen mid flags priority = disastrOS_syscall DSOS_CALL_MQOPEN (args_of [mid, flags, priority])"

definition disastrOS_mqClose :: "int \<Rightarrow> kernel \<Rightarrow> fault + (int + kernel)" where
  "disastrOS_mqClose fd = disastrOS_syscall DSOS_CALL_MQCLOSE (args_of [fd])"

definition disastrOS_mqRead :: "int \<Rightarrow> int \<Rightarrow> int \<Rightarrow> int \<Rightarrow> kernel \<Rightarrow> fault + (int + kernel)" where
  "disastrOS_mqRead fd buf buf_size priority = disastrOS_syscall DSOS_CALL_MQREAD (args_of [fd, buf, buf_size, priority])"

definition disastrOS_mqWrite :: "int \<Rightarrow> int \<Rightarrow> int \<Rightarrow> int \<Rightarrow> kernel \<Rightarrow> fault + (int + kernel)" where
  "disastrOS_mqWrite fd buf buf_size priority = disastrOS_syscall DSOS_CALL_MQWRITE (args_of [fd, buf, buf_size, priority])"

definition disastrOS_mqUnlink :: "int \<Rightarrow> kernel \<Rightarrow> fault + (int + kernel)" where
  "disastrOS_mqUnlink mid = disastrOS_syscall DSOS_CALL_MQUNLINK (args_of [mid])"

definition disastrOS_getpid :: "kernel \<Rightarrow> int" where
  "disastrOS_getpid s = (case running s of None \<Rightarrow> -1 | Some r \<Rightarrow> pcb_pid (pcbs s r))"

text \<open>The tick of the clock.\<close>

definition timerInterrupt :: "kernel \<Rightarrow> fault + kernel" where
  "timerInterrupt s =
     andThen (checked_int (disastrOS_time s + 1)) (\<lambda>t.
     andThen (internal_schedule (s\<lparr>disastrOS_time := t\<rparr>)) (\<lambda>s1.
     andThen (deref KPCB (running s1)) (\<lambda>_. Inr s1)))"

section \<open>The state after the start\<close>

text \<open>Static memory is zeroed.\<close>

definition zero_pool :: pool_allocator where
  "zero_pool = \<lparr>buffer = 0, free_list = (\<lambda>_. 0), buffer_size = 0, pa_size = 0, size_max = 0, item_size = 0,
     first_idx = 0, bucket_size = 0\<rparr>"

definition zero_pcb :: PCB where
  "zero_pcb = \<lparr>pcb_pid = 0, pcb_return_value = 0, pcb_status = Created, pcb_signals = 0, pcb_signals_mask = 0,
     pcb_parent = None, pcb_cpu_entry = None, pcb_timer = None, pcb_last_fd = 0, pcb_last_sem_fd = 0,
     pcb_last_mq_fd = 0, pcb_syscall_num = 0, pcb_syscall_args = (\<lambda>_. 0), pcb_syscall_retvalue = 0\<rparr>"

definition reset_kernel :: kernel where
  "reset_kernel = \<lparr>links = (\<lambda>_. no_links), heads = (\<lambda>_. empty_head), pools = (\<lambda>_. zero_pool),
     pcbs = (\<lambda>_. zero_pcb), pcb_ptrs = (\<lambda>_. None),
     timers = (\<lambda>_. \<lparr>timer_awakening_time = 0, timer_pcb = None\<rparr>),
     resources = (\<lambda>_. \<lparr>res_id = 0, res_type = 0\<rparr>),
     descs = (\<lambda>_. \<lparr>desc_pcb = None, desc_object = None, desc_fd = 0, desc_ptr = None\<rparr>),
     desc_ptrs = (\<lambda>_. None), sems = (\<lambda>_. \<lparr>sem_id = 0, sem_count = 0\<rparr>),
     mqs = (\<lambda>_. \<lparr>mq_id = 0, mq_priority = 0, mq_num_messages = 0\<rparr>), queue_priority = (\<lambda>_. 0),
     msgs = (\<lambda>_. \<lparr>msg_text_length = 0, msg_text = 0\<rparr>),
     init_pcb = None, running = None, last_pid = 0, disastrOS_time = 0, shutdown_now = 0, umem = (\<lambda>_. 0)\<rparr>"

definition platform_ok :: "platform \<Rightarrow> bool" where
  "platform_ok pf \<longleftrightarrow> (\<forall>k. 0 < struct_size pf k \<and> struct_size pf k \<le> 65531)"

definition pool_items :: "kind \<Rightarrow> int" where
  "pool_items k = (case k of KMessageQueue \<Rightarrow> 16 | KQueue \<Rightarrow> 64 | KMessage \<Rightarrow> 128 | _ \<Rightarrow> 1024)"

definition boot_free :: "kind \<Rightarrow> int list" where
  "boot_free k = (if k = KPCB then [1..1023] else [0..pool_items k - 1])"

lemma init_pool_made:
  assumes pf: "platform_ok pf" and n: "n = pool_items k"
  shows "\<exists>a. init_pool pf k n s = Inr (s\<lparr>pools := (pools s)(k := a)\<rparr>) \<and> pool_inv a [0..pool_items k - 1]"
proof -
  let ?sz = "struct_size pf k"
  have sz: "0 < ?sz" "?sz \<le> 65531" using pf by (auto simp: platform_ok_def)
  have items: "0 < n" "n \<le> buffer_items k" "buffer_items k \<le> 32768"
    by (cases k; simp add: n pool_items_def buffer_items_def)+
  have small: "buffer_items k * (?sz + sizeof_int) \<le> 32768 * 65535"
    by (rule mult_mono) (use items sz in \<open>simp_all add: sizeof_int_def\<close>)
  have le: "n * (?sz + sizeof_int) \<le> buffer_items k * (?sz + sizeof_int)"
    by (rule mult_right_mono) (use items sz in \<open>simp_all add: sizeof_int_def\<close>)
  have "0 < n * (?sz + sizeof_int)" using items sz by (simp add: sizeof_int_def)
  with small le have rng: "int32_range (n * (?sz + sizeof_int))" "int32_range (buffer_items k * (?sz + sizeof_int))"
    by (simp_all add: int32_range_def)
  obtain a where "PoolAllocator_init (pools s k) ?sz n (buffer_address pf k)
      (to_int32 (buffer_items k * (?sz + sizeof_int))) = Inr (Success, a)" "pool_inv a [0..n - 1]"
    using pool_inv_init [OF sz(1) items(1) rng(1)] le unfolding to_int32_id [OF rng(2)] by blast
  then show ?thesis by (auto simp: init_pool_def n)
qed

lemma init_pool_step:
  assumes pf: "platform_ok pf" and n: "n = pool_items k" and K: "\<And>k. k \<in> K \<Longrightarrow> pool_inv (P k) [0..pool_items k - 1]"
  shows "\<exists>Q. init_pool pf k n (s\<lparr>pools := P\<rparr>) = Inr (s\<lparr>pools := Q\<rparr>) \<and>
    (\<forall>k\<in>insert k K. pool_inv (Q k) [0..pool_items k - 1])"
proof -
  obtain a where "init_pool pf k n (s\<lparr>pools := P\<rparr>) = Inr (s\<lparr>pools := P(k := a)\<rparr>)" "pool_inv a [0..pool_items k - 1]"
    using init_pool_made [OF pf n, of "s\<lparr>pools := P\<rparr>"] by auto
  with K show ?thesis by (intro exI [of _ "P(k := a)"]) auto
qed

text \<open>The initialisations in the order of the start, as a list.\<close>

primrec init_all :: "platform \<Rightarrow> (kind \<times> int) list \<Rightarrow> kernel \<Rightarrow> fault + kernel" where
  "init_all pf [] s = Inr s"
| "init_all pf (x # xs) s = andThen (init_pool pf (fst x) (snd x) s) (init_all pf xs)"

definition start_order :: "(kind \<times> int) list" where
  "start_order = map (\<lambda>k. (k, pool_items k)) [KPCB, KPCBPtr, KTimerItem, KResource, KDescriptor, KDescriptorPtr,
     KSemaphore, KSemDescriptor, KSemDescriptorPtr, KMessageQueue, KMQDescriptor, KMQDescriptorPtr, KQueue, KMessage]"

lemma init_all_single: "init_all pf [x] s = init_pool pf (fst x) (snd x) s"
  by (cases "init_pool pf (fst x) (snd x) s") simp_all

lemma init_all_append: "andThen (init_all pf xs s) (init_all pf ys) = init_all pf (xs @ ys) s"
proof (induction xs arbitrary: s)
  case (Cons x xs)
  then show ?case by (cases "init_pool pf (fst x) (snd x) s") simp_all
qed simp

lemma init_steps:
  "PCB_init pf = init_all pf [(KPCB, 1024), (KPCBPtr, 1024)]"
  "Timer_init pf = init_all pf [(KTimerItem, 1024)]"
  "Resource_init pf = init_all pf [(KResource, 1024)]"
  "Descriptor_init pf = init_all pf [(KDescriptor, 1024), (KDescriptorPtr, 1024)]"
  "Semaphore_init pf = init_all pf [(KSemaphore, 1024)]"
  "SemDescriptor_init pf = init_all pf [(KSemDescriptor, 1024), (KSemDescriptorPtr, 1024)]"
  "MessageQueue_init pf = init_all pf [(KMessageQueue, 16)]"
  "MQDescriptor_init pf = init_all pf [(KMQDescriptor, 1024), (KMQDescriptorPtr, 1024)]"
  "Queue_init pf = init_all pf [(KQueue, 64)]"
  "Message_init pf = init_all pf [(KMessage, 128)]"
proof -
  have two: "init_all pf [x, y] s = andThen (init_pool pf (fst x) (snd x) s) (init_pool pf (fst y) (snd y))" for x y s
    by (cases "init_pool pf (fst x) (snd x) s")
      (simp_all only: init_all.simps(2) [of pf x "[y]"] andThen_simps init_all_single)
  show "PCB_init pf = init_all pf [(KPCB, 1024), (KPCBPtr, 1024)]"
    "Descriptor_init pf = init_all pf [(KDescriptor, 1024), (KDescriptorPtr, 1024)]"
    "SemDescriptor_init pf = init_all pf [(KSemDescriptor, 1024), (KSemDescriptorPtr, 1024)]"
    "MQDescriptor_init pf = init_all pf [(KMQDescriptor, 1024), (KMQDescriptorPtr, 1024)]"
    by (rule ext, simp only: two PCB_init_def Descriptor_init_def SemDescriptor_init_def MQDescriptor_init_def
        fst_conv snd_conv MAX_NUM_PROCESSES_def)+
  show "Timer_init pf = init_all pf [(KTimerItem, 1024)]"
    "Resource_init pf = init_all pf [(KResource, 1024)]"
    "Semaphore_init pf = init_all pf [(KSemaphore, 1024)]"
    "MessageQueue_init pf = init_all pf [(KMessageQueue, 16)]"
    "Queue_init pf = init_all pf [(KQueue, 64)]"
    "Message_init pf = init_all pf [(KMessage, 128)]"
    by (rule ext, simp only: init_all_single Timer_init_def Resource_init_def Semaphore_init_def
        MessageQueue_init_def Queue_init_def Message_init_def fst_conv snd_conv MAX_NUM_PROCESSES_def
        MAX_NUM_RESOURCES_def MAX_NUM_SEMAPHORES_def MAX_NUM_MQS_def MAX_NUM_QUEUES_def MAX_NUM_MESSAGES_def)+
qed

lemma init_pools_all: "init_pools pf s = init_all pf start_order s"
  by (simp only: init_pools_def init_steps init_all_append append.simps start_order_def list.map)
    (simp only: pool_items_def kind.case)

lemma init_all_made:
  assumes pf: "platform_ok pf"
  shows "(\<And>x. x \<in> set xs \<Longrightarrow> snd x = pool_items (fst x)) \<Longrightarrow>
    (\<And>k. k \<in> K \<Longrightarrow> pool_inv (P k) [0..pool_items k - 1]) \<Longrightarrow>
    \<exists>Q. init_all pf xs (s\<lparr>pools := P\<rparr>) = Inr (s\<lparr>pools := Q\<rparr>) \<and>
      (\<forall>k\<in>fst ` set xs \<union> K. pool_inv (Q k) [0..pool_items k - 1])"
proof (induction xs arbitrary: P K)
  case Nil
  then show ?case by auto
next
  case (Cons x xs)
  have x: "snd x = pool_items (fst x)" using Cons.prems(1) by simp
  obtain Q where Q: "init_pool pf (fst x) (snd x) (s\<lparr>pools := P\<rparr>) = Inr (s\<lparr>pools := Q\<rparr>)"
    and Qk: "\<forall>k\<in>insert (fst x) K. pool_inv (Q k) [0..pool_items k - 1]"
    using init_pool_step [OF pf x, where K = K and P = P and s = s] Cons.prems(2) by metis
  have xs: "\<And>y. y \<in> set xs \<Longrightarrow> snd y = pool_items (fst y)" using Cons.prems(1) by simp
  obtain R where R: "init_all pf xs (s\<lparr>pools := Q\<rparr>) = Inr (s\<lparr>pools := R\<rparr>)"
    "\<forall>k\<in>fst ` set xs \<union> insert (fst x) K. pool_inv (R k) [0..pool_items k - 1]"
    using Cons.IH [OF xs, where K = "insert (fst x) K" and P = Q] Qk by metis
  have "init_all pf (x # xs) (s\<lparr>pools := P\<rparr>) = Inr (s\<lparr>pools := R\<rparr>)" using Q R(1) by simp
  moreover have "fst ` set (x # xs) \<union> K = fst ` set xs \<union> insert (fst x) K" by auto
  ultimately show ?case using R(2) by metis
qed

lemma pools_same: "s\<lparr>pools := pools s\<rparr> = s"
  by simp

lemma init_pools_made:
  assumes "platform_ok pf"
  shows "\<exists>Q. init_pools pf s = Inr (s\<lparr>pools := Q\<rparr>) \<and> (\<forall>k. pool_inv (Q k) [0..pool_items k - 1])"
proof -
  have "\<exists>Q. init_all pf start_order (s\<lparr>pools := pools s\<rparr>) = Inr (s\<lparr>pools := Q\<rparr>) \<and>
      (\<forall>k\<in>fst ` set start_order \<union> {}. pool_inv (Q k) [0..pool_items k - 1])"
    by (rule init_all_made [OF assms]) (auto simp: start_order_def)
  moreover have "k \<in> fst ` set start_order" for k
    by (cases k) (simp_all add: start_order_def)
  ultimately show ?thesis unfolding init_pools_all pools_same by blast
qed

lemma reset_represents: "represents (reset_kernel\<lparr>pools := P\<rparr>) (\<lambda>_. [])"
  by (simp add: represents_def reset_kernel_def dlist_def empty_head_def)

text \<open>A first process.\<close>

definition first_contents :: "int \<Rightarrow> int \<Rightarrow> ptr \<Rightarrow> kernel \<Rightarrow> kernel" where
  "first_contents f f_args n s =
     s\<lparr>pcbs := (pcbs s)(n := (new_pcb (last_pid s) (pcbs s n))\<lparr>pcb_status := Running, pcb_cpu_entry := Some (f, f_args)\<rparr>),
       running := Some n, init_pcb := Some n, last_pid := last_pid s + 1\<rparr>"

lemma first_process_wf:
  assumes wf: "kernel_wf s L F" and F: "F KPCB = i # is" and rng: "int32_range (last_pid s + 1)"
  defines "n \<equiv> Ptr KPCB i"
  shows "\<exists>s'. start_first_process f f_args s = Inr s' \<and> sched_wf s' (new_pcb_lists n L) (F(KPCB := is)) n \<and>
    kernel_frame (first_contents f f_args n s) s'"
proof -
  obtain s1 where s1: "PCB_alloc s = Inr (Some n, s1)" "kernel_wf s1 (new_pcb_lists n L) (F(KPCB := is))"
    "fresh_block s1 (new_pcb_lists n L) (F(KPCB := is)) n"
    "kernel_frame (s\<lparr>pcbs := (pcbs s)(n := new_pcb (last_pid s) (pcbs s n)), last_pid := last_pid s + 1\<rparr>) s1"
    using PCB_alloc_wf [OF wf F rng] unfolding n_def by auto
  have k: "kind_of n = KPCB" by (simp add: n_def)
  let ?s = "upd_pcb n (\<lambda>c. c\<lparr>pcb_cpu_entry := Some (f, f_args)\<rparr>)
    ((set_status n Running (s1\<lparr>running := Some n\<rparr>))\<lparr>init_pcb := Some n\<rparr>)"
  have "start_first_process f f_args s = Inr ?s" using s1(1) k by (simp add: start_first_process_def Let_def)
  moreover have "sched_wf ?s (new_pcb_lists n L) (F(KPCB := is)) n"
    using s1(2,3) k by (simp add: sched_wf_def set_status_def upd_pcb_def fresh_block_def)
  moreover have "kernel_frame (first_contents f f_args n s) ?s"
    using s1(4) by (simp add: kernel_frame_def first_contents_def set_status_def upd_pcb_def)
  ultimately show ?thesis by blast
qed

text \<open>It is made, or there is no block or no process id for it.\<close>

lemma first_process_needs:
  assumes "kernel_wf s L F" and "start_first_process f f_args s = Inr s'"
  shows "int32_range (last_pid s + 1) \<and> F KPCB \<noteq> []"
  using PCB_alloc_needs [OF assms(1)] assms(2) by (auto simp: start_first_process_def andThen_eq_Inr)

text \<open>The state in which init runs alone.\<close>

definition boot_contents :: "int \<Rightarrow> int \<Rightarrow> kernel" where
  "boot_contents f f_args =
     reset_kernel\<lparr>pcbs := (pcbs reset_kernel)(Ptr KPCB 0 :=
         (new_pcb 0 zero_pcb)\<lparr>pcb_status := Running, pcb_cpu_entry := Some (f, f_args)\<rparr>),
       running := Some (Ptr KPCB 0), init_pcb := Some (Ptr KPCB 0), last_pid := 1\<rparr>"

lemma pools_made_wf:
  assumes "platform_ok pf"
  obtains P where "init_pools pf reset_kernel = Inr (reset_kernel\<lparr>pools := P\<rparr>)"
    "kernel_wf (init_lists (reset_kernel\<lparr>pools := P, init_pcb := None, running := None\<rparr>)) (\<lambda>_. []) (\<lambda>k. [0..pool_items k - 1])"
proof -
  obtain P where P: "init_pools pf reset_kernel = Inr (reset_kernel\<lparr>pools := P\<rparr>)"
    "\<forall>k. pool_inv (P k) [0..pool_items k - 1]"
    using init_pools_made [OF assms] by blast
  let ?F = "\<lambda>k. [0..pool_items k - 1]"
  let ?s1 = "reset_kernel\<lparr>pools := P, init_pcb := None, running := None\<rparr>"
  have "kernel_wf (reset_kernel\<lparr>pools := P\<rparr>) (\<lambda>_. []) ?F"
    using P(2) reset_represents [of P] by (simp add: kernel_wf_def)
  then have wf1: "kernel_wf ?s1 (\<lambda>_. []) ?F" by simp
  have L: "(\<lambda>_. [])(h := []) = (\<lambda>_. [])" for h :: headref by auto
  have "kernel_wf (init_lists ?s1) (\<lambda>_. []) ?F"
    unfolding init_lists_def using wf1 wf_init_list [where L = "\<lambda>_. []", unfolded L] by simp
  then show ?thesis using that P(1) by blast
qed

lemma start_wf:
  assumes pf: "platform_ok pf"
  shows "\<exists>s. disastrOS_start pf f f_args reset_kernel = Inr s \<and> sched_wf s (\<lambda>_. []) boot_free (Ptr KPCB 0) \<and>
    kernel_frame (boot_contents f f_args) s"
proof -
  let ?F = "\<lambda>k. [0..pool_items k - 1]"
  obtain P where P: "init_pools pf reset_kernel = Inr (reset_kernel\<lparr>pools := P\<rparr>)"
    "kernel_wf (init_lists (reset_kernel\<lparr>pools := P, init_pcb := None, running := None\<rparr>)) (\<lambda>_. []) ?F"
    by (rule pools_made_wf [OF pf])
  let ?s1 = "reset_kernel\<lparr>pools := P, init_pcb := None, running := None\<rparr>"
  note wf2 = P(2)
  have F: "?F KPCB = 0 # [1..1023]" by (simp add: pool_items_def upto_rec1)
  have rng: "int32_range (last_pid (init_lists ?s1) + 1)" by (simp add: init_lists_def reset_kernel_def int32_range_def)
  obtain s where s: "start_first_process f f_args (init_lists ?s1) = Inr s"
    "sched_wf s (new_pcb_lists (Ptr KPCB 0) (\<lambda>_. [])) (?F(KPCB := [1..1023])) (Ptr KPCB 0)"
    "kernel_frame (first_contents f f_args (Ptr KPCB 0) (init_lists ?s1)) s"
    using first_process_wf [OF wf2 F rng] by blast
  have e: "new_pcb_lists (Ptr KPCB 0) (\<lambda>_. []) = (\<lambda>_. [])" "?F(KPCB := [1..1023]) = boot_free"
    by (auto simp: new_pcb_lists_def boot_free_def)
  have "disastrOS_start pf f f_args reset_kernel = Inr s" using s(1) by (simp add: disastrOS_start_def P(1))
  moreover have "sched_wf s (\<lambda>_. []) boot_free (Ptr KPCB 0)" using s(2) unfolding e .
  moreover have "kernel_frame (boot_contents f f_args) s"
    using s(3) by (simp add: kernel_frame_def boot_contents_def first_contents_def init_lists_def reset_kernel_def zero_pcb_def new_pcb_def)
  ultimately show ?thesis by blast
qed

end
