(* ===== verification/SystemCall.thy ===== *)
theory SystemCall
  imports KernelEntry
begin

text \<open>
  The way of a system call: the state in which the handler runs, with the arguments and the number
  stored in the control block of the caller, and for each call the handler it reaches.
\<close>

definition calling :: "int \<Rightarrow> int list \<Rightarrow> kernel \<Rightarrow> kernel" where
  "calling n xs s = enter_syscall n (args_of xs) (length xs) (the (running s)) s"

lemma calling_wf: "sched_wf s L F r \<Longrightarrow> sched_wf (calling n xs s) L F r"
  by (simp add: calling_def enter_syscall_def upd_pcb_def sched_wf_def)

lemma calling_arg:
  "running s = Some r \<Longrightarrow> i < length xs \<Longrightarrow> int_arg r i (calling n xs s) = to_int32 (xs ! i)"
  "running s = Some r \<Longrightarrow> i < length xs \<Longrightarrow> syscall_arg r i (calling n xs s) = xs ! i"
  by (simp_all add: int_arg_def syscall_arg_def calling_def enter_syscall_def upd_pcb_def args_of_def)

lemma calling_fields [simp]:
  "running (calling n xs s) = running s" "last_pid (calling n xs s) = last_pid s"
  "init_pcb (calling n xs s) = init_pcb s" "disastrOS_time (calling n xs s) = disastrOS_time s"
  "timers (calling n xs s) = timers s" "pcb_ptrs (calling n xs s) = pcb_ptrs s"
  "descs (calling n xs s) = descs s" "desc_ptrs (calling n xs s) = desc_ptrs s"
  "resources (calling n xs s) = resources s" "sems (calling n xs s) = sems s" "umem (calling n xs s) = umem s"
  "mqs (calling n xs s) = mqs s" "msgs (calling n xs s) = msgs s" "queue_priority (calling n xs s) = queue_priority s"
  by (simp_all add: calling_def enter_syscall_def upd_pcb_def)

lemma calling_pcb [simp]:
  "pcb_pid (pcbs (calling n xs s) p) = pcb_pid (pcbs s p)"
  "pcb_status (pcbs (calling n xs s) p) = pcb_status (pcbs s p)"
  "pcb_timer (pcbs (calling n xs s) p) = pcb_timer (pcbs s p)"
  "pcb_parent (pcbs (calling n xs s) p) = pcb_parent (pcbs s p)"
  "pcb_last_fd (pcbs (calling n xs s) p) = pcb_last_fd (pcbs s p)"
  "pcb_last_sem_fd (pcbs (calling n xs s) p) = pcb_last_sem_fd (pcbs s p)"
  "pcb_last_mq_fd (pcbs (calling n xs s) p) = pcb_last_mq_fd (pcbs s p)"
  "pcb_return_value (pcbs (calling n xs s) p) = pcb_return_value (pcbs s p)"
  by (simp_all add: calling_def enter_syscall_def upd_pcb_def)

lemma calling_other:
  assumes "running s = Some r" and "p \<noteq> r"
  shows "syscall_arg p i (calling n xs s) = syscall_arg p i s"
    "pcb_syscall_num (pcbs (calling n xs s) p) = pcb_syscall_num (pcbs s p)"
  using assms by (simp_all add: syscall_arg_def calling_def enter_syscall_def upd_pcb_def)

lemma calling_store:
  assumes "running s = Some r" and "1 < length xs"
  shows "store_result r v (set_retvalue r w (calling n xs s)) =
    (if xs ! 1 \<noteq> 0 then (set_retvalue r w (calling n xs s))\<lparr>umem := (umem s)(xs ! 1 := v)\<rparr>
     else set_retvalue r w (calling n xs s))"
proof -
  have "syscall_arg r 1 (set_retvalue r w (calling n xs s)) = xs ! 1"
    using assms calling_arg(2) [OF assms] by (simp add: set_retvalue_def upd_pcb_def syscall_arg_def)
  then show ?thesis by (simp add: store_result_def set_retvalue_def upd_pcb_def)
qed

text \<open>A system call of the running process: the arguments are stored and the handler runs.\<close>

lemma syscall_runs:
  assumes "running s = Some r" and "kind_of r = KPCB" and "0 \<le> n" and "n < 32"
    and "syscall_numarg n = length xs" and "syscall_vector n \<noteq> None"
  shows "disastrOS_syscall n (args_of xs) s = andThen (the (syscall_vector n) (calling n xs s)) (\<lambda>s'. Inr (Inr s'))"
proof -
  have "running (calling n xs s) = Some r" "pcb_syscall_num (pcbs (calling n xs s) r) = n"
    using assms(1) by (simp_all add: calling_def enter_syscall_def upd_pcb_def)
  then have "disastrOS_trap (calling n xs s) = the (syscall_vector n) (calling n xs s)"
    using assms by (auto simp: disastrOS_trap_def deref_def syscall_in_range_def table_entry_def)
  then show ?thesis
    using assms by (simp add: disastrOS_syscall_def deref_def syscall_in_range_def table_entry_def calling_def)
qed

text \<open>A number that no handler has.\<close>

lemma unimplemented_call:
  assumes r: "running s = Some r" "kind_of r = KPCB" and call: "disastrOS_syscall n args s = Inr (Inr s')"
    and none: "syscall_vector n = None"
  shows "s' = set_retvalue r DSOS_ESYSCALL_NOT_IMPLEMENTED (calling n [] s)"
proof -
  have "syscall_numarg n = 0"
    using none by (auto simp: syscall_vector_def syscall_numarg_def split: if_splits)
  moreover have "enter_syscall n args 0 r s = calling n [] s" by (simp add: calling_def enter_syscall_def r(1))
  moreover have "running (calling n [] s) = Some r" "pcb_syscall_num (pcbs (calling n [] s) r) = n"
    using r(1) by (simp_all add: calling_def enter_syscall_def upd_pcb_def)
  ultimately show ?thesis
    using call r none by (auto simp: disastrOS_syscall_def disastrOS_trap_def table_entry_def andThen_eq_Inr split: if_splits)
qed

lemma call_eqs:
  assumes "running s = Some r" and "kind_of r = KPCB"
  shows "disastrOS_preempt s = andThen (internal_preempt (calling 1 [] s)) (\<lambda>s'. Inr (Inr s'))"
    "disastrOS_fork s = andThen (internal_fork (calling 2 [] s)) (\<lambda>s'. Inr (Inr s'))"
    "disastrOS_wait pid ret s = andThen (internal_wait (calling 3 [pid, ret] s)) (\<lambda>s'. Inr (Inr s'))"
    "disastrOS_exit v s = andThen (internal_exit (calling 4 [v] s)) (\<lambda>s'. Inr (Inr s'))"
    "disastrOS_spawn f a s = andThen (internal_spawn (calling 5 [f, a] s)) (\<lambda>s'. Inr (Inr s'))"
    "disastrOS_sleep t s = andThen (internal_sleep (calling 6 [t] s)) (\<lambda>s'. Inr (Inr s'))"
    "disastrOS_openResource i k m s = andThen (internal_openResource (calling 7 [i, k, m] s)) (\<lambda>s'. Inr (Inr s'))"
    "disastrOS_closeResource fd s = andThen (internal_closeResource (calling 8 [fd] s)) (\<lambda>s'. Inr (Inr s'))"
    "disastrOS_destroyResource i s = andThen (internal_destroyResource (calling 9 [i] s)) (\<lambda>s'. Inr (Inr s'))"
    "disastrOS_shutdown s = Inr (Inr (internal_shutdown (calling 10 [] s)))"
    "disastrOS_semOpen i m c s = andThen (internal_semOpen (calling 11 [i, m, c] s)) (\<lambda>s'. Inr (Inr s'))"
    "disastrOS_semClose fd s = andThen (internal_semClose (calling 12 [fd] s)) (\<lambda>s'. Inr (Inr s'))"
    "disastrOS_semWait fd s = andThen (internal_semWait (calling 13 [fd] s)) (\<lambda>s'. Inr (Inr s'))"
    "disastrOS_semPost fd s = andThen (internal_semPost (calling 14 [fd] s)) (\<lambda>s'. Inr (Inr s'))"
    "disastrOS_mqOpen i m c s = andThen (internal_mqOpen (calling 15 [i, m, c] s)) (\<lambda>s'. Inr (Inr s'))"
    "disastrOS_mqClose fd s = andThen (internal_mqClose (calling 16 [fd] s)) (\<lambda>s'. Inr (Inr s'))"
    "disastrOS_mqRead fd b z p s = andThen (internal_mqRead (calling 17 [fd, b, z, p] s)) (\<lambda>s'. Inr (Inr s'))"
    "disastrOS_mqWrite fd b z p s = andThen (internal_mqWrite (calling 18 [fd, b, z, p] s)) (\<lambda>s'. Inr (Inr s'))"
    "disastrOS_mqUnlink i s = andThen (internal_mqUnlink (calling 19 [i] s)) (\<lambda>s'. Inr (Inr s'))"
  unfolding disastrOS_preempt_def disastrOS_fork_def disastrOS_wait_def disastrOS_exit_def disastrOS_spawn_def
    disastrOS_sleep_def disastrOS_openResource_def disastrOS_closeResource_def disastrOS_destroyResource_def
    disastrOS_shutdown_def disastrOS_semOpen_def disastrOS_semClose_def disastrOS_semWait_def disastrOS_semPost_def
    disastrOS_mqOpen_def disastrOS_mqClose_def disastrOS_mqRead_def disastrOS_mqWrite_def disastrOS_mqUnlink_def
  by (simp_all add: syscall_runs [OF assms] syscall_numarg_def syscall_vector_def)

end
