(* ===== verification/LifeCycle.thy ===== *)
theory LifeCycle
  imports SystemCall
begin

text \<open>
  The life of processes, told without the structures of the kernel: who runs, who is ready or waits, in
  which order, who is dead and not yet reaped, all by process id, and the next id to be given out. A step
  is one of ten moves. What follows of a run from its moves alone is shown here; that every step of the
  machine is such a move is shown with its invariant.
\<close>

section \<open>The moves\<close>

record population =
  running_pid :: "int option"
  ready_pids :: "int list"
  waiting_pids :: "int list"
  zombie_pids :: "int list"
  next_pid :: int

text \<open>
  Nothing changes; some that wait are woken and everybody who can run has a turn; a process is created; the
  one that runs waits, also when nobody is ready; one that waits becomes ready; the one that runs dies and
  is kept, or dies and the one that waited for it runs; a dead one is reaped; when nobody runs a new
  process is made, and runs.
\<close>

inductive life_step :: "population \<Rightarrow> population \<Rightarrow> bool" where
  stay: "life_step a a"
| turn: "set ws \<subseteq> set w \<Longrightarrow> r' # q' = rotate1 (r # ws @ q) \<Longrightarrow> life_step
    \<lparr>running_pid = Some r, ready_pids = q, waiting_pids = w, zombie_pids = z, next_pid = n\<rparr>
    \<lparr>running_pid = Some r', ready_pids = q', waiting_pids = filter (\<lambda>p. p \<notin> set ws) w, zombie_pids = z, next_pid = n\<rparr>"
| create: "life_step
    \<lparr>running_pid = Some r, ready_pids = q, waiting_pids = w, zombie_pids = z, next_pid = n\<rparr>
    \<lparr>running_pid = Some r, ready_pids = q @ [n], waiting_pids = w, zombie_pids = z, next_pid = n + 1\<rparr>"
| block: "life_step
    \<lparr>running_pid = Some r, ready_pids = p # q, waiting_pids = w, zombie_pids = z, next_pid = n\<rparr>
    \<lparr>running_pid = Some p, ready_pids = q, waiting_pids = w @ [r], zombie_pids = z, next_pid = n\<rparr>"
| block_last: "life_step
    \<lparr>running_pid = Some r, ready_pids = [], waiting_pids = w, zombie_pids = z, next_pid = n\<rparr>
    \<lparr>running_pid = None, ready_pids = [], waiting_pids = w @ [r], zombie_pids = z, next_pid = n\<rparr>"
| wake: "p \<in> set w \<Longrightarrow> life_step
    \<lparr>running_pid = Some r, ready_pids = q, waiting_pids = w, zombie_pids = z, next_pid = n\<rparr>
    \<lparr>running_pid = Some r, ready_pids = q @ [p], waiting_pids = remove1 p w, zombie_pids = z, next_pid = n\<rparr>"
| die: "life_step
    \<lparr>running_pid = Some r, ready_pids = p # q, waiting_pids = w, zombie_pids = z, next_pid = n\<rparr>
    \<lparr>running_pid = Some p, ready_pids = q, waiting_pids = w, zombie_pids = z @ [r], next_pid = n\<rparr>"
| die_awaited: "p \<in> set w \<Longrightarrow> life_step
    \<lparr>running_pid = Some r, ready_pids = q, waiting_pids = w, zombie_pids = z, next_pid = n\<rparr>
    \<lparr>running_pid = Some p, ready_pids = q, waiting_pids = remove1 p w, zombie_pids = z, next_pid = n\<rparr>"
| reap: "p \<in> set z \<Longrightarrow> life_step
    \<lparr>running_pid = Some r, ready_pids = q, waiting_pids = w, zombie_pids = z, next_pid = n\<rparr>
    \<lparr>running_pid = Some r, ready_pids = q, waiting_pids = w, zombie_pids = remove1 p z, next_pid = n\<rparr>"
| restart: "life_step
    \<lparr>running_pid = None, ready_pids = [], waiting_pids = w, zombie_pids = z, next_pid = n\<rparr>
    \<lparr>running_pid = Some n, ready_pids = [], waiting_pids = w, zombie_pids = z, next_pid = n + 1\<rparr>"

inductive_cases life_stepE: "life_step a b"

section \<open>What follows from the moves\<close>

definition alive :: "population \<Rightarrow> int set" where
  "alive a = set_option (running_pid a) \<union> set (ready_pids a) \<union> set (waiting_pids a)"

lemma next_pid_grows: "life_step a b \<Longrightarrow> next_pid a \<le> next_pid b"
  by (auto elim: life_stepE)

text \<open>Nobody comes to life but by creation, with the id that was next.\<close>

lemma life_alive:
  assumes "life_step a b"
  shows "alive b \<subseteq> insert (next_pid a) (alive a) \<and> (next_pid b = next_pid a \<longrightarrow> alive b \<subseteq> alive a)"
  using assms
proof (cases rule: life_step.cases)
  case (turn ws w r' q' r q z n)
  have "insert r' (set q') = insert r (set ws \<union> set q)" using arg_cong [OF turn(4), of set] by auto
  then show ?thesis using turn(3) by (auto simp: turn(1,2) alive_def)
qed (auto simp: alive_def dest: notin_set_remove1)

text \<open>Who dies stays dead, and the id is not given out again.\<close>

lemma dead_stay_dead:
  assumes "life_step a b" and "p \<notin> alive a" and "p < next_pid a"
  shows "p \<notin> alive b \<and> p < next_pid b"
  using life_alive [OF assms(1)] next_pid_grows [OF assms(1)] assms(2,3) by auto

text \<open>Only by a move of the one that runs does anybody become a zombie.\<close>

lemma new_zombie:
  assumes "life_step a b" and "p \<in> set (zombie_pids b)" and "p \<notin> set (zombie_pids a)"
  shows "running_pid a = Some p"
  using assms by (cases rule: life_step.cases) (auto dest: notin_set_remove1)

section \<open>The population of a kernel\<close>

definition pid_of :: "kernel \<Rightarrow> ptr \<Rightarrow> int" where
  "pid_of s p = pcb_pid (pcbs s p)"

definition census :: "kernel \<Rightarrow> (headref \<Rightarrow> ptr list) \<Rightarrow> population" where
  "census s L =
     \<lparr>running_pid = map_option (pid_of s) (running s), ready_pids = map (pid_of s) (L ReadyList),
      waiting_pids = map (pid_of s) (L WaitingList), zombie_pids = map (pid_of s) (L ZombieList), next_pid = last_pid s\<rparr>"

lemma census_cong:
  assumes "kernel_frame X s'" and "\<And>p. pcb_pid (pcbs X p) = pcb_pid (pcbs s p)" and "last_pid X = last_pid s"
    and "running s' = Some r'"
  shows "census s' L' =
     \<lparr>running_pid = Some (pid_of s r'), ready_pids = map (pid_of s) (L' ReadyList),
      waiting_pids = map (pid_of s) (L' WaitingList), zombie_pids = map (pid_of s) (L' ZombieList), next_pid = last_pid s\<rparr>"
proof -
  have "pid_of s' = pid_of s" using assms(1,2) by (simp add: pid_of_def kernel_frame_def fun_eq_iff)
  moreover have "last_pid s' = last_pid s" using assms(1,3) by (simp add: kernel_frame_def)
  ultimately show ?thesis by (simp add: census_def assms(4))
qed

lemma map_remove1_inj:
  assumes "inj_on f A" and "x \<in> A" and "set xs \<subseteq> A"
  shows "map f (remove1 x xs) = remove1 (f x) (map f xs)"
  using assms(3) by (induction xs) (use inj_onD [OF assms(1)] assms(2) in auto)

lemma map_filter_inj:
  assumes "inj_on f A" and "set ys \<subseteq> A" and "set xs \<subseteq> A"
  shows "map f (filter (\<lambda>x. x \<notin> set ys) xs) = filter (\<lambda>x. x \<notin> set (map f ys)) (map f xs)"
  using assms(3) by (induction xs) (use inj_onD [OF assms(1)] assms(2) in auto)

end
