(* ===== verification/StatusText.thy ===== *)
theory StatusText
  imports Printing ExitWait MessageQueue
begin

text \<open>
  The text of the status in terms of the lists of a well-formed kernel, and what the contents of the
  structures must be like for the printing not to fault.
\<close>

section \<open>What can be printed\<close>

text \<open>
  \<open>ptr_shown s k ko dp\<close>: the pointer \<open>dp\<close> leads to a descriptor of kind \<open>k\<close> that names a process and an
  object of kind \<open>ko\<close>. Neither has to be in use any more.
\<close>

definition desc_shown :: "kernel \<Rightarrow> kind \<Rightarrow> kind \<Rightarrow> ptr \<Rightarrow> bool" where
  "desc_shown s k ko d \<longleftrightarrow> kind_of d = k \<and>
     (\<exists>p x. desc_pcb (descs s d) = Some p \<and> kind_of p = KPCB \<and> desc_object (descs s d) = Some x \<and> kind_of x = ko)"

definition ptr_shown :: "kernel \<Rightarrow> kind \<Rightarrow> kind \<Rightarrow> ptr \<Rightarrow> bool" where
  "ptr_shown s k ko dp \<longleftrightarrow> (\<exists>d. desc_ptrs s dp = Some d \<and> desc_shown s k ko d)"

definition timer_shown :: "kernel \<Rightarrow> ptr \<Rightarrow> bool" where
  "timer_shown s t \<longleftrightarrow> (\<exists>p. timer_pcb (timers s t) = Some p \<and> kind_of p = KPCB)"

text \<open>The text of a message has to end with a zero.\<close>

definition message_shown :: "kernel \<Rightarrow> ptr \<Rightarrow> bool" where
  "message_shown s m \<longleftrightarrow> text_ends s (msg_text (msgs s m))"

definition texts_end :: "kernel \<Rightarrow> (headref \<Rightarrow> ptr list) \<Rightarrow> bool" where
  "texts_end s L \<longleftrightarrow>
     (\<forall>mq\<in>set (L MessageQueuesList). \<forall>q\<in>set (L (MqQueues mq)). \<forall>m\<in>set (L (QueueMessages q)). message_shown s m)"

definition printable :: "kernel \<Rightarrow> (headref \<Rightarrow> ptr list) \<Rightarrow> bool" where
  "printable s L \<longleftrightarrow>
     (\<forall>r. running s = Some r \<longrightarrow> kind_of r = KPCB) \<and> (\<forall>q. children_ok s L q) \<and> (\<forall>t\<in>set (L TimerList). timer_shown s t) \<and>
     (\<forall>x. \<forall>dp\<in>set (L (ResDescriptors x)). ptr_shown s KDescriptor KResource dp) \<and>
     (\<forall>x. \<forall>dp\<in>set (L (SemDescriptors x)) \<union> set (L (SemWaiting x)). ptr_shown s KSemDescriptor KSemaphore dp) \<and>
     (\<forall>x. \<forall>dp\<in>set (L (MqDescriptors x)). ptr_shown s KMQDescriptor KMessageQueue dp)"

section \<open>The text\<close>

definition pcb_text :: "kernel \<Rightarrow> (headref \<Rightarrow> ptr list) \<Rightarrow> ptr \<Rightarrow> string" where
  "pcb_text s L p =
     ''[pid: '' @ print_int (pcb_pid (pcbs s p)) @ '', child: ('' @
     joined inline (map (\<lambda>pp. print_int (pcb_pid (pcbs s (child s pp)))) (L (PcbChildren p))) @ '')]''"

definition timer_text :: "kernel \<Rightarrow> ptr \<Rightarrow> string" where
  "timer_text s t =
     ''(pid:'' @ print_int (pcb_pid (pcbs s (the (timer_pcb (timers s t))))) @ '', t:'' @
     print_int (timer_awakening_time (timers s t)) @ '')''"

definition pointer_fields :: "kernel \<Rightarrow> ptr \<Rightarrow> int \<times> int \<times> int" where
  "pointer_fields s dp =
     (let d = descs s (the (desc_ptrs s dp))
      in (pcb_pid (pcbs s (the (desc_pcb d))), desc_fd d, id_of s (the (desc_object d))))"

definition pointer_text :: "kernel \<Rightarrow> ptr \<Rightarrow> string" where
  "pointer_text s dp = (case pointer_fields s dp of (pid, fd, rid) \<Rightarrow> desc_ptr_text pid fd rid)"

definition pointers_text :: "kernel \<Rightarrow> ptr list \<Rightarrow> string" where
  "pointers_text s dps = ''['' @ joined inline (map (pointer_text s) dps) @ '']''"

definition resource_text :: "kernel \<Rightarrow> (headref \<Rightarrow> ptr list) \<Rightarrow> ptr \<Rightarrow> string" where
  "resource_text s L r =
     ''id: '' @ print_int (res_id (resources s r)) @ '', type:'' @ print_int (res_type (resources s r)) @ '', pids:'' @
     pointers_text s (L (ResDescriptors r))"

definition semaphore_text :: "kernel \<Rightarrow> (headref \<Rightarrow> ptr list) \<Rightarrow> ptr \<Rightarrow> string" where
  "semaphore_text s L r =
     ''id: '' @ print_int (sem_id (sems s r)) @ '', count:'' @ print_int (sem_count (sems s r)) @ '', pids:'' @
     pointers_text s (L (SemDescriptors r)) @ ''waiting: '' @ pointers_text s (L (SemWaiting r))"

definition message_text :: "kernel \<Rightarrow> ptr \<Rightarrow> string" where
  "message_text s m =
     ''[Message] length: '' @ print_int (msg_text_length (msgs s m)) @ '' text: '' @
     the (print_chars (umem s) (msg_text (msgs s m)) []) @ newline"

definition queue_text :: "kernel \<Rightarrow> (headref \<Rightarrow> ptr list) \<Rightarrow> ptr \<Rightarrow> string" where
  "queue_text s L q =
     ''[Priority Queue] priority: '' @ print_int (queue_priority s q) @ newline @
     (if L (QueueMessages q) = [] then ''no messages'' @ newline
      else lines_text (map (message_text s) (L (QueueMessages q))))"

definition mq_text :: "kernel \<Rightarrow> (headref \<Rightarrow> ptr list) \<Rightarrow> ptr \<Rightarrow> string" where
  "mq_text s L mq =
     ''[Message Queue] id: '' @ print_int (mq_id (mqs s mq)) @ '', priority: '' @ print_int (mq_priority (mqs s mq)) @
     '', num_messages: '' @ print_int (mq_num_messages (mqs s mq)) @ '' '' @ newline @
     lines_text (map (queue_text s L) (L (MqQueues mq))) @ pointers_text s (L (MqDescriptors mq))"

definition status_text :: "kernel \<Rightarrow> (headref \<Rightarrow> ptr list) \<Rightarrow> string" where
  "status_text s L =
     ''****************** DisastrOS ******************'' @ newline @ ''Running: '' @
     (case running s of None \<Rightarrow> [] | Some r \<Rightarrow> pcb_text s L r) @ newline @
     ''Timers: ['' @ joined inline (map (timer_text s) (L TimerList)) @ '']'' @ newline @
     ''Resources: '' @ lines_text (map (resource_text s L) (L ResourcesList)) @ newline @
     ''Semaphores: '' @ lines_text (map (semaphore_text s L) (L SemaphoresList)) @ newline @
     ''Ready: '' @ lines_text (map (pcb_text s L) (L ReadyList)) @ newline @
     ''Waiting: '' @ lines_text (map (pcb_text s L) (L WaitingList)) @ newline @
     ''Message Queues: '' @ lines_text (map (mq_text s L) (L MessageQueuesList)) @ newline @
     ''Zombie: '' @ lines_text (map (pcb_text s L) (L ZombieList)) @ newline @
     ''***********************************************'' @ newline @ newline"

section \<open>The functions print it\<close>

lemma deref_any_simps [simp]:
  "deref_any ks None = Inl NullDeref"
  "kind_of q \<in> set ks \<Longrightarrow> deref_any ks (Some q) = Inr q"
  by (simp_all add: deref_any_def)

lemma PCB_print_wf:
  assumes wf: "kernel_wf s L F" and ok: "children_ok s L p"
  shows "PCB_print p s = Inr (pcb_text s L p)"
proof -
  have "andThen (deref KPCBPtr (Some pp)) (\<lambda>pp. andThen (deref KPCB (pcb_ptrs s pp)) (\<lambda>q. Inr (print_int (pcb_pid (pcbs s q)))))
      = Inr (print_int (pcb_pid (pcbs s (child s pp))))" if "pp \<in> set (L (PcbChildren p))" for pp
    using ok that kernel_wf_kind [OF wf that] by (auto simp: children_ok_def child_def)
  from print_list_wf [OF wf this, where sep = inline] show ?thesis
    by (simp add: PCB_print_def PCBPtrList_print_def pcb_text_def)
qed

lemma PCBList_print_wf:
  assumes wf: "kernel_wf s L F" and k: "item_kind h = KPCB" and ok: "\<And>q. children_ok s L q"
  shows "PCBList_print h s = Inr (lines_text (map (pcb_text s L) (L h)))"
  unfolding PCBList_print_def
  by (rule print_lines_wf [OF wf]) (simp add: kernel_wf_kind [OF wf] k PCB_print_wf [OF wf ok])

lemma TimerList_print_wf:
  assumes wf: "kernel_wf s L F" and ok: "\<forall>t\<in>set (L TimerList). timer_shown s t"
  shows "TimerList_print TimerList s = Inr (''['' @ joined inline (map (timer_text s) (L TimerList)) @ '']'')"
proof -
  have "andThen (deref KTimerItem (Some aux)) (\<lambda>t. andThen (deref KPCB (timer_pcb (timers s t))) (\<lambda>p.
         Inr (''(pid:'' @ print_int (pcb_pid (pcbs s p)) @ '', t:'' @ print_int (timer_awakening_time (timers s t)) @ '')'')))
      = Inr (timer_text s aux)" if "aux \<in> set (L TimerList)" for aux
    using ok that kernel_wf_kind [OF wf that] by (auto simp: timer_shown_def timer_text_def)
  from print_list_wf [OF wf this, where sep = inline] show ?thesis by (simp add: TimerList_print_def)
qed

lemma desc_ptr_fields_shown:
  assumes "ptr_shown s k ko dp"
    and "(kind_of dp, k, ko) \<in> {(KDescriptorPtr, KDescriptor, KResource), (KSemDescriptorPtr, KSemDescriptor, KSemaphore),
      (KMQDescriptorPtr, KMQDescriptor, KMessageQueue)}"
  shows "desc_ptr_fields s dp = Inr (pointer_fields s dp)"
  using assms by (auto simp: desc_ptr_fields_def pointer_fields_def ptr_shown_def desc_shown_def object_id_def)

lemma DescriptorPtrList_print_wf:
  assumes wf: "kernel_wf s L F" and ok: "\<And>dp. dp \<in> set (L h) \<Longrightarrow> ptr_shown s k ko dp"
    and k: "(item_kind h, k, ko) \<in> {(KDescriptorPtr, KDescriptor, KResource), (KSemDescriptorPtr, KSemDescriptor, KSemaphore),
      (KMQDescriptorPtr, KMQDescriptor, KMessageQueue)}"
  shows "DescriptorPtrList_print h s = Inr (pointers_text s (L h))"
proof -
  have "andThen (desc_ptr_fields s dp) (\<lambda>(pid, fd, rid). Inr (desc_ptr_text pid fd rid)) = Inr (pointer_text s dp)"
    if "dp \<in> set (L h)" for dp
    using desc_ptr_fields_shown [OF ok [OF that]] k kernel_wf_kind [OF wf that] by (simp add: pointer_text_def split: prod.splits)
  from print_list_wf [OF wf this, where sep = inline] show ?thesis
    by (simp add: DescriptorPtrList_print_def pointers_text_def)
qed

lemma ResourceList_print_wf:
  assumes wf: "kernel_wf s L F" and ok: "\<forall>x. \<forall>dp\<in>set (L (ResDescriptors x)). ptr_shown s KDescriptor KResource dp"
  shows "ResourceList_print ResourcesList s = Inr (lines_text (map (resource_text s L) (L ResourcesList)))"
  unfolding ResourceList_print_def
proof (rule print_lines_wf [OF wf])
  fix x assume x: "x \<in> set (L ResourcesList)"
  have "DescriptorPtrList_print (ResDescriptors x) s = Inr (pointers_text s (L (ResDescriptors x)))"
    by (rule DescriptorPtrList_print_wf [OF wf, of _ KDescriptor KResource]) (use ok in auto)
  then show "andThen (deref KResource (Some x)) (\<lambda>r. Resource_print r s) = Inr (resource_text s L x)"
    using kernel_wf_kind [OF wf x] by (simp add: Resource_print_def resource_text_def)
qed

lemma SemaphoreList_print_wf:
  assumes wf: "kernel_wf s L F"
    and ok: "\<forall>x. \<forall>dp\<in>set (L (SemDescriptors x)) \<union> set (L (SemWaiting x)). ptr_shown s KSemDescriptor KSemaphore dp"
  shows "SemaphoreList_print SemaphoresList s = Inr (lines_text (map (semaphore_text s L) (L SemaphoresList)))"
  unfolding SemaphoreList_print_def
proof (rule print_lines_wf [OF wf])
  fix x assume x: "x \<in> set (L SemaphoresList)"
  have "DescriptorPtrList_print h s = Inr (pointers_text s (L h))" if "h \<in> {SemDescriptors x, SemWaiting x}" for h
    by (rule DescriptorPtrList_print_wf [OF wf, of _ KSemDescriptor KSemaphore]) (use ok that in auto)
  then show "andThen (deref KSemaphore (Some x)) (\<lambda>r. Semaphore_print r s) = Inr (semaphore_text s L x)"
    using kernel_wf_kind [OF wf x] by (simp add: Semaphore_print_def semaphore_text_def)
qed

lemma Message_print_wf:
  assumes "message_shown s m"
  shows "Message_print m s = Inr (message_text s m)"
proof -
  obtain n where "umem s (msg_text (msgs s m) + int n) = 0" using assms by (auto simp: message_shown_def text_ends_def)
  from print_chars_ends [of "umem s", OF this, of "[]"] show ?thesis
    using assms by (auto simp: Message_print_def message_text_def print_string_def message_shown_def text_ends_def)
qed

lemma Queue_print_wf:
  assumes wf: "kernel_wf s L F" and ok: "\<forall>m\<in>set (L (QueueMessages q)). message_shown s m"
  shows "Queue_print q s = Inr (queue_text s L q)"
proof -
  have "print_lines (\<lambda>aux. andThen (deref KMessage (Some aux)) (\<lambda>r. Message_print r s)) (QueueMessages q) s =
      Inr (lines_text (map (message_text s) (L (QueueMessages q))))"
    by (rule print_lines_wf [OF wf]) (use ok in \<open>simp add: kernel_wf_kind [OF wf] Message_print_wf\<close>)
  then show ?thesis by (simp add: Queue_print_def MessageList_print_def queue_text_def wf_list_size [OF wf])
qed

lemma MessageQueueList_print_wf:
  assumes wf: "kernel_wf s L F" and ok: "\<forall>x. \<forall>dp\<in>set (L (MqDescriptors x)). ptr_shown s KMQDescriptor KMessageQueue dp"
    and texts: "texts_end s L"
  shows "MessageQueueList_print MessageQueuesList s = Inr (lines_text (map (mq_text s L) (L MessageQueuesList)))"
  unfolding MessageQueueList_print_def
proof (rule print_lines_wf [OF wf])
  fix x assume x: "x \<in> set (L MessageQueuesList)"
  have shown: "\<forall>q\<in>set (L (MqQueues x)). \<forall>m\<in>set (L (QueueMessages q)). message_shown s m"
    using texts x by (simp add: texts_end_def)
  have "DescriptorPtrList_print (MqDescriptors x) s = Inr (pointers_text s (L (MqDescriptors x)))"
    by (rule DescriptorPtrList_print_wf [OF wf, of _ KMQDescriptor KMessageQueue]) (use ok in auto)
  moreover have "QueueList_print (MqQueues x) s = Inr (lines_text (map (queue_text s L) (L (MqQueues x))))"
    unfolding QueueList_print_def
    by (rule print_lines_wf [OF wf]) (use shown in \<open>simp add: kernel_wf_kind [OF wf] Queue_print_wf [OF wf]\<close>)
  ultimately show "andThen (deref KMessageQueue (Some x)) (\<lambda>r. MessageQueue_print r s) = Inr (mq_text s L x)"
    using kernel_wf_kind [OF wf x] by (simp add: MessageQueue_print_def mq_text_def)
qed

lemma printStatus_wf:
  assumes wf: "kernel_wf s L F" and ok: "printable s L" and texts: "texts_end s L"
  shows "disastrOS_printStatus s = Inr (status_text s L)"
proof -
  note p = ok [unfolded printable_def]
  have kids: "children_ok s L q" for q using p by blast
  note lists = TimerList_print_wf [OF wf] ResourceList_print_wf [OF wf] SemaphoreList_print_wf [OF wf]
    MessageQueueList_print_wf [OF wf _ texts] PCBList_print_wf [OF wf _ kids]
  show ?thesis
  proof (cases "running s")
    case None
    then show ?thesis using p by (simp add: disastrOS_printStatus_def lists status_text_def)
  next
    case (Some r)
    then show ?thesis using p PCB_print_wf [OF wf kids] by (simp add: disastrOS_printStatus_def lists status_text_def)
  qed
qed

text \<open>The printers for the pointers of semaphores and of message queues swap the first two numbers.\<close>

lemma swapped_pointers:
  assumes wf: "kernel_wf s L F" and ok: "\<And>dp. dp \<in> set (L h) \<Longrightarrow> ptr_shown s k ko dp"
    and k: "(item_kind h, k, ko) \<in> {(KSemDescriptorPtr, KSemDescriptor, KSemaphore), (KMQDescriptorPtr, KMQDescriptor, KMessageQueue)}"
  defines "t \<equiv> ''['' @ joined inline (map (\<lambda>dp. case pointer_fields s dp of (pid, fd, rid) \<Rightarrow> desc_ptr_text fd pid rid) (L h)) @ '']''"
  shows "SemDescriptorPtrList_print h s = Inr t" "MQDescriptorPtrList_print h s = Inr t"
proof -
  have "andThen (desc_ptr_fields s dp) (\<lambda>(pid, fd, rid). Inr (desc_ptr_text fd pid rid)) =
      Inr (case pointer_fields s dp of (pid, fd, rid) \<Rightarrow> desc_ptr_text fd pid rid)" if "dp \<in> set (L h)" for dp
    using desc_ptr_fields_shown [OF ok [OF that]] k kernel_wf_kind [OF wf that] by (auto split: prod.splits)
  from print_list_wf [OF wf this, where sep = inline]
  show "SemDescriptorPtrList_print h s = Inr t" "MQDescriptorPtrList_print h s = Inr t"
    by (simp_all add: SemDescriptorPtrList_print_def MQDescriptorPtrList_print_def t_def)
qed

end
