(* ===== verification/Machine.thy ===== *)
theory Machine
  imports LifeCycle StatusText
begin

text \<open>
  The machine as a transition system: the calls on processes, resources, semaphores and message queues,
  and the ticks of the clock, in any order. The invariant says that every block of a process is free or in exactly
  one place, that the status of a process agrees with the list it is in, that process ids are unique,
  that the tree of processes is consistent, and that descriptors lead to their objects and back.
\<close>

section \<open>The invariant\<close>

text \<open>The processes there are, \<open>r\<close> the running one, and the pointers to children.\<close>

definition procs :: "(headref \<Rightarrow> ptr list) \<Rightarrow> ptr \<Rightarrow> ptr set" where
  "procs L r = insert r (set (L ReadyList) \<union> set (L WaitingList) \<union> set (L ZombieList))"

definition child_ptrs :: "(headref \<Rightarrow> ptr list) \<Rightarrow> ptr set" where
  "child_ptrs L = (\<Union>q. set (L (PcbChildren q)))"

text \<open>The processes that wait on a semaphore: the pointer to a descriptor of theirs is in its queue.\<close>

definition sem_waits :: "kernel \<Rightarrow> (headref \<Rightarrow> ptr list) \<Rightarrow> ptr \<Rightarrow> bool" where
  "sem_waits s L d \<longleftrightarrow> (\<exists>sem. \<exists>dp\<in>set (L (SemWaiting sem)). desc_ptr (descs s d) = Some dp)"

definition blocked_on_sem :: "kernel \<Rightarrow> (headref \<Rightarrow> ptr list) \<Rightarrow> ptr set" where
  "blocked_on_sem s L = {w. \<exists>d\<in>set (L (PcbSemDescriptors w)). sem_waits s L d}"

text \<open>The calls on semaphores move processes without setting their status.\<close>

definition status_ok :: "kernel \<Rightarrow> (headref \<Rightarrow> ptr list) \<Rightarrow> ptr \<Rightarrow> bool" where
  "status_ok s L r \<longleftrightarrow>
     (\<forall>p\<in>insert r (set (L ReadyList) \<union> blocked_on_sem s L). pcb_status (pcbs s p) \<in> {Running, Ready}) \<and>
     (\<forall>p\<in>set (L ZombieList). pcb_status (pcbs s p) = Zombie) \<and>
     (\<forall>p. pcb_status (pcbs s p) = Waiting \<longleftrightarrow> p \<in> set (L WaitingList) - blocked_on_sem s L) \<and>
     blocked_on_sem s L \<subseteq> set (L WaitingList)"

text \<open>No block of a process gets lost: it is free or one of the processes.\<close>

definition places_ok :: "(headref \<Rightarrow> ptr list) \<Rightarrow> (kind \<Rightarrow> int list) \<Rightarrow> ptr \<Rightarrow> bool" where
  "places_ok L F r \<longleftrightarrow> (\<forall>i\<in>{0..<1024} - set (F KPCB). Ptr KPCB i \<in> procs L r)"

text \<open>Each pointer in a list of children points to a process of its own.\<close>

definition family_ok :: "kernel \<Rightarrow> (headref \<Rightarrow> ptr list) \<Rightarrow> ptr \<Rightarrow> bool" where
  "family_ok s L r \<longleftrightarrow>
     (\<forall>pp\<in>child_ptrs L. \<exists>c\<in>procs L r. pcb_ptrs s pp = Some c) \<and> inj_on (pcb_ptrs s) (child_ptrs L)"

definition pids_ok :: "kernel \<Rightarrow> (headref \<Rightarrow> ptr list) \<Rightarrow> ptr \<Rightarrow> bool" where
  "pids_ok s L r \<longleftrightarrow>
     (\<forall>p\<in>procs L r. pcb_pid (pcbs s p) < last_pid s) \<and> inj_on (\<lambda>p. pcb_pid (pcbs s p)) (procs L r)"

text \<open>
  The first process of the last start never ends and has no parent. First processes of earlier starts
  have none either; a process that has a parent is not its own.
\<close>

definition parents_ok :: "kernel \<Rightarrow> (headref \<Rightarrow> ptr list) \<Rightarrow> ptr \<Rightarrow> bool" where
  "parents_ok s L r \<longleftrightarrow>
     (\<exists>ini. init_pcb s = Some ini \<and> ini \<in> procs L r - set (L ZombieList) \<and> pcb_parent (pcbs s ini) = None \<and>
       (\<forall>p\<in>procs L r. \<forall>par. pcb_parent (pcbs s p) = Some par \<longrightarrow> kind_of par = KPCB \<and> par \<noteq> p))"

text \<open>
  No process has its timer recorded, and none whose timer runs is in a call of wait or waits on a
  semaphore.
\<close>

definition sleepers_ok :: "kernel \<Rightarrow> (headref \<Rightarrow> ptr list) \<Rightarrow> bool" where
  "sleepers_ok s L \<longleftrightarrow>
     (\<forall>p. pcb_timer (pcbs s p) = None) \<and>
     (\<forall>t\<in>set (L TimerList). pcb_syscall_num (pcbs s (timer_owner s t)) \<noteq> DSOS_CALL_WAIT \<and>
        timer_owner s t \<notin> blocked_on_sem s L)"

text \<open>
  Every descriptor of a process names a resource that exists and leads to a pointer of that resource
  which leads back; every pointer of a resource leads to a descriptor that names a process and a
  resource; what is not a resource of the system has no pointers.
\<close>

definition descriptors_ok :: "kernel \<Rightarrow> (headref \<Rightarrow> ptr list) \<Rightarrow> bool" where
  "descriptors_ok s L \<longleftrightarrow>
     (\<forall>q. \<forall>d\<in>set (L (PcbDescriptors q)). \<exists>res dp. desc_linked s L d res dp) \<and>
     (\<forall>x. \<forall>dp\<in>set (L (ResDescriptors x)). ptr_shown s KDescriptor KResource dp) \<and>
     (\<forall>x. x \<notin> set (L ResourcesList) \<longrightarrow> L (ResDescriptors x) = [])"

lemma descriptors_okD:
  assumes "descriptors_ok s L"
  shows "d \<in> set (L (PcbDescriptors q)) \<Longrightarrow> \<exists>res dp. desc_linked s L d res dp"
    and "x \<notin> set (L ResourcesList) \<Longrightarrow> L (ResDescriptors x) = []"
    and "dp \<in> set (L (ResDescriptors x)) \<Longrightarrow> ptr_shown s KDescriptor KResource dp"
  using assms by (auto simp: descriptors_ok_def)

text \<open>
  \<open>semdesc_linked\<close>: the descriptor \<open>d\<close> of process \<open>q\<close> names a semaphore, and its pointer is in one of the two
  lists of that semaphore and leads back. What waits in the queue of a semaphore is the pointer of such
  a descriptor, one for each process; what is not a semaphore of the system has only waiting ones.
  Every pointer in the two lists leads to a descriptor that names a process and a semaphore.
\<close>

definition semdesc_linked :: "kernel \<Rightarrow> (headref \<Rightarrow> ptr list) \<Rightarrow> ptr \<Rightarrow> ptr \<Rightarrow> ptr \<Rightarrow> ptr \<Rightarrow> bool" where
  "semdesc_linked s L q d sem dp \<longleftrightarrow>
     desc_pcb (descs s d) = Some q \<and> desc_object (descs s d) = Some sem \<and> kind_of sem = KSemaphore \<and>
     desc_ptr (descs s d) = Some dp \<and> desc_ptrs s dp = Some d \<and>
     dp \<in> set (L (SemDescriptors sem)) \<union> set (L (SemWaiting sem))"

definition semaphores_ok :: "kernel \<Rightarrow> (headref \<Rightarrow> ptr list) \<Rightarrow> bool" where
  "semaphores_ok s L \<longleftrightarrow>
     (\<forall>q. \<forall>d\<in>set (L (PcbSemDescriptors q)). \<exists>sem dp. semdesc_linked s L q d sem dp) \<and>
     (\<forall>sem. \<forall>dp\<in>set (L (SemWaiting sem)). \<exists>q. \<exists>d\<in>set (L (PcbSemDescriptors q)). semdesc_linked s L q d sem dp) \<and>
     (\<forall>q. \<forall>d\<in>set (L (PcbSemDescriptors q)). \<forall>e\<in>set (L (PcbSemDescriptors q)).
        sem_waits s L d \<longrightarrow> sem_waits s L e \<longrightarrow> d = e) \<and>
     (\<forall>x. x \<notin> set (L SemaphoresList) \<longrightarrow> L (SemDescriptors x) = []) \<and>
     (\<forall>x. \<forall>dp\<in>set (L (SemDescriptors x)) \<union> set (L (SemWaiting x)). ptr_shown s KSemDescriptor KSemaphore dp)"

lemma semaphores_okD:
  assumes "semaphores_ok s L"
  shows "d \<in> set (L (PcbSemDescriptors q)) \<Longrightarrow> \<exists>sem dp. semdesc_linked s L q d sem dp"
    and "dp \<in> set (L (SemWaiting sem)) \<Longrightarrow> \<exists>q. \<exists>d\<in>set (L (PcbSemDescriptors q)). semdesc_linked s L q d sem dp"
    and "d \<in> set (L (PcbSemDescriptors q)) \<Longrightarrow> e \<in> set (L (PcbSemDescriptors q)) \<Longrightarrow> sem_waits s L d \<Longrightarrow> sem_waits s L e \<Longrightarrow> d = e"
    and "x \<notin> set (L SemaphoresList) \<Longrightarrow> L (SemDescriptors x) = []"
    and "dp \<in> set (L (SemDescriptors x)) \<union> set (L (SemWaiting x)) \<Longrightarrow> ptr_shown s KSemDescriptor KSemaphore dp"
  using assms unfolding semaphores_ok_def by blast+

text \<open>
  There is at most one message queue. It has a queue for each priority up to its own, the last one first,
  and its counter is at least the number of messages there are, and at most 128. What is a queue of none
  has no messages, and every message has a text. The descriptors are linked as those of resources are,
  and the next number a process gives out is the number of descriptors it has, at most 16.
\<close>

definition mqdesc_linked :: "kernel \<Rightarrow> (headref \<Rightarrow> ptr list) \<Rightarrow> ptr \<Rightarrow> ptr \<Rightarrow> ptr \<Rightarrow> bool" where
  "mqdesc_linked s L d mq dp \<longleftrightarrow>
     desc_object (descs s d) = Some mq \<and> kind_of mq = KMessageQueue \<and>
     desc_ptr (descs s d) = Some dp \<and> dp \<in> set (L (MqDescriptors mq)) \<and> desc_ptrs s dp = Some d"

definition messages_in :: "(headref \<Rightarrow> ptr list) \<Rightarrow> ptr \<Rightarrow> int" where
  "messages_in L mq = sum_list (map (\<lambda>q. int (length (L (QueueMessages q)))) (L (MqQueues mq)))"

definition levels_ok :: "kernel \<Rightarrow> (headref \<Rightarrow> ptr list) \<Rightarrow> ptr \<Rightarrow> bool" where
  "levels_ok s L mq \<longleftrightarrow>
     0 \<le> mq_priority (mqs s mq) \<and> map (queue_priority s) (L (MqQueues mq)) = rev [0..mq_priority (mqs s mq)] \<and>
     messages_in L mq \<le> mq_num_messages (mqs s mq) \<and> mq_num_messages (mqs s mq) \<le> 128"

definition message_queues_ok :: "kernel \<Rightarrow> (headref \<Rightarrow> ptr list) \<Rightarrow> bool" where
  "message_queues_ok s L \<longleftrightarrow>
     length (L MessageQueuesList) \<le> 1 \<and> (\<forall>mq\<in>set (L MessageQueuesList). levels_ok s L mq) \<and>
     (\<forall>q. (\<forall>mq\<in>set (L MessageQueuesList). q \<notin> set (L (MqQueues mq))) \<longrightarrow> L (QueueMessages q) = []) \<and>
     (\<forall>q. \<forall>m\<in>set (L (QueueMessages q)). msg_text (msgs s m) \<noteq> 0) \<and>
     (\<forall>q. \<forall>d\<in>set (L (PcbMqDescriptors q)). \<exists>mq dp. mqdesc_linked s L d mq dp) \<and>
     (\<forall>x. \<forall>dp\<in>set (L (MqDescriptors x)). ptr_shown s KMQDescriptor KMessageQueue dp) \<and>
     (\<forall>x. x \<notin> set (L MessageQueuesList) \<longrightarrow> L (MqDescriptors x) = []) \<and>
     (\<forall>q. pcb_last_mq_fd (pcbs s q) = int (length (L (PcbMqDescriptors q))) \<and> length (L (PcbMqDescriptors q)) \<le> 16)"

lemma message_queues_okD:
  assumes "message_queues_ok s L"
  shows "length (L MessageQueuesList) \<le> 1" "mq \<in> set (L MessageQueuesList) \<Longrightarrow> levels_ok s L mq"
    "\<lbrakk>\<And>mq. mq \<in> set (L MessageQueuesList) \<Longrightarrow> q \<notin> set (L (MqQueues mq))\<rbrakk> \<Longrightarrow> L (QueueMessages q) = []"
    "m \<in> set (L (QueueMessages q)) \<Longrightarrow> msg_text (msgs s m) \<noteq> 0"
    "d \<in> set (L (PcbMqDescriptors q)) \<Longrightarrow> \<exists>mq dp. mqdesc_linked s L d mq dp"
    "dp \<in> set (L (MqDescriptors x)) \<Longrightarrow> ptr_shown s KMQDescriptor KMessageQueue dp"
    "x \<notin> set (L MessageQueuesList) \<Longrightarrow> L (MqDescriptors x) = []"
    "pcb_last_mq_fd (pcbs s q) = int (length (L (PcbMqDescriptors q)))" "length (L (PcbMqDescriptors q)) \<le> 16"
  using assms by (auto simp: message_queues_ok_def)

definition machine_inv :: "kernel \<Rightarrow> (headref \<Rightarrow> ptr list) \<Rightarrow> (kind \<Rightarrow> int list) \<Rightarrow> ptr \<Rightarrow> bool" where
  "machine_inv s L F r \<longleftrightarrow>
     sched_wf s L F r \<and> timers_ok s L \<and> status_ok s L r \<and> places_ok L F r \<and> family_ok s L r \<and>
     pids_ok s L r \<and> parents_ok s L r \<and> sleepers_ok s L \<and> descriptors_ok s L \<and> semaphores_ok s L \<and>
     message_queues_ok s L"

lemma machine_invD:
  assumes "machine_inv s L F r"
  shows "sched_wf s L F r" "timers_ok s L" "status_ok s L r" "places_ok L F r" "family_ok s L r"
    "pids_ok s L r" "parents_ok s L r" "sleepers_ok s L" "descriptors_ok s L" "semaphores_ok s L"
    "message_queues_ok s L"
  using assms by (simp_all add: machine_inv_def)

section \<open>General facts\<close>

lemma procs_wf:
  assumes "sched_wf s L F r" and "p \<in> procs L r"
  shows "kind_of p = KPCB" "live s F p"
proof -
  note r = sched_wfD [OF assms(1)]
  show "kind_of p = KPCB" "live s F p"
    using assms(2) r(3,7) kernel_wf_kind [OF r(1), of p] kernel_wf_live [OF r(1), of p] by (auto simp: procs_def)
qed

lemma sched_disjoint:
  assumes "sched_wf s L F r"
  shows "r \<notin> set (L h)" "h \<noteq> h' \<Longrightarrow> p \<in> set (L h) \<Longrightarrow> p \<notin> set (L h')" "distinct (L h)"
  using sched_wfD(5) [OF assms] represents_disjoint [OF kernel_wf_represents [OF sched_wfD(1) [OF assms]]]
    represents_distinct [OF kernel_wf_represents [OF sched_wfD(1) [OF assms]]]
  by (auto dest: not_listedD)

lemma child_ptrsI: "pp \<in> set (L (PcbChildren q)) \<Longrightarrow> pp \<in> child_ptrs L"
  by (auto simp: child_ptrs_def)

lemma family_child:
  assumes "family_ok s L r" and "pp \<in> child_ptrs L"
  shows "pcb_ptrs s pp = Some (child s pp)" "child s pp \<in> procs L r"
  using assms by (auto simp: family_ok_def child_def)

lemma family_children_ok:
  assumes "sched_wf s L F r" and "family_ok s L r"
  shows "children_ok s L q"
  unfolding children_ok_def
proof
  fix pp assume "pp \<in> set (L (PcbChildren q))"
  then have "pp \<in> child_ptrs L" by (rule child_ptrsI)
  from family_child [OF assms(2) this] procs_wf(1) [OF assms(1)]
  show "\<exists>c. pcb_ptrs s pp = Some c \<and> kind_of c = KPCB" by blast
qed

text \<open>The status tells where a process is.\<close>

lemma status_okD:
  assumes "status_ok s L r"
  shows "pcb_status (pcbs s r) = Running \<or> pcb_status (pcbs s r) = Ready"
    "p \<in> set (L ReadyList) \<Longrightarrow> pcb_status (pcbs s p) = Running \<or> pcb_status (pcbs s p) = Ready"
    "p \<in> set (L ZombieList) \<Longrightarrow> pcb_status (pcbs s p) = Zombie"
    "pcb_status (pcbs s p) = Waiting \<longleftrightarrow> p \<in> set (L WaitingList) \<and> p \<notin> blocked_on_sem s L"
    "p \<in> blocked_on_sem s L \<Longrightarrow> p \<in> set (L WaitingList)"
    "p \<in> blocked_on_sem s L \<Longrightarrow> pcb_status (pcbs s p) = Running \<or> pcb_status (pcbs s p) = Ready"
  using assms by (auto simp: status_ok_def)

lemma status_okI:
  assumes "blocked_on_sem X L' = B"
    and "\<And>p. p = r \<or> p \<in> set (L' ReadyList) \<or> p \<in> B \<Longrightarrow> pcb_status (pcbs X p) = Running \<or> pcb_status (pcbs X p) = Ready"
    and "\<And>p. p \<in> set (L' ZombieList) \<Longrightarrow> pcb_status (pcbs X p) = Zombie"
    and "\<And>p. pcb_status (pcbs X p) = Waiting \<longleftrightarrow> p \<in> set (L' WaitingList) \<and> p \<notin> B"
    and "\<And>p. p \<in> B \<Longrightarrow> p \<in> set (L' WaitingList)"
  shows "status_ok X L' r"
  using assms by (auto simp: status_ok_def)

lemma zombie_place:
  assumes "status_ok s L r" and "p \<in> procs L r" and "pcb_status (pcbs s p) = Zombie"
  shows "p \<in> set (L ZombieList)"
  using assms(2,3) status_okD(2-6) [OF assms(1), of p] status_okD(1) [OF assms(1)] by (auto simp: procs_def)

text \<open>Contents as equal fields: what a frame says of the parts of the invariant.\<close>

lemma inv_frame:
  assumes "kernel_frame s s'"
  shows "status_ok s' L r = status_ok s L r" "family_ok s' L r = family_ok s L r" "pids_ok s' L r = pids_ok s L r"
    "parents_ok s' L r = parents_ok s L r" "sleepers_ok s' L = sleepers_ok s L" "descriptors_ok s' L = descriptors_ok s L"
    "semaphores_ok s' L = semaphores_ok s L" "blocked_on_sem s' L = blocked_on_sem s L"
    "message_queues_ok s' L = message_queues_ok s L"
  using assms
  by (simp_all add: kernel_frame_def status_ok_def family_ok_def pids_ok_def parents_ok_def sleepers_ok_def timer_owner_def
      descriptors_ok_def desc_linked_def ptr_shown_def desc_shown_def semaphores_ok_def semdesc_linked_def blocked_on_sem_def sem_waits_def
      message_queues_ok_def levels_ok_def mqdesc_linked_def)

text \<open>
  What the invariants of resources and of semaphores rest on: their own lists, and the descriptors and
  pointers of their own kind.
\<close>

definition same_descs :: "kind \<Rightarrow> kind \<Rightarrow> kernel \<Rightarrow> kernel \<Rightarrow> bool" where
  "same_descs k kp s s' \<longleftrightarrow>
     (\<forall>d. kind_of d = k \<longrightarrow> descs s' d = descs s d) \<and> (\<forall>dp. kind_of dp = kp \<longrightarrow> desc_ptrs s' dp = desc_ptrs s dp)"

definition same_semaphores :: "(headref \<Rightarrow> ptr list) \<Rightarrow> (headref \<Rightarrow> ptr list) \<Rightarrow> bool" where
  "same_semaphores L L' \<longleftrightarrow> L' SemaphoresList = L SemaphoresList \<and>
     (\<forall>x. L' (PcbSemDescriptors x) = L (PcbSemDescriptors x) \<and> L' (SemDescriptors x) = L (SemDescriptors x) \<and>
       L' (SemWaiting x) = L (SemWaiting x))"

text \<open>A call that is not about resources may only empty the list of descriptors of a new process.\<close>

definition same_resources :: "(headref \<Rightarrow> ptr list) \<Rightarrow> (headref \<Rightarrow> ptr list) \<Rightarrow> bool" where
  "same_resources L L' \<longleftrightarrow> L' ResourcesList = L ResourcesList \<and>
     (\<forall>x. L' (ResDescriptors x) = L (ResDescriptors x) \<and> set (L' (PcbDescriptors x)) \<subseteq> set (L (PcbDescriptors x)))"

lemma ptr_shown_cong:
  assumes "same_descs k kp s s'" and "kind_of dp = kp"
  shows "ptr_shown s' k ko dp = ptr_shown s k ko dp"
  using assms by (auto simp: ptr_shown_def desc_shown_def same_descs_def)

lemma descriptors_cong:
  assumes ok: "descriptors_ok s L" and wf: "kernel_wf s L F" and D: "same_descs KDescriptor KDescriptorPtr s s'"
    and L: "same_resources L L'"
  shows "descriptors_ok s' L'"
proof -
  have "desc_linked s' L' d res dp" if "d \<in> set (L (PcbDescriptors q))" "desc_linked s L d res dp" for q d res dp
    using that kernel_wf_kind [OF wf that(1)] kernel_wf_kind [OF wf, of dp "ResDescriptors res"] D L
    by (auto simp: desc_linked_def same_descs_def same_resources_def)
  moreover have "d \<in> set (L (PcbDescriptors q))" if "d \<in> set (L' (PcbDescriptors q))" for q d
    using L that by (auto simp: same_resources_def)
  moreover have "ptr_shown s' KDescriptor KResource dp" if "dp \<in> set (L (ResDescriptors x))" for dp x
    using descriptors_okD(3) [OF ok that] ptr_shown_cong [OF D] kernel_wf_kind [OF wf that] by simp
  ultimately show ?thesis
    using descriptors_okD [OF ok] L unfolding descriptors_ok_def same_resources_def by metis
qed

lemma semdesc_linked_cong:
  assumes wf: "kernel_wf s L F" and D: "same_descs KSemDescriptor KSemDescriptorPtr s s'" and L: "same_semaphores L L'"
    and d: "d \<in> set (L (PcbSemDescriptors q))"
  shows "semdesc_linked s' L' q d sem dp = semdesc_linked s L q d sem dp"
proof -
  have "kind_of d = KSemDescriptor" using kernel_wf_kind [OF wf d] by simp
  moreover have "kind_of dp = KSemDescriptorPtr" if "dp \<in> set (L (SemDescriptors sem)) \<union> set (L (SemWaiting sem))"
    using that kernel_wf_kind [OF wf, of dp "SemDescriptors sem"] kernel_wf_kind [OF wf, of dp "SemWaiting sem"] by auto
  ultimately show ?thesis using D L by (auto simp: semdesc_linked_def same_descs_def same_semaphores_def)
qed

lemma semaphores_cong:
  assumes ok: "semaphores_ok s L" and wf: "kernel_wf s L F" and D: "same_descs KSemDescriptor KSemDescriptorPtr s s'"
    and L: "same_semaphores L L'"
  shows "semaphores_ok s' L'" "blocked_on_sem s' L' = blocked_on_sem s L"
proof -
  have same: "semdesc_linked s' L' q d = semdesc_linked s L q d" if "d \<in> set (L (PcbSemDescriptors q))" for q d
    by (intro ext semdesc_linked_cong [OF wf D L that])
  have L': "L' SemaphoresList = L SemaphoresList" "L' (PcbSemDescriptors x) = L (PcbSemDescriptors x)"
    "L' (SemDescriptors x) = L (SemDescriptors x)" "L' (SemWaiting x) = L (SemWaiting x)" for x
    using L by (simp_all add: same_semaphores_def)
  have waits: "sem_waits s' L' d = sem_waits s L d" if "d \<in> set (L (PcbSemDescriptors w))" for d w
    using D kernel_wf_kind [OF wf that] by (simp add: same_descs_def sem_waits_def L')
  have "kind_of dp = KSemDescriptorPtr" if "dp \<in> set (L (SemDescriptors x)) \<union> set (L (SemWaiting x))" for dp x
    using that kernel_wf_kind [OF wf, of dp "SemDescriptors x"] kernel_wf_kind [OF wf, of dp "SemWaiting x"] by auto
  then have "\<forall>x. \<forall>dp\<in>set (L (SemDescriptors x)) \<union> set (L (SemWaiting x)). ptr_shown s' KSemDescriptor KSemaphore dp"
    using semaphores_okD(5) [OF ok] ptr_shown_cong [OF D] by blast
  then show "semaphores_ok s' L'"
    using ok unfolding semaphores_ok_def L' by (simp add: same waits cong: ball_cong bex_cong)
  show "blocked_on_sem s' L' = blocked_on_sem s L" unfolding blocked_on_sem_def L' by (simp add: waits cong: bex_cong)
qed

text \<open>The same for message queues: their contents matter too.\<close>

definition same_mqs :: "kernel \<Rightarrow> (headref \<Rightarrow> ptr list) \<Rightarrow> kernel \<Rightarrow> (headref \<Rightarrow> ptr list) \<Rightarrow> bool" where
  "same_mqs s L s' L' \<longleftrightarrow>
     mqs s' = mqs s \<and> queue_priority s' = queue_priority s \<and> msgs s' = msgs s \<and> L' MessageQueuesList = L MessageQueuesList \<and>
     (\<forall>x. L' (MqQueues x) = L (MqQueues x) \<and> L' (MqDescriptors x) = L (MqDescriptors x) \<and>
       L' (QueueMessages x) = L (QueueMessages x) \<and>
       (L' (PcbMqDescriptors x) = L (PcbMqDescriptors x) \<and> pcb_last_mq_fd (pcbs s' x) = pcb_last_mq_fd (pcbs s x) \<or>
        L' (PcbMqDescriptors x) = [] \<and> pcb_last_mq_fd (pcbs s' x) = 0))"

lemma message_queues_cong:
  assumes ok: "message_queues_ok s L" and wf: "kernel_wf s L F" and D: "same_descs KMQDescriptor KMQDescriptorPtr s s'"
    and L: "same_mqs s L s' L'"
  shows "message_queues_ok s' L'"
proof -
  have e: "mqs s' = mqs s" "queue_priority s' = queue_priority s" "msgs s' = msgs s" "L' MessageQueuesList = L MessageQueuesList"
    "L' (MqQueues x) = L (MqQueues x)" "L' (MqDescriptors x) = L (MqDescriptors x)" "L' (QueueMessages x) = L (QueueMessages x)" for x
    using L by (simp_all add: same_mqs_def)
  have own: "L' (PcbMqDescriptors q) = L (PcbMqDescriptors q) \<or> L' (PcbMqDescriptors q) = []"
    "pcb_last_mq_fd (pcbs s' q) = int (length (L' (PcbMqDescriptors q)))" "length (L' (PcbMqDescriptors q)) \<le> 16" for q
  proof -
    have "L' (PcbMqDescriptors q) = L (PcbMqDescriptors q) \<and> pcb_last_mq_fd (pcbs s' q) = pcb_last_mq_fd (pcbs s q) \<or>
        L' (PcbMqDescriptors q) = [] \<and> pcb_last_mq_fd (pcbs s' q) = 0"
      using L unfolding same_mqs_def by blast
    then show "L' (PcbMqDescriptors q) = L (PcbMqDescriptors q) \<or> L' (PcbMqDescriptors q) = []"
      "pcb_last_mq_fd (pcbs s' q) = int (length (L' (PcbMqDescriptors q)))" "length (L' (PcbMqDescriptors q)) \<le> 16"
      using message_queues_okD(8,9) [OF ok, of q] by auto
  qed
  have "\<exists>mq dp. mqdesc_linked s' L' d mq dp" if "d \<in> set (L' (PcbMqDescriptors q))" for q d
  proof -
    have d: "d \<in> set (L (PcbMqDescriptors q))" using that own(1) [of q] by auto
    obtain mq dp where l: "mqdesc_linked s L d mq dp" using message_queues_okD(5) [OF ok d] by blast
    then have "kind_of dp = KMQDescriptorPtr" using kernel_wf_kind [OF wf, of dp "MqDescriptors mq"] by (simp add: mqdesc_linked_def)
    then have "mqdesc_linked s' L' d mq dp" using l D kernel_wf_kind [OF wf d] by (simp add: mqdesc_linked_def same_descs_def e)
    then show ?thesis by blast
  qed
  moreover have "ptr_shown s' KMQDescriptor KMessageQueue dp" if "dp \<in> set (L (MqDescriptors x))" for dp x
    using message_queues_okD(6) [OF ok that] ptr_shown_cong [OF D] kernel_wf_kind [OF wf that] by simp
  moreover have "levels_ok s' L' mq = levels_ok s L mq" for mq by (simp add: levels_ok_def messages_in_def e)
  ultimately show ?thesis using ok own(2,3) by (simp add: message_queues_ok_def e)
qed

text \<open>A call that is about processes only.\<close>

definition same_ipc :: "kernel \<Rightarrow> (headref \<Rightarrow> ptr list) \<Rightarrow> kernel \<Rightarrow> (headref \<Rightarrow> ptr list) \<Rightarrow> bool" where
  "same_ipc s L s' L' \<longleftrightarrow>
     descs s' = descs s \<and> desc_ptrs s' = desc_ptrs s \<and> same_semaphores L L' \<and> same_resources L L' \<and> same_mqs s L s' L'"

lemmas same_ipc_defs = same_ipc_def same_semaphores_def same_resources_def same_mqs_def

lemma ipc_cong:
  assumes "machine_inv s L F r" and "same_ipc s L s' L'"
  shows "descriptors_ok s' L'" "semaphores_ok s' L'" "blocked_on_sem s' L' = blocked_on_sem s L" "message_queues_ok s' L'"
proof -
  note i = machine_invD [OF assms(1)]
  have D: "same_descs k kp s s'" and L: "same_semaphores L L'" "same_resources L L'" "same_mqs s L s' L'" for k kp
    using assms(2) by (simp_all add: same_ipc_def same_descs_def)
  show "descriptors_ok s' L'" by (rule descriptors_cong [OF i(9) sched_wfD(1) [OF i(1)] D L(2)])
  show "semaphores_ok s' L'" "blocked_on_sem s' L' = blocked_on_sem s L"
    by (rule semaphores_cong [OF i(10) sched_wfD(1) [OF i(1)] D L(1)])+
  show "message_queues_ok s' L'" by (rule message_queues_cong [OF i(11) sched_wfD(1) [OF i(1)] D L(3)])
qed

lemma machine_invI:
  assumes "kernel_frame X s'" and "sched_wf s' L F r" and "timers_ok s' L"
    and "status_ok X L r" and "places_ok L F r" and "family_ok X L r" and "pids_ok X L r" and "parents_ok X L r"
    and "sleepers_ok X L" and "descriptors_ok X L" and "semaphores_ok X L" and "message_queues_ok X L"
  shows "machine_inv s' L F r"
  using assms by (simp add: machine_inv_def inv_frame [OF assms(1)])

text \<open>
  When no process and no pointer to a child is new, and the first process is still there, the
  process ids, the parents and the pointers stay consistent.
\<close>

definition same_tree :: "kernel \<Rightarrow> kernel \<Rightarrow> bool" where
  "same_tree s s' \<longleftrightarrow>
     pcb_ptrs s' = pcb_ptrs s \<and> last_pid s' = last_pid s \<and> init_pcb s' = init_pcb s \<and>
     (\<forall>p. pcb_pid (pcbs s' p) = pcb_pid (pcbs s p) \<and> pcb_parent (pcbs s' p) = pcb_parent (pcbs s p))"

lemma census_tree:
  assumes "same_tree s X" and "kernel_frame X s'" and "sched_wf s' L' F' r'"
  shows "census s' L' =
     \<lparr>running_pid = Some (pid_of s r'), ready_pids = map (pid_of s) (L' ReadyList),
      waiting_pids = map (pid_of s) (L' WaitingList), zombie_pids = map (pid_of s) (L' ZombieList), next_pid = last_pid s\<rparr>"
  by (rule census_cong [OF assms(2)]) (use assms(1) sched_wfD(2) [OF assms(3)] in \<open>simp_all add: same_tree_def\<close>)

lemma census_running:
  assumes "sched_wf s L F r"
  shows "census s L =
     \<lparr>running_pid = Some (pid_of s r), ready_pids = map (pid_of s) (L ReadyList),
      waiting_pids = map (pid_of s) (L WaitingList), zombie_pids = map (pid_of s) (L ZombieList), next_pid = last_pid s\<rparr>"
  by (simp add: census_def sched_wfD(2) [OF assms])

lemma census_simps [simp]:
  "census (set_retvalue q v s) L = census s L" "census (calling n xs s) L = census s L"
  "census (s\<lparr>disastrOS_time := t\<rparr>) L = census s L" "census (s\<lparr>umem := m\<rparr>) L = census s L" "census (internal_shutdown s) L = census s L"
proof -
  have "pid_of (set_retvalue q v s) = pid_of s" "pid_of (calling n xs s) = pid_of s" "pid_of (s\<lparr>disastrOS_time := t\<rparr>) = pid_of s"
    "pid_of (s\<lparr>umem := m\<rparr>) = pid_of s" "pid_of (internal_shutdown s) = pid_of s"
    by (simp_all add: pid_of_def fun_eq_iff set_retvalue_def upd_pcb_def internal_shutdown_def)
  then show "census (set_retvalue q v s) L = census s L" "census (calling n xs s) L = census s L"
    "census (s\<lparr>disastrOS_time := t\<rparr>) L = census s L" "census (s\<lparr>umem := m\<rparr>) L = census s L" "census (internal_shutdown s) L = census s L"
    by (simp_all add: census_def) (simp_all add: set_retvalue_def upd_pcb_def internal_shutdown_def)
qed

text \<open>A call keeps the invariant and, of the processes, either all or makes a move of their life.\<close>

abbreviation kept_inv :: "kernel \<Rightarrow> (headref \<Rightarrow> ptr list) \<Rightarrow> kernel \<Rightarrow> (headref \<Rightarrow> ptr list) \<Rightarrow> (kind \<Rightarrow> int list) \<Rightarrow> ptr \<Rightarrow> bool" where
  "kept_inv s L s' L' F' r \<equiv> machine_inv s' L' F' r \<and> census s' L' = census s L"

abbreviation moved_inv :: "kernel \<Rightarrow> (headref \<Rightarrow> ptr list) \<Rightarrow> kernel \<Rightarrow> (headref \<Rightarrow> ptr list) \<Rightarrow> (kind \<Rightarrow> int list) \<Rightarrow> ptr \<Rightarrow> bool" where
  "moved_inv s L s' L' F' r' \<equiv> machine_inv s' L' F' r' \<and> life_step (census s L) (census s' L')"

lemma kept_moved: "census s' L' = census s L \<Longrightarrow> life_step (census s L) (census s' L')"
  by (simp add: life_step.stay)

lemma tree_shrinks:
  assumes fam: "family_ok s L r" and pids: "pids_ok s L r" and par: "parents_ok s L r" and same: "same_tree s s'"
    and P: "procs L' r' \<subseteq> procs L r" and C: "child_ptrs L' \<subseteq> child_ptrs L"
    and kids: "\<And>pp. pp \<in> child_ptrs L' \<Longrightarrow> child s pp \<in> procs L' r'"
    and ini: "\<And>ini. init_pcb s = Some ini \<Longrightarrow> ini \<in> procs L' r' \<and> ini \<notin> set (L' ZombieList)"
  shows "family_ok s' L' r'" "pids_ok s' L' r'" "parents_ok s' L' r'"
proof -
  have eq: "pcb_ptrs s' = pcb_ptrs s" "last_pid s' = last_pid s" "init_pcb s' = init_pcb s"
    "pcb_pid (pcbs s' p) = pcb_pid (pcbs s p)" "pcb_parent (pcbs s' p) = pcb_parent (pcbs s p)" for p
    using same by (simp_all add: same_tree_def)
  have "\<exists>c\<in>procs L' r'. pcb_ptrs s pp = Some c" if "pp \<in> child_ptrs L'" for pp
    using family_child(1) [OF fam] kids [OF that] C that by blast
  moreover have "inj_on (pcb_ptrs s) (child_ptrs L')" using fam C inj_on_subset by (auto simp: family_ok_def)
  ultimately show "family_ok s' L' r'" by (simp add: family_ok_def eq)
  have "inj_on (\<lambda>p. pcb_pid (pcbs s p)) (procs L' r')" using pids P inj_on_subset by (auto simp: pids_ok_def)
  then show "pids_ok s' L' r'" using pids P by (auto simp: pids_ok_def eq)
  obtain i where i: "init_pcb s = Some i" "i \<in> procs L r" "i \<notin> set (L ZombieList)" "pcb_parent (pcbs s i) = None"
    "\<And>p par. p \<in> procs L r \<Longrightarrow> pcb_parent (pcbs s p) = Some par \<Longrightarrow> kind_of par = KPCB \<and> par \<noteq> p"
    using par unfolding parents_ok_def by blast
  show "parents_ok s' L' r'"
    unfolding parents_ok_def eq using i P ini [OF i(1)] by (intro exI [of _ i]) blast
qed

lemma same_tree_frame: "same_tree s s' \<Longrightarrow> kernel_frame s' s'' \<Longrightarrow> same_tree s s''"
  by (simp add: same_tree_def kernel_frame_def)

text \<open>With the same processes and pointers.\<close>

lemma tree_same:
  assumes inv: "machine_inv s L F r" and same: "same_tree s s'"
    and P: "procs L' r' = procs L r" and C: "child_ptrs L' = child_ptrs L"
    and Z: "\<And>ini. init_pcb s = Some ini \<Longrightarrow> ini \<notin> set (L ZombieList) \<Longrightarrow> ini \<notin> set (L' ZombieList)"
  shows "family_ok s' L' r'" "pids_ok s' L' r'" "parents_ok s' L' r'"
proof -
  note i = machine_invD [OF inv]
  have kids: "child s pp \<in> procs L' r'" if "pp \<in> child_ptrs L'" for pp
    using family_child(2) [OF i(5)] that P C by simp
  have ini: "ini \<in> procs L' r' \<and> ini \<notin> set (L' ZombieList)" if "init_pcb s = Some ini" for ini
    using i(7) that P Z by (auto simp: parents_ok_def)
  note shrink = tree_shrinks [OF i(5-7) same equalityD1 [OF P] equalityD1 [OF C]]
  show "family_ok s' L' r'" by (rule shrink(1)) (use kids ini in blast)+
  show "pids_ok s' L' r'" by (rule shrink(2)) (use kids ini in blast)+
  show "parents_ok s' L' r'" by (rule shrink(3)) (use kids ini in blast)+
qed

text \<open>A process that is not the first one goes, with the pointer to it.\<close>

lemma tree_removed:
  assumes inv: "machine_inv s L F r" and same: "same_tree s s'" and c: "init_pcb s \<noteq> Some c"
    and P: "procs L' r' = procs L r - {c}" and C: "child_ptrs L' = child_ptrs L - {pp}"
    and pp: "pp \<in> child_ptrs L" "child s pp = c" and Z: "set (L' ZombieList) \<subseteq> set (L ZombieList)"
  shows "family_ok s' L' r'" "pids_ok s' L' r'" "parents_ok s' L' r'"
proof -
  note i = machine_invD [OF inv]
  have sub: "procs L' r' \<subseteq> procs L r" "child_ptrs L' \<subseteq> child_ptrs L" using P C by blast+
  have kids: "child s q \<in> procs L' r'" if q: "q \<in> child_ptrs L'" for q
  proof -
    have "q \<in> child_ptrs L" "q \<noteq> pp" using q C by blast+
    moreover have "inj_on (pcb_ptrs s) (child_ptrs L)" using i(5) by (simp add: family_ok_def)
    ultimately have "pcb_ptrs s q \<noteq> pcb_ptrs s pp" using pp(1) by (auto dest: inj_onD)
    then have "child s q \<noteq> c" using family_child(1) [OF i(5)] \<open>q \<in> child_ptrs L\<close> pp by auto
    then show ?thesis using family_child(2) [OF i(5) \<open>q \<in> child_ptrs L\<close>] P by blast
  qed
  have ini: "ini \<in> procs L' r' \<and> ini \<notin> set (L' ZombieList)" if "init_pcb s = Some ini" for ini
    using i(7) that P Z c by (auto simp: parents_ok_def)
  note shrink = tree_shrinks [OF i(5-7) same sub]
  show "family_ok s' L' r'" by (rule shrink(1)) (use kids ini in blast)+
  show "pids_ok s' L' r'" by (rule shrink(2)) (use kids ini in blast)+
  show "parents_ok s' L' r'" by (rule shrink(3)) (use kids ini in blast)+
qed

lemma places_removed:
  assumes "places_ok L F r" and "procs L' r' = procs L r - {c}" and "F' KPCB = idx_of c # F KPCB"
  shows "places_ok L' F' r'"
  using assms by (auto simp: places_ok_def)

lemma child_ptrs_remove:
  assumes "sched_wf s L F r" and "pp \<in> set (L (PcbChildren q))"
    and "\<And>x. L' (PcbChildren x) = (if x = q then remove1 pp (L (PcbChildren q)) else L (PcbChildren x))"
  shows "child_ptrs L' = child_ptrs L - {pp}"
proof -
  have "pp \<notin> set (L (PcbChildren x))" if "x \<noteq> q" for x
    using sched_disjoint(2) [OF assms(1) _ assms(2), of "PcbChildren x"] that by simp
  moreover have "set (remove1 pp (L (PcbChildren q))) = set (L (PcbChildren q)) - {pp}"
    using sched_disjoint(3) [OF assms(1)] by simp
  ultimately show ?thesis by (auto simp: child_ptrs_def assms(3) split: if_splits)
qed

lemma same_processes_places:
  "places_ok L F r \<Longrightarrow> procs L' r' = procs L r \<Longrightarrow> F' KPCB = F KPCB \<Longrightarrow> places_ok L' F' r'"
  by (simp add: places_ok_def)

section \<open>Calls that only write the caller's control block\<close>

text \<open>The parts of a control block the invariant speaks of, and the timers, stay.\<close>

definition same_blocks :: "kernel \<Rightarrow> kernel \<Rightarrow> bool" where
  "same_blocks s s' \<longleftrightarrow> same_tree s s' \<and> timers s' = timers s \<and>
     (\<forall>p. pcb_status (pcbs s' p) = pcb_status (pcbs s p) \<and> pcb_timer (pcbs s' p) = pcb_timer (pcbs s p) \<and>
       pcb_syscall_num (pcbs s' p) = pcb_syscall_num (pcbs s p))"

text \<open>The lists of processes, of timers and of children; a call on resources leaves them alone.\<close>

definition same_processes :: "(headref \<Rightarrow> ptr list) \<Rightarrow> (headref \<Rightarrow> ptr list) \<Rightarrow> bool" where
  "same_processes L L' \<longleftrightarrow>
     (\<forall>h\<in>{ReadyList, WaitingList, ZombieList, TimerList}. L' h = L h) \<and> (\<forall>q. L' (PcbChildren q) = L (PcbChildren q))"

lemma inv_same_processes:
  assumes inv: "machine_inv s L F r" and same: "same_blocks s X" and X: "kernel_frame X s'" and run: "sched_wf s' L' F' r"
    and L: "same_processes L L'" and F: "F' KPCB = F KPCB" and D: "descriptors_ok X L'" and S: "semaphores_ok X L'"
    and B: "blocked_on_sem X L' = blocked_on_sem s L" and M: "message_queues_ok X L'"
  shows "kept_inv s L s' L' F' r"
proof -
  note i = machine_invD [OF inv]
  have tree: "same_tree s X" and e: "timers X = timers s" "pcb_status (pcbs X p) = pcb_status (pcbs s p)"
    "pcb_timer (pcbs X p) = pcb_timer (pcbs s p)" "pcb_syscall_num (pcbs X p) = pcb_syscall_num (pcbs s p)" for p
    using same by (simp_all add: same_blocks_def)
  have lists: "L' ReadyList = L ReadyList" "L' WaitingList = L WaitingList" "L' ZombieList = L ZombieList"
    "L' TimerList = L TimerList" "L' (PcbChildren q) = L (PcbChildren q)" for q
    using L by (simp_all add: same_processes_def)
  have P: "procs L' r = procs L r" "child_ptrs L' = child_ptrs L" by (simp_all add: procs_def child_ptrs_def lists)
  have timers: "timers_ok s' L'" by (rule timers_ok_cong [OF i(2)]) (use X in \<open>simp_all add: kernel_frame_def e lists\<close>)
  have status: "status_ok X L' r" and sleepers: "sleepers_ok X L'"
    using i(3,8) by (simp_all add: status_ok_def sleepers_ok_def timer_owner_def e lists B)
  have places: "places_ok L' F' r" using i(4) F by (simp add: places_ok_def P)
  have "machine_inv s' L' F' r"
    by (rule machine_invI [OF X run timers status places tree_same [OF inv tree P] sleepers D S M]) (simp_all add: lists)
  moreover have "census s' L' = census s L" by (simp add: census_tree [OF tree X run] census_running [OF i(1)] lists)
  ultimately show ?thesis ..
qed

lemma inv_same_blocks:
  assumes inv: "machine_inv s L F r" and same: "same_blocks s X" and X: "kernel_frame X s'" and run: "sched_wf s' L F r"
    and D: "descs X = descs s" "desc_ptrs X = desc_ptrs s"
    and M: "mqs X = mqs s" "queue_priority X = queue_priority s" "msgs X = msgs s"
      "\<And>p. pcb_last_mq_fd (pcbs X p) = pcb_last_mq_fd (pcbs s p)"
  shows "machine_inv s' L F r" "census s' L = census s L"
proof -
  have "same_ipc s L X L" using D M by (simp add: same_ipc_defs)
  from inv_same_processes [OF inv same X run _ _ ipc_cong [OF inv this]]
  show "machine_inv s' L F r" "census s' L = census s L" by (simp_all add: same_processes_def)
qed

lemma inv_set_retvalue:
  assumes "machine_inv s L F r"
  shows "machine_inv (set_retvalue q v s) L F r" "census (set_retvalue q v s) L = census s L"
proof -
  show "machine_inv (set_retvalue q v s) L F r"
  proof (rule inv_same_blocks [OF assms _ kernel_frame_refl])
    show "same_blocks s (set_retvalue q v s)" by (simp add: same_blocks_def same_tree_def set_retvalue_def upd_pcb_def)
    show "descs (set_retvalue q v s) = descs s" "desc_ptrs (set_retvalue q v s) = desc_ptrs s"
      "mqs (set_retvalue q v s) = mqs s" "queue_priority (set_retvalue q v s) = queue_priority s" "msgs (set_retvalue q v s) = msgs s"
      "pcb_last_mq_fd (pcbs (set_retvalue q v s) p) = pcb_last_mq_fd (pcbs s p)" for p
      by (simp_all add: set_retvalue_def upd_pcb_def)
    show "sched_wf (set_retvalue q v s) L F r"
      using machine_invD(1) [OF assms] by (simp add: set_retvalue_def upd_pcb_def)
  qed
  show "census (set_retvalue q v s) L = census s L" by simp
qed

lemma inv_calling:
  assumes "machine_inv s L F r"
  shows "machine_inv (calling n xs s) L F r"
proof -
  note i = machine_invD [OF assms]
  have run: "running s = Some r" using i(1) by (rule sched_wfD)
  have "pcb_syscall_num (pcbs (calling n xs s) (timer_owner s t)) \<noteq> DSOS_CALL_WAIT" if t: "t \<in> set (L TimerList)" for t
  proof -
    have "timer_owner s t \<noteq> r" using i(2) t sched_disjoint(1) [OF i(1)] by (auto simp: timers_ok_def)
    then show ?thesis using i(8) t calling_other(2) [OF run] by (simp add: sleepers_ok_def)
  qed
  moreover have ipc: "same_ipc s L (calling n xs s) L" by (simp add: same_ipc_defs)
  note B = ipc_cong [OF assms ipc]
  ultimately have "sleepers_ok (calling n xs s) L" using i(8) by (simp add: sleepers_ok_def timer_owner_def B(3))
  moreover have "sched_wf (calling n xs s) L F r" using i(1) by (rule calling_wf)
  moreover have "timers_ok (calling n xs s) L" by (rule timers_ok_cong [OF i(2)]) simp_all
  moreover have "same_tree s (calling n xs s)" by (simp add: same_tree_def)
  moreover have "status_ok (calling n xs s) L r" using i(3) by (simp add: status_ok_def B(3))
  ultimately show ?thesis using tree_same [OF assms] i(4) B(1,2,4) by (simp add: machine_inv_def)
qed

section \<open>The tick and the preemption\<close>

lemma inv_time [simp]: "machine_inv (s\<lparr>disastrOS_time := t\<rparr>) L F r = machine_inv s L F r"
  by (simp add: machine_inv_def status_ok_def family_ok_def pids_ok_def parents_ok_def sleepers_ok_def timer_owner_def
      descriptors_ok_def desc_linked_def ptr_shown_def desc_shown_def semaphores_ok_def semdesc_linked_def blocked_on_sem_def sem_waits_def
      message_queues_ok_def levels_ok_def mqdesc_linked_def)

lemma inv_shutdown: "machine_inv s L F r \<Longrightarrow> machine_inv (internal_shutdown s) L F r"
  by (rule inv_same_blocks [OF _ _ kernel_frame_refl])
    (simp_all add: internal_shutdown_def same_blocks_def same_tree_def machine_inv_def)

lemma woken_subset:
  assumes "timers_ok s L"
  shows "set (woken_pcbs s L) \<subseteq> set (L WaitingList)"
  using assms set_takeWhileD by (fastforce simp: woken_pcbs_def elapsed_timers_def timers_ok_def)

lemma woken_owner: "p \<in> set (woken_pcbs s L) \<Longrightarrow> \<exists>t\<in>set (L TimerList). timer_owner s t = p"
  using set_takeWhileD by (fastforce simp: woken_pcbs_def elapsed_timers_def)

lemma inv_schedule_switch:
  assumes inv: "machine_inv s L F r" and Q: "woken_pcbs s L @ L ReadyList = n # q"
  shows "\<exists>s'. internal_schedule s = Inr s' \<and>
    moved_inv s L s' ((awake_lists s L)(ReadyList := q @ [r])) (awake_free s L F) n \<and>
    disastrOS_time s' = disastrOS_time s \<and> timers s' = timers s"
proof -
  note i = machine_invD [OF inv]
  let ?L = "(awake_lists s L)(ReadyList := q @ [r])" and ?W = "set (woken_pcbs s L)"
  let ?X = "(set_status n Running (set_status r Ready (awake_contents s L)))\<lparr>running := Some n\<rparr>"
  obtain s' where s': "internal_schedule s = Inr s'" "sched_wf s' ?L (awake_free s L F) n" "timers_ok s' ?L"
    "kernel_frame ?X s'"
    using schedule_wf [OF i(1,2) Q] by blast
  have W: "?W \<subseteq> set (L WaitingList)" by (rule woken_subset [OF i(2)])
  have Qs: "insert n (set q) = ?W \<union> set (L ReadyList)" using arg_cong [OF Q, of set] by auto
  have P: "procs ?L n = procs L r" using W Qs by (auto simp: procs_def awake_lists_def)
  have C: "child_ptrs ?L = child_ptrs L" by (simp add: child_ptrs_def awake_lists_def)
  have Z: "?L ZombieList = L ZombieList" by (simp add: awake_lists_def)
  note d = sched_disjoint [OF i(1)] and d' = sched_disjoint [OF s'(2)]
  have st: "pcb_status (pcbs ?X p) = (if p = n then Running else if p = r \<or> p \<in> ?W then Ready else pcb_status (pcbs s p))" for p
    by (simp add: set_status_def upd_pcb_def awake_contents_def woken_def)
  have ipc: "same_ipc s L ?X ?L"
    by (simp add: same_ipc_defs set_status_def upd_pcb_def awake_contents_def awake_lists_def woken_def)
  note desc = ipc_cong(1,2,4) [OF inv ipc] and B = ipc_cong(3) [OF inv ipc]
  have W': "p \<notin> ?W" if "p \<in> blocked_on_sem s L" for p
    using woken_owner that i(8) by (fastforce simp: sleepers_ok_def)
  have ready: "pcb_status (pcbs ?X p) = Running \<or> pcb_status (pcbs ?X p) = Ready"
    if "p = n \<or> p \<in> set (?L ReadyList) \<or> p \<in> blocked_on_sem s L" for p
    using that Qs status_okD(2) [OF i(3), of p] status_okD(6) [OF i(3), of p] unfolding st by auto
  have zombie: "pcb_status (pcbs ?X p) = Zombie" if "p \<in> set (?L ZombieList)" for p
  proof -
    have "p \<in> set (L ZombieList)" using that Z by simp
    then have "p \<noteq> r" "p \<notin> ?W" "p \<notin> set (L ReadyList)"
      using d(1) d(2) [of ZombieList WaitingList p] d(2) [of ZombieList ReadyList p] W by auto
    moreover have "p \<noteq> n" using d'(1) [of ZombieList] that by auto
    ultimately show ?thesis using status_okD(3) [OF i(3)] \<open>p \<in> set (L ZombieList)\<close> unfolding st by simp
  qed
  have out: "n \<notin> set (?L WaitingList)" "r \<notin> set (L WaitingList)" by (rule d'(1), rule d(1))
  have wait: "pcb_status (pcbs ?X p) = Waiting \<longleftrightarrow> p \<in> set (?L WaitingList) \<and> p \<notin> blocked_on_sem s L" for p
    using out status_okD(4) [OF i(3), of p] W' [of p] unfolding st by (auto simp: awake_lists_def)
  have blocked: "p \<in> set (?L WaitingList)" if "p \<in> blocked_on_sem s L" for p
    using status_okD(5) [OF i(3) that] W' [OF that] by (simp add: awake_lists_def)
  have status: "status_ok ?X ?L n" by (rule status_okI [OF B ready zombie wait blocked])
  have sleepers: "sleepers_ok ?X ?L"
  proof -
    have sub: "t \<in> set (L TimerList)" if "t \<in> set (?L TimerList)" for t
      using that set_dropWhileD by (force simp: awake_lists_def pending_timers_def)
    have "pcb_syscall_num (pcbs ?X p) = pcb_syscall_num (pcbs s p)" "pcb_timer (pcbs s p) = None \<Longrightarrow> pcb_timer (pcbs ?X p) = None"
      "timer_owner ?X = timer_owner s" for p
      by (auto simp: timer_owner_def fun_eq_iff set_status_def upd_pcb_def awake_contents_def woken_def)
    then show ?thesis using i(8) sub unfolding sleepers_ok_def B by simp
  qed
  have same: "same_tree s ?X"
    by (simp add: same_tree_def set_status_def upd_pcb_def awake_contents_def woken_def)
  have places: "places_ok ?L (awake_free s L F) n"
    by (rule same_processes_places [OF i(4) P]) (simp add: awake_free_def)
  have "machine_inv s' ?L (awake_free s L F) n"
    by (rule machine_invI [OF s'(4,2,3) status places tree_same [OF inv same P C] sleepers desc])
      (simp_all add: awake_lists_def)
  moreover have "disastrOS_time s' = disastrOS_time s" "timers s' = timers s"
    using s'(4) by (simp_all add: kernel_frame_def set_status_def upd_pcb_def awake_contents_def)
  moreover have "life_step (census s L) (census s' ?L)"
  proof -
    have inj: "inj_on (pid_of s) (procs L r)" using i(6) by (simp add: pids_ok_def pid_of_def [abs_def])
    have "map (pid_of s) (filter (\<lambda>p. p \<notin> ?W) (L WaitingList)) =
        filter (\<lambda>p. p \<notin> set (map (pid_of s) (woken_pcbs s L))) (map (pid_of s) (L WaitingList))"
      by (rule map_filter_inj [OF inj]) (use W in \<open>auto simp: procs_def\<close>)
    then have e: "map (pid_of s) (?L WaitingList) =
        filter (\<lambda>p. p \<notin> set (map (pid_of s) (woken_pcbs s L))) (map (pid_of s) (L WaitingList))"
      by (simp add: awake_lists_def)
    have R: "?L ReadyList = q @ [r]" by simp
    show ?thesis
      unfolding census_tree [OF same s'(4,2)] census_running [OF i(1)] e Z R
    proof (rule life_step.turn)
      show "set (map (pid_of s) (woken_pcbs s L)) \<subseteq> set (map (pid_of s) (L WaitingList))" using W by auto
      show "pid_of s n # map (pid_of s) (q @ [r]) =
          rotate1 (pid_of s r # map (pid_of s) (woken_pcbs s L) @ map (pid_of s) (L ReadyList))"
        using arg_cong [OF Q, of "map (pid_of s)"] by simp
    qed
  qed
  ultimately show ?thesis using s'(1) by blast
qed

text \<open>The running and the ready processes turn, after those that wake up came in front.\<close>

lemma inv_schedule:
  assumes inv: "machine_inv s L F r"
  shows "\<exists>s' L' F' r'. internal_schedule s = Inr s' \<and> moved_inv s L s' L' F' r' \<and>
    disastrOS_time s' = disastrOS_time s \<and> timers s' = timers s \<and> L' TimerList = pending_timers s L \<and>
    L' WaitingList = filter (\<lambda>p. p \<notin> set (woken_pcbs s L)) (L WaitingList) \<and>
    r' # L' ReadyList = rotate1 (r # woken_pcbs s L @ L ReadyList)"
proof (cases "woken_pcbs s L @ L ReadyList")
  case Nil
  then have none: "elapsed_timers s L = []" "woken_pcbs s L = []" by (simp_all add: woken_pcbs_def)
  have "elapsed_timers s L @ pending_timers s L = L TimerList"
    by (simp add: elapsed_timers_def pending_timers_def)
  then have "pending_timers s L = L TimerList" using none by simp
  then show ?thesis
    using schedule_alone [OF machine_invD(1,2) [OF inv] Nil] inv Nil
    by (intro exI [of _ s] exI [of _ L] exI [of _ F] exI [of _ r]) (simp add: kept_moved)
next
  case (Cons n q)
  obtain s' where s': "internal_schedule s = Inr s'"
    "moved_inv s L s' ((awake_lists s L)(ReadyList := q @ [r])) (awake_free s L F) n"
    "disastrOS_time s' = disastrOS_time s" "timers s' = timers s"
    using inv_schedule_switch [OF inv Cons] by blast
  moreover have "n # ((awake_lists s L)(ReadyList := q @ [r])) ReadyList = rotate1 (r # woken_pcbs s L @ L ReadyList)"
    by (simp add: Cons)
  ultimately show ?thesis
    by (intro exI [of _ s'] exI [of _ "(awake_lists s L)(ReadyList := q @ [r])"] exI [of _ "awake_free s L F"] exI [of _ n])
      (simp add: awake_lists_def)
qed

section \<open>New processes\<close>

lemma child_contents_fields:
  fixes r n pp s
  defines "X \<equiv> child_contents r n pp s"
  assumes "n \<noteq> r"
  shows "pcb_status (pcbs X p) = (if p = n then Ready else pcb_status (pcbs s p))"
    "pcb_pid (pcbs X p) = (if p = n then last_pid s else pcb_pid (pcbs s p))"
    "pcb_parent (pcbs X p) = (if p = n then Some r else pcb_parent (pcbs s p))"
    "pcb_timer (pcbs X p) = (if p = n then None else pcb_timer (pcbs s p))"
    "pcb_syscall_num (pcbs X p) = pcb_syscall_num (pcbs s p)"
    "pcb_ptrs X = (pcb_ptrs s)(pp := Some n)" "last_pid X = last_pid s + 1" "init_pcb X = init_pcb s"
    "timers X = timers s"
  using assms(2) by (simp_all add: X_def child_contents_def set_retvalue_def upd_pcb_def new_pcb_def)

text \<open>A new process has the id that was next.\<close>

lemma pids_new:
  assumes ok: "pids_ok s L r" and new: "n \<notin> procs L r" and P: "procs L' r' = insert n (procs L r)"
    and X: "\<And>p. pcb_pid (pcbs X p) = (if p = n then last_pid s else pcb_pid (pcbs s p))" "last_pid X = last_pid s + 1"
  shows "pids_ok X L' r'"
proof -
  have lt: "pcb_pid (pcbs s p) < last_pid s" if "p \<in> procs L r" for p using ok that by (simp add: pids_ok_def)
  have "inj_on (\<lambda>p. pcb_pid (pcbs X p)) (procs L r) = inj_on (\<lambda>p. pcb_pid (pcbs s p)) (procs L r)"
    by (rule inj_on_cong) (use new in \<open>auto simp: X\<close>)
  then have "inj_on (\<lambda>p. pcb_pid (pcbs X p)) (procs L r)" using ok by (simp add: pids_ok_def)
  moreover have "pcb_pid (pcbs X n) \<noteq> pcb_pid (pcbs X p)" if "p \<in> procs L r" for p
    using lt [OF that] that new by (auto simp: X)
  then have "pcb_pid (pcbs X n) \<notin> (\<lambda>p. pcb_pid (pcbs X p)) ` procs L r" by blast
  moreover have "pcb_pid (pcbs X p) < last_pid X" if "p \<in> procs L' r'" for p
    using lt [of p] that by (auto simp: X P)
  ultimately show ?thesis unfolding pids_ok_def P by (auto simp: inj_on_insert)
qed

lemma inv_child:
  assumes inv: "machine_inv s L F r" and F: "F KPCB = i # is" "F KPCBPtr = j # js"
    and L': "L' = child_lists r (Ptr KPCB i) (Ptr KPCBPtr j) L" and F': "F' = F(KPCB := is, KPCBPtr := js)"
    and run: "sched_wf s' L' F' r" and ok: "timers_ok s' L'"
    and X: "kernel_frame (child_contents r (Ptr KPCB i) (Ptr KPCBPtr j) s) s'"
  shows "moved_inv s L s' L' F' r"
proof -
  note i = machine_invD [OF inv]
  let ?n = "Ptr KPCB i" and ?pp = "Ptr KPCBPtr j" and ?X = "child_contents r (Ptr KPCB i) (Ptr KPCBPtr j) s"
  have new: "\<not> live s F ?n" "\<not> live s F ?pp" using F by (simp_all add: live_def)
  have nP: "?n \<notin> procs L r" using procs_wf(2) [OF i(1)] new(1) by blast
  then have nr: "?n \<noteq> r" by (auto simp: procs_def)
  note X_fields = child_contents_fields [OF nr, of ?pp s]
  have lists: "L' ReadyList = L ReadyList @ [?n]" "L' WaitingList = L WaitingList" "L' ZombieList = L ZombieList"
    "L' TimerList = L TimerList"
    by (simp_all add: L' child_lists_def new_pcb_lists_def)
  have P: "procs L' r = insert ?n (procs L r)" by (auto simp: procs_def lists)
  have C: "child_ptrs L' \<subseteq> insert ?pp (child_ptrs L)"
    using nr by (auto simp: child_ptrs_def L' child_lists_def new_pcb_lists_def split: if_splits)
  have ppC: "?pp \<notin> child_ptrs L"
    using kernel_wf_live [OF sched_wfD(1) [OF i(1)], of ?pp] new(2) by (auto simp: child_ptrs_def)
  have ipc: "same_ipc s L ?X L'"
    by (simp add: same_ipc_defs child_contents_def set_retvalue_def upd_pcb_def L' child_lists_def new_pcb_lists_def new_pcb_def)
  note desc = ipc_cong(1,2,4) [OF inv ipc] and B = ipc_cong(3) [OF inv ipc]
  have "status_ok ?X L' r"
  proof (rule status_okI [OF B])
    fix p
    show "pcb_status (pcbs ?X p) = Waiting \<longleftrightarrow> p \<in> set (L' WaitingList) \<and> p \<notin> blocked_on_sem s L"
      using status_okD(4) [OF i(3), of p] nP by (auto simp: X_fields lists procs_def)
    show "pcb_status (pcbs ?X p) = Zombie" if "p \<in> set (L' ZombieList)"
      using status_okD(3) [OF i(3), of p] that nP by (auto simp: X_fields lists procs_def)
    show "pcb_status (pcbs ?X p) = Running \<or> pcb_status (pcbs ?X p) = Ready"
      if "p = r \<or> p \<in> set (L' ReadyList) \<or> p \<in> blocked_on_sem s L"
      using that status_okD(1) [OF i(3)] status_okD(2,6) [OF i(3), of p] by (auto simp: X_fields lists)
    show "p \<in> set (L' WaitingList)" if "p \<in> blocked_on_sem s L" using status_okD(5) [OF i(3) that] by (simp add: lists)
  qed
  moreover have "places_ok L' F' r"
    using i(4) F unfolding places_ok_def P by (auto simp: F')
  moreover have "family_ok ?X L' r"
  proof -
    have old: "pcb_ptrs ?X q = pcb_ptrs s q" if "q \<in> child_ptrs L" for q using that ppC by (auto simp: X_fields)
    have fam: "\<exists>c\<in>procs L r. pcb_ptrs s q = Some c" if "q \<in> child_ptrs L" for q
      using i(5) that by (simp add: family_ok_def)
    have "inj_on (pcb_ptrs ?X) (child_ptrs L)"
      using i(5) inj_on_cong [of "child_ptrs L" "pcb_ptrs ?X" "pcb_ptrs s"] old by (simp add: family_ok_def)
    moreover have "pcb_ptrs ?X ?pp \<notin> pcb_ptrs ?X ` child_ptrs L"
      using fam old nP by (force simp: X_fields)
    ultimately have "inj_on (pcb_ptrs ?X) (insert ?pp (child_ptrs L))" by (auto simp: inj_on_insert)
    then have "inj_on (pcb_ptrs ?X) (child_ptrs L')" using C by (rule inj_on_subset)
    moreover have "\<exists>c\<in>procs L' r. pcb_ptrs ?X q = Some c" if "q \<in> child_ptrs L'" for q
    proof (cases "q = ?pp")
      case False
      then have "q \<in> child_ptrs L" using that C by blast
      then show ?thesis using fam old P by auto
    qed (simp add: X_fields P)
    ultimately show ?thesis by (simp add: family_ok_def)
  qed
  moreover have "pids_ok ?X L' r" by (rule pids_new [OF i(6) nP P X_fields(2,7)])
  moreover have "parents_ok ?X L' r"
  proof -
    obtain ini where ini: "init_pcb s = Some ini" "ini \<in> procs L r" "ini \<notin> set (L ZombieList)" "pcb_parent (pcbs s ini) = None"
      "\<And>p par. p \<in> procs L r \<Longrightarrow> pcb_parent (pcbs s p) = Some par \<Longrightarrow> kind_of par = KPCB \<and> par \<noteq> p"
      using i(7) unfolding parents_ok_def by blast
    have "ini \<noteq> ?n" using ini(2) nP by blast
    have "kind_of par = KPCB \<and> par \<noteq> p" if "p \<in> procs L' r" "pcb_parent (pcbs ?X p) = Some par" for p par
    proof (cases "p = ?n")
      case True
      then show ?thesis using that(2) nr sched_wfD(3) [OF i(1)] unfolding X_fields(3) by auto
    next
      case False
      then have "p \<in> procs L r" "pcb_parent (pcbs s p) = Some par" using that unfolding X_fields(3) P by simp_all
      then show ?thesis by (rule ini(5))
    qed
    moreover have "init_pcb ?X = Some ini" "pcb_parent (pcbs ?X ini) = None" "ini \<in> procs L' r - set (L' ZombieList)"
      using ini(1-4) \<open>ini \<noteq> ?n\<close> by (simp_all add: X_fields P lists)
    ultimately show ?thesis unfolding parents_ok_def by blast
  qed
  moreover have "sleepers_ok ?X L'"
    using i(8) by (simp add: sleepers_ok_def lists X_fields timer_owner_def B)
  ultimately have "machine_inv s' L' F' r" using run ok desc by (simp add: machine_inv_def inv_frame [OF X])
  moreover have "life_step (census s L) (census s' L')"
  proof -
    have pid: "pid_of s' p = (if p = ?n then last_pid s else pid_of s p)" for p
      using X X_fields(2) [of p] by (simp add: pid_of_def kernel_frame_def)
    have same: "map (pid_of s') xs = map (pid_of s) xs" if "set xs \<subseteq> procs L r" for xs using that nP by (auto simp: pid)
    have "set (L ReadyList) \<subseteq> procs L r" "set (L WaitingList) \<subseteq> procs L r" "set (L ZombieList) \<subseteq> procs L r"
      by (auto simp: procs_def)
    note same [OF this(1)] same [OF this(2)] same [OF this(3)]
    moreover have "pid_of s' r = pid_of s r" "pid_of s' ?n = last_pid s" using nr by (simp_all add: pid)
    moreover have "last_pid s' = last_pid s + 1" using X X_fields(7) by (simp add: kernel_frame_def)
    ultimately show ?thesis
      using life_step.create by (simp add: census_running [OF i(1)] census_running [OF run] lists del: map_eq_conv)
  qed
  ultimately show ?thesis ..
qed

lemma make_child_needs:
  assumes "sched_wf s L F r" and "make_child s = Inr x"
  shows "int32_range (last_pid s + 1) \<and> F KPCB \<noteq> [] \<and> F KPCBPtr \<noteq> []"
proof -
  obtain y where "PCB_alloc s = Inr y" using assms(2) by (auto simp: make_child_def andThen_eq_Inr)
  then have n: "int32_range (last_pid s + 1)" "F KPCB \<noteq> []" using PCB_alloc_needs [OF sched_wfD(1) [OF assms(1)]] by blast+
  then obtain i is' where "F KPCB = i # is'" by (cases "F KPCB") auto
  then show ?thesis using make_child_full [OF assms(1), of i is'] assms(2) n by auto
qed

lemma inv_fork:
  assumes inv: "machine_inv s L F r" and s': "internal_fork s = Inr s'"
  shows "\<exists>L' F'. moved_inv s L s' L' F' r"
proof -
  note i = machine_invD [OF inv]
  obtain x where "make_child s = Inr x" using s' by (auto simp: internal_fork_def andThen_eq_Inr)
  from make_child_needs [OF i(1) this] obtain a as b bs where n: "int32_range (last_pid s + 1)" "F KPCB = a # as"
    "F KPCBPtr = b # bs" by (auto simp: neq_Nil_conv)
  show ?thesis using fork_wf [OF i(1,2) n(2,3,1)] inv_child [OF inv n(2,3) refl refl] s' by auto
qed

lemma inv_spawn:
  assumes inv: "machine_inv s L F r" and s': "internal_spawn s = Inr s'"
  shows "\<exists>L' F'. moved_inv s L s' L' F' r"
proof -
  note i = machine_invD [OF inv]
  obtain x where "make_child s = Inr x" using s' by (auto simp: internal_spawn_def andThen_eq_Inr)
  from make_child_needs [OF i(1) this] obtain a as b bs where n: "int32_range (last_pid s + 1)" "F KPCB = a # as"
    "F KPCBPtr = b # bs" by (auto simp: neq_Nil_conv)
  let ?L = "child_lists r (Ptr KPCB a) (Ptr KPCBPtr b) L" and ?F = "F(KPCB := as, KPCBPtr := bs)"
  obtain c where c: "internal_fork s = Inr c" "sched_wf c ?L ?F r" "timers_ok c ?L"
    "kernel_frame (child_contents r (Ptr KPCB a) (Ptr KPCBPtr b) s) c"
    using fork_wf [OF i(1,2) n(2,3,1)] by blast
  have inv_c: "moved_inv s L c ?L ?F r" by (rule inv_child [OF inv n(2,3) refl refl c(2-4)])
  let ?e = "Some (syscall_arg r 0 s, syscall_arg r 1 s)"
  have "kernel_frame (upd_pcb (Ptr KPCB a) (\<lambda>x. x\<lparr>pcb_cpu_entry := ?e\<rparr>) c) s'" "sched_wf s' ?L ?F r"
    using spawn_wf [OF i(1,2) n(2,3,1)] s' c(4) by (auto simp: kernel_frame_def upd_pcb_def)
  moreover have "same_blocks c (upd_pcb (Ptr KPCB a) (\<lambda>x. x\<lparr>pcb_cpu_entry := ?e\<rparr>) c)"
    "descs (upd_pcb (Ptr KPCB a) (\<lambda>x. x\<lparr>pcb_cpu_entry := ?e\<rparr>) c) = descs c"
    "desc_ptrs (upd_pcb (Ptr KPCB a) (\<lambda>x. x\<lparr>pcb_cpu_entry := ?e\<rparr>) c) = desc_ptrs c"
    "mqs (upd_pcb (Ptr KPCB a) (\<lambda>x. x\<lparr>pcb_cpu_entry := ?e\<rparr>) c) = mqs c"
    "queue_priority (upd_pcb (Ptr KPCB a) (\<lambda>x. x\<lparr>pcb_cpu_entry := ?e\<rparr>) c) = queue_priority c"
    "msgs (upd_pcb (Ptr KPCB a) (\<lambda>x. x\<lparr>pcb_cpu_entry := ?e\<rparr>) c) = msgs c"
    "pcb_last_mq_fd (pcbs (upd_pcb (Ptr KPCB a) (\<lambda>x. x\<lparr>pcb_cpu_entry := ?e\<rparr>) c) p) = pcb_last_mq_fd (pcbs c p)" for p
    by (simp_all add: same_blocks_def same_tree_def upd_pcb_def)
  ultimately have "machine_inv s' ?L ?F r" "census s' ?L = census c ?L"
    using inv_same_blocks [OF inv_c [THEN conjunct1]] by blast+
  then show ?thesis using inv_c by metis
qed

section \<open>Sleep and wait\<close>

text \<open>The running process goes to the waiting list and the first ready one runs.\<close>

lemma inv_block:
  assumes inv: "machine_inv s L F r" and R: "L ReadyList = p # q"
    and L': "L' ReadyList = q" "L' WaitingList = L WaitingList @ [r]" "L' ZombieList = L ZombieList"
      "\<And>x. L' (PcbChildren x) = L (PcbChildren x)" and F': "F' KPCB = F KPCB"
    and st: "\<And>x. pcb_status (pcbs X x) = (if x = r then Waiting else pcb_status (pcbs s x))"
    and same: "same_tree s X" and ipc: "same_ipc s L X L'" and sl: "sleepers_ok X L'" and s': "kernel_frame X s'" "sched_wf s' L' F' p" "timers_ok s' L'"
  shows "moved_inv s L s' L' F' p"
proof -
  note i = machine_invD [OF inv]
  have P: "procs L' p = procs L r" by (auto simp: procs_def L' R)
  have C: "child_ptrs L' = child_ptrs L" by (simp add: child_ptrs_def L')
  note d = sched_disjoint(1) [OF i(1)] 
  have rW: "r \<notin> set (L h)" for h by (rule d)
  then have rB: "r \<notin> blocked_on_sem s L" using status_okD(5) [OF i(3)] by blast
  note desc = ipc_cong(1,2,4) [OF inv ipc] and B = ipc_cong(3) [OF inv ipc]
  have status: "status_ok X L' p"
  proof (rule status_okI [OF B])
    fix x
    show "pcb_status (pcbs X x) = Running \<or> pcb_status (pcbs X x) = Ready"
      if "x = p \<or> x \<in> set (L' ReadyList) \<or> x \<in> blocked_on_sem s L"
      using that status_okD(2,6) [OF i(3), of x] rB rW [of ReadyList] by (auto simp: st L' R)
    show "pcb_status (pcbs X x) = Zombie" if "x \<in> set (L' ZombieList)"
      using that status_okD(3) [OF i(3), of x] rW [of ZombieList] by (auto simp: st L')
    show "pcb_status (pcbs X x) = Waiting \<longleftrightarrow> x \<in> set (L' WaitingList) \<and> x \<notin> blocked_on_sem s L"
      using status_okD(4) [OF i(3), of x] rB by (auto simp: st L')
    show "x \<in> set (L' WaitingList)" if "x \<in> blocked_on_sem s L" using status_okD(5) [OF i(3) that] by (simp add: L')
  qed
  have places: "places_ok L' F' p" using i(4) by (simp add: places_ok_def P F')
  have "machine_inv s' L' F' p" by (rule machine_invI [OF s' status places tree_same [OF inv same P C] sl desc]) (simp_all add: L')
  moreover have "life_step (census s L) (census s' L')"
    using life_step.block by (simp add: census_tree [OF same s'(1,2)] census_running [OF i(1)] L' R)
  ultimately show ?thesis ..
qed

text \<open>Everything there is can be printed, also when nothing runs.\<close>

lemma inv_printable:
  assumes inv: "machine_inv s L F r"
  shows "printable s L"
proof -
  note i = machine_invD [OF inv]
  have "timer_shown s t" if "t \<in> set (L TimerList)" for t
  proof -
    have "timer_pcb (timers s t) \<noteq> None" "timer_owner s t \<in> set (L WaitingList)" using i(2) that by (simp_all add: timers_ok_def)
    then show ?thesis
      using kernel_wf_kind [OF sched_wfD(1) [OF i(1)]] by (fastforce simp: timer_shown_def timer_owner_def)
  qed
  moreover have "children_ok s L q" for q by (rule family_children_ok [OF i(1,5)])
  ultimately show ?thesis
    unfolding printable_def
    using sched_wfD(2,3) [OF i(1)] descriptors_okD(3) [OF i(9)] semaphores_okD(5) [OF i(10)] message_queues_okD(6) [OF i(11)]
    by (intro conjI allI ballI impI) simp_all
qed

text \<open>
  The invariant when nothing runs: somebody waits, and the same holds of the processes, of whom none is
  ready.
\<close>

definition rest_ok :: "kernel \<Rightarrow> (headref \<Rightarrow> ptr list) \<Rightarrow> bool" where
  "rest_ok s L \<longleftrightarrow>
     (\<forall>p\<in>blocked_on_sem s L. pcb_status (pcbs s p) \<in> {Running, Ready}) \<and>
     (\<forall>p\<in>set (L ZombieList). pcb_status (pcbs s p) = Zombie) \<and>
     (\<forall>p. pcb_status (pcbs s p) = Waiting \<longleftrightarrow> p \<in> set (L WaitingList) - blocked_on_sem s L) \<and>
     blocked_on_sem s L \<subseteq> set (L WaitingList)"

definition idle :: "kernel \<Rightarrow> (headref \<Rightarrow> ptr list) \<Rightarrow> (kind \<Rightarrow> int list) \<Rightarrow> bool" where
  "idle s L F \<longleftrightarrow> running s = None \<and> L ReadyList = [] \<and> kernel_wf s L F \<and> printable s L \<and> timers_ok s L \<and>
     rest_ok s L \<and>
     (\<exists>p\<in>set (L WaitingList). places_ok L F p \<and> family_ok s L p \<and> pids_ok s L p \<and> parents_ok s L p) \<and>
     sleepers_ok s L \<and> descriptors_ok s L \<and> semaphores_ok s L \<and> message_queues_ok s L"

lemma idleD:
  assumes "idle s L F"
  shows "running s = None" "L ReadyList = []" "kernel_wf s L F" "printable s L" "timers_ok s L" "rest_ok s L"
    "sleepers_ok s L" "descriptors_ok s L" "semaphores_ok s L" "message_queues_ok s L"
  using assms by (simp_all add: idle_def)

lemma printable_asleep:
  assumes inv: "machine_inv s L F r" and s': "kernel_frame ((asleep_contents r t n s)\<lparr>running := None\<rparr>) s'"
  shows "printable s' (asleep_lists s r t n L)"
proof -
  have r: "kind_of r = KPCB" by (rule sched_wfD(3) [OF machine_invD(1) [OF inv]])
  have f: "running s' = None" "pcb_ptrs s' = pcb_ptrs s" "descs s' = descs s" "desc_ptrs s' = desc_ptrs s"
    "timers s' = (timers s)(n := \<lparr>timer_awakening_time = t, timer_pcb = Some r\<rparr>)"
    using s' by (simp_all add: kernel_frame_def asleep_contents_def set_status_def upd_pcb_def)
  have "ptr_shown s' = ptr_shown s" by (simp add: ptr_shown_def desc_shown_def f fun_eq_iff)
  moreover have "timer_shown s' x \<longleftrightarrow> x = n \<or> timer_shown s x" for x using r by (simp add: timer_shown_def f)
  ultimately show ?thesis
    using inv_printable [OF inv] by (auto simp: printable_def f children_ok_def asleep_lists_def add_timer_set)
qed

text \<open>What going to sleep leaves as it was, whoever runs then.\<close>

lemma asleep_parts:
  assumes inv: "machine_inv s L F r" and num: "pcb_syscall_num (pcbs s r) \<noteq> DSOS_CALL_WAIT"
  defines "X \<equiv> \<lambda>x t n. (asleep_contents r t n s)\<lparr>running := x\<rparr>" and "K \<equiv> \<lambda>q t n. (asleep_lists s r t n L)(ReadyList := q)"
  shows "same_ipc s L (X x t n) (K q t n)" "sleepers_ok (X x t n) (K q t n)" "same_tree s (X x t n)"
    "pcb_status (pcbs (X x t n) p) = (if p = r then Waiting else pcb_status (pcbs s p))"
proof -
  note i = machine_invD [OF inv]
  show ipc: "same_ipc s L (X x t n) (K q t n)"
    by (simp add: X_def K_def same_ipc_defs asleep_contents_def set_status_def upd_pcb_def asleep_lists_def)
  show "same_tree s (X x t n)" by (simp add: X_def same_tree_def asleep_contents_def set_status_def upd_pcb_def)
  show "pcb_status (pcbs (X x t n) p) = (if p = r then Waiting else pcb_status (pcbs s p))"
    by (simp add: X_def asleep_contents_def set_status_def upd_pcb_def)
  have fields: "timers (X x t n) = (timers s)(n := \<lparr>timer_awakening_time = t, timer_pcb = Some r\<rparr>)"
    "pcb_syscall_num (pcbs (X x t n) p) = pcb_syscall_num (pcbs s p)" "pcb_timer (pcbs (X x t n) p) = pcb_timer (pcbs s p)" for p
    by (simp_all add: X_def asleep_contents_def set_status_def upd_pcb_def)
  have "r \<notin> blocked_on_sem s L" using status_okD(5) [OF i(3)] sched_disjoint(1) [OF i(1)] by blast
  then have "timer_owner (X x t n) y \<notin> blocked_on_sem (X x t n) (K q t n) \<and>
      pcb_syscall_num (pcbs (X x t n) (timer_owner (X x t n) y)) \<noteq> DSOS_CALL_WAIT"
    if "y \<in> set (K q t n TimerList)" for y
    using that i(8) num ipc_cong(3) [OF inv ipc]
    by (auto simp: K_def asleep_lists_def add_timer_set sleepers_ok_def timer_owner_def fields)
  then show "sleepers_ok (X x t n) (K q t n)" using i(8) by (simp add: sleepers_ok_def fields)
qed

lemma inv_sleep_last:
  assumes inv: "machine_inv s L F r" and num: "pcb_syscall_num (pcbs s r) \<noteq> DSOS_CALL_WAIT" and R: "L ReadyList = []"
    and s': "running s' = None" "kernel_wf s' (asleep_lists s r t n L) F'" "timers_ok s' (asleep_lists s r t n L)"
      "kernel_frame ((asleep_contents r t n s)\<lparr>running := None\<rparr>) s'" and F': "F' KPCB = F KPCB"
  shows "idle s' (asleep_lists s r t n L) F' \<and> life_step (census s L) (census s' (asleep_lists s r t n L))"
proof -
  note i = machine_invD [OF inv] and d = sched_disjoint(1) [OF machine_invD(1) [OF inv]]
  let ?L = "asleep_lists s r t n L" and ?X = "(asleep_contents r t n s)\<lparr>running := None\<rparr>"
  have e: "?L(ReadyList := []) = ?L" using R by (auto simp: asleep_lists_def)
  note parts = asleep_parts(1,2) [OF inv num, where q = "[]" and x = None and t = t and n = n, unfolded e]
    asleep_parts(3,4) [OF inv num, where x = None and t = t and n = n]
  have lists: "?L ReadyList = []" "?L WaitingList = L WaitingList @ [r]" "?L ZombieList = L ZombieList"
    "?L (PcbChildren x) = L (PcbChildren x)" for x
    by (simp_all add: asleep_lists_def R)
  have P: "procs ?L r = procs L r" "child_ptrs ?L = child_ptrs L" by (auto simp: procs_def child_ptrs_def lists R)
  have tree: "family_ok ?X ?L r" "pids_ok ?X ?L r" "parents_ok ?X ?L r"
    by (rule tree_same [OF inv parts(3) P], simp add: lists)+
  note ipc = ipc_cong [OF inv parts(1)]
  have rB: "r \<notin> blocked_on_sem s L" using status_okD(5) [OF i(3)] d by blast
  have "rest_ok ?X ?L"
    unfolding rest_ok_def ipc(3) parts(4) lists using status_okD(3-6) [OF i(3)] rB d [of ZombieList] by auto
  moreover have "places_ok ?L F' r" using i(4) F' by (simp add: places_ok_def P)
  ultimately have "idle s' ?L F'"
    using s'(1-3) printable_asleep [OF inv s'(4)] tree parts(2) ipc(1,2,4)
    unfolding idle_def inv_frame [OF s'(4)] lists rest_ok_def by (auto simp: s'(4) [unfolded kernel_frame_def])
  moreover have "life_step (census s L) (census s' ?L)"
  proof -
    have "pid_of s' = pid_of s" "last_pid s' = last_pid s"
      using s'(4) by (simp_all add: pid_of_def fun_eq_iff kernel_frame_def asleep_contents_def set_status_def upd_pcb_def)
    then show ?thesis
      using life_step.block_last s'(1) R by (simp add: census_running [OF i(1)]) (simp add: census_def lists)
  qed
  ultimately show ?thesis ..
qed

lemma inv_sleep:
  assumes inv: "machine_inv s L F r" and num: "pcb_syscall_num (pcbs s r) \<noteq> DSOS_CALL_WAIT"
    and s': "internal_sleep s = Inr s'"
  shows "(\<exists>L' F'. idle s' L' F' \<and> life_step (census s L) (census s' L')) \<or> (\<exists>L' F' r'. moved_inv s L s' L' F' r')"
proof -
  note i = machine_invD [OF inv]
  let ?t = "disastrOS_time s + int_arg r 0 s"
  have no: "pcb_timer (pcbs s r) = None" using i(8) by (simp add: sleepers_ok_def)
  have rng: "int32_range ?t"
  proof (rule ccontr)
    assume "\<not> int32_range ?t"
    then show False using s' sched_wfD(2,3) [OF i(1)] no
      by (simp add: internal_sleep_def deref_def checked_int_def Let_def)
  qed
  show ?thesis
  proof (cases "F KTimerItem")
    case Nil
    then have "s' = set_retvalue r DSOS_ESLEEP s" using sleep_refused [OF i(1) no Nil rng] s' by simp
    then show ?thesis using inv_set_retvalue [OF inv, of r] kept_moved by blast
  next
    case (Cons a as)
    let ?n = "Ptr KTimerItem a"
    show ?thesis
    proof (cases "L ReadyList")
      case Nil
      then obtain z where z: "internal_sleep s = andThen (disastrOS_printStatus z) (\<lambda>_. Inr z)" "running z = None"
        "kernel_wf z (asleep_lists s r ?t ?n L) (F(KTimerItem := as))" "timers_ok z (asleep_lists s r ?t ?n L)"
        "kernel_frame ((asleep_contents r ?t ?n s)\<lparr>running := None\<rparr>) z"
        using sleep_last [OF i(1,2) no Cons rng Nil] by blast
      have "z = s'" using s' unfolding z(1) by (auto simp: andThen_eq_Inr)
      then have "idle s' (asleep_lists s r ?t ?n L) (F(KTimerItem := as)) \<and> life_step (census s L) (census s' (asleep_lists s r ?t ?n L))"
        using z(2-5) by (intro inv_sleep_last [OF inv num Nil]) auto
      then show ?thesis by blast
    next
      case R: (Cons p q)
      let ?L = "(asleep_lists s r ?t ?n L)(ReadyList := q)" and ?X = "(asleep_contents r ?t ?n s)\<lparr>running := Some p\<rparr>"
      have w: "sched_wf s' ?L (F(KTimerItem := as)) p" "timers_ok s' ?L" "kernel_frame ?X s'"
        using sleep_next [OF i(1,2) no Cons rng R] s' by auto
      note parts = asleep_parts [OF inv num]
      have "moved_inv s L s' ?L (F(KTimerItem := as)) p"
        by (rule inv_block [OF inv R _ _ _ _ _ parts(4,3,1,2) w(3,1,2)]) (simp_all add: asleep_lists_def)
      then show ?thesis by blast
    qed
  qed
qed

lemma inv_wait_sleep:
  assumes inv: "machine_inv s L F r" and s': "wait_sleep r s = Inr s'"
  shows "\<exists>L' F' r'. moved_inv s L s' L' F' r'"
proof -
  note i = machine_invD [OF inv]
  obtain p q where R: "L ReadyList = p # q"
    using wait_sleep_stuck [OF i(1)] s' by (cases "L ReadyList") auto
  let ?L = "L(WaitingList := L WaitingList @ [r], ReadyList := q)" and ?X = "(set_status r Waiting s)\<lparr>running := Some p\<rparr>"
  have w: "sched_wf s' ?L F p" "kernel_frame ?X s'" using wait_sleep_wf [OF i(1) R] s' by auto
  have st: "pcb_status (pcbs ?X x) = (if x = r then Waiting else pcb_status (pcbs s x))" for x
    by (simp add: set_status_def upd_pcb_def)
  have "timers_ok s' ?L"
    by (rule timers_ok_cong [OF i(2)]) (use w(2) in \<open>auto simp: kernel_frame_def set_status_def upd_pcb_def\<close>)
  moreover have "same_tree s ?X" by (simp add: same_tree_def set_status_def upd_pcb_def)
  moreover have fields: "pcb_syscall_num (pcbs ?X x) = pcb_syscall_num (pcbs s x)" "pcb_timer (pcbs ?X x) = pcb_timer (pcbs s x)"
    "timer_owner ?X = timer_owner s" for x by (simp_all add: timer_owner_def fun_eq_iff set_status_def upd_pcb_def)
  moreover have ipc: "same_ipc s L ?X ?L" by (simp add: same_ipc_defs set_status_def upd_pcb_def)
  moreover have "sleepers_ok ?X ?L"
    using i(8) ipc_cong(3) [OF inv ipc] unfolding sleepers_ok_def fields by simp
  ultimately have "moved_inv s L s' ?L F p" using inv_block [OF inv R _ _ _ _ _ st _ ipc _ w(2,1)] by simp
  then show ?thesis by blast
qed

lemma inv_reap:
  assumes inv: "machine_inv s L F r" and pp: "pp \<in> set (L (PcbChildren r))"
    and z: "pcb_status (pcbs s (child s pp)) = Zombie" and s': "reap r pp (child s pp) s = Inr s'"
  shows "\<exists>L' F'. moved_inv s L s' L' F' r"
proof -
  note i = machine_invD [OF inv]
  let ?c = "child s pp"
  have ppC: "pp \<in> child_ptrs L" using pp by (rule child_ptrsI)
  have c: "?c \<in> set (L ZombieList)" by (rule zombie_place [OF i(3) family_child(2) [OF i(5) ppC] z])
  let ?L = "reaped_lists r pp ?c L" and ?F = "reaped_free pp ?c F"
  let ?X = "store_result r (pcb_return_value (pcbs s ?c)) (set_retvalue r (pcb_pid (pcbs s ?c)) s)"
  have w: "sched_wf s' ?L ?F r" "kernel_frame ?X s'" using reap_wf [OF i(1) pp c] s' by auto
  have fields: "pcb_status (pcbs ?X x) = pcb_status (pcbs s x)" "pcb_pid (pcbs ?X x) = pcb_pid (pcbs s x)"
    "pcb_parent (pcbs ?X x) = pcb_parent (pcbs s x)" "pcb_timer (pcbs ?X x) = pcb_timer (pcbs s x)"
    "pcb_syscall_num (pcbs ?X x) = pcb_syscall_num (pcbs s x)" "pcb_ptrs ?X = pcb_ptrs s" "last_pid ?X = last_pid s"
    "init_pcb ?X = init_pcb s" "timers ?X = timers s" for x
    by (simp_all add: store_result_def set_retvalue_def upd_pcb_def)
  have lists: "?L ReadyList = L ReadyList" "?L WaitingList = L WaitingList" "?L TimerList = L TimerList"
    "?L ZombieList = remove1 ?c (L ZombieList)" "?L (PcbDescriptors x) = L (PcbDescriptors x)"
    "?L (PcbChildren x) = (if x = r then remove1 pp (L (PcbChildren r)) else L (PcbChildren x))" for x
    by (simp_all add: reaped_lists_def)
  note d = sched_disjoint [OF i(1)]
  have Z: "set (?L ZombieList) = set (L ZombieList) - {?c}" using d(3) by (simp add: lists)
  have P: "procs ?L r = procs L r - {?c}"
    using d(1) [of ZombieList] d(2) [of ZombieList ReadyList ?c] d(2) [of ZombieList WaitingList ?c] c
    by (auto simp: procs_def Z) (auto simp: lists)
  have C: "child_ptrs ?L = child_ptrs L - {pp}" by (rule child_ptrs_remove [OF i(1) pp lists(6)])
  have kc: "kind_of ?c = KPCB" using procs_wf(1) [OF i(1) family_child(2) [OF i(5) ppC]] .
  have ini: "init_pcb s \<noteq> Some ?c" using i(7) c by (auto simp: parents_ok_def)
  have same: "same_tree s ?X" by (simp add: same_tree_def fields)
  have places: "places_ok ?L ?F r" by (rule places_removed [OF i(4) P]) (simp add: reaped_free_def)
  have ipc: "same_ipc s L ?X ?L"
    by (simp add: same_ipc_defs store_result_def set_retvalue_def upd_pcb_def reaped_lists_def)
  note desc = ipc_cong(1,2,4) [OF inv ipc] and B = ipc_cong(3) [OF inv ipc]
  have status: "status_ok ?X ?L r" using i(3) Z unfolding status_ok_def fields lists(1,2) B by blast
  have sleepers: "sleepers_ok ?X ?L" using i(8) by (simp add: sleepers_ok_def fields lists timer_owner_def B)
  have "timers_ok s' ?L"
    by (rule timers_ok_cong [OF i(2)]) (use w(2) in \<open>simp_all add: kernel_frame_def fields lists\<close>)
  then have "machine_inv s' ?L ?F r"
    by (rule machine_invI [OF w(2,1) _ status places tree_removed [OF inv same ini P C ppC refl] sleepers desc])
      (simp_all add: Z)
  moreover have "life_step (census s L) (census s' ?L)"
  proof -
    have inj: "inj_on (pid_of s) (procs L r)" using i(6) by (simp add: pids_ok_def pid_of_def [abs_def])
    have "map (pid_of s) (?L ZombieList) = remove1 (pid_of s ?c) (map (pid_of s) (L ZombieList))"
      unfolding lists by (rule map_remove1_inj [OF inj]) (use c in \<open>auto simp: procs_def\<close>)
    then show ?thesis
      using life_step.reap [of "pid_of s ?c" "map (pid_of s) (L ZombieList)"] c
      by (simp add: census_tree [OF same w(2,1)] census_running [OF i(1)] lists)
  qed
  ultimately show ?thesis by blast
qed

lemma inv_wait:
  assumes inv: "machine_inv s L F r" and s': "internal_wait s = Inr s'"
  shows "\<exists>L' F' r'. moved_inv s L s' L' F' r'"
proof (cases "L (PcbChildren r) = []")
  case True
  then have "s' = set_retvalue r DSOS_EWAIT s" using wait_no_children [OF machine_invD(1) [OF inv] True] s' by simp
  then show ?thesis using inv_set_retvalue [OF inv, of r] kept_moved by blast
next
  case False
  note i = machine_invD [OF inv]
  let ?pp = "awaited (int_arg r 0 s) s (L (PcbChildren r))"
  have pp: "?pp \<in> set (L (PcbChildren r))" by (rule awaited_in_set [OF False])
  have "internal_wait s = (if pcb_status (pcbs s (child s ?pp)) = Zombie then reap r ?pp (child s ?pp) s else wait_sleep r s)"
    by (rule wait_cases_wf [OF i(1) family_children_ok [OF i(1,5)] False])
  then have "if pcb_status (pcbs s (child s ?pp)) = Zombie then reap r ?pp (child s ?pp) s = Inr s' else wait_sleep r s = Inr s'"
    using s' by simp
  then show ?thesis using inv_reap [OF inv pp] inv_wait_sleep [OF inv] by (metis (full_types))
qed

end
