(* ===== verification/MachineExit.thy ===== *)
theory MachineExit
  imports Machine
begin

text \<open>
  The call exit keeps the invariant of the machine: the process becomes a zombie and the first ready
  process runs, or the parent that waits for it takes its result and runs.
\<close>

section \<open>What exit writes\<close>

lemma exit_contents_fields:
  "pcb_status (pcbs (exit_contents r par cs s) p) = (if p = r then Zombie else pcb_status (pcbs s p))"
  "pcb_pid (pcbs (exit_contents r par cs s) p) = pcb_pid (pcbs s p)"
  "pcb_parent (pcbs (exit_contents r par cs s) p) = pcb_parent (pcbs s p)"
  "pcb_timer (pcbs (exit_contents r par cs s) p) = pcb_timer (pcbs s p)"
  "pcb_syscall_num (pcbs (exit_contents r par cs s) p) = pcb_syscall_num (pcbs s p)"
  "pcb_ptrs (exit_contents r par cs s) = pcb_ptrs s" "last_pid (exit_contents r par cs s) = last_pid s"
  "init_pcb (exit_contents r par cs s) = init_pcb s" "timers (exit_contents r par cs s) = timers s"
  "pcb_last_mq_fd (pcbs (exit_contents r par cs s) p) = pcb_last_mq_fd (pcbs s p)"
  "mqs (exit_contents r par cs s) = mqs s" "queue_priority (exit_contents r par cs s) = queue_priority s"
  "msgs (exit_contents r par cs s) = msgs s"
  "descs (exit_contents r par cs s) = descs s" "desc_ptrs (exit_contents r par cs s) = desc_ptrs s"
  by (simp_all add: exit_contents_def send_signal_def set_status_def upd_pcb_def hang_up_children_def hung_up_def)

lemma gone_contents_fields:
  "pcb_status (pcbs (gone_contents r par s) p) = (if p = par then Running else pcb_status (pcbs s p))"
  "pcb_pid (pcbs (gone_contents r par s) p) = pcb_pid (pcbs s p)"
  "pcb_parent (pcbs (gone_contents r par s) p) = pcb_parent (pcbs s p)"
  "pcb_timer (pcbs (gone_contents r par s) p) = pcb_timer (pcbs s p)"
  "pcb_syscall_num (pcbs (gone_contents r par s) p) = pcb_syscall_num (pcbs s p)"
  "pcb_ptrs (gone_contents r par s) = pcb_ptrs s" "last_pid (gone_contents r par s) = last_pid s"
  "init_pcb (gone_contents r par s) = init_pcb s" "timers (gone_contents r par s) = timers s"
  "pcb_last_mq_fd (pcbs (gone_contents r par s) p) = pcb_last_mq_fd (pcbs s p)"
  "mqs (gone_contents r par s) = mqs s" "queue_priority (gone_contents r par s) = queue_priority s"
  "msgs (gone_contents r par s) = msgs s"
  "descs (gone_contents r par s) = descs s" "desc_ptrs (gone_contents r par s) = desc_ptrs s"
  by (simp_all add: gone_contents_def store_result_def set_retvalue_def set_status_def upd_pcb_def)

text \<open>Moving the children to the first process keeps the set of pointers.\<close>

lemma child_ptrs_reparented:
  assumes "ini \<noteq> r"
  shows "child_ptrs (zombie_lists r ini L) = child_ptrs L"
proof -
  have "zombie_lists r ini L (PcbChildren q) =
      (if q = ini then L (PcbChildren ini) @ L (PcbChildren r) else if q = r then [] else L (PcbChildren q))" for q
    by (simp add: zombie_lists_def reparented_def)
  then have "set (zombie_lists r ini L (PcbChildren ini)) = set (L (PcbChildren ini)) \<union> set (L (PcbChildren r))"
    "\<And>q. q \<noteq> ini \<Longrightarrow> set (zombie_lists r ini L (PcbChildren q)) = (if q = r then {} else set (L (PcbChildren q)))"
    by simp_all
  then show ?thesis unfolding child_ptrs_def by (fastforce split: if_splits)
qed

lemma zombie_lists_simps [simp]:
  "zombie_lists r ini L ReadyList = L ReadyList" "zombie_lists r ini L WaitingList = L WaitingList"
  "zombie_lists r ini L ZombieList = L ZombieList @ [r]" "zombie_lists r ini L TimerList = L TimerList"
  "zombie_lists r ini L (PcbDescriptors p) = L (PcbDescriptors p)"
  "zombie_lists r ini L (ResDescriptors x) = L (ResDescriptors x)"
  "zombie_lists r ini L ResourcesList = L ResourcesList" "zombie_lists r ini L SemaphoresList = L SemaphoresList"
  "zombie_lists r ini L MessageQueuesList = L MessageQueuesList" "zombie_lists r ini L (MqQueues x) = L (MqQueues x)"
  "zombie_lists r ini L (MqDescriptors x) = L (MqDescriptors x)" "zombie_lists r ini L (QueueMessages x) = L (QueueMessages x)"
  "zombie_lists r ini L (PcbMqDescriptors p) = L (PcbMqDescriptors p)"
  "zombie_lists r ini L (PcbSemDescriptors p) = L (PcbSemDescriptors p)"
  "zombie_lists r ini L (SemDescriptors x) = L (SemDescriptors x)" "zombie_lists r ini L (SemWaiting x) = L (SemWaiting x)"
  by (simp_all add: zombie_lists_def reparented_def)

section \<open>The parent does not wait\<close>

lemma inv_exit_ready:
  assumes inv: "machine_inv s L F r" and ini: "init_pcb s = Some ini" "kind_of ini = KPCB" "ini \<noteq> r"
    and par: "pcb_parent (pcbs s r) = Some par" "kind_of par = KPCB" "par \<noteq> r" and no: "\<not> awaits par r s"
    and s': "internal_exit s = Inr s'"
  shows "\<exists>L' F' r'. moved_inv s L s' L' F' r'"
proof -
  note i = machine_invD [OF inv] and ok = family_children_ok [OF machine_invD(1,5) [OF inv]]
  obtain p q where R: "L ReadyList = p # q"
    using exit_ready_stuck [OF i(1) ini ok par no] s' by (cases "L ReadyList") auto
  let ?L = "(zombie_lists r ini L)(ReadyList := q)"
  let ?Y = "exit_contents r par (child s ` set (L (PcbChildren r))) s"
  let ?X = "(set_status p Running ?Y)\<lparr>running := Some p\<rparr>"
  have w: "sched_wf s' ?L F p" "kernel_frame ?X s'" using exit_ready_wf [OF i(1) ini ok par no R] s' by auto
  note d = sched_disjoint [OF i(1)] and d' = sched_disjoint [OF w(1)]
  have st: "pcb_status (pcbs ?X x) = (if x = p then Running else if x = r then Zombie else pcb_status (pcbs s x))" for x
    by (simp add: set_status_def upd_pcb_def exit_contents_fields)
  have P: "procs ?L p = procs L r" by (auto simp: procs_def R)
  have "child_ptrs ?L = child_ptrs (zombie_lists r ini L)" by (simp add: child_ptrs_def)
  then have C: "child_ptrs ?L = child_ptrs L" by (simp add: child_ptrs_reparented [OF ini(3)])
  have out: "p \<notin> set (?L h)" "r \<notin> set (L h)" for h by (rule d'(1), rule d(1))
  have ipc: "same_ipc s L ?X ?L" by (simp add: same_ipc_defs set_status_def upd_pcb_def exit_contents_fields)
  note desc = ipc_cong(1,2,4) [OF inv ipc] and B = ipc_cong(3) [OF inv ipc]
  have rB: "r \<notin> blocked_on_sem s L" using status_okD(5) [OF i(3)] out(2) by blast
  have status: "status_ok ?X ?L p"
  proof (rule status_okI [OF B])
    fix x
    show "pcb_status (pcbs ?X x) = Running \<or> pcb_status (pcbs ?X x) = Ready"
      if "x = p \<or> x \<in> set (?L ReadyList) \<or> x \<in> blocked_on_sem s L"
      using that status_okD(2,6) [OF i(3), of x] rB out(2) [of ReadyList] R unfolding st by auto
    show "pcb_status (pcbs ?X x) = Zombie" if "x \<in> set (?L ZombieList)"
      using that status_okD(3) [OF i(3), of x] out(1) [of ZombieList] unfolding st by auto
    show "pcb_status (pcbs ?X x) = Waiting \<longleftrightarrow> x \<in> set (?L WaitingList) \<and> x \<notin> blocked_on_sem s L"
      using status_okD(4) [OF i(3), of x] out(1) [of WaitingList] out(2) [of WaitingList] unfolding st by auto
    show "x \<in> set (?L WaitingList)" if "x \<in> blocked_on_sem s L" using status_okD(5) [OF i(3) that] by simp
  qed
  have places: "places_ok ?L F p" using i(4) by (simp add: places_ok_def P)
  have fields: "pcb_timer (pcbs ?X x) = pcb_timer (pcbs s x)" "pcb_syscall_num (pcbs ?X x) = pcb_syscall_num (pcbs s x)"
    "timers ?X = timers s" for x
    by (simp_all add: set_status_def upd_pcb_def exit_contents_fields)
  then have sleepers: "sleepers_ok ?X ?L" using i(8) by (simp add: sleepers_ok_def timer_owner_def B)
  have "timers s' = timers s" using w(2) fields(3) by (simp add: kernel_frame_def)
  then have timers: "timers_ok s' ?L" by (rule timers_ok_cong [OF i(2)]) simp_all
  have same: "same_tree s ?X" by (simp add: same_tree_def set_status_def upd_pcb_def exit_contents_fields)
  have "machine_inv s' ?L F p"
    by (rule machine_invI [OF w(2,1) timers status places tree_same [OF inv same P C] sleepers desc]) (use ini in simp_all)
  moreover have "life_step (census s L) (census s' ?L)"
    using life_step.die by (simp add: census_tree [OF same w(2,1)] census_running [OF i(1)] R)
  ultimately show ?thesis by blast
qed

section \<open>The parent waits\<close>

text \<open>
  The parent of a process may be gone, and its block may have become another process. If that one
  waits, the process is not found among its children, and null is detached.
\<close>

lemma exit_stranger:
  assumes run: "sched_wf s L F r" and ini: "init_pcb s = Some ini" "kind_of ini = KPCB" "ini \<noteq> r"
    and ok: "children_ok s L r" "children_ok s L par"
    and par: "pcb_parent (pcbs s r) = Some par" "par \<in> set (L WaitingList)" and waits: "awaits par r s"
    and self: "pid_lookup s (pcb_pid (pcbs s r)) (zombie_lists r ini L (PcbChildren par)) = None"
  shows "internal_exit s = Inl NullDeref"
proof -
  note wf = sched_wfD(1) [OF run]
  have ne: "par \<noteq> r" using sched_wfD(5) [OF run] par(2) by (auto simp: listed_def)
  have k: "kind_of par = KPCB" using kernel_wf_kind [OF wf par(2)] by simp
  let ?L0 = "zombie_lists r ini L" and ?s0 = "exit_contents r par (child s ` set (L (PcbChildren r))) s"
  obtain s1 where s1: "internal_exit s = exit_to_parent r par s1" "kernel_wf s1 ?L0 F" "kernel_frame ?s0 s1"
    using exit_common [OF run ini ok(1) par(1) k ne] waits by auto
  let ?L1 = "?L0(WaitingList := remove1 par (?L0 WaitingList))"
  obtain s2 where s2: "List_detach WaitingList (Some par) s1 = Inr (Some par, s2)" "kernel_wf s2 ?L1 F" "lists_only s1 s2"
    using wf_remove [OF s1(2), of par WaitingList] par(2) by auto
  let ?s3 = "set_status par Running s2"
  have fields: "pcb_pid (pcbs ?s3 p) = pcb_pid (pcbs s p)" "pcb_ptrs ?s3 = pcb_ptrs s" for p
    using lists_only_fields [OF s2(3)] s1(3) exit_contents_fields(2,6) [of r par _ s]
    by (simp_all add: kernel_frame_def set_status_def upd_pcb_def)
  have child: "child ?s3 = child s" by (simp add: child_def fields fun_eq_iff)
  have lists: "?L1 (PcbChildren par) = zombie_lists r ini L (PcbChildren par)" by simp
  have ok3: "children_ok ?s3 ?L1 par"
    using ok by (auto simp: children_ok_def fields zombie_lists_def reparented_def split: if_splits)
  have "kernel_wf ?s3 ?L1 F" using s2(2) by (simp add: set_status_def upd_pcb_def)
  from PCBPtr_byPID_wf [OF this ok3, of "pcb_pid (pcbs s r)"]
  have "PCBPtr_byPID (PcbChildren par) (pcb_pid (pcbs ?s3 r)) ?s3 = Inr None"
    using self unfolding lists by (simp add: pid_lookup_def fields child)
  then have "exit_to_parent r par s1 = Inl NullDeref" using s2(1) by (simp add: exit_to_parent_def Let_def List_detach_def)
  then show ?thesis using s1(1) by simp
qed

lemma gone_lists_simps:
  "gone_lists s r par self L ReadyList = L ReadyList"
  "gone_lists s r par self L WaitingList = remove1 par (L WaitingList)"
  "gone_lists s r par self L ZombieList = remove1 r (L ZombieList)"
  "gone_lists s r par self L TimerList = others_timers s r (L TimerList)"
  "gone_lists s r par self L (PcbChildren x) = (if x = par then remove1 self (L (PcbChildren par)) else L (PcbChildren x))"
  "gone_lists s r par self L (PcbDescriptors x) = (if x = r then [] else L (PcbDescriptors x))"
  "gone_lists s r par self L (ResDescriptors x) = filter (\<lambda>dp. dp \<notin> owned_ptr s ` set (L (PcbDescriptors r))) (L (ResDescriptors x))"
  "gone_lists s r par self L ResourcesList = L ResourcesList" "gone_lists s r par self L SemaphoresList = L SemaphoresList"
  "gone_lists s r par self L MessageQueuesList = L MessageQueuesList"
  "gone_lists s r par self L (MqQueues x) = L (MqQueues x)"
  "gone_lists s r par self L (MqDescriptors x) = L (MqDescriptors x)"
  "gone_lists s r par self L (QueueMessages x) = L (QueueMessages x)"
  "gone_lists s r par self L (PcbMqDescriptors x) = L (PcbMqDescriptors x)"
  "gone_lists s r par self L (PcbSemDescriptors x) = L (PcbSemDescriptors x)"
  "gone_lists s r par self L (SemDescriptors x) = L (SemDescriptors x)"
  "gone_lists s r par self L (SemWaiting x) = L (SemWaiting x)"
  by (simp_all add: gone_lists_def released_lists_def)

text \<open>The descriptors of the other processes keep their pointers: no two share one.\<close>

lemma descriptors_released:
  assumes ok: "descriptors_ok s L" and other: "\<And>q d. q \<noteq> r \<Longrightarrow> d \<in> set (L (PcbDescriptors q)) \<Longrightarrow> d \<notin> set (L (PcbDescriptors r))"
    and same: "descs s' = descs s" "desc_ptrs s' = desc_ptrs s"
    and R: "L' ResourcesList = L ResourcesList"
    and P: "\<And>q. L' (PcbDescriptors q) = (if q = r then [] else L (PcbDescriptors q))"
    and D: "\<And>x. L' (ResDescriptors x) = filter (\<lambda>dp. dp \<notin> owned_ptr s ` set (L (PcbDescriptors r))) (L (ResDescriptors x))"
  shows "descriptors_ok s' L'"
proof -
  have "\<exists>res dp. desc_linked s' L' d res dp" if d: "d \<in> set (L' (PcbDescriptors q))" for q d
  proof -
    have q: "q \<noteq> r" "d \<in> set (L (PcbDescriptors q))" using d P by (auto split: if_splits)
    obtain res dp where l: "desc_linked s L d res dp" using descriptors_okD(1) [OF ok q(2)] by blast
    have "dp \<noteq> owned_ptr s e" if e: "e \<in> set (L (PcbDescriptors r))" for e
    proof -
      obtain x y where "desc_linked s L e x y" using descriptors_okD(1) [OF ok e] by blast
      moreover have "e \<noteq> d" using other [OF q] e by blast
      ultimately show ?thesis using l by (auto simp: desc_linked_def owned_ptr_def)
    qed
    then have "desc_linked s' L' d res dp" using l by (auto simp: desc_linked_def same D)
    then show ?thesis by blast
  qed
  moreover have "ptr_shown s' k ko dp = ptr_shown s k ko dp" for k ko dp by (simp add: ptr_shown_def desc_shown_def same)
  ultimately show ?thesis using ok by (simp add: descriptors_ok_def R D) blast
qed

lemma inv_exit_parent:
  assumes inv: "machine_inv s L F r" and ini: "init_pcb s = Some ini" "kind_of ini = KPCB" "ini \<noteq> r"
    and par: "pcb_parent (pcbs s r) = Some par" and waits: "awaits par r s" and s': "internal_exit s = Inr s'"
  shows "\<exists>L' F' r'. moved_inv s L s' L' F' r'"
proof -
  note i = machine_invD [OF inv] and ok = family_children_ok [OF machine_invD(1,5) [OF inv]]
  have parW: "par \<in> set (L WaitingList)" "par \<notin> blocked_on_sem s L" using waits status_okD(4) [OF i(3)] by (simp_all add: awaits_def)
  note parB = parW(2) and parW = parW(1)
  let ?Z = "zombie_lists r ini L"
  have C: "child_ptrs ?Z = child_ptrs L" by (rule child_ptrs_reparented [OF ini(3)])
  obtain self where self: "pid_lookup s (pcb_pid (pcbs s r)) (?Z (PcbChildren par)) = Some self"
    using exit_stranger [OF i(1) ini ok ok par parW waits] s'
    by (cases "pid_lookup s (pcb_pid (pcbs s r)) (?Z (PcbChildren par))") auto
  then have selfin: "self \<in> set (?Z (PcbChildren par))" "pcb_pid (pcbs s (child s self)) = pcb_pid (pcbs s r)"
    by (auto simp: pid_lookup_def dest: find_in_set)
  have selfC: "self \<in> child_ptrs L" using child_ptrsI [of self ?Z par] selfin(1) C by simp
  have "child s self \<in> procs L r" by (rule family_child(2) [OF i(5) selfC])
  then have selfr: "child s self = r"
    using i(6) selfin(2) inj_onD [of "\<lambda>p. pcb_pid (pcbs s p)" "procs L r" "child s self" r]
    by (simp add: pids_ok_def procs_def)
  note d = sched_disjoint [OF i(1)]
  have linked: "\<exists>res dp. desc_linked s L d res dp" if "d \<in> set (L (PcbDescriptors r))" for d
    by (rule descriptors_okD(1) [OF i(9) that])
  have owner: "timer_owner s t \<noteq> r" "timer_owner s t \<noteq> par" if "t \<in> set (L TimerList)" for t
    using i(2,8) that d(1) [of WaitingList] waits by (auto simp: timers_ok_def sleepers_ok_def awaits_def)
  have "timer_pcb (timers s t) \<noteq> Some r" if "t \<in> set (L TimerList)" for t
    using owner(1) [OF that] by (auto simp: timer_owner_def)
  then have T: "others_timers s r (L TimerList) = L TimerList" by (simp add: others_timers_def)
  let ?L = "gone_lists s r par self ?Z" and ?F = "gone_free s r ?Z F"
  let ?X = "gone_contents r par (exit_contents r par (child s ` set (L (PcbChildren r))) s)"
  have w: "sched_wf s' ?L ?F par" "kernel_frame ?X s'"
    using exit_parent_wf [OF i(1) ini ok ok par parW waits self linked] s' by auto
  have lists: "?L ReadyList = L ReadyList" "?L WaitingList = remove1 par (L WaitingList)" "?L ZombieList = remove1 r (L ZombieList @ [r])"
    "?L TimerList = L TimerList" "?L (PcbChildren x) = (if x = par then remove1 self (?Z (PcbChildren par)) else ?Z (PcbChildren x))" for x
    by (simp_all add: gone_lists_simps T)
  have Z: "set (?L ZombieList) = set (L ZombieList)" "set (?L WaitingList) = set (L WaitingList) - {par}"
    using d(1) [of ZombieList] d(3) [of WaitingList] by (simp_all add: lists remove1_append)
  have P: "procs ?L par = procs L r - {r}"
    using parW d(1) [of ReadyList] d(1) [of WaitingList] d(1) [of ZombieList] by (auto simp: procs_def Z) (auto simp: lists)
  have wfZ: "\<And>x. x \<noteq> par \<Longrightarrow> self \<notin> set (?Z (PcbChildren x))" "distinct (?Z (PcbChildren par))"
  proof -
    obtain t where t: "kernel_wf t ?Z F"
      using exit_common [OF i(1) ini ok par] parW procs_wf(1) [OF i(1), of par] d(1) [of WaitingList] by (auto simp: procs_def)
    show "self \<notin> set (?Z (PcbChildren x))" if "x \<noteq> par" for x
      using represents_disjoint [OF kernel_wf_represents [OF t] selfin(1), of "PcbChildren x"] that by auto
    show "distinct (?Z (PcbChildren par))" using represents_distinct [OF kernel_wf_represents [OF t]] by simp
  qed
  have "child_ptrs ?L = child_ptrs ?Z - {self}"
    using wfZ by (auto simp: child_ptrs_def lists split: if_splits)
  then have CL: "child_ptrs ?L = child_ptrs L - {self}" using C by simp
  have st: "pcb_status (pcbs ?X x) = (if x = par then Running else if x = r then Zombie else pcb_status (pcbs s x))" for x
    by (simp add: gone_contents_fields exit_contents_fields)
  have out: "par \<notin> set (L ReadyList)" "par \<notin> set (L ZombieList)" "r \<notin> set (L h)" for h
    using d(2) [OF _ parW] d(1) by simp_all
  have sems: "same_descs KSemDescriptor KSemDescriptorPtr s ?X" "same_semaphores L ?L"
    by (simp_all add: same_descs_def same_semaphores_def gone_contents_fields exit_contents_fields gone_lists_simps)
  note S = semaphores_cong(1) [OF i(10) sched_wfD(1) [OF i(1)] sems] and B = semaphores_cong(2) [OF i(10) sched_wfD(1) [OF i(1)] sems]
  have "same_descs KMQDescriptor KMQDescriptorPtr s ?X" "same_mqs s L ?X ?L"
    by (simp_all add: same_descs_def same_mqs_def gone_contents_fields exit_contents_fields gone_lists_simps)
  note M = message_queues_cong [OF i(11) sched_wfD(1) [OF i(1)] this]
  have rB: "r \<notin> blocked_on_sem s L" using status_okD(5) [OF i(3)] out(3) by blast
  have status: "status_ok ?X ?L par"
  proof (rule status_okI [OF B])
    fix x
    show "pcb_status (pcbs ?X x) = Running \<or> pcb_status (pcbs ?X x) = Ready"
      if "x = par \<or> x \<in> set (?L ReadyList) \<or> x \<in> blocked_on_sem s L"
      using that status_okD(2,6) [OF i(3), of x] rB out unfolding st by (auto simp: lists)
    show "pcb_status (pcbs ?X x) = Zombie" if "x \<in> set (?L ZombieList)"
      using that status_okD(3) [OF i(3), of x] out unfolding st Z by auto
    show "pcb_status (pcbs ?X x) = Waiting \<longleftrightarrow> x \<in> set (?L WaitingList) \<and> x \<notin> blocked_on_sem s L"
      using status_okD(4) [OF i(3), of x] out(3) [of WaitingList] unfolding st Z by auto
    show "x \<in> set (?L WaitingList)" if "x \<in> blocked_on_sem s L"
      using status_okD(5) [OF i(3) that] that parB unfolding Z by auto
  qed
  have places: "places_ok ?L ?F par"
    by (rule places_removed [OF i(4) P]) (simp add: gone_free_def released_free_def)
  have fields: "pcb_timer (pcbs ?X x) = pcb_timer (pcbs s x)" "pcb_syscall_num (pcbs ?X x) = pcb_syscall_num (pcbs s x)"
    "timers ?X = timers s" for x
    by (simp_all add: gone_contents_fields exit_contents_fields)
  then have sleepers: "sleepers_ok ?X ?L" using i(8) by (simp add: sleepers_ok_def timer_owner_def lists B)
  have "timers s' = timers s" using w(2) fields(3) by (simp add: kernel_frame_def)
  then have same_timers: "timer_owner s' = timer_owner s" "wake_time s' = wake_time s"
    by (simp_all add: timer_owner_def wake_time_def fun_eq_iff)
  have timers: "timers_ok s' ?L"
    using i(2) owner(2) Z(2) \<open>timers s' = timers s\<close> by (simp add: timers_ok_def timers_sorted_def same_timers lists)
  have same: "same_tree s ?X" by (simp add: same_tree_def gone_contents_fields exit_contents_fields)
  have ne: "init_pcb s \<noteq> Some r" using ini by simp
  have "x \<notin> set (L (PcbDescriptors r))" if "q \<noteq> r" "x \<in> set (L (PcbDescriptors q))" for q x
    using d(2) [of "PcbDescriptors q" "PcbDescriptors r" x] that by simp
  then have desc: "descriptors_ok ?X ?L"
    by (rule descriptors_released [OF i(9)]) (simp_all add: gone_contents_fields exit_contents_fields gone_lists_simps)
  have "machine_inv s' ?L ?F par"
    by (rule machine_invI [OF w(2,1) timers status places tree_removed [OF inv same ne P CL selfC selfr] sleepers desc S M])
      (simp_all add: Z)
  moreover have "life_step (census s L) (census s' ?L)"
  proof -
    have inj: "inj_on (pid_of s) (procs L r)" using i(6) by (simp add: pids_ok_def pid_of_def [abs_def])
    have "map (pid_of s) (?L WaitingList) = remove1 (pid_of s par) (map (pid_of s) (L WaitingList))"
      unfolding lists by (rule map_remove1_inj [OF inj]) (use parW in \<open>auto simp: procs_def\<close>)
    moreover have "?L ZombieList = L ZombieList" using d(1) [of ZombieList] by (simp add: lists remove1_append)
    ultimately show ?thesis
      using life_step.die_awaited [of "pid_of s par" "map (pid_of s) (L WaitingList)"] parW
      by (simp add: census_tree [OF same w(2,1)] census_running [OF i(1)] lists(1))
  qed
  ultimately show ?thesis by blast
qed

section \<open>The call\<close>

lemma inv_exit:
  assumes inv: "machine_inv s L F r" and s': "internal_exit s = Inr s'"
  shows "\<exists>L' F' r'. moved_inv s L s' L' F' r'"
proof -
  note i = machine_invD [OF inv] and ok = family_children_ok [OF machine_invD(1,5) [OF inv]]
  obtain ini where ini: "init_pcb s = Some ini" "ini \<in> procs L r" "pcb_parent (pcbs s ini) = None"
    "\<And>par. pcb_parent (pcbs s r) = Some par \<Longrightarrow> kind_of par = KPCB \<and> par \<noteq> r"
    using i(7) unfolding parents_ok_def by (auto simp: procs_def)
  show ?thesis
  proof (cases "r = ini")
    case True
    then show ?thesis
      using exit_init_diverges [OF i(1) _ ok] exit_init_no_parent [OF i(1)] ini(1,3) s'
      by (cases "L (PcbChildren r) = []") auto
  next
    case False
    have k: "kind_of ini = KPCB" "ini \<noteq> r" using procs_wf(1) [OF i(1) ini(2)] False by simp_all
    obtain par where par: "pcb_parent (pcbs s r) = Some par"
      using exit_no_parent [OF i(1) ini(1) k ok] s' by (cases "pcb_parent (pcbs s r)") auto
    note kp = ini(4) [OF this]
    show ?thesis
      using inv_exit_ready [OF inv ini(1) k par conjunct1 [OF kp] conjunct2 [OF kp] _ s'] inv_exit_parent [OF inv ini(1) k par _ s']
      by blast
  qed
qed

end
