(* ===== verification/MachineResource.thy ===== *)
theory MachineResource
  imports MachineExit
begin

text \<open>
  The calls on resources keep the invariant of the machine: opening, closing and destroying. Closing
  a descriptor the process has never fails.
\<close>

section \<open>What stays\<close>

lemma same_blocks_resources [simp]: "same_blocks s (s\<lparr>resources := x\<rparr>)"
  by (simp add: same_blocks_def same_tree_def)

lemma same_blocks_opened: "same_blocks s (opened_contents r res d dp s)"
  by (simp add: same_blocks_def same_tree_def opened_contents_def)

text \<open>A call on resources leaves the processes and the semaphores alone.\<close>

lemma inv_resource_call:
  assumes inv: "machine_inv s L F r" and same: "same_blocks s X" and X: "kernel_frame X s'" and run: "sched_wf s' L' F' r"
    and L: "same_processes L L'" and S: "same_semaphores L L'" and F: "F' KPCB = F KPCB"
    and D: "same_descs KSemDescriptor KSemDescriptorPtr s X" and desc: "descriptors_ok X L'"
    and M: "same_descs KMQDescriptor KMQDescriptorPtr s X" "same_mqs s L X L'"
  shows "kept_inv s L s' L' F' r"
proof -
  note sems = semaphores_cong [OF machine_invD(10) [OF inv] sched_wfD(1) [OF machine_invD(1) [OF inv]] D S]
  note mqs = message_queues_cong [OF machine_invD(11) [OF inv] sched_wfD(1) [OF machine_invD(1) [OF inv]] M]
  show ?thesis by (rule inv_same_processes [OF inv same X run L F desc sems mqs])
qed

lemmas resource_call_defs = same_processes_def same_semaphores_def same_mqs_def same_descs_def same_blocks_def same_tree_def

section \<open>Opening\<close>

lemma descriptors_opened:
  assumes ok: "descriptors_ok s L" and d: "\<And>q. d \<notin> set (L (PcbDescriptors q))" and dp: "\<And>x. dp \<notin> set (L (ResDescriptors x))"
    and res: "res \<in> set (L ResourcesList)" "kind_of res = KResource" and k: "kind_of d = KDescriptor" "kind_of r = KPCB"
  shows "descriptors_ok (opened_contents r res d dp s) (opened_lists r res d dp L)"
proof -
  let ?X = "opened_contents r res d dp s" and ?L = "opened_lists r res d dp L"
  have new: "desc_linked ?X ?L d res dp"
    using res(2) by (simp add: desc_linked_def opened_contents_def opened_lists_def)
  have "\<exists>x y. desc_linked ?X ?L e x y" if e: "e \<in> set (?L (PcbDescriptors q))" for q e
  proof (cases "e = d")
    case False
    then have "e \<in> set (L (PcbDescriptors q))" using e by (auto simp: opened_lists_def split: if_splits)
    then obtain x y where l: "desc_linked s L e x y" using descriptors_okD(1) [OF ok] by blast
    then have "y \<noteq> dp" using dp by (auto simp: desc_linked_def)
    then have "desc_linked ?X ?L e x y"
      using l False by (auto simp: desc_linked_def opened_contents_def opened_lists_def)
    then show ?thesis by blast
  qed (use new in blast)
  moreover have "?L (ResDescriptors x) = []" if "x \<notin> set (?L ResourcesList)" for x
    using descriptors_okD(2) [OF ok, of x] that res(1) by (auto simp: opened_lists_def)
  moreover have "ptr_shown ?X KDescriptor KResource e" if "e \<in> set (?L (ResDescriptors x))" for e x
  proof (cases "e = dp")
    case True
    then show ?thesis using res(2) k by (simp add: ptr_shown_def desc_shown_def opened_contents_def)
  next
    case False
    then have "e \<in> set (L (ResDescriptors x))" using that by (auto simp: opened_lists_def split: if_splits)
    from descriptors_okD(3) [OF ok this] show ?thesis
      using False res(2) k by (auto simp: ptr_shown_def desc_shown_def opened_contents_def)
  qed
  ultimately show ?thesis unfolding descriptors_ok_def by blast
qed

lemma inv_attach:
  assumes inv: "machine_inv s L F r" and res: "res \<in> set (L ResourcesList)" and s': "openResource_attach r res s = Inr s'"
  shows "\<exists>L' F'. kept_inv s L s' L' F' r"
proof (cases "F KDescriptor")
  case Nil
  have wf: "kernel_wf s L F" by (rule sched_wfD(1) [OF machine_invD(1) [OF inv]])
  have "s' = set_retvalue r DSOS_ERESOURCENOFD s" using openResource_attach_full [OF wf Nil] s' by simp
  then show ?thesis using inv_set_retvalue [OF inv, of r] by blast
next
  case F: (Cons i "is")
  note w = machine_invD [OF inv] and r = sched_wfD [OF machine_invD(1) [OF inv]]
  have no: "\<not> (F KDescriptorPtr = [] \<or> \<not> int32_range (pcb_last_fd (pcbs s r) + 1))"
    using openResource_attach_fails [OF r(1) F, of r res] s' by auto
  then obtain j js where F2: "F KDescriptorPtr = j # js" by (auto simp: neq_Nil_conv)
  have rng: "int32_range (pcb_last_fd (pcbs s r) + 1)" using no by simp
  let ?d = "Ptr KDescriptor i" and ?dp = "Ptr KDescriptorPtr j"
  let ?L = "opened_lists r res ?d ?dp L" and ?F = "F(KDescriptor := is, KDescriptorPtr := js)"
  have s: "kernel_wf s' ?L ?F" "kernel_frame (opened_contents r res ?d ?dp s) s'" "fresh_block s' ?L ?F r"
    using openResource_attach_wf [OF r(1) F F2 rng, of res] s' r(3,4) unfolding opened_lists_def opened_contents_def by auto
  have run: "sched_wf s' ?L ?F r"
    using s r(2,3) by (simp add: sched_wf_def kernel_frame_def opened_contents_def)
  have new: "\<not> live s F ?d" "\<not> live s F ?dp" using F F2 by (simp_all add: live_def)
  have "?d \<notin> set (L (PcbDescriptors q))" "?dp \<notin> set (L (ResDescriptors x))" for q x
    using new kernel_wf_live [OF r(1)] by blast+
  moreover have "kind_of res = KResource" using kernel_wf_kind [OF r(1) res] by simp
  ultimately have desc: "descriptors_ok (opened_contents r res ?d ?dp s) ?L"
    using descriptors_opened [OF w(9) _ _ res] r(3) by simp
  have "kept_inv s L s' ?L ?F r"
    by (rule inv_resource_call [OF inv same_blocks_opened s(2) run _ _ _ _ desc])
      (simp_all add: resource_call_defs opened_lists_def opened_contents_def)
  then show ?thesis by blast
qed

text \<open>A new resource has no pointers yet.\<close>

lemma inv_create:
  assumes inv: "machine_inv s L F r" and s1: "Resource_alloc rid rtype s = Inr (res, s1)"
    and s2: "List_insert ResourcesList (list_last ResourcesList s1) res s1 = Inr (x, s2)"
  shows "\<exists>n L' F'. res = Some n \<and> kept_inv s L s2 L' F' r \<and> n \<in> set (L' ResourcesList)"
proof (cases "F KResource")
  case Nil
  then have "res = None" using s1 wf_alloc_empty [OF sched_wfD(1) [OF machine_invD(1) [OF inv]]] by (simp add: Resource_alloc_def)
  then show ?thesis using s2 by (simp add: List_insert_def)
next
  case (Cons i "is")
  note w = machine_invD [OF inv] and r = sched_wfD [OF machine_invD(1) [OF inv]]
  let ?n = "Ptr KResource i" and ?F = "F(KResource := is)"
  let ?L = "L(ResDescriptors ?n := [], ResourcesList := L ResourcesList @ [?n])"
  let ?X = "s\<lparr>resources := (resources s)(?n := \<lparr>res_id = rid, res_type = rtype\<rparr>)\<rparr>"
  have s: "res = Some ?n" "kernel_wf s2 ?L ?F" "kernel_frame ?X s2" "fresh_block s2 ?L ?F r"
    using Resource_create_wf [OF r(1) Cons, of rid rtype] s1 s2 r(3,4) by auto
  have run: "sched_wf s2 ?L ?F r" using s(2-4) r(2,3) by (simp add: sched_wf_def kernel_frame_def)
  have "?n \<notin> set (L ResourcesList)"
    using kernel_wf_live [OF r(1), of ?n ResourcesList] Cons by (auto simp: live_def)
  then have empty: "L (ResDescriptors ?n) = []" by (rule descriptors_okD(2) [OF w(9)])
  have "desc_linked ?X ?L = desc_linked s L" using empty by (auto simp: desc_linked_def fun_eq_iff)
  then have desc: "descriptors_ok ?X ?L" using w(9) by (auto simp: descriptors_ok_def ptr_shown_def desc_shown_def)
  have "kept_inv s L s2 ?L ?F r"
    by (rule inv_resource_call [OF inv same_blocks_resources s(3) run _ _ _ _ desc]) (simp_all add: resource_call_defs)
  then show ?thesis using s(1) by (intro exI [of _ ?n] exI [of _ ?L] exI [of _ ?F]) simp
qed

lemma inv_openResource:
  assumes inv: "machine_inv s L F r" and s': "internal_openResource s = Inr s'"
  shows "\<exists>L' F'. kept_inv s L s' L' F' r"
proof -
  note r = sched_wfD [OF machine_invD(1) [OF inv]]
  have ret: "\<exists>L' F'. kept_inv s L (set_retvalue r v t) L' F' r" if "kept_inv s L t M G r" for t v M G
    using inv_set_retvalue [OF that [THEN conjunct1], of r v] that by auto
  have kept: "kept_inv s L s L F r" using inv by simp
  have look: "ResourceList_byId ResourcesList (int_arg r 0 s) s = Inr (res_lookup s L (int_arg r 0 s))"
    using ResourceList_byId_wf [OF r(1), of ResourcesList] by (simp add: res_lookup_def)
  show ?thesis
  proof (cases "int_arg r 2 s AND DSOS_CREATE \<noteq> 0")
    case False
    show ?thesis
    proof (cases "res_lookup s L (int_arg r 0 s)")
      case None
      then show ?thesis using openResource_refused(2) [OF r(1-3)] False s' ret [OF kept] by auto
    next
      case (Some res)
      then have "res \<in> set (L ResourcesList)" by (auto simp: res_lookup_def dest: find_in_set)
      moreover have "s' = set_retvalue r DSOS_ERESOURCEOPEN s \<or> s' = set_retvalue r DSOS_ERESOURCENOEXCL s \<or>
          openResource_attach r res s = Inr s'"
        using s' r(2,3) look Some False by (auto simp: internal_openResource_def Let_def split: if_splits)
      ultimately show ?thesis using ret [OF kept] inv_attach [OF inv] by blast
    qed
  next
    case True
    show ?thesis
    proof (cases "res_lookup s L (int_arg r 0 s)")
      case (Some res)
      then show ?thesis using openResource_refused(1) [OF r(1-3) True] s' ret [OF kept] by auto
    next
      case None
      obtain res s1 x s2 where a: "Resource_alloc (int_arg r 0 s) (int_arg r 1 s) s = Inr (res, s1)"
        "List_insert ResourcesList (list_last ResourcesList s1) res s1 = Inr (x, s2)"
        using s' r(2,3) look None True by (auto simp: internal_openResource_def Let_def andThen_eq_Inr)
      obtain n M G where n: "res = Some n" "kept_inv s L s2 M G r" "n \<in> set (M ResourcesList)"
        using inv_create [OF inv a] by blast
      have "s' = set_retvalue r DSOS_ERESOURCEOPEN s2 \<or> s' = set_retvalue r DSOS_ERESOURCENOEXCL s2 \<or>
          openResource_attach r n s2 = Inr s'"
        using s' r(2,3) look None True a n(1) by (auto simp: internal_openResource_def Let_def split: if_splits)
      then show ?thesis using ret [OF n(2)] inv_attach [OF n(2) [THEN conjunct1] n(3)] n(2) by metis
    qed
  qed
qed

section \<open>Closing\<close>

text \<open>It never fails, and keeps the invariant.\<close>

lemma inv_closeResource:
  assumes inv: "machine_inv s L F r"
  shows "\<exists>s' L' F'. internal_closeResource s = Inr s' \<and> kept_inv s L s' L' F' r \<and>
    retvalue r s' = (if fd_lookup s (L (PcbDescriptors r)) (int_arg r 0 s) = None then DSOS_ERESOURCECLOSE else 0)"
proof (cases "fd_lookup s (L (PcbDescriptors r)) (int_arg r 0 s)")
  case None
  then show ?thesis
    using closeResource_bad_fd [OF sched_wfD(1-3) [OF machine_invD(1) [OF inv]] None] inv_set_retvalue [OF inv, of r]
    by (auto simp: retvalue_def set_retvalue_def upd_pcb_def)
next
  case (Some d)
  note w = machine_invD [OF inv] and r = sched_wfD [OF machine_invD(1) [OF inv]]
  have d: "d \<in> set (L (PcbDescriptors r))" using Some by (auto simp: fd_lookup_def dest: find_in_set)
  obtain res dp where l: "desc_linked s L d res dp" using descriptors_okD(1) [OF w(9) d] by blast
  let ?L = "closed_lists r res d dp L" and ?F = "F(KDescriptor := idx_of d # F KDescriptor, KDescriptorPtr := idx_of dp # F KDescriptorPtr)"
  obtain s' where s': "internal_closeResource s = Inr s'" "kernel_wf s' ?L ?F" "kernel_frame (set_retvalue r 0 s) s'"
    "fresh_block s' ?L ?F r"
    using closeResource_wf [OF r(1-3) Some l] r(4) by blast
  have run: "sched_wf s' ?L ?F r"
    using s'(2-4) r(2,3) by (simp add: sched_wf_def kernel_frame_def set_retvalue_def upd_pcb_def)
  have "desc_linked (set_retvalue r 0 s) ?L e x y" if "e \<noteq> d" "desc_linked s L e x y" for e x y
    using desc_linked_after [OF l that(2) that(1) [symmetric] kernel_frame_refl, of r]
    by (simp add: desc_linked_def set_retvalue_def upd_pcb_def)
  moreover have "e \<noteq> d" "e \<in> set (L (PcbDescriptors q))" if "e \<in> set (?L (PcbDescriptors q))" for e q
    using that d represents_distinct [OF kernel_wf_represents [OF r(1)], of "PcbDescriptors r"]
      sched_disjoint(2) [OF w(1), of "PcbDescriptors q" "PcbDescriptors r" e]
    by (auto simp: closed_lists_def split: if_splits)
  moreover have "?L (ResDescriptors x) = []" if "x \<notin> set (?L ResourcesList)" for x
    using descriptors_okD(2) [OF w(9), of x] that by (auto simp: closed_lists_def)
  moreover have "ptr_shown (set_retvalue r 0 s) KDescriptor KResource e" if "e \<in> set (?L (ResDescriptors x))" for e x
    using descriptors_okD(3) [OF w(9), of e x] that
    by (auto simp: closed_lists_def ptr_shown_def desc_shown_def set_retvalue_def upd_pcb_def split: if_splits dest: subsetD [OF set_remove1_subset])
  ultimately have desc: "descriptors_ok (set_retvalue r 0 s) ?L"
    using descriptors_okD(1) [OF w(9)] unfolding descriptors_ok_def by meson
  have "kept_inv s L s' ?L ?F r"
    by (rule inv_resource_call [OF inv _ s'(3) run _ _ _ _ desc])
      (simp_all add: resource_call_defs closed_lists_def set_retvalue_def upd_pcb_def)
  moreover have "retvalue r s' = 0"
    using s'(3) by (simp add: kernel_frame_def retvalue_def set_retvalue_def upd_pcb_def)
  ultimately show ?thesis using s'(1) Some by auto
qed

section \<open>Destroying\<close>

lemma inv_destroyResource:
  assumes inv: "machine_inv s L F r"
  shows "\<exists>s' L' F'. internal_destroyResource s = Inr s' \<and> kept_inv s L s' L' F' r \<and>
    retvalue r s' = (case res_lookup s L (int_arg r 0 s) of None \<Rightarrow> DSOS_ERESOURCECLOSE
      | Some res \<Rightarrow> if L (ResDescriptors res) = [] then 0 else DSOS_ERESOURCEINUSE)"
proof -
  note w = machine_invD [OF inv] and r = sched_wfD [OF machine_invD(1) [OF inv]]
  have ret: "machine_inv (set_retvalue r v s) L F r" "retvalue r (set_retvalue r v s) = v" for v
    using inv_set_retvalue [OF inv, of r v] by (simp_all add: retvalue_def set_retvalue_def upd_pcb_def)
  show ?thesis
  proof (cases "res_lookup s L (int_arg r 0 s)")
    case None
    then show ?thesis using destroyResource_refused(1) [OF r(1-3) None] ret by auto
  next
    case (Some res)
    show ?thesis
    proof (cases "L (ResDescriptors res) = []")
      case False
      then show ?thesis using destroyResource_refused(2) [OF r(1-3) Some False] ret Some by auto
    next
      case True
      let ?L = "L(ResourcesList := remove1 res (L ResourcesList))" and ?F = "F(KResource := idx_of res # F KResource)"
      obtain s' where s': "internal_destroyResource s = Inr s'" "kernel_wf s' ?L ?F" "kernel_frame (set_retvalue r 0 s) s'"
        "fresh_block s' ?L ?F r"
        using destroyResource_wf [OF r(1-3) Some True] r(4) by blast
      have run: "sched_wf s' ?L ?F r"
        using s'(2-4) r(2,3) by (simp add: sched_wf_def kernel_frame_def set_retvalue_def upd_pcb_def)
      have "desc_linked (set_retvalue r 0 s) ?L = desc_linked s L"
        by (simp add: desc_linked_def set_retvalue_def upd_pcb_def fun_eq_iff)
      moreover have "L (ResDescriptors x) = []" if "x \<notin> set (remove1 res (L ResourcesList))" for x
        using descriptors_okD(2) [OF w(9), of x] True that by (cases "x = res") auto
      ultimately have desc: "descriptors_ok (set_retvalue r 0 s) ?L"
        using w(9) by (simp add: descriptors_ok_def ptr_shown_def desc_shown_def set_retvalue_def upd_pcb_def)
      have "kept_inv s L s' ?L ?F r"
        by (rule inv_resource_call [OF inv _ s'(3) run _ _ _ _ desc])
          (simp_all add: resource_call_defs set_retvalue_def upd_pcb_def)
      moreover have "retvalue r s' = 0"
        using s'(3) by (simp add: kernel_frame_def retvalue_def set_retvalue_def upd_pcb_def)
      ultimately show ?thesis using s'(1) Some True by auto
    qed
  qed
qed

end
