(* ===== verification/MachineSemaphore.thy ===== *)
theory MachineSemaphore
  imports MachineResource
begin

text \<open>
  The calls on semaphores keep the invariant of the machine: opening, closing, waiting and posting. A
  process that waits on a semaphore is in the waiting list and in the queue of one semaphore; a post
  takes it out of both.
\<close>

section \<open>The descriptors of the running process\<close>

lemma running_not_blocked:
  assumes "machine_inv s L F r"
  shows "r \<notin> blocked_on_sem s L"
  using status_okD(5) [OF machine_invD(3) [OF assms]] sched_disjoint(1) [OF machine_invD(1) [OF assms]] by blast

lemma handle_linked:
  assumes inv: "machine_inv s L F r" and h: "sem_handle s L r fd = Some (d, sem)"
  obtains dp where "d \<in> set (L (PcbSemDescriptors r))" "semdesc_linked s L r d sem dp" "dp \<in> set (L (SemDescriptors sem))"
    "sem \<in> set (L SemaphoresList)" "desc_ptr (descs s d) = Some dp" "kind_of sem = KSemaphore"
proof -
  note ok = machine_invD(10) [OF inv]
  have d: "d \<in> set (L (PcbSemDescriptors r))" by (rule sem_handle_listed [OF h])
  obtain x dp where l: "semdesc_linked s L r d x dp" using semaphores_okD(1) [OF ok d] by blast
  have "desc_object (descs s d) = Some sem" using h by (auto simp: sem_handle_def split: if_splits option.splits)
  then have x: "x = sem" using l by (simp add: semdesc_linked_def)
  have "dp \<notin> set (L (SemWaiting sem))"
  proof
    assume "dp \<in> set (L (SemWaiting sem))"
    then have "sem_waits s L d" using l by (auto simp: sem_waits_def semdesc_linked_def)
    then show False using running_not_blocked [OF inv] d by (auto simp: blocked_on_sem_def)
  qed
  then have dp: "dp \<in> set (L (SemDescriptors sem))" using l x by (auto simp: semdesc_linked_def)
  have sem: "sem \<in> set (L SemaphoresList)"
  proof (rule ccontr)
    assume "sem \<notin> set (L SemaphoresList)"
    then show False using semaphores_okD(4) [OF ok] dp by simp
  qed
  show ?thesis by (rule that [OF d l [unfolded x] dp sem]) (use l x in \<open>simp_all add: semdesc_linked_def\<close>)
qed

text \<open>A call that leaves the processes and the resources alone.\<close>

lemma inv_semaphore_call:
  assumes inv: "machine_inv s L F r" and same: "same_blocks s X" and X: "kernel_frame X s'" and run: "sched_wf s' L' F' r"
    and L: "same_processes L L'" and S: "same_resources L L'" and F: "F' KPCB = F KPCB"
    and D: "same_descs KDescriptor KDescriptorPtr s X" and M: "same_descs KMQDescriptor KMQDescriptorPtr s X" "same_mqs s L X L'"
    and sems: "semaphores_ok X L'" "blocked_on_sem X L' = blocked_on_sem s L"
  shows "kept_inv s L s' L' F' r"
proof -
  note i = machine_invD [OF inv]
  have "descriptors_ok X L'" by (rule descriptors_cong [OF i(9) sched_wfD(1) [OF i(1)] D S])
  note desc = this and mqs = message_queues_cong [OF i(11) sched_wfD(1) [OF i(1)] M]
  show ?thesis by (rule inv_same_processes [OF inv same X run L F desc sems mqs])
qed

lemmas semaphore_call_defs = same_processes_def same_resources_def same_mqs_def

text \<open>One that only counts.\<close>

lemma inv_count:
  assumes inv: "machine_inv s L F r"
  shows "machine_inv (set_retvalue r v (upd_sem sem f s)) L F r" "census (set_retvalue r v (upd_sem sem f s)) L = census s L"
proof -
  have same: "same_blocks s (upd_sem sem f s)" "sched_wf (upd_sem sem f s) L F r"
    using machine_invD(1) [OF inv] by (simp_all add: same_blocks_def same_tree_def upd_sem_def)
  have "machine_inv (upd_sem sem f s) L F r" "census (upd_sem sem f s) L = census s L"
    by (rule inv_same_blocks [OF inv same(1) kernel_frame_refl same(2)]; simp add: upd_sem_def)+
  then show "machine_inv (set_retvalue r v (upd_sem sem f s)) L F r" "census (set_retvalue r v (upd_sem sem f s)) L = census s L"
    using inv_set_retvalue [of "upd_sem sem f s" L F r r v] by simp_all
qed

section \<open>Waiting\<close>

text \<open>The pointer goes from one list of the semaphore to the other, so the descriptors stay linked.\<close>

lemma semdesc_linked_moved:
  assumes "descs X = descs s" and "desc_ptrs X = desc_ptrs s"
    and "\<And>x. set (L' (SemDescriptors x)) \<union> set (L' (SemWaiting x)) = set (L (SemDescriptors x)) \<union> set (L (SemWaiting x))"
  shows "semdesc_linked X L' = semdesc_linked s L"
  by (simp add: semdesc_linked_def assms fun_eq_iff)

text \<open>Where no descriptor is written, what can be printed stays so.\<close>

lemma semaphores_shown:
  assumes ok: "semaphores_ok s L" and X: "descs X = descs s" "desc_ptrs X = desc_ptrs s"
    and sub: "\<And>x. set (L' (SemDescriptors x)) \<union> set (L' (SemWaiting x)) \<subseteq> set (L (SemDescriptors x)) \<union> set (L (SemWaiting x))"
  shows "\<forall>x. \<forall>dp\<in>set (L' (SemDescriptors x)) \<union> set (L' (SemWaiting x)). ptr_shown X KSemDescriptor KSemaphore dp"
proof (intro allI ballI)
  fix x dp assume "dp \<in> set (L' (SemDescriptors x)) \<union> set (L' (SemWaiting x))"
  then have "dp \<in> set (L (SemDescriptors x)) \<union> set (L (SemWaiting x))" using sub by blast
  from semaphores_okD(5) [OF ok this] show "ptr_shown X KSemDescriptor KSemaphore dp" by (simp add: ptr_shown_def desc_shown_def X)
qed

lemma semaphores_blocked:
  assumes inv: "machine_inv s L F r" and d: "d \<in> set (L (PcbSemDescriptors r))" and l: "semdesc_linked s L r d sem dp"
    and dp: "dp \<in> set (L (SemDescriptors sem))" and sem: "sem \<in> set (L SemaphoresList)"
    and X: "descs X = descs s" "desc_ptrs X = desc_ptrs s" and L': "L' = blocked_lists r sem dp L"
  shows "semaphores_ok X L'" "blocked_on_sem X L' = insert r (blocked_on_sem s L)"
proof -
  note ok = machine_invD(10) [OF inv]
  have lists: "L' (PcbSemDescriptors q) = L (PcbSemDescriptors q)" "L' SemaphoresList = L SemaphoresList"
    "L' (SemDescriptors x) = (if x = sem then remove1 dp (L (SemDescriptors sem)) else L (SemDescriptors x))"
    "L' (SemWaiting x) = (if x = sem then L (SemWaiting sem) @ [dp] else L (SemWaiting x))" for q x
    by (simp_all add: L' blocked_lists_def)
  have "distinct (L (SemDescriptors sem))" by (rule sched_disjoint(3) [OF machine_invD(1) [OF inv]])
  then have same: "semdesc_linked X L' = semdesc_linked s L"
    using dp by (intro semdesc_linked_moved [OF X]) (auto simp: lists)
  have waits: "sem_waits X L' e \<longleftrightarrow> sem_waits s L e \<or> e = d" if e: "e \<in> set (L (PcbSemDescriptors q))" for e q
  proof -
    obtain x y where le: "semdesc_linked s L q e x y" using semaphores_okD(1) [OF ok e] by blast
    have "desc_ptr (descs s e) = Some dp \<longleftrightarrow> e = d" using le l by (auto simp: semdesc_linked_def)
    then show ?thesis unfolding sem_waits_def X lists by auto
  qed
  have own: "q = r" if "d \<in> set (L (PcbSemDescriptors q))" for q
    using semaphores_okD(1) [OF ok that] l by (auto simp: semdesc_linked_def)
  have "w \<in> blocked_on_sem X L' \<longleftrightarrow> (\<exists>e\<in>set (L (PcbSemDescriptors w)). sem_waits s L e \<or> e = d)" for w
    by (simp add: blocked_on_sem_def lists waits cong: bex_cong)
  moreover have "d \<in> set (L (PcbSemDescriptors w)) \<longleftrightarrow> w = r" for w using own d by blast
  ultimately have "w \<in> blocked_on_sem X L' \<longleftrightarrow> w = r \<or> w \<in> blocked_on_sem s L" for w by (simp add: blocked_on_sem_def) blast
  then show "blocked_on_sem X L' = insert r (blocked_on_sem s L)" by blast
  have one: "e = d" if "e \<in> set (L (PcbSemDescriptors q))" "d \<in> set (L (PcbSemDescriptors q))" "sem_waits s L e" for e q
    using running_not_blocked [OF inv] own [OF that(2)] that(1,3) by (auto simp: blocked_on_sem_def)
  have "\<exists>sem dp. semdesc_linked s L q e sem dp" if "e \<in> set (L (PcbSemDescriptors q))" for q e
    by (rule semaphores_okD(1) [OF ok that])
  moreover have "\<exists>q. \<exists>e\<in>set (L (PcbSemDescriptors q)). semdesc_linked s L q e x y" if "y \<in> set (L' (SemWaiting x))" for x y
    using that semaphores_okD(2) [OF ok, of y x] d l by (auto simp: lists split: if_splits)
  moreover have "e = e'" if "e \<in> set (L (PcbSemDescriptors q))" "e' \<in> set (L (PcbSemDescriptors q))"
      "sem_waits X L' e" "sem_waits X L' e'" for q e e'
    using that waits [OF that(1)] waits [OF that(2)] one semaphores_okD(3) [OF ok that(1,2)] by blast
  moreover have "L' (SemDescriptors x) = []" if "x \<notin> set (L SemaphoresList)" for x
    using semaphores_okD(4) [OF ok that] sem that by (auto simp: lists)
  moreover have "\<forall>x. \<forall>y\<in>set (L' (SemDescriptors x)) \<union> set (L' (SemWaiting x)). ptr_shown X KSemDescriptor KSemaphore y"
    by (rule semaphores_shown [OF ok X]) (use dp in \<open>auto simp: lists dest: subsetD [OF set_remove1_subset] split: if_splits\<close>)
  ultimately show "semaphores_ok X L'" unfolding semaphores_ok_def same lists(1,2) by blast
qed

lemma inv_semWait_blocks:
  assumes inv: "machine_inv s L F r" and h: "sem_handle s L r (int_arg r 0 s) = Some (d, sem)"
    and none: "sem_count (sems s sem) \<le> 0" and R: "L ReadyList = p # q"
  shows "\<exists>s'. internal_semWait s = Inr s' \<and> (\<exists>dp. moved_inv s L s' (blocked_lists r sem dp L) F p)"
proof -
  note i = machine_invD [OF inv] and out = sched_disjoint(1) [OF machine_invD(1) [OF inv]]
  obtain dp where dp: "d \<in> set (L (PcbSemDescriptors r))" "semdesc_linked s L r d sem dp" "dp \<in> set (L (SemDescriptors sem))"
    "sem \<in> set (L SemaphoresList)" "desc_ptr (descs s d) = Some dp" "kind_of sem = KSemaphore"
    by (rule handle_linked [OF inv h])
  let ?L = "blocked_lists r sem dp L" and ?X = "s\<lparr>running := Some p\<rparr>"
  obtain s' where s': "internal_semWait s = Inr s'" "sched_wf s' ?L F p" "kernel_frame ?X s'"
    using semWait_blocks [OF i(1) h dp(6) none dp(5,3) R] by blast
  have X: "descs ?X = descs s" "desc_ptrs ?X = desc_ptrs s" by simp_all
  note sems = semaphores_blocked [OF inv dp(1-4) X refl]
  have lists: "?L ReadyList = q" "?L WaitingList = L WaitingList @ [r]" "?L ZombieList = L ZombieList" "?L TimerList = L TimerList"
    "?L (PcbChildren x) = L (PcbChildren x)" for x
    by (simp_all add: blocked_lists_def R)
  have P: "procs ?L p = procs L r" "child_ptrs ?L = child_ptrs L" by (auto simp: procs_def child_ptrs_def lists R)
  have status: "status_ok ?X ?L p"
  proof (rule status_okI [OF sems(2)])
    fix x
    have f: "pcbs ?X x = pcbs s x" by simp
    show "pcb_status (pcbs ?X x) = Running \<or> pcb_status (pcbs ?X x) = Ready"
      if "x = p \<or> x \<in> set (?L ReadyList) \<or> x \<in> insert r (blocked_on_sem s L)"
      using that status_okD(1) [OF i(3)] status_okD(2,6) [OF i(3), of x] unfolding f lists by (auto simp: R)
    show "pcb_status (pcbs ?X x) = Zombie" if "x \<in> set (?L ZombieList)"
      using that status_okD(3) [OF i(3), of x] unfolding f lists by simp
    show "pcb_status (pcbs ?X x) = Waiting \<longleftrightarrow> x \<in> set (?L WaitingList) \<and> x \<notin> insert r (blocked_on_sem s L)"
      using status_okD(4) [OF i(3), of x] out [of WaitingList] unfolding f lists by auto
    show "x \<in> set (?L WaitingList)" if "x \<in> insert r (blocked_on_sem s L)"
      using that status_okD(5) [OF i(3), of x] unfolding lists by auto
  qed
  have "timer_owner s t \<noteq> r" if "t \<in> set (L TimerList)" for t
    using i(2) that out [of WaitingList] by (auto simp: timers_ok_def)
  then have sleepers: "sleepers_ok ?X ?L" using i(8) unfolding sleepers_ok_def sems(2) lists by (simp add: timer_owner_def)
  have desc: "descriptors_ok ?X ?L"
    by (rule descriptors_cong [OF i(9) sched_wfD(1) [OF i(1)]])
      (simp_all add: same_descs_def same_resources_def blocked_lists_def)
  have mqs: "message_queues_ok ?X ?L"
    by (rule message_queues_cong [OF i(11) sched_wfD(1) [OF i(1)]]) (simp_all add: same_descs_def same_mqs_def blocked_lists_def)
  have timers: "timers_ok s' ?L" by (rule timers_ok_cong [OF i(2)]) (use s'(3) in \<open>auto simp: kernel_frame_def lists\<close>)
  have places: "places_ok ?L F p" using i(4) by (simp add: places_ok_def P)
  have same: "same_tree s ?X" by (simp add: same_tree_def)
  have "machine_inv s' ?L F p"
    by (rule machine_invI [OF s'(3,2) timers status places tree_same [OF inv same P] sleepers desc sems(1) mqs])
      (simp_all add: lists)
  moreover have "life_step (census s L) (census s' ?L)"
    using life_step.block by (simp add: census_tree [OF same s'(3,2)] census_running [OF i(1)] lists R)
  ultimately show ?thesis using s'(1) by blast
qed

lemma inv_semWait:
  assumes inv: "machine_inv s L F r" and s': "internal_semWait s = Inr s'"
  shows "\<exists>L' F' r'. moved_inv s L s' L' F' r'"
proof (cases "sem_handle s L r (int_arg r 0 s)")
  case None
  then have "s' = set_retvalue r DSOS_ESEMAPHOREWAIT s" using semWait_bad_fd [OF machine_invD(1) [OF inv] None] s' by simp
  then show ?thesis using inv_set_retvalue [OF inv, of r] kept_moved by blast
next
  case (Some h)
  then obtain d sem where h: "sem_handle s L r (int_arg r 0 s) = Some (d, sem)" by (cases h) auto
  obtain dp where dp: "dp \<in> set (L (SemDescriptors sem))" "desc_ptr (descs s d) = Some dp" "kind_of sem = KSemaphore"
    by (rule handle_linked [OF inv h])
  note run = machine_invD(1) [OF inv]
  show ?thesis
  proof (cases "sem_count (sems s sem) > 0")
    case True
    have "s' = set_retvalue r 0 (upd_sem sem (\<lambda>c. c\<lparr>sem_count := sem_count c - 1\<rparr>) s)"
      using semWait_takes [OF run h dp(3) True] s' by simp
    then show ?thesis using inv_count [OF inv] kept_moved by blast
  next
    case False
    then have none: "sem_count (sems s sem) \<le> 0" by simp
    show ?thesis
    proof (cases "L ReadyList")
      case Nil
      then show ?thesis using semWait_stuck [OF run h dp(3) none dp(2,1)] s' by simp
    next
      case (Cons p q)
      then show ?thesis using inv_semWait_blocks [OF inv h none Cons] s' by auto
    qed
  qed
qed

section \<open>Posting\<close>

lemma waiter:
  assumes inv: "machine_inv s L F r" and dp: "dp \<in> set (L (SemWaiting sem))"
  obtains w d where "d \<in> set (L (PcbSemDescriptors w))" "semdesc_linked s L w d sem dp" "sem_waits s L d"
    "w \<in> blocked_on_sem s L" "w \<in> set (L WaitingList)"
proof -
  obtain w d where d: "d \<in> set (L (PcbSemDescriptors w))" "semdesc_linked s L w d sem dp"
    using semaphores_okD(2) [OF machine_invD(10) [OF inv] dp] by blast
  have waits: "sem_waits s L d" using d(2) dp by (auto simp: sem_waits_def semdesc_linked_def)
  then have "w \<in> blocked_on_sem s L" using d(1) by (auto simp: blocked_on_sem_def)
  then show ?thesis using that [OF d waits] status_okD(5) [OF machine_invD(3) [OF inv]] by blast
qed

lemma semaphores_posted:
  assumes inv: "machine_inv s L F r" and Q: "L (SemWaiting sem) = dp # dps"
    and d: "d \<in> set (L (PcbSemDescriptors w))" and l: "semdesc_linked s L w d sem dp" and sem: "sem \<in> set (L SemaphoresList)"
    and L': "L' = posted_lists sem dp w L"
  shows "semaphores_ok s L'" "blocked_on_sem s L' = blocked_on_sem s L - {w}"
proof -
  note ok = machine_invD(10) [OF inv] and dis = sched_disjoint [OF machine_invD(1) [OF inv]]
  have lists: "L' (PcbSemDescriptors q) = L (PcbSemDescriptors q)" "L' SemaphoresList = L SemaphoresList"
    "L' (SemDescriptors x) = (if x = sem then L (SemDescriptors sem) @ [dp] else L (SemDescriptors x))"
    "L' (SemWaiting x) = (if x = sem then dps else L (SemWaiting x))" for q x
    by (simp_all add: L' posted_lists_def Q)
  have same: "semdesc_linked s L' = semdesc_linked s L"
    by (rule semdesc_linked_moved) (auto simp: lists Q)
  have "dp \<notin> set (L (SemWaiting x))" if "x \<noteq> sem" for x
    using dis(2) [of "SemWaiting sem" "SemWaiting x" dp] that Q by simp
  moreover have "dp \<notin> set dps" using dis(3) [of "SemWaiting sem"] by (simp add: Q)
  ultimately have gone: "dp \<notin> set (L' (SemWaiting x))" for x by (simp add: lists)
  have still: "e \<in> set (L' (SemWaiting x)) \<longleftrightarrow> e \<in> set (L (SemWaiting x)) \<and> e \<noteq> dp" for e x
    using gone [of x] by (auto simp: lists Q)
  have waits: "sem_waits s L' e \<longleftrightarrow> sem_waits s L e \<and> e \<noteq> d" if e: "e \<in> set (L (PcbSemDescriptors q))" for e q
  proof -
    obtain x y where le: "semdesc_linked s L q e x y" using semaphores_okD(1) [OF ok e] by blast
    have "desc_ptr (descs s e) = Some dp \<longleftrightarrow> e = d" using le l by (auto simp: semdesc_linked_def)
    then show ?thesis unfolding sem_waits_def still Bex_def by (cases "desc_ptr (descs s e)") auto
  qed
  have dw: "sem_waits s L d"
    unfolding sem_waits_def by (rule exI [of _ sem], rule bexI [of _ dp]) (use l Q in \<open>simp_all add: semdesc_linked_def\<close>)
  have own: "q = w" if "d \<in> set (L (PcbSemDescriptors q))" for q
    using semaphores_okD(1) [OF ok that] l by (auto simp: semdesc_linked_def)
  have "q \<in> blocked_on_sem s L' \<longleftrightarrow> (\<exists>e\<in>set (L (PcbSemDescriptors q)). sem_waits s L e \<and> e \<noteq> d)" for q
    by (simp add: blocked_on_sem_def lists waits cong: bex_cong)
  moreover have "e = d" if "e \<in> set (L (PcbSemDescriptors w))" "sem_waits s L e" for e
    by (rule semaphores_okD(3) [OF ok that(1) d that(2) dw])
  ultimately have "q \<in> blocked_on_sem s L' \<longleftrightarrow> q \<in> blocked_on_sem s L \<and> q \<noteq> w" for q
    using own unfolding blocked_on_sem_def by blast
  then show "blocked_on_sem s L' = blocked_on_sem s L - {w}" by blast
  have "\<exists>x y. semdesc_linked s L q e x y" if "e \<in> set (L (PcbSemDescriptors q))" for q e
    by (rule semaphores_okD(1) [OF ok that])
  moreover have "\<exists>q. \<exists>e\<in>set (L (PcbSemDescriptors q)). semdesc_linked s L q e x y" if "y \<in> set (L' (SemWaiting x))" for x y
    using semaphores_okD(2) [OF ok] that still by blast
  moreover have "e = e'" if "e \<in> set (L (PcbSemDescriptors q))" "e' \<in> set (L (PcbSemDescriptors q))"
      "sem_waits s L' e" "sem_waits s L' e'" for q e e'
    using that waits [OF that(1)] waits [OF that(2)] semaphores_okD(3) [OF ok that(1,2)] by blast
  moreover have "L' (SemDescriptors x) = []" if "x \<notin> set (L SemaphoresList)" for x
    using semaphores_okD(4) [OF ok that] sem that by (auto simp: lists)
  moreover have "\<forall>x. \<forall>y\<in>set (L' (SemDescriptors x)) \<union> set (L' (SemWaiting x)). ptr_shown s KSemDescriptor KSemaphore y"
    by (rule semaphores_shown [OF ok refl refl]) (use Q in \<open>auto simp: lists split: if_splits\<close>)
  ultimately show "semaphores_ok s L'" unfolding semaphores_ok_def same lists(1,2) by blast
qed

lemma inv_semPost_wakes:
  assumes inv: "machine_inv s L F r" and h: "sem_handle s L r (int_arg r 0 s) = Some (d, sem)"
    and rng: "int32_range (sem_count (sems s sem) + 1)" and some: "sem_count (sems s sem) \<ge> 0" "L (SemWaiting sem) = dp # dps"
  shows "\<exists>s' w. internal_semPost s = Inr s' \<and> moved_inv s L s' (posted_lists sem dp w L) F r \<and>
    w \<in> blocked_on_sem s L \<and> (\<exists>e. semdesc_linked s L w e sem dp) \<and>
    disastrOS_time s' = disastrOS_time s \<and> sems s' = sems s"
proof -
  note i = machine_invD [OF inv] and out = sched_disjoint(1) [OF machine_invD(1) [OF inv]]
  obtain dp0 where k: "kind_of sem = KSemaphore" "sem \<in> set (L SemaphoresList)" by (rule handle_linked [OF inv h])
  have "dp \<in> set (L (SemWaiting sem))" by (simp add: some(2))
  then obtain w e where w: "e \<in> set (L (PcbSemDescriptors w))" "semdesc_linked s L w e sem dp" "sem_waits s L e"
    "w \<in> blocked_on_sem s L" "w \<in> set (L WaitingList)"
    by (rule waiter [OF inv])
  let ?L = "posted_lists sem dp w L"
  have "desc_ptrs s dp = Some e" "desc_pcb (descs s e) = Some w" using w(2) by (simp_all add: semdesc_linked_def)
  moreover have "kind_of e = KSemDescriptor" using kernel_wf_kind [OF sched_wfD(1) [OF i(1)] w(1)] by simp
  ultimately obtain s' where s': "internal_semPost s = Inr s'" "sched_wf s' ?L F r" "kernel_frame s s'"
    using semPost_wakes [OF i(1) h k(1) rng some _ _ _ w(5)] by blast
  note sems = semaphores_posted [OF inv some(2) w(1,2) k(2) refl]
  have lists: "?L ReadyList = L ReadyList @ [w]" "?L WaitingList = remove1 w (L WaitingList)" "?L ZombieList = L ZombieList"
    "?L TimerList = L TimerList" "?L (PcbChildren x) = L (PcbChildren x)" for x
    by (simp_all add: posted_lists_def)
  have W: "set (?L WaitingList) = set (L WaitingList) - {w}"
    using sched_disjoint(3) [OF i(1), of WaitingList] by (simp add: lists)
  have P: "procs ?L r = procs L r" "child_ptrs ?L = child_ptrs L"
    using w(5) by (auto simp: procs_def child_ptrs_def W) (auto simp: lists)
  have status: "status_ok s ?L r"
  proof (rule status_okI [OF sems(2)])
    fix x
    show "pcb_status (pcbs s x) = Running \<or> pcb_status (pcbs s x) = Ready"
      if "x = r \<or> x \<in> set (?L ReadyList) \<or> x \<in> blocked_on_sem s L - {w}"
      using that status_okD(1) [OF i(3)] status_okD(2,6) [OF i(3), of x] w(4) unfolding lists by auto
    show "pcb_status (pcbs s x) = Zombie" if "x \<in> set (?L ZombieList)"
      using that status_okD(3) [OF i(3), of x] unfolding lists by simp
    show "pcb_status (pcbs s x) = Waiting \<longleftrightarrow> x \<in> set (?L WaitingList) \<and> x \<notin> blocked_on_sem s L - {w}"
      using status_okD(4) [OF i(3), of x] w(4) unfolding W by auto
    show "x \<in> set (?L WaitingList)" if "x \<in> blocked_on_sem s L - {w}"
      using that status_okD(5) [OF i(3), of x] unfolding W by auto
  qed
  have sleepers: "sleepers_ok s ?L" using i(8) unfolding sleepers_ok_def sems(2) lists by blast
  have "timer_owner s t \<noteq> w" if "t \<in> set (L TimerList)" for t using i(8) that w(4) by (auto simp: sleepers_ok_def)
  then have "timers_ok s ?L" using i(2) by (simp add: timers_ok_def W) (simp add: lists)
  then have timers: "timers_ok s' ?L" by (rule timers_ok_cong) (use s'(3) in \<open>auto simp: kernel_frame_def\<close>)
  have desc: "descriptors_ok s ?L"
    by (rule descriptors_cong [OF i(9) sched_wfD(1) [OF i(1)]])
      (simp_all add: same_descs_def same_resources_def posted_lists_def)
  have mqs: "message_queues_ok s ?L"
    by (rule message_queues_cong [OF i(11) sched_wfD(1) [OF i(1)]]) (simp_all add: same_descs_def same_mqs_def posted_lists_def)
  have places: "places_ok ?L F r" using i(4) by (simp add: places_ok_def P)
  have same: "same_tree s s" by (simp add: same_tree_def)
  have "machine_inv s' ?L F r"
    by (rule machine_invI [OF s'(3,2) timers status places tree_same [OF inv same P] sleepers desc sems(1) mqs])
      (simp_all add: lists)
  moreover have "life_step (census s L) (census s' ?L)"
  proof -
    have inj: "inj_on (pid_of s) (procs L r)" using i(6) by (simp add: pids_ok_def pid_of_def [abs_def])
    have "map (pid_of s) (?L WaitingList) = remove1 (pid_of s w) (map (pid_of s) (L WaitingList))"
      unfolding lists by (rule map_remove1_inj [OF inj]) (use w(5) in \<open>auto simp: procs_def\<close>)
    then show ?thesis
      using life_step.wake [of "pid_of s w" "map (pid_of s) (L WaitingList)"] w(5)
      by (simp add: census_tree [OF same s'(3,2)] census_running [OF i(1)] lists)
  qed
  moreover have "disastrOS_time s' = disastrOS_time s" "sems s' = sems s" using s'(3) by (simp_all add: kernel_frame_def)
  ultimately show ?thesis using s'(1) w(2,4) by blast
qed

lemma semPost_overflow:
  assumes run: "sched_wf s L F r" and h: "sem_handle s L r (int_arg r 0 s) = Some (d, sem)"
    and k: "kind_of sem = KSemaphore" and rng: "\<not> int32_range (sem_count (sems s sem) + 1)"
  shows "internal_semPost s = Inl SignedOverflow"
  using sched_wfD(2,3) [OF run] h k rng
  by (simp add: internal_semPost_def sem_of_fd_wf [OF sched_wfD(1) [OF run]] checked_int_def Let_def)

lemma inv_semPost:
  assumes inv: "machine_inv s L F r" and s': "internal_semPost s = Inr s'"
  shows "\<exists>L' F'. moved_inv s L s' L' F' r"
proof (cases "sem_handle s L r (int_arg r 0 s)")
  case None
  then have "s' = set_retvalue r DSOS_ESEMAPHOREPOST s" using semPost_bad_fd [OF machine_invD(1) [OF inv] None] s' by simp
  then show ?thesis using inv_set_retvalue [OF inv, of r] kept_moved by blast
next
  case (Some h)
  then obtain d sem where h: "sem_handle s L r (int_arg r 0 s) = Some (d, sem)" by (cases h) auto
  obtain dp where k: "kind_of sem = KSemaphore" by (rule handle_linked [OF inv h])
  note run = machine_invD(1) [OF inv]
  have rng: "int32_range (sem_count (sems s sem) + 1)" using semPost_overflow [OF run h k] s' by auto
  show ?thesis
  proof (cases "sem_count (sems s sem) < 0 \<or> L (SemWaiting sem) = []")
    case True
    have "s' = set_retvalue r 0 (upd_sem sem (\<lambda>c. c\<lparr>sem_count := sem_count (sems s sem) + 1\<rparr>) s)"
      using semPost_counts [OF run h k rng True] s' by simp
    then show ?thesis using inv_count [OF inv] kept_moved by blast
  next
    case False
    then obtain dp dps where "sem_count (sems s sem) \<ge> 0" "L (SemWaiting sem) = dp # dps" by (auto simp: neq_Nil_conv)
    from inv_semPost_wakes [OF inv h rng this] show ?thesis using s' by auto
  qed
qed

section \<open>Closing\<close>

lemma semaphores_closed:
  assumes inv: "machine_inv s L F r" and d: "d \<in> set (L (PcbSemDescriptors r))" and l: "semdesc_linked s L r d sem dp"
    and dp: "dp \<in> set (L (SemDescriptors sem))"
    and X: "descs X = descs s" "desc_ptrs X = desc_ptrs s"
    and L': "L' = (semclosed_lists r sem d dp L)(SemaphoresList := M)"
    and M: "\<And>x. x \<in> set (L SemaphoresList) \<Longrightarrow> x \<notin> set M \<Longrightarrow> x = sem \<and> remove1 dp (L (SemDescriptors sem)) = []"
  shows "semaphores_ok X L'" "blocked_on_sem X L' = blocked_on_sem s L"
proof -
  note ok = machine_invD(10) [OF inv] and dis = sched_disjoint [OF machine_invD(1) [OF inv]]
  have lists: "L' (PcbSemDescriptors q) = (if q = r then remove1 d (L (PcbSemDescriptors r)) else L (PcbSemDescriptors q))"
    "L' SemaphoresList = M" "L' (SemWaiting x) = L (SemWaiting x)"
    "L' (SemDescriptors x) = (if x = sem then remove1 dp (L (SemDescriptors sem)) else L (SemDescriptors x))" for q x
    by (simp_all add: L' semclosed_lists_def)
  have "d \<notin> set (L (PcbSemDescriptors q))" if "q \<noteq> r" for q
    using dis(2) [of "PcbSemDescriptors r" "PcbSemDescriptors q" d] that d by simp
  then have mem: "e \<in> set (L' (PcbSemDescriptors q)) \<longleftrightarrow> e \<in> set (L (PcbSemDescriptors q)) \<and> e \<noteq> d" for e q
    using dis(3) [of "PcbSemDescriptors r"] by (auto simp: lists)
  have waits: "sem_waits X L' = sem_waits s L" by (simp add: sem_waits_def lists X fun_eq_iff)
  have nd: "\<not> sem_waits s L d" using running_not_blocked [OF inv] d by (auto simp: blocked_on_sem_def)
  show "blocked_on_sem X L' = blocked_on_sem s L" using nd by (auto simp: blocked_on_sem_def waits mem)
  have keep: "semdesc_linked X L' q e x y" if "semdesc_linked s L q e x y" "e \<noteq> d" for q e x y
  proof -
    have "y \<noteq> dp" using that l by (auto simp: semdesc_linked_def)
    then show ?thesis using that(1) by (auto simp: semdesc_linked_def X lists)
  qed
  have "\<exists>x y. semdesc_linked X L' q e x y" if "e \<in> set (L' (PcbSemDescriptors q))" for q e
  proof -
    have e: "e \<in> set (L (PcbSemDescriptors q))" "e \<noteq> d" using that by (simp_all add: mem)
    from semaphores_okD(1) [OF ok e(1)] show ?thesis using keep [OF _ e(2)] by blast
  qed
  moreover have "\<exists>q. \<exists>e\<in>set (L' (PcbSemDescriptors q)). semdesc_linked X L' q e x y" if y: "y \<in> set (L' (SemWaiting x))" for x y
  proof -
    have "y \<in> set (L (SemWaiting x))" using y by (simp add: lists)
    then obtain q e where e: "e \<in> set (L (PcbSemDescriptors q))" "semdesc_linked s L q e x y" "sem_waits s L e"
      by (rule waiter [OF inv])
    then have "e \<noteq> d" using nd by blast
    then have "e \<in> set (L' (PcbSemDescriptors q))" "semdesc_linked X L' q e x y" using e(1) keep [OF e(2)] by (simp_all add: mem)
    then show ?thesis by blast
  qed
  moreover have "e = e'" if "e \<in> set (L' (PcbSemDescriptors q))" "e' \<in> set (L' (PcbSemDescriptors q))"
      "sem_waits X L' e" "sem_waits X L' e'" for q e e'
    using that semaphores_okD(3) [OF ok, of e q e'] by (simp add: mem waits)
  moreover have "L' (SemDescriptors x) = []" if "x \<notin> set M" for x
    using semaphores_okD(4) [OF ok, of x] M [of x] that by (cases "x \<in> set (L SemaphoresList)") (auto simp: lists)
  moreover have "\<forall>x. \<forall>y\<in>set (L' (SemDescriptors x)) \<union> set (L' (SemWaiting x)). ptr_shown X KSemDescriptor KSemaphore y"
    by (rule semaphores_shown [OF ok X]) (auto simp: lists dest: subsetD [OF set_remove1_subset] split: if_splits)
  ultimately show "semaphores_ok X L'" unfolding semaphores_ok_def lists(2) by blast
qed

lemma semClose_underflow:
  assumes run: "sched_wf s L F r" and h: "sem_handle s L r (int_arg r 0 s) = Some (d, sem)"
    and k: "kind_of sem = KSemaphore" and rng: "\<not> int32_range (pcb_last_sem_fd (pcbs s r) - 1)"
    and dp: "desc_ptr (descs s d) = Some dp" "dp \<in> set (L (SemDescriptors sem))"
  shows "\<exists>e. internal_semClose s = Inl e"
proof (rule ccontr)
  assume "\<not> ?thesis"
  then obtain s' where s': "internal_semClose s = Inr s'" by (cases "internal_semClose s") auto
  note r = sched_wfD [OF run]
  have din: "d \<in> set (L (PcbSemDescriptors r))" by (rule sem_handle_listed [OF h])
  obtain s1 s2 where s: "List_detach (PcbSemDescriptors r) (Some d) s = Inr (Some d, s1)"
    "List_detach (SemDescriptors sem) (Some dp) s1 = Inr (Some dp, s2)"
    "kernel_wf s2 (L(PcbSemDescriptors r := remove1 d (L (PcbSemDescriptors r)), SemDescriptors sem := remove1 dp (L (SemDescriptors sem)))) F"
    "lists_only s s1" "lists_only s s2" "live s2 F d" "live s2 F dp"
    "\<not> listed (L(PcbSemDescriptors r := remove1 d (L (PcbSemDescriptors r)), SemDescriptors sem := remove1 dp (L (SemDescriptors sem)))) d"
    "\<not> listed (L(PcbSemDescriptors r := remove1 d (L (PcbSemDescriptors r)), SemDescriptors sem := remove1 dp (L (SemDescriptors sem)))) dp"
    using wf_remove2 [OF r(1) din dp(2)] by blast
  have kd: "kind_of d = KSemDescriptor" "kind_of dp = KSemDescriptorPtr"
    using kernel_wf_kind [OF r(1) din] kernel_wf_kind [OF r(1) dp(2)] by simp_all
  have kk: "KSemDescriptor \<noteq> KSemDescriptorPtr" by simp
  obtain s3 s4 where f: "free_block KSemDescriptor d s2 = Inr (Success, s3)" "free_block KSemDescriptorPtr dp s3 = Inr (Success, s4)"
    "kernel_frame s2 s4"
    using wf_free2 [OF s(3) s(6,8) kd(1) s(7,9) kd(2) kk] by blast
  have "descs s1 = descs s" by (rule lists_only_fields(6) [OF s(4)])
  moreover have "pcbs s4 = pcbs s" using kernel_frame_trans [OF lists_only_frame [OF s(5)] f(3)] by (simp add: kernel_frame_def)
  ultimately show False
    using s' r(2,3) dp(1) k rng s(1,2) f(1,2) sem_of_fd_wf [OF r(1), of r "int_arg r 0 s"] h
    by (simp add: internal_semClose_def SemDescriptor_free_def SemDescriptorPtr_free_def checked_int_def)
qed

lemma inv_semClose:
  assumes inv: "machine_inv s L F r" and s': "internal_semClose s = Inr s'"
  shows "\<exists>L' F'. kept_inv s L s' L' F' r"
proof (cases "sem_handle s L r (int_arg r 0 s)")
  case None
  then have "s' = set_retvalue r DSOS_ESEMAPHORECLOSE s" using semClose_bad_fd [OF machine_invD(1) [OF inv] None] s' by simp
  then show ?thesis using inv_set_retvalue [OF inv, of r] by blast
next
  case (Some h)
  then obtain d sem where h: "sem_handle s L r (int_arg r 0 s) = Some (d, sem)" by (cases h) auto
  obtain dp where dp: "d \<in> set (L (PcbSemDescriptors r))" "semdesc_linked s L r d sem dp" "dp \<in> set (L (SemDescriptors sem))"
    "sem \<in> set (L SemaphoresList)" "desc_ptr (descs s d) = Some dp" "kind_of sem = KSemaphore"
    by (rule handle_linked [OF inv h])
  note run = machine_invD(1) [OF inv]
  have rng: "int32_range (pcb_last_sem_fd (pcbs s r) - 1)" using semClose_underflow [OF run h dp(6) _ dp(5,3)] s' by auto
  let ?X = "set_retvalue r 0 (upd_pcb r (set_last_sem_fd (pcb_last_sem_fd (pcbs s r) - 1)) s)"
  let ?L = "semclosed_lists r sem d dp L" and ?F = "semclosed_free d dp F"
  have X: "same_blocks s ?X" "descs ?X = descs s" "desc_ptrs ?X = desc_ptrs s" "same_descs KDescriptor KDescriptorPtr s ?X"
    "same_descs KMQDescriptor KMQDescriptorPtr s ?X" "mqs ?X = mqs s" "queue_priority ?X = queue_priority s" "msgs ?X = msgs s"
    "pcb_last_mq_fd (pcbs ?X p) = pcb_last_mq_fd (pcbs s p)" for p
    by (simp_all add: same_blocks_def same_tree_def same_descs_def set_retvalue_def upd_pcb_def set_last_sem_fd_def)
  note call = inv_semaphore_call [OF inv X(1) _ _ _ _ _ X(4,5)]
  show ?thesis
  proof (cases "remove1 dp (L (SemDescriptors sem)) = []")
    case False
    then have w: "sched_wf s' ?L ?F r" "kernel_frame ?X s'" using semClose_keeps [OF run h dp(6) rng dp(5,3) False] s' by auto
    have "?L = ?L(SemaphoresList := L SemaphoresList)" by (auto simp: semclosed_lists_def)
    note sems = semaphores_closed [OF inv dp(1-3) X(2,3) this]
    have "kept_inv s L s' ?L ?F r"
      by (rule call [OF w(2,1)])
        (use sems X in \<open>simp_all add: semaphore_call_defs semclosed_lists_def semclosed_free_def\<close>)
    then show ?thesis by blast
  next
    case True
    then have one: "L (SemDescriptors sem) = [dp]" using dp(3) by (cases "L (SemDescriptors sem)") (auto split: if_splits)
    let ?M = "remove1 sem (L SemaphoresList)"
    have w: "sched_wf s' (?L(SemaphoresList := ?M)) (?F(KSemaphore := idx_of sem # F KSemaphore)) r" "kernel_frame ?X s'"
      using semClose_destroys [OF run h dp(6) rng dp(5) one dp(4)] s' by auto
    have "x = sem \<and> remove1 dp (L (SemDescriptors sem)) = []" if "x \<in> set (L SemaphoresList)" "x \<notin> set ?M" for x
      using that True by (cases "x = sem") auto
    note sems = semaphores_closed [OF inv dp(1-3) X(2,3) refl this]
    have "kept_inv s L s' (?L(SemaphoresList := ?M)) (?F(KSemaphore := idx_of sem # F KSemaphore)) r"
      by (rule call [OF w(2,1)])
        (use sems X in \<open>simp_all add: semaphore_call_defs semclosed_lists_def semclosed_free_def\<close>)
    then show ?thesis by blast
  qed
qed

section \<open>Opening\<close>

lemma semaphores_opened:
  assumes inv: "machine_inv s L F r" and d: "\<not> live s F d" "kind_of d = KSemDescriptor"
    and dp: "\<not> live s F dp" "kind_of dp = KSemDescriptorPtr" and sem: "sem \<in> set (L SemaphoresList)"
  defines "X \<equiv> semopened_contents r sem d dp s" and "L' \<equiv> semopened_lists r sem d dp L"
  shows "semaphores_ok X L'" "blocked_on_sem X L' = blocked_on_sem s L"
proof -
  note i = machine_invD [OF inv] and ok = machine_invD(10) [OF inv]
  note wf = sched_wfD(1) [OF i(1)]
  have new: "d \<notin> set (L h)" "dp \<notin> set (L h)" for h using kernel_wf_live [OF wf] d(1) dp(1) by blast+
  have lists: "L' (PcbSemDescriptors q) = (if q = r then L (PcbSemDescriptors r) @ [d] else L (PcbSemDescriptors q))"
    "L' SemaphoresList = L SemaphoresList" "L' (SemWaiting x) = L (SemWaiting x)"
    "L' (SemDescriptors x) = (if x = sem then L (SemDescriptors sem) @ [dp] else L (SemDescriptors x))" for q x
    by (simp_all add: L'_def semopened_lists_def)
  have X: "descs X = (descs s)(d := \<lparr>desc_pcb = Some r, desc_object = Some sem, desc_fd = pcb_last_sem_fd (pcbs s r), desc_ptr = Some dp\<rparr>)"
    "desc_ptrs X = (desc_ptrs s)(dp := Some d)"
    by (simp_all add: X_def semopened_contents_def opened_desc_def)
  have mem: "e \<in> set (L' (PcbSemDescriptors q)) \<longleftrightarrow> e \<in> set (L (PcbSemDescriptors q)) \<or> q = r \<and> e = d" for e q
    by (auto simp: lists)
  have "kind_of sem = KSemaphore" using kernel_wf_kind [OF wf sem] by simp
  then have link: "semdesc_linked X L' r d sem dp" by (simp add: semdesc_linked_def X lists)
  have keep: "semdesc_linked X L' q e x y" if "semdesc_linked s L q e x y" "e \<in> set (L (PcbSemDescriptors q))" for q e x y
  proof -
    have "e \<noteq> d" using that(2) new(1) by blast
    moreover have "y \<noteq> dp" using that(1) new(2) by (auto simp: semdesc_linked_def)
    ultimately show ?thesis using that(1) by (auto simp: semdesc_linked_def X lists)
  qed
  have waits: "sem_waits X L' e \<longleftrightarrow> e \<noteq> d \<and> sem_waits s L e" if "e \<in> set (L' (PcbSemDescriptors q))" for e q
    using new(2) by (auto simp: sem_waits_def X lists)
  have "w \<in> blocked_on_sem X L' \<longleftrightarrow> w \<in> blocked_on_sem s L" for w
  proof -
    have "w \<in> blocked_on_sem X L' \<longleftrightarrow> (\<exists>e\<in>set (L' (PcbSemDescriptors w)). e \<noteq> d \<and> sem_waits s L e)"
      by (simp add: blocked_on_sem_def waits cong: bex_cong)
    also have "\<dots> \<longleftrightarrow> w \<in> blocked_on_sem s L" using new(1) [of "PcbSemDescriptors w"] by (auto simp: blocked_on_sem_def mem)
    finally show ?thesis .
  qed
  then show "blocked_on_sem X L' = blocked_on_sem s L" by blast
  have "\<exists>x y. semdesc_linked X L' q e x y" if "e \<in> set (L' (PcbSemDescriptors q))" for q e
  proof (cases "e \<in> set (L (PcbSemDescriptors q))")
    case True
    from semaphores_okD(1) [OF ok this] show ?thesis using keep [OF _ True] by blast
  next
    case False
    then show ?thesis using that link by (auto simp: mem)
  qed
  moreover have "\<exists>q. \<exists>e\<in>set (L' (PcbSemDescriptors q)). semdesc_linked X L' q e x y" if "y \<in> set (L' (SemWaiting x))" for x y
  proof -
    have "y \<in> set (L (SemWaiting x))" using that by (simp add: lists)
    from semaphores_okD(2) [OF ok this] show ?thesis using keep mem by blast
  qed
  moreover have "e = e'" if "e \<in> set (L' (PcbSemDescriptors q))" "e' \<in> set (L' (PcbSemDescriptors q))"
      "sem_waits X L' e" "sem_waits X L' e'" for q e e'
    using that waits [OF that(1)] waits [OF that(2)] semaphores_okD(3) [OF ok, of e q e'] by (auto simp: mem)
  moreover have "L' (SemDescriptors x) = []" if "x \<notin> set (L SemaphoresList)" for x
    using semaphores_okD(4) [OF ok that] sem that by (auto simp: lists)
  moreover have "ptr_shown X KSemDescriptor KSemaphore y" if "y \<in> set (L' (SemDescriptors x)) \<union> set (L' (SemWaiting x))" for x y
  proof (cases "y = dp")
    case True
    then show ?thesis using d(2) \<open>kind_of sem = KSemaphore\<close> sched_wfD(3) [OF i(1)] by (simp add: ptr_shown_def desc_shown_def X)
  next
    case False
    then have "y \<in> set (L (SemDescriptors x)) \<union> set (L (SemWaiting x))" using that by (auto simp: lists split: if_splits)
    from semaphores_okD(5) [OF ok this] show ?thesis
      using False \<open>kind_of sem = KSemaphore\<close> sched_wfD(3) [OF i(1)] by (auto simp: ptr_shown_def desc_shown_def X)
  qed
  ultimately show "semaphores_ok X L'" unfolding semaphores_ok_def lists(2) by blast
qed

lemma inv_sem_attach:
  assumes inv: "machine_inv s L F r" and sem: "sem \<in> set (L SemaphoresList)"
    and rng: "int32_range (pcb_last_sem_fd (pcbs s r) + 1)" and s': "semOpen_attach r sem s = Inr s'"
  shows "\<exists>L' F'. kept_inv s L s' L' F' r"
proof -
  note i = machine_invD [OF inv] and run = machine_invD(1) [OF inv]
  note wf = sched_wfD(1) [OF run]
  have k: "kind_of sem = KSemaphore" using kernel_wf_kind [OF wf sem] by simp
  note call = inv_semaphore_call [OF inv]
  show ?thesis
  proof (cases "F KSemDescriptor")
    case Nil
    have "s' = set_retvalue r DSOS_ESEMAPHOREOPEN s"
      using open_descriptor_no_desc [OF wf Nil] s' by (simp add: semOpen_attach_def)
    then show ?thesis using inv_set_retvalue [OF inv, of r] by blast
  next
    case F: (Cons a as)
    let ?d = "Ptr KSemDescriptor a"
    have d: "\<not> live s F ?d" "kind_of ?d = KSemDescriptor" using F by (simp_all add: live_def)
    show ?thesis
    proof (cases "F KSemDescriptorPtr")
      case Nil
      define X where "X = set_retvalue r DSOS_ESEMAPHOREOPEN (s\<lparr>descs := (descs s)(?d := (descs s ?d)
        \<lparr>desc_fd := pcb_last_sem_fd (pcbs s r), desc_object := Some sem, desc_pcb := Some r\<rparr>)\<rparr>)"
      have w: "sched_wf s' L (F(KSemDescriptor := as)) r" "kernel_frame X s'"
        using s' open_descriptor_no_ptr [OF run F Nil, of KSemaphore "PcbSemDescriptors r" "SemDescriptors sem"
            pcb_last_sem_fd set_last_sem_fd DSOS_ESEMAPHOREOPEN sem]
        unfolding semOpen_attach_def X_def by auto
      have X: "same_blocks s X" "same_descs KDescriptor KDescriptorPtr s X" "desc_ptrs X = desc_ptrs s"
        "e \<noteq> ?d \<Longrightarrow> descs X e = descs s e" "same_descs KMQDescriptor KMQDescriptorPtr s X" "same_mqs s L X L" for e
        by (simp_all add: X_def same_blocks_def same_tree_def same_descs_def same_mqs_def set_retvalue_def upd_pcb_def)
      have same: "descs X e = descs s e" if "e \<in> set (L h)" for e h
        using that kernel_wf_live [OF wf that] d(1) X(4) by metis
      have link: "semdesc_linked X L q e = semdesc_linked s L q e" if "e \<in> set (L (PcbSemDescriptors q))" for q e
        by (simp add: semdesc_linked_def same [OF that] X(3) fun_eq_iff)
      have waits: "sem_waits X L e = sem_waits s L e" if "e \<in> set (L (PcbSemDescriptors q))" for q e
        by (simp add: sem_waits_def same [OF that])
      have "desc_shown s KSemDescriptor KSemaphore e \<Longrightarrow> desc_shown X KSemDescriptor KSemaphore e" for e
        using k sched_wfD(3) [OF run] by (cases "e = ?d") (simp_all add: desc_shown_def X_def set_retvalue_def upd_pcb_def)
      then have "ptr_shown s KSemDescriptor KSemaphore dp \<Longrightarrow> ptr_shown X KSemDescriptor KSemaphore dp" for dp
        by (auto simp: ptr_shown_def X(3))
      then have "\<forall>x. \<forall>dp\<in>set (L (SemDescriptors x)) \<union> set (L (SemWaiting x)). ptr_shown X KSemDescriptor KSemaphore dp"
        using semaphores_okD(5) [OF i(10)] by blast
      then have "semaphores_ok X L" using i(10) unfolding semaphores_ok_def by (simp add: link waits cong: ball_cong bex_cong)
      moreover have "blocked_on_sem X L = blocked_on_sem s L" by (simp add: blocked_on_sem_def waits cong: bex_cong)
      ultimately have "kept_inv s L s' L (F(KSemDescriptor := as)) r"
        by (intro call [OF X(1) w(2,1) _ _ _ X(2,5,6)]) (simp_all add: same_processes_def same_resources_def)
      then show ?thesis by blast
    next
      case F2: (Cons b bs)
      let ?dp = "Ptr KSemDescriptorPtr b"
      have dp: "\<not> live s F ?dp" "kind_of ?dp = KSemDescriptorPtr" using F2 by (simp_all add: live_def)
      let ?X = "semopened_contents r sem ?d ?dp s" and ?L = "semopened_lists r sem ?d ?dp L"
      let ?F = "F(KSemDescriptor := as, KSemDescriptorPtr := bs)"
      have w: "sched_wf s' ?L ?F r" "kernel_frame ?X s'" using semOpen_attach_wf [OF run F F2 k rng] s' by auto
      note sems = semaphores_opened [OF inv d dp sem]
      have "kept_inv s L s' ?L ?F r"
        by (rule call [OF _ w(2,1) _ _ _ _ _ _ sems])
          (simp_all add: semaphore_call_defs same_blocks_def same_tree_def same_descs_def
            semopened_contents_def semopened_lists_def opened_desc_def set_last_sem_fd_def)
      then show ?thesis by blast
    qed
  qed
qed

lemma inv_sem_create:
  assumes inv: "machine_inv s L F r" and F: "F KSemaphore = i # is"
    and s1: "Semaphore_alloc sid count s = Inr (res, s1)"
    and s2: "List_insert SemaphoresList (list_last SemaphoresList s1) res s1 = Inr (x, s2)"
  shows "\<exists>n L' F'. res = Some n \<and> kept_inv s L s2 L' F' r \<and> n \<in> set (L' SemaphoresList) \<and> pcbs s2 = pcbs s"
proof -
  note w = machine_invD [OF inv] and run = machine_invD(1) [OF inv]
  note wf = sched_wfD(1) [OF run]
  let ?n = "Ptr KSemaphore i" and ?F = "F(KSemaphore := is)" and ?X = "s\<lparr>sems := (sems s)(Ptr KSemaphore i := \<lparr>sem_id = sid, sem_count = count\<rparr>)\<rparr>"
  let ?L = "newsem_lists ?n L"
  have s: "res = Some ?n" "sched_wf s2 ?L ?F r" "kernel_frame ?X s2"
    using Semaphore_create_wf [OF run F, of sid count] s1 s2 by auto
  have "?n \<notin> set (L SemaphoresList)" using kernel_wf_live [OF wf, of ?n SemaphoresList] F by (auto simp: live_def)
  then have empty: "L (SemDescriptors ?n) = []" by (rule semaphores_okD(4) [OF w(10)])
  have "semdesc_linked ?X ?L = semdesc_linked s L"
    using empty by (auto simp: semdesc_linked_def newsem_lists_def fun_eq_iff)
  moreover have "sem_waits ?X ?L = sem_waits s L" by (simp add: sem_waits_def newsem_lists_def fun_eq_iff)
  moreover have lists: "?L (PcbSemDescriptors q) = L (PcbSemDescriptors q)" "?L (SemWaiting y) = L (SemWaiting y)"
    "?L SemaphoresList = L SemaphoresList @ [?n]" "?L (SemDescriptors y) = L (SemDescriptors y)" for q y
    using empty by (simp_all add: newsem_lists_def)
  moreover have "ptr_shown ?X = ptr_shown s" by (simp add: ptr_shown_def desc_shown_def fun_eq_iff)
  ultimately have "semaphores_ok ?X ?L" "blocked_on_sem ?X ?L = blocked_on_sem s L"
    using w(10) by (simp_all add: semaphores_ok_def blocked_on_sem_def)
  then have "kept_inv s L s2 ?L ?F r"
    by (intro inv_semaphore_call [OF inv _ s(3,2)])
      (simp_all add: semaphore_call_defs same_blocks_def same_tree_def same_descs_def newsem_lists_def)
  moreover have "pcbs s2 = pcbs s" using s(3) by (simp add: kernel_frame_def)
  ultimately show ?thesis using s(1) by (intro exI [of _ ?n] exI [of _ ?L] exI [of _ ?F]) (simp add: lists)
qed

lemma inv_semOpen:
  assumes inv: "machine_inv s L F r" and s': "internal_semOpen s = Inr s'"
  shows "\<exists>L' F'. kept_inv s L s' L' F' r"
proof -
  note run = machine_invD(1) [OF inv]
  note r = sched_wfD [OF run]
  let ?refused = "s' = set_retvalue r DSOS_ESEMAPHOREOPEN s"
  have ret: "\<exists>L' F'. kept_inv s L s' L' F' r" if "?refused" using inv_set_retvalue [OF inv, of r] that by blast
  have look: "SemaphoreList_byId SemaphoresList (int_arg r 0 s) s = Inr (sem_lookup s L (int_arg r 0 s))"
    using SemaphoreList_byId_wf [OF r(1), of SemaphoresList] by (simp add: sem_lookup_def)
  have rng: "int32_range (pcb_last_sem_fd (pcbs s r) + 1)"
  proof (rule ccontr)
    assume "\<not> ?thesis"
    then show False using s' r(2,3) by (simp add: internal_semOpen_def checked_int_def Let_def)
  qed
  show ?thesis
  proof (cases "sem_lookup s L (int_arg r 0 s)")
    case (Some sem)
    then have "sem \<in> set (L SemaphoresList)" by (auto simp: sem_lookup_def dest: find_in_set)
    moreover have "?refused \<or> semOpen_attach r sem s = Inr s'"
      using s' r(2,3) look Some rng by (auto simp: internal_semOpen_def Let_def split: if_splits)
    ultimately show ?thesis using ret inv_sem_attach [OF inv _ rng] by blast
  next
    case None
    let ?count = "to_int32 (syscall_arg r 2 s mod 2 ^ 32)"
    show ?thesis
    proof (cases "F KSemaphore")
      case Nil
      then have "Semaphore_alloc (int_arg r 0 s) ?count s = Inr (None, s)"
        by (simp add: Semaphore_alloc_def wf_alloc_empty [OF r(1)])
      then have "?refused" using s' r(2,3) look None rng by (auto simp: internal_semOpen_def Let_def split: if_splits)
      then show ?thesis by (rule ret)
    next
      case F: (Cons i "is")
      obtain s1 s2 where a: "Semaphore_alloc (int_arg r 0 s) ?count s = Inr (Some (Ptr KSemaphore i), s1)"
        "List_insert SemaphoresList (list_last SemaphoresList s1) (Some (Ptr KSemaphore i)) s1 = Inr (Some (Ptr KSemaphore i), s2)"
        using Semaphore_create_wf [OF run F] by blast
      obtain n M G where n: "Some (Ptr KSemaphore i) = Some n" "kept_inv s L s2 M G r" "n \<in> set (M SemaphoresList)" "pcbs s2 = pcbs s"
        using inv_sem_create [OF inv F a] by blast
      have "?refused \<or> semOpen_attach r (Ptr KSemaphore i) s2 = Inr s'"
        using s' r(2,3) look None rng a by (auto simp: internal_semOpen_def Let_def split: if_splits)
      then show ?thesis using ret inv_sem_attach [OF n(2) [THEN conjunct1], of "Ptr KSemaphore i"] n rng by auto
    qed
  qed
qed

end
