(* ===== verification/MachineMq.thy ===== *)
theory MachineMq
  imports MachineSemaphore MessageQueueLife
begin

text \<open>
  The calls on message queues keep the invariant of the machine. Write, close and unlink always return;
  read fails only where an address the caller gives is null. Open is treated as long as it does not
  make a second message queue, the call that leaves the lists malformed.
\<close>

section \<open>General facts\<close>

lemma inv_mq_call:
  assumes inv: "machine_inv s L F r" and same: "same_blocks s X" and X: "kernel_frame X s'" and run: "sched_wf s' L' F' r"
    and L: "same_processes L L'" "same_resources L L'" "same_semaphores L L'" and F: "F' KPCB = F KPCB"
    and D: "same_descs KDescriptor KDescriptorPtr s X" "same_descs KSemDescriptor KSemDescriptorPtr s X"
    and mqs: "message_queues_ok X L'"
  shows "kept_inv s L s' L' F' r"
proof -
  note i = machine_invD [OF inv]
  have desc: "descriptors_ok X L'" by (rule descriptors_cong [OF i(9) sched_wfD(1) [OF i(1)] D(1) L(2)])
  have sems: "semaphores_ok X L'" "blocked_on_sem X L' = blocked_on_sem s L"
    by (rule semaphores_cong [OF i(10) sched_wfD(1) [OF i(1)] D(2) L(3)])+
  show ?thesis by (rule inv_same_processes [OF inv same X run L(1) F desc sems mqs])
qed

lemmas mq_call_defs = same_blocks_def same_tree_def same_descs_def same_processes_def same_resources_def same_semaphores_def

lemma mq_handle_linked:
  assumes inv: "machine_inv s L F r" and h: "mq_handle s L r fd = Some (d, mq)"
  obtains dp where "d \<in> set (L (PcbMqDescriptors r))" "mqdesc_linked s L d mq dp" "mq \<in> set (L MessageQueuesList)"
    "kind_of mq = KMessageQueue"
proof -
  note ok = machine_invD(11) [OF inv]
  have d: "d \<in> set (L (PcbMqDescriptors r))" by (rule mq_handle_listed [OF h])
  obtain x dp where l: "mqdesc_linked s L d x dp" using message_queues_okD(5) [OF ok d] by blast
  have "desc_object (descs s d) = Some mq" using h by (auto simp: mq_handle_def split: option.splits)
  then have x: "x = mq" using l by (simp add: mqdesc_linked_def)
  have "mq \<in> set (L MessageQueuesList)"
  proof (rule ccontr)
    assume "mq \<notin> set (L MessageQueuesList)"
    then show False using message_queues_okD(7) [OF ok] l x by (auto simp: mqdesc_linked_def)
  qed
  then show ?thesis using that d l x by (simp add: mqdesc_linked_def)
qed

lemma the_message_queue:
  assumes "message_queues_ok s L" and "mq \<in> set (L MessageQueuesList)"
  shows "L MessageQueuesList = [mq]"
  using message_queues_okD(1) [OF assms(1)] assms(2) by (cases "L MessageQueuesList") auto

text \<open>Every priority up to that of the message queue has a queue.\<close>

lemma level_found:
  assumes "levels_ok s L mq" and "0 \<le> p" "p \<le> mq_priority (mqs s mq)"
  obtains q where "queue_lookup s L mq p = Some q" "q \<in> set (L (MqQueues mq))" "queue_priority s q = p"
proof -
  have "p \<in> set (map (queue_priority s) (L (MqQueues mq)))" using assms by (simp add: levels_ok_def)
  then obtain x where x: "x \<in> set (L (MqQueues mq))" "queue_priority s x = p" by auto
  then obtain q where q: "queue_lookup s L mq p = Some q"
    by (cases "queue_lookup s L mq p") (auto simp: queue_lookup_def find_None_iff)
  moreover from q have "queue_priority s q = p" by (auto simp: queue_lookup_def find_Some_iff)
  ultimately show ?thesis using that queue_lookup_in [OF q] by blast
qed

lemma effective_priority_range:
  assumes "0 \<le> n"
  shows "0 \<le> effective_priority n p" "effective_priority n p \<le> n"
  using assms by (auto simp: effective_priority_def)

lemma messages_in_upd:
  assumes "distinct (L (MqQueues mq))" and "q \<in> set (L (MqQueues mq))"
  shows "messages_in (L(QueueMessages q := ms)) mq = messages_in L mq - int (length (L (QueueMessages q))) + int (length ms)"
proof -
  let ?A = "set (L (MqQueues mq))"
  have sum: "messages_in M mq = (\<Sum>x\<in>?A. int (length (M (QueueMessages x))))" if "M (MqQueues mq) = L (MqQueues mq)" for M
    using assms(1) by (simp add: messages_in_def that sum_list_distinct_conv_sum_set)
  have "(\<Sum>x\<in>?A - {q}. int (length ((L(QueueMessages q := ms)) (QueueMessages x)))) =
      (\<Sum>x\<in>?A - {q}. int (length (L (QueueMessages x))))" by (rule sum.cong) simp_all
  then show ?thesis using assms(2) by (simp add: sum sum.remove [of ?A q])
qed

lemma no_messages:
  assumes "messages_in L mq \<le> 0" and "q \<in> set (L (MqQueues mq))"
  shows "L (QueueMessages q) = []"
proof -
  have "messages_in L mq = int (sum_list (map (\<lambda>x. length (L (QueueMessages x))) (L (MqQueues mq))))"
    by (simp add: messages_in_def sum_list_of_nat [symmetric] comp_def)
  then have "sum_list (map (\<lambda>x. length (L (QueueMessages x))) (L (MqQueues mq))) = 0" using assms(1) by simp
  then show ?thesis using assms(2) by auto
qed

text \<open>Where the messages of one queue change, the rest stays.\<close>

lemma messages_changed:
  assumes ok: "message_queues_ok s L" and mq: "mq \<in> set (L MessageQueuesList)" and q: "q \<in> set (L (MqQueues mq))"
    and dist: "distinct (L (MqQueues mq))"
    and X: "queue_priority X = queue_priority s" "descs X = descs s" "desc_ptrs X = desc_ptrs s"
      "mq_priority (mqs X mq) = mq_priority (mqs s mq)" "\<And>p. pcb_last_mq_fd (pcbs X p) = pcb_last_mq_fd (pcbs s p)"
    and old: "\<And>x m. x \<noteq> q \<Longrightarrow> m \<in> set (L (QueueMessages x)) \<Longrightarrow> msg_text (msgs X m) \<noteq> 0"
    and new: "\<And>m. m \<in> set ms \<Longrightarrow> msg_text (msgs X m) \<noteq> 0"
    and num: "messages_in L mq - int (length (L (QueueMessages q))) + int (length ms) \<le> mq_num_messages (mqs X mq)"
      "mq_num_messages (mqs X mq) \<le> 128"
  shows "message_queues_ok X (L(QueueMessages q := ms))"
proof -
  let ?L = "L(QueueMessages q := ms)"
  have one: "L MessageQueuesList = [mq]" by (rule the_message_queue [OF ok mq])
  have "levels_ok X ?L mq"
    using message_queues_okD(2) [OF ok mq] num by (simp add: levels_ok_def messages_in_upd [where L = L, OF dist q] X)
  moreover have "\<exists>mq dp. mqdesc_linked X ?L d mq dp" if "d \<in> set (L (PcbMqDescriptors p))" for p d
    using message_queues_okD(5) [OF ok that] by (simp add: mqdesc_linked_def X)
  moreover have "ptr_shown X KMQDescriptor KMessageQueue dp" if "dp \<in> set (L (MqDescriptors x))" for x dp
    using message_queues_okD(6) [OF ok that] by (simp add: ptr_shown_def desc_shown_def X)
  moreover have "L (QueueMessages x) = []" if "x \<notin> set (L (MqQueues mq))" for x
    using message_queues_okD(3) [OF ok, of x] that one by simp
  ultimately show ?thesis
    unfolding message_queues_ok_def using q old new message_queues_okD(7-9) [OF ok] by (simp add: one X)
qed

section \<open>Write\<close>

lemma mqWrite_refuses:
  assumes run: "sched_wf s L F r" and readable: "text_ends s (syscall_arg r 1 s)"
    and bad: "mq_fd_bad (int_arg r 0 s) \<or> int_arg r 2 s < 0 \<or> int_arg r 2 s > 32 \<or>
      mq_handle s L r (int_arg r 0 s) = None"
  shows "internal_mqWrite s = Inr (set_retvalue r DSOS_EMQWRITE s)"
  using sched_wfD(2,3) [OF run] mq_of_fd_wf [OF sched_wfD(1) [OF run]] bad readable
  by (auto simp: internal_mqWrite_def Let_def andThen_print_string)

lemma mqWrite_no_message:
  assumes run: "sched_wf s L F r" and fd: "\<not> mq_fd_bad (int_arg r 0 s)"
    and h: "mq_handle s L r (int_arg r 0 s) = Some (d, mq)" and k: "kind_of mq = KMessageQueue"
    and args: "text_ends s (syscall_arg r 1 s)" "0 \<le> int_arg r 2 s" "int_arg r 2 s \<le> 32"
    and room: "mq_num_messages (mqs s mq) < 128"
    and q: "queue_lookup s L mq (effective_priority (mq_priority (mqs s mq)) (int_arg r 3 s)) = Some q"
    and F: "F KMessage = []"
  shows "internal_mqWrite s = Inr (set_retvalue r DSOS_EMQWRITE s)"
proof -
  note r = sched_wfD [OF run]
  show ?thesis
    using r(2,3) fd mq_of_fd_wf [OF r(1)] h k args text_endsD [OF args(1)] room q QueueList_byPriority_wf [OF r(1)]
    by (simp add: internal_mqWrite_def Let_def andThen_print_string Message_alloc_def wf_alloc_empty [OF r(1) F] del: One_nat_def)
qed

lemma inv_mqWrite:
  assumes inv: "machine_inv s L F r" and readable: "text_ends s (syscall_arg r 1 s)"
  shows "\<exists>s' L' F'. internal_mqWrite s = Inr s' \<and> kept_inv s L s' L' F' r"
proof -
  note run = machine_invD(1) [OF inv] and ok = machine_invD(11) [OF inv]
  note r = sched_wfD [OF run]
  let ?fd = "int_arg r 0 s" and ?buf = "syscall_arg r 1 s" and ?len = "int_arg r 2 s"
  have ret: ?thesis if "internal_mqWrite s = Inr (set_retvalue r v s)" for v using that inv_set_retvalue [OF inv, of r v] by blast
  show ?thesis
  proof (cases "mq_fd_bad ?fd \<or> ?len < 0 \<or> ?len > 32 \<or> mq_handle s L r ?fd = None")
    case True
    then show ?thesis by (rule ret [OF mqWrite_refuses [OF run readable]])
  next
    case False
    then obtain d mq where fd: "\<not> mq_fd_bad ?fd" and h: "mq_handle s L r ?fd = Some (d, mq)"
      and len: "0 \<le> ?len" "?len \<le> 32" by (auto simp: not_less)
    note args = readable len
    obtain dp where mq: "mq \<in> set (L MessageQueuesList)" "kind_of mq = KMessageQueue" by (rule mq_handle_linked [OF inv h])
    have lv: "levels_ok s L mq" by (rule message_queues_okD(2) [OF ok mq(1)])
    then have n: "0 \<le> mq_priority (mqs s mq)" "messages_in L mq \<le> mq_num_messages (mqs s mq)" by (simp_all add: levels_ok_def)
    let ?p = "effective_priority (mq_priority (mqs s mq)) (int_arg r 3 s)"
    obtain q where q: "queue_lookup s L mq ?p = Some q" "q \<in> set (L (MqQueues mq))"
      by (rule level_found [OF lv effective_priority_range [OF n(1)]])
    show ?thesis
    proof (cases "mq_num_messages (mqs s mq) < 128")
      case False
      then show ?thesis using ret [OF mqWrite_full [OF run fd h mq(2) args]] by simp
    next
      case room: True
      show ?thesis
      proof (cases "F KMessage")
        case Nil
        then show ?thesis by (rule ret [OF mqWrite_no_message [OF run fd h mq(2) args room q(1)]])
      next
        case F: (Cons i "is")
        let ?m = "Ptr KMessage i"
        let ?X = "write_contents r mq ?m ?buf ?len ?p s" and ?L = "L(QueueMessages q := L (QueueMessages q) @ [?m])"
        obtain s' where s': "internal_mqWrite s = Inr s'" "sched_wf s' ?L (F(KMessage := is)) r" "kernel_frame ?X s'"
          using mqWrite_wf [OF run fd h mq(2) args room q(1) F] by blast
        have new: "?m \<notin> set (L x)" for x using kernel_wf_live [OF r(1), of ?m x] F by (auto simp: live_def)
        have "message_queues_ok ?X ?L"
        proof (rule messages_changed [OF ok mq(1) q(2) sched_disjoint(3) [OF run]])
          show old: "msg_text (msgs ?X m) \<noteq> 0" if "m \<in> set (L (QueueMessages x))" for x m
            using message_queues_okD(4) [OF ok that] that new by (auto simp: write_contents_def upd_defs)
          show "msg_text (msgs ?X m) \<noteq> 0" if "m \<in> set (L (QueueMessages q) @ [?m])" for m
          proof (cases "m = ?m")
            case True
            then show ?thesis using text_endsD [OF args(1)] by (simp add: write_contents_def upd_defs)
          next
            case False
            then show ?thesis using that old [of m q] by simp
          qed
        qed (use n room in \<open>simp_all add: write_contents_def upd_defs\<close>)
        then have "kept_inv s L s' ?L (F(KMessage := is)) r"
          by (intro inv_mq_call [OF inv _ s'(3,2)]) (simp_all add: mq_call_defs write_contents_def upd_defs)
        then show ?thesis using s'(1) by blast
      qed
    qed
  qed
qed

section \<open>Read\<close>

text \<open>One pass of the loop: the queue is empty, its message does not fit, or it is delivered.\<close>

lemma message_out:
  assumes inv: "machine_inv s L F r" and mq: "mq \<in> set (L MessageQueuesList)" and q: "q \<in> set (L (MqQueues mq))"
    and m: "L (QueueMessages q) = m # ms"
    and X: "queue_priority X = queue_priority s" "descs X = descs s" "desc_ptrs X = desc_ptrs s" "msgs X = msgs s"
      "mq_priority (mqs X mq) = mq_priority (mqs s mq)" "\<And>p. pcb_last_mq_fd (pcbs X p) = pcb_last_mq_fd (pcbs s p)"
    and num: "mq_num_messages (mqs X mq) = mq_num_messages (mqs s mq) \<or>
      mq_num_messages (mqs X mq) = mq_num_messages (mqs s mq) - 1"
  shows "message_queues_ok X (L(QueueMessages q := ms))"
proof (rule messages_changed [OF machine_invD(11) [OF inv] mq q sched_disjoint(3) [OF machine_invD(1) [OF inv]] X(1-3,5,6)])
  note ok = machine_invD(11) [OF inv]
  show "msg_text (msgs X x) \<noteq> 0" if "x \<in> set (L (QueueMessages p))" for p x
    using message_queues_okD(4) [OF ok that] by (simp add: X)
  then show "msg_text (msgs X x) \<noteq> 0" if "x \<in> set ms" for x using that m by (metis list.set_intros(2))
  show "messages_in L mq - int (length (L (QueueMessages q))) + int (length ms) \<le> mq_num_messages (mqs X mq)"
    "mq_num_messages (mqs X mq) \<le> 128"
    using message_queues_okD(2) [OF ok mq] num m by (auto simp: levels_ok_def)
qed

text \<open>The message that is first at a priority fits the buffer, so that a read that gets there delivers it.\<close>

definition delivers :: "kernel \<Rightarrow> (headref \<Rightarrow> ptr list) \<Rightarrow> ptr \<Rightarrow> int \<Rightarrow> int \<Rightarrow> ptr \<Rightarrow> bool" where
  "delivers s L mq len j m \<longleftrightarrow>
     (\<exists>q ms. queue_lookup s L mq j = Some q \<and> L (QueueMessages q) = m # ms \<and> msg_text_length (msgs s m) \<le> len)"

lemma delivers_other:
  assumes "queue_lookup s L mq i = Some q" and "i \<noteq> j" and "lists_only s s1"
  shows "delivers s1 (L(QueueMessages q := ms)) mq len j m = delivers s L mq len j m"
proof -
  have "x \<noteq> q" if "queue_lookup s L mq j = Some x" for x
    using assms(1,2) that by (auto simp: queue_lookup_def find_Some_iff)
  moreover have "queue_lookup s1 (L(QueueMessages q := ms)) mq j = queue_lookup s L mq j"
    by (simp add: queue_lookup_def lists_only_fields [OF assms(3)])
  ultimately show ?thesis using lists_only_fields(11) [OF assms(3)] by (auto simp: delivers_def)
qed

text \<open>Of the priorities from \<open>i\<close> on, \<open>n\<close> of them, the first one that delivers a message delivers \<open>m\<close>.\<close>

definition first_delivered :: "kernel \<Rightarrow> (headref \<Rightarrow> ptr list) \<Rightarrow> ptr \<Rightarrow> int \<Rightarrow> nat \<Rightarrow> int \<Rightarrow> ptr \<Rightarrow> bool" where
  "first_delivered s L mq len n i m \<longleftrightarrow>
     (\<exists>j. i \<le> j \<and> j < i + int n \<and> delivers s L mq len j m \<and> (\<forall>k m'. i \<le> k \<longrightarrow> k < j \<longrightarrow> \<not> delivers s L mq len k m'))"

lemma first_delivered_0 [simp]: "\<not> first_delivered s L mq len 0 i m"
  by (simp add: first_delivered_def)

lemma first_delivered_here:
  assumes "delivers s L mq len i m"
  shows "first_delivered s L mq len (Suc n) i m' \<longleftrightarrow> m' = m"
proof -
  have same: "delivers s L mq len i m' \<longleftrightarrow> m' = m" using assms by (auto simp: delivers_def)
  have "j = i" if "i \<le> j" "\<forall>k m'. i \<le> k \<longrightarrow> k < j \<longrightarrow> \<not> delivers s L mq len k m'" for j
    using assms that by force
  then show ?thesis unfolding first_delivered_def using same by force
qed

lemma first_delivered_later:
  assumes "\<And>m. \<not> delivers s L mq len i m" and "\<And>j m. i < j \<Longrightarrow> delivers s' L' mq len j m = delivers s L mq len j m"
  shows "first_delivered s L mq len (Suc n) i m \<longleftrightarrow> first_delivered s' L' mq len n (i + 1) m"
proof
  assume "first_delivered s L mq len (Suc n) i m"
  then obtain j where j: "i \<le> j" "j < i + int (Suc n)" "delivers s L mq len j m"
    "\<And>k m'. i \<le> k \<Longrightarrow> k < j \<Longrightarrow> \<not> delivers s L mq len k m'" by (auto simp: first_delivered_def)
  then have "i \<noteq> j" using assms(1) by blast
  then have "i + 1 \<le> j" "j < i + 1 + int n" using j(1,2) by simp_all
  moreover have "\<not> delivers s' L' mq len k m'" if "i + 1 \<le> k" "k < j" for k m' using j(4) [of k m'] assms(2) [of k m'] that by simp
  ultimately show "first_delivered s' L' mq len n (i + 1) m"
    using j(3) assms(2) unfolding first_delivered_def by (intro exI [of _ j]) simp
next
  assume "first_delivered s' L' mq len n (i + 1) m"
  then obtain j where j: "i + 1 \<le> j" "j < i + 1 + int n" "delivers s' L' mq len j m"
    "\<And>k m'. i + 1 \<le> k \<Longrightarrow> k < j \<Longrightarrow> \<not> delivers s' L' mq len k m'" by (auto simp: first_delivered_def)
  have "\<not> delivers s L mq len k m'" if "i \<le> k" "k < j" for k m'
    using assms(1) [of m'] assms(2) [of k m'] j(4) [of k m'] that by (cases "k = i") simp_all
  then show "first_delivered s L mq len (Suc n) i m"
    using j(1-3) assms(2) unfolding first_delivered_def by (intro exI [of _ j]) simp
qed

lemma inv_mqRead_loop:
  assumes "machine_inv s L F r" and "mq \<in> set (L MessageQueuesList)" and "0 \<le> i" and "i + int n \<le> mq_priority (mqs s mq)"
  shows "\<exists>s' L' F'. kept_inv s L s' L' F' r \<and>
    (if \<exists>m. first_delivered s L mq len n i m
     then \<forall>m. first_delivered s L mq len n i m \<longrightarrow> mqRead_loop n i r mq buf len pa s = delivered s m buf pa s'
     else mqRead_loop n i r mq buf len pa s = Inr s')"
  using assms
proof (induction n arbitrary: s L F i)
  case 0
  then show ?case using inv_set_retvalue [OF 0(1), of r 0] by auto
next
  case (Suc n)
  note inv = Suc.prems(1) and mq = Suc.prems(2)
  note run = machine_invD(1) [OF inv] and ok = machine_invD(11) [OF inv]
  note r = sched_wfD [OF run]
  have "0 \<le> i" "i \<le> mq_priority (mqs s mq)" using Suc.prems(3,4) by simp_all
  then obtain q where q: "queue_lookup s L mq i = Some q" "q \<in> set (L (MqQueues mq))"
    using level_found [OF message_queues_okD(2) [OF ok mq]] by blast
  have kq: "kind_of q = KQueue" using kernel_wf_kind [OF r(1) q(2)] by simp
  show ?case
  proof (cases "L (QueueMessages q)")
    case Nil
    have "mqRead_loop (Suc n) i r mq buf len pa s = mqRead_loop n (i + 1) r mq buf len pa s"
      using q(1) kq Nil by (simp add: QueueList_byPriority_wf [OF r(1)] wf_list_size [OF r(1)])
    moreover have "first_delivered s L mq len (Suc n) i m = first_delivered s L mq len n (i + 1) m" for m
      by (rule first_delivered_later) (simp_all add: delivers_def q(1) Nil)
    moreover have "0 \<le> i + 1" "i + 1 + int n \<le> mq_priority (mqs s mq)" using Suc.prems(3,4) by simp_all
    note Suc.IH [OF inv mq this]
    ultimately show ?thesis by (simp only:)
  next
    case m: (Cons m ms)
    note out = message_out [OF inv mq q(2) m]
    show ?thesis
    proof (cases "msg_text_length (msgs s m) \<le> len")
      case True
      have "msg_text (msgs s m) \<noteq> 0" by (rule message_queues_okD(4) [OF ok, of m q]) (simp add: m)
      then obtain s' where s': "mqRead_loop (Suc n) i r mq buf len pa s = delivered s m buf pa s'"
        "sched_wf s' (L(QueueMessages q := ms)) (F(KMessage := idx_of m # F KMessage)) r"
        "kernel_frame (read_contents r mq buf pa i m s) s'"
        using mqRead_take [OF run q(1) m True, of n buf pa] by blast
      have "message_queues_ok (read_contents r mq buf pa i m s) (L(QueueMessages q := ms))"
        by (rule out) (simp_all add: read_contents_def upd_defs)
      then have "kept_inv s L s' (L(QueueMessages q := ms)) (F(KMessage := idx_of m # F KMessage)) r"
        by (intro inv_mq_call [OF inv _ s'(3,2)]) (simp_all add: mq_call_defs read_contents_def upd_defs)
      moreover have "delivers s L mq len i m" using q(1) m True by (auto simp: delivers_def)
      ultimately show ?thesis using s'(1) first_delivered_here by (metis (full_types))
    next
      case False
      then obtain s1 where s1: "mqRead_loop (Suc n) i r mq buf len pa s = mqRead_loop n (i + 1) r mq buf len pa s1"
        "sched_wf s1 (L(QueueMessages q := ms)) F r" "lists_only s s1"
        using mqRead_too_long [OF run q(1) m, of len n buf pa] by auto
      have "message_queues_ok s (L(QueueMessages q := ms))" by (rule out) simp_all
      then have inv1: "kept_inv s L s1 (L(QueueMessages q := ms)) F r"
        by (intro inv_mq_call [OF inv _ lists_only_frame [OF s1(3)] s1(2)]) (simp_all add: mq_call_defs)
      have first: "first_delivered s L mq len (Suc n) i m' = first_delivered s1 (L(QueueMessages q := ms)) mq len n (i + 1) m'" for m'
        using delivers_other [OF q(1) _ s1(3)] q(1) m False by (intro first_delivered_later) (auto simp: delivers_def)
      have same: "delivered s1 m' buf pa = delivered s m' buf pa" for m'
        using lists_only_fields [OF s1(3)] by (simp add: delivered_def text_ends_def fun_eq_iff)
      have "mq \<in> set ((L(QueueMessages q := ms)) MessageQueuesList)" "0 \<le> i + 1"
        "i + 1 + int n \<le> mq_priority (mqs s1 mq)" using Suc.prems(2-4) lists_only_fields(9) [OF s1(3)] by simp_all
      from Suc.IH [OF inv1 [THEN conjunct1] this] show ?thesis
        by (simp only: first s1(1) same inv1 [THEN conjunct2])
    qed
  qed
qed

lemma first_delivered_some:
  assumes ok: "message_queues_ok s L" and mq: "mq \<in> set (L MessageQueuesList)" and "first_delivered s L mq len n i m"
  shows "mq_num_messages (mqs s mq) \<noteq> 0"
proof
  assume "mq_num_messages (mqs s mq) = 0"
  then have "messages_in L mq \<le> 0" using message_queues_okD(2) [OF ok mq] by (simp add: levels_ok_def)
  from no_messages [OF this] show False
    using assms(3) by (auto simp: first_delivered_def delivers_def dest!: queue_lookup_in)
qed

text \<open>
  The message a read delivers: of the priorities of the message queue but the last, in order, the first whose oldest
  message fits the buffer.
\<close>

definition read_finds :: "kernel \<Rightarrow> (headref \<Rightarrow> ptr list) \<Rightarrow> ptr \<Rightarrow> int \<Rightarrow> int \<Rightarrow> ptr \<Rightarrow> bool" where
  "read_finds s L r fd len m \<longleftrightarrow> \<not> mq_fd_bad fd \<and>
     (\<exists>d mq j. mq_handle s L r fd = Some (d, mq) \<and> 0 \<le> j \<and> j < mq_priority (mqs s mq) \<and> delivers s L mq len j m \<and>
       (\<forall>k m'. 0 \<le> k \<longrightarrow> k < j \<longrightarrow> \<not> delivers s L mq len k m'))"

lemma inv_mqRead:
  assumes inv: "machine_inv s L F r"
  shows "\<exists>s' L' F'. kept_inv s L s' L' F' r \<and>
    (if \<exists>m. read_finds s L r (int_arg r 0 s) (int_arg r 2 s) m
     then \<forall>m. read_finds s L r (int_arg r 0 s) (int_arg r 2 s) m \<longrightarrow>
       internal_mqRead s = delivered s m (syscall_arg r 1 s) (syscall_arg r 3 s) s'
     else internal_mqRead s = Inr s')"
proof -
  note run = machine_invD(1) [OF inv] and ok = machine_invD(11) [OF inv]
  note r = sched_wfD [OF run]
  let ?fd = "int_arg r 0 s" and ?len = "int_arg r 2 s"
  have ret: ?thesis if "internal_mqRead s = Inr (set_retvalue r v s)" "\<not> (\<exists>m. read_finds s L r ?fd ?len m)" for v
    using that inv_set_retvalue [OF inv, of r v] by auto
  show ?thesis
  proof (cases "mq_fd_bad ?fd \<or> mq_handle s L r ?fd = None")
    case True
    then have "internal_mqRead s = Inr (set_retvalue r DSOS_EMQREAD s)"
      using r(2,3) mq_of_fd_wf [OF r(1)] by (auto simp: internal_mqRead_def Let_def)
    moreover have "\<not> (\<exists>m. read_finds s L r ?fd ?len m)" using True by (auto simp: read_finds_def)
    ultimately show ?thesis by (rule ret)
  next
    case False
    then obtain d mq where fd: "\<not> mq_fd_bad ?fd" and h: "mq_handle s L r ?fd = Some (d, mq)" by auto
    obtain dp where mq: "mq \<in> set (L MessageQueuesList)" "kind_of mq = KMessageQueue" by (rule mq_handle_linked [OF inv h])
    let ?n = "nat (mq_priority (mqs s mq))"
    have n: "0 \<le> mq_priority (mqs s mq)" using message_queues_okD(2) [OF ok mq(1)] by (simp add: levels_ok_def)
    then have finds: "read_finds s L r ?fd ?len m \<longleftrightarrow> first_delivered s L mq ?len ?n 0 m" for m
      using fd h by (simp add: read_finds_def first_delivered_def)
    show ?thesis
    proof (cases "mq_num_messages (mqs s mq) = 0")
      case True
      then have "internal_mqRead s = Inr (set_retvalue r 0 s)"
        using r(2,3) fd mq_of_fd_wf [OF r(1)] h mq(2) by (simp add: internal_mqRead_def Let_def)
      moreover have "\<not> (\<exists>m. read_finds s L r ?fd ?len m)" using finds first_delivered_some [OF ok mq(1)] True by blast
      ultimately show ?thesis by (rule ret)
    next
      case False
      then show ?thesis
        using inv_mqRead_loop [OF inv mq(1), of 0 ?n ?len "syscall_arg r 1 s" "syscall_arg r 3 s"] n
        unfolding mqRead_common [OF run fd h mq(2) False] finds by simp
    qed
  qed
qed

lemma mqRead_kept:
  assumes "machine_inv s L F r" and "internal_mqRead s = Inr s'"
  shows "\<exists>L' F'. kept_inv s L s' L' F' r"
  using inv_mqRead [OF assms(1)] assms(2) by (auto simp: delivered_def split: if_splits)

lemma mqWrite_kept:
  assumes inv: "machine_inv s L F r" and s': "internal_mqWrite s = Inr s'"
  shows "\<exists>L' F'. kept_inv s L s' L' F' r"
proof -
  have "text_ends s (syscall_arg r 1 s)"
    using mqWrite_unreadable [OF sched_wfD(2,3) [OF machine_invD(1) [OF inv]]] s' by force
  from inv_mqWrite [OF inv this] s' show ?thesis by auto
qed

section \<open>Close\<close>

lemma message_queues_closed:
  assumes inv: "machine_inv s L F r" and d: "d \<in> set (L (PcbMqDescriptors r))" and l: "mqdesc_linked s L d mq dp"
    and X: "queue_priority X = queue_priority s" "descs X = descs s" "desc_ptrs X = desc_ptrs s" "msgs X = msgs s" "mqs X = mqs s"
      "\<And>q. pcb_last_mq_fd (pcbs X q) = (if q = r then pcb_last_mq_fd (pcbs s r) - 1 else pcb_last_mq_fd (pcbs s q))"
  shows "message_queues_ok X (mqclosed_lists r mq d dp L)"
proof -
  note ok = machine_invD(11) [OF inv] and dis = sched_disjoint [OF machine_invD(1) [OF inv]]
  let ?L = "mqclosed_lists r mq d dp L"
  have lists: "?L (PcbMqDescriptors q) = (if q = r then remove1 d (L (PcbMqDescriptors r)) else L (PcbMqDescriptors q))"
    "?L MessageQueuesList = L MessageQueuesList" "?L (MqQueues x) = L (MqQueues x)" "?L (QueueMessages x) = L (QueueMessages x)"
    "?L (MqDescriptors x) = (if x = mq then remove1 dp (L (MqDescriptors mq)) else L (MqDescriptors x))" for q x
    by (simp_all add: mqclosed_lists_def)
  have "d \<notin> set (L (PcbMqDescriptors q))" if "q \<noteq> r" for q
    using dis(2) [of "PcbMqDescriptors r" "PcbMqDescriptors q" d] that d by simp
  then have mem: "e \<in> set (?L (PcbMqDescriptors q)) \<longleftrightarrow> e \<in> set (L (PcbMqDescriptors q)) \<and> e \<noteq> d" for e q
    using dis(3) [of "PcbMqDescriptors r"] by (auto simp: lists)
  have "\<exists>x y. mqdesc_linked X ?L e x y" if "e \<in> set (?L (PcbMqDescriptors q))" for q e
  proof -
    have e: "e \<in> set (L (PcbMqDescriptors q))" "e \<noteq> d" using that by (simp_all add: mem)
    obtain x y where xy: "mqdesc_linked s L e x y" using message_queues_okD(5) [OF ok e(1)] by blast
    then have "y \<noteq> dp" using e(2) l by (auto simp: mqdesc_linked_def)
    then have "mqdesc_linked X ?L e x y" using xy by (auto simp: mqdesc_linked_def X lists)
    then show ?thesis by blast
  qed
  moreover have "ptr_shown X KMQDescriptor KMessageQueue y" if "y \<in> set (?L (MqDescriptors x))" for x y
  proof -
    have "y \<in> set (L (MqDescriptors x))" using that by (auto simp: lists dest: subsetD [OF set_remove1_subset] split: if_splits)
    from message_queues_okD(6) [OF ok this] show ?thesis by (simp add: ptr_shown_def desc_shown_def X)
  qed
  moreover have "levels_ok X ?L x = levels_ok s L x" for x by (simp add: levels_ok_def messages_in_def lists X)
  moreover have "int (length (remove1 d (L (PcbMqDescriptors r)))) = int (length (L (PcbMqDescriptors r))) - 1"
    using length_pos_if_in_set [OF d] d by (simp add: length_remove1 of_nat_diff Suc_leI)
  then have "pcb_last_mq_fd (pcbs X q) = int (length (?L (PcbMqDescriptors q))) \<and> length (?L (PcbMqDescriptors q)) \<le> 16" for q
    using message_queues_okD(8,9) [OF ok, of q] by (auto simp: X lists)
  moreover have "?L (MqDescriptors x) = []" if "x \<notin> set (L MessageQueuesList)" for x
    using message_queues_okD(7) [OF ok, of mq] message_queues_okD(7) [OF ok, of x] that by (auto simp: lists)
  ultimately show ?thesis
    using message_queues_okD(1-4) [OF ok] unfolding message_queues_ok_def lists(2-4) by (simp add: X)
qed

lemma inv_mqClose:
  assumes inv: "machine_inv s L F r"
  shows "\<exists>s' L' F'. internal_mqClose s = Inr s' \<and> kept_inv s L s' L' F' r"
proof (cases "mq_fd_bad (int_arg r 0 s) \<or> mq_handle s L r (int_arg r 0 s) = None")
  case True
  from mqClose_bad_fd [OF machine_invD(1) [OF inv] this] show ?thesis using inv_set_retvalue [OF inv, of r] by blast
next
  case False
  then obtain d mq where fd: "\<not> mq_fd_bad (int_arg r 0 s)" and h: "mq_handle s L r (int_arg r 0 s) = Some (d, mq)" by auto
  note run = machine_invD(1) [OF inv] and ok = machine_invD(11) [OF inv]
  obtain dp where d: "d \<in> set (L (PcbMqDescriptors r))" "mqdesc_linked s L d mq dp" and k: "kind_of mq = KMessageQueue"
    by (rule mq_handle_linked [OF inv h])
  have dp: "desc_ptr (descs s d) = Some dp" "dp \<in> set (L (MqDescriptors mq))" using d(2) by (simp_all add: mqdesc_linked_def)
  have rng: "int32_range (pcb_last_mq_fd (pcbs s r) - 1)"
    using message_queues_okD(8,9) [OF ok, of r] by (simp add: int32_range_def)
  let ?L = "mqclosed_lists r mq d dp L" and ?F = "mqclosed_free d dp F"
  let ?X = "set_retvalue r 0 (upd_pcb r (set_last_mq_fd (pcb_last_mq_fd (pcbs s r) - 1)) s)"
  obtain s' where s': "internal_mqClose s = Inr s'" "sched_wf s' ?L ?F r" "kernel_frame ?X s'"
    using mqClose_wf [OF run fd h k rng dp] by blast
  have "message_queues_ok ?X ?L"
    by (rule message_queues_closed [OF inv d]) (simp_all add: set_retvalue_def upd_pcb_def set_last_mq_fd_def)
  then have "kept_inv s L s' ?L ?F r"
    by (intro inv_mq_call [OF inv _ s'(3,2)])
      (simp_all add: mq_call_defs mqclosed_lists_def mqclosed_free_def set_retvalue_def upd_pcb_def set_last_mq_fd_def)
  then show ?thesis using s'(1) by blast
qed

section \<open>Unlink\<close>

lemma mqUnlink_refuses:
  assumes run: "sched_wf s L F r"
    and bad: "\<And>mq. mq_lookup s L (int_arg r 0 s) = Some mq \<Longrightarrow> mq_num_messages (mqs s mq) \<noteq> 0 \<or> L (MqDescriptors mq) \<noteq> []"
  shows "internal_mqUnlink s = Inr (set_retvalue r DSOS_EMQUNLINK s)"
proof (cases "mq_lookup s L (int_arg r 0 s)")
  case None
  then show ?thesis
    using sched_wfD(2,3) [OF run] MessageQueueList_byId_wf [OF sched_wfD(1) [OF run]] by (simp add: internal_mqUnlink_def Let_def)
next
  case (Some mq)
  note r = sched_wfD [OF run]
  have "mq \<in> set (L MessageQueuesList)" using Some by (auto simp: mq_lookup_def dest: find_in_set)
  then have "kind_of mq = KMessageQueue" using kernel_wf_kind [OF r(1)] by fastforce
  then show ?thesis
    using r(2,3) MessageQueueList_byId_wf [OF r(1)] wf_list_size [OF r(1)] Some bad [OF Some]
    by (auto simp: internal_mqUnlink_def Let_def)
qed

lemma inv_mqUnlink:
  assumes inv: "machine_inv s L F r"
  shows "\<exists>s' L' F'. internal_mqUnlink s = Inr s' \<and> kept_inv s L s' L' F' r"
proof (cases "\<exists>mq. mq_lookup s L (int_arg r 0 s) = Some mq \<and> mq_num_messages (mqs s mq) = 0 \<and> L (MqDescriptors mq) = []")
  case False
  then have "internal_mqUnlink s = Inr (set_retvalue r DSOS_EMQUNLINK s)" by (intro mqUnlink_refuses [OF machine_invD(1) [OF inv]]) auto
  then show ?thesis using inv_set_retvalue [OF inv, of r] by blast
next
  case True
  then obtain mq where mq: "mq_lookup s L (int_arg r 0 s) = Some mq" and none: "mq_num_messages (mqs s mq) = 0" "L (MqDescriptors mq) = []"
    by blast
  note run = machine_invD(1) [OF inv] and ok = machine_invD(11) [OF inv]
  have min: "mq \<in> set (L MessageQueuesList)" using mq by (auto simp: mq_lookup_def dest: find_in_set)
  have one: "L MessageQueuesList = [mq]" by (rule the_message_queue [OF ok min])
  have lv: "0 \<le> mq_priority (mqs s mq)" "map (queue_priority s) (L (MqQueues mq)) = rev [0..mq_priority (mqs s mq)]"
    "messages_in L mq \<le> 0"
    using message_queues_okD(2) [OF ok min] none(1) by (simp_all add: levels_ok_def)
  have "int (length (L (MqQueues mq))) = mq_priority (mqs s mq) + 1"
    using arg_cong [OF lv(2), of length] lv(1) by simp
  note qs = this no_messages [OF lv(3)]
  let ?L = "unlinked_lists mq L" and ?F = "unlinked_free mq (L (MqQueues mq)) F" and ?X = "set_retvalue r 0 s"
  obtain s' where s': "internal_mqUnlink s = Inr s'" "sched_wf s' ?L ?F r" "kernel_frame ?X s'"
    using mqUnlink_wf [OF run mq none qs] by blast
  have empty: "L (QueueMessages q) = []" for q
    using no_messages [OF lv(3), of q] message_queues_okD(3) [OF ok, of q] one by auto
  have nodp: "L (MqDescriptors x) = []" for x using message_queues_okD(7) [OF ok, of x] none(2) one by auto
  have "\<not> mqdesc_linked s L d x dp" for d x dp by (simp add: mqdesc_linked_def nodp)
  then have "L (PcbMqDescriptors q) = []" for q using message_queues_okD(5) [OF ok, of _ q] by (cases "L (PcbMqDescriptors q)") auto
  then have "message_queues_ok ?X ?L"
    using message_queues_okD(8) [OF ok] unfolding message_queues_ok_def
    by (simp add: unlinked_lists_def one empty nodp set_retvalue_def upd_pcb_def)
  then have "kept_inv s L s' ?L ?F r"
    by (intro inv_mq_call [OF inv _ s'(3,2)])
      (simp_all add: mq_call_defs unlinked_lists_def unlinked_free_def set_retvalue_def upd_pcb_def)
  then show ?thesis using s'(1) by blast
qed

section \<open>Open\<close>

lemma message_queues_opened:
  assumes inv: "machine_inv s L F r" and d: "\<not> live s F d" "kind_of d = KMQDescriptor"
    and dp: "\<not> live s F dp" "kind_of dp = KMQDescriptorPtr" and mq: "mq \<in> set (L MessageQueuesList)"
    and few: "pcb_last_mq_fd (pcbs s r) < 16"
  shows "message_queues_ok (opened_desc pcb_last_mq_fd set_last_mq_fd r mq d dp s) (mqopened_lists r mq d dp L)"
proof -
  note i = machine_invD [OF inv] and ok = machine_invD(11) [OF inv]
  note wf = sched_wfD(1) [OF i(1)]
  let ?X = "opened_desc pcb_last_mq_fd set_last_mq_fd r mq d dp s" and ?L = "mqopened_lists r mq d dp L"
  have new: "d \<notin> set (L h)" "dp \<notin> set (L h)" for h using kernel_wf_live [OF wf] d(1) dp(1) by blast+
  have k: "kind_of mq = KMessageQueue" using kernel_wf_kind [OF wf mq] by simp
  have lists: "?L (PcbMqDescriptors q) = (if q = r then L (PcbMqDescriptors r) @ [d] else L (PcbMqDescriptors q))"
    "?L MessageQueuesList = L MessageQueuesList" "?L (MqQueues x) = L (MqQueues x)" "?L (QueueMessages x) = L (QueueMessages x)"
    "?L (MqDescriptors x) = (if x = mq then L (MqDescriptors mq) @ [dp] else L (MqDescriptors x))" for q x
    by (simp_all add: mqopened_lists_def)
  have X: "descs ?X = (descs s)(d := \<lparr>desc_pcb = Some r, desc_object = Some mq, desc_fd = pcb_last_mq_fd (pcbs s r), desc_ptr = Some dp\<rparr>)"
    "desc_ptrs ?X = (desc_ptrs s)(dp := Some d)" "mqs ?X = mqs s" "queue_priority ?X = queue_priority s" "msgs ?X = msgs s"
    "pcb_last_mq_fd (pcbs ?X q) = (if q = r then pcb_last_mq_fd (pcbs s r) + 1 else pcb_last_mq_fd (pcbs s q))" for q
    by (simp_all add: opened_desc_def set_last_mq_fd_def)
  have link: "mqdesc_linked ?X ?L d mq dp" using k by (simp add: mqdesc_linked_def X lists)
  have keep: "mqdesc_linked ?X ?L e x y" if "mqdesc_linked s L e x y" "e \<in> set (L (PcbMqDescriptors q))" for q e x y
  proof -
    have "e \<noteq> d" using that(2) new(1) by blast
    moreover have "y \<noteq> dp" using that(1) new(2) by (auto simp: mqdesc_linked_def)
    ultimately show ?thesis using that(1) by (auto simp: mqdesc_linked_def X lists)
  qed
  have "\<exists>x y. mqdesc_linked ?X ?L e x y" if "e \<in> set (?L (PcbMqDescriptors q))" for q e
  proof (cases "e \<in> set (L (PcbMqDescriptors q))")
    case True
    from message_queues_okD(5) [OF ok this] show ?thesis using keep [OF _ True] by blast
  next
    case False
    then have "e = d" using that by (simp add: lists split: if_splits)
    then show ?thesis using link by blast
  qed
  moreover have "ptr_shown ?X KMQDescriptor KMessageQueue y" if "y \<in> set (?L (MqDescriptors x))" for x y
  proof (cases "y = dp")
    case True
    then show ?thesis using d(2) k sched_wfD(3) [OF i(1)] by (simp add: ptr_shown_def desc_shown_def X)
  next
    case False
    then have "y \<in> set (L (MqDescriptors x))" using that by (simp add: lists split: if_splits)
    from message_queues_okD(6) [OF ok this] show ?thesis
      using False k sched_wfD(3) [OF i(1)] by (auto simp: ptr_shown_def desc_shown_def X)
  qed
  moreover have "levels_ok ?X ?L x = levels_ok s L x" for x by (simp add: levels_ok_def messages_in_def lists X)
  moreover have "pcb_last_mq_fd (pcbs ?X q) = int (length (?L (PcbMqDescriptors q))) \<and> length (?L (PcbMqDescriptors q)) \<le> 16" for q
    using message_queues_okD(8,9) [OF ok, of q] few by (auto simp: X lists)
  moreover have "?L (MqDescriptors x) = []" if "x \<notin> set (L MessageQueuesList)" for x
    using message_queues_okD(7) [OF ok that] mq that by (auto simp: lists)
  ultimately show ?thesis using message_queues_okD(1-4) [OF ok] unfolding message_queues_ok_def lists(2-4) by (simp add: X)
qed

lemma message_queues_lost_desc:
  assumes ok: "message_queues_ok s L" and wf: "kernel_wf s L F" and d: "\<not> live s F d"
    and X: "descs X = (descs s)(d := c)" "desc_shown X KMQDescriptor KMessageQueue d \<or> \<not> desc_shown s KMQDescriptor KMessageQueue d"
      "desc_ptrs X = desc_ptrs s" "mqs X = mqs s" "queue_priority X = queue_priority s" "msgs X = msgs s"
      "\<And>q. pcb_last_mq_fd (pcbs X q) = pcb_last_mq_fd (pcbs s q)"
  shows "message_queues_ok X L"
proof -
  have same: "descs X e = descs s e" if "e \<in> set (L h)" for e h using that kernel_wf_live [OF wf that] d X(1) by auto
  have "\<exists>x y. mqdesc_linked X L e x y" if "e \<in> set (L (PcbMqDescriptors q))" for q e
    using message_queues_okD(5) [OF ok that] by (simp add: mqdesc_linked_def same [OF that] X(3))
  moreover have "desc_shown s KMQDescriptor KMessageQueue e \<Longrightarrow> desc_shown X KMQDescriptor KMessageQueue e" for e
    using X(1,2) by (cases "e = d") (auto simp: desc_shown_def)
  then have "ptr_shown X KMQDescriptor KMessageQueue dp" if "dp \<in> set (L (MqDescriptors x))" for x dp
    using message_queues_okD(6) [OF ok that] by (auto simp: ptr_shown_def X(3))
  ultimately show ?thesis using ok unfolding message_queues_ok_def levels_ok_def by (simp add: X)
qed

lemma inv_mq_attach:
  assumes inv: "machine_inv s L F r" and mq: "mq \<in> set (L MessageQueuesList)" and few: "pcb_last_mq_fd (pcbs s r) < 16"
  shows "\<exists>s' L' F'. mqOpen_attach r mq s = Inr s' \<and> kept_inv s L s' L' F' r"
proof -
  note i = machine_invD [OF inv] and run = machine_invD(1) [OF inv]
  note wf = sched_wfD(1) [OF run]
  have k: "kind_of mq = KMessageQueue" using kernel_wf_kind [OF wf mq] by simp
  have rng: "int32_range (pcb_last_mq_fd (pcbs s r) + 1)"
    using few message_queues_okD(8) [OF i(11), of r] by (simp add: int32_range_def)
  show ?thesis
  proof (cases "F KMQDescriptor")
    case Nil
    have "mqOpen_attach r mq s = Inr (set_retvalue r DSOS_EMQOPEN s)"
      using open_descriptor_no_desc [OF wf Nil] by (simp add: mqOpen_attach_def)
    then show ?thesis using inv_set_retvalue [OF inv, of r] by blast
  next
    case F: (Cons a as)
    let ?d = "Ptr KMQDescriptor a"
    have d: "\<not> live s F ?d" "kind_of ?d = KMQDescriptor" using F by (simp_all add: live_def)
    show ?thesis
    proof (cases "F KMQDescriptorPtr")
      case Nil
      define X where "X = set_retvalue r DSOS_EMQOPEN (s\<lparr>descs := (descs s)(?d := (descs s ?d)
        \<lparr>desc_fd := pcb_last_mq_fd (pcbs s r), desc_object := Some mq, desc_pcb := Some r\<rparr>)\<rparr>)"
      obtain s' where s': "mqOpen_attach r mq s = Inr s'" "sched_wf s' L (F(KMQDescriptor := as)) r" "kernel_frame X s'"
        using open_descriptor_no_ptr [OF run F Nil, of KMessageQueue "PcbMqDescriptors r" "MqDescriptors mq"
            pcb_last_mq_fd set_last_mq_fd DSOS_EMQOPEN mq]
        unfolding mqOpen_attach_def X_def by auto
      have "message_queues_ok X L"
        by (rule message_queues_lost_desc [OF i(11) wf d(1)])
          (use k sched_wfD(3) [OF run] in \<open>simp_all add: X_def desc_shown_def set_retvalue_def upd_pcb_def\<close>)
      then have "kept_inv s L s' L (F(KMQDescriptor := as)) r"
        by (intro inv_mq_call [OF inv _ s'(3,2)]) (simp_all add: mq_call_defs X_def set_retvalue_def upd_pcb_def)
      then show ?thesis using s'(1) by blast
    next
      case F2: (Cons b bs)
      let ?dp = "Ptr KMQDescriptorPtr b"
      have dp: "\<not> live s F ?dp" "kind_of ?dp = KMQDescriptorPtr" using F2 by (simp_all add: live_def)
      let ?X = "opened_desc pcb_last_mq_fd set_last_mq_fd r mq ?d ?dp s" and ?L = "mqopened_lists r mq ?d ?dp L"
      let ?F = "F(KMQDescriptor := as, KMQDescriptorPtr := bs)"
      obtain s' where s': "mqOpen_attach r mq s = Inr s'" "sched_wf s' ?L ?F r" "kernel_frame ?X s'"
        using mqOpen_attach_wf [OF run F F2 k rng] by blast
      have "kept_inv s L s' ?L ?F r"
        by (rule inv_mq_call [OF inv _ s'(3,2) _ _ _ _ _ _ message_queues_opened [OF inv d dp mq few]])
          (simp_all add: mq_call_defs opened_desc_def set_last_mq_fd_def mqopened_lists_def)
      then show ?thesis using s'(1) by blast
    qed
  qed
qed

text \<open>The first message queue: before there is one, nothing of the kind is in any list.\<close>

lemma no_message_queue:
  assumes ok: "message_queues_ok s L" and none: "L MessageQueuesList = []"
  shows "L (QueueMessages q) = []" "L (MqDescriptors x) = []" "L (PcbMqDescriptors p) = []"
proof -
  show "L (QueueMessages q) = []" by (rule message_queues_okD(3) [OF ok]) (simp add: none)
  have dp: "L (MqDescriptors y) = []" for y by (rule message_queues_okD(7) [OF ok]) (simp add: none)
  then show "L (MqDescriptors x) = []" .
  show "L (PcbMqDescriptors p) = []"
    using message_queues_okD(5) [OF ok, of _ p] dp by (cases "L (PcbMqDescriptors p)") (auto simp: mqdesc_linked_def)
qed

lemma queue_prios_map:
  assumes "distinct xs"
  shows "map (queue_prios i xs f) (map (Ptr KQueue) xs) = [i..i + int (length xs) - 1]"
  by (rule nth_equalityI) (use assms in \<open>simp_all add: queue_prios_nth nth_upto\<close>)

lemma message_queues_created:
  assumes ok: "message_queues_ok s L" and none: "L MessageQueuesList = []" and prio: "0 \<le> prio"
    and xs: "distinct xs" "length xs = nat (prio + 1)"
  shows "message_queues_ok (newmq_contents n xs mid prio s) (newmq_lists n xs L)"
proof -
  note no = no_message_queue [OF ok none]
  let ?X = "newmq_contents n xs mid prio s" and ?L = "newmq_lists n xs L"
  have lists: "?L MessageQueuesList = [n]" "?L (QueueMessages q) = []" "?L (PcbMqDescriptors q) = []" "?L (MqDescriptors q) = []"
    "?L (MqQueues n) = rev (map (Ptr KQueue) xs)" for q
    by (simp_all add: newmq_lists_def queue_lists_other queue_lists_messages queue_lists_queues no)
  have "map (queue_priority ?X) (?L (MqQueues n)) = rev [0..prio]"
    using queue_prios_map [OF xs(1), of 0 "queue_priority s"] xs(2) prio by (simp add: newmq_contents_def lists flip: rev_map)
  then have "levels_ok ?X ?L n" using prio by (simp add: levels_ok_def messages_in_def lists newmq_contents_def comp_def)
  moreover have "pcb_last_mq_fd (pcbs ?X q) = 0" for q
    using message_queues_okD(8) [OF ok, of q] by (simp add: newmq_contents_def no)
  ultimately show ?thesis unfolding message_queues_ok_def lists by simp
qed

lemma message_queues_not_created:
  assumes ok: "message_queues_ok s L" and none: "L MessageQueuesList = []"
  shows "message_queues_ok (newmq_contents n xs mid prio s) (lostmq_lists n xs L)"
proof -
  note no = no_message_queue [OF ok none]
  have "lostmq_lists n xs L h = []" if "h = MessageQueuesList \<or> (\<exists>q. h \<in> {QueueMessages q, PcbMqDescriptors q, MqDescriptors q})" for h
    using that none by (auto simp: lostmq_lists_def queue_lists_other queue_lists_messages no)
  moreover have "pcb_last_mq_fd (pcbs s q) = 0" for q using message_queues_okD(8) [OF ok, of q] by (simp add: no)
  ultimately show ?thesis by (simp add: message_queues_ok_def newmq_contents_def)
qed

lemma same_other_lists:
  "same_processes L (newmq_lists n xs L)" "same_resources L (newmq_lists n xs L)" "same_semaphores L (newmq_lists n xs L)"
  "same_processes L (lostmq_lists n xs L)" "same_resources L (lostmq_lists n xs L)" "same_semaphores L (lostmq_lists n xs L)"
  by (auto simp: mq_call_defs newmq_lists_def lostmq_lists_def queue_lists_other)

lemma inv_mq_create:
  assumes inv: "machine_inv s L F r" and none: "L MessageQueuesList = []" and few: "pcb_last_mq_fd (pcbs s r) < 16"
  shows "\<exists>s' L' F'. mqOpen_create r mid prio s = Inr s' \<and> kept_inv s L s' L' F' r"
proof -
  note i = machine_invD [OF inv] and run = machine_invD(1) [OF inv]
  note wf = sched_wfD(1) [OF run]
  have ret: ?thesis if "mqOpen_create r mid prio s = Inr (set_retvalue r v s)" for v using that inv_set_retvalue [OF inv, of r v] by blast
  have size: "list_size MessageQueuesList s = 0" using none by (simp add: wf_list_size [OF wf])
  have contents: "same_blocks s X" "same_descs k kp s X" if "X = newmq_contents n xs mid prio s" for X n xs k kp
    using that by (simp_all add: mq_call_defs newmq_contents_def)
  note call = inv_mq_call [OF inv contents(1) _ _ _ _ _ _ contents(2) contents(2), OF refl _ _ _ _ _ _ refl refl]
  show ?thesis
  proof (cases "0 \<le> prio \<and> prio \<le> 64")
    case False
    then have "mqOpen_create r mid prio s = Inr (set_retvalue r DSOS_EMQOPEN s)"
      using size by (simp add: mqOpen_create_def Let_def not_le)
    then show ?thesis by (rule ret)
  next
    case True
    show ?thesis
    proof (cases "F KMessageQueue")
      case Nil
      then have "mqOpen_create r mid prio s = Inr (set_retvalue r DSOS_EMQOPEN s)"
        using True size by (simp add: mqOpen_create_def Let_def MessageQueue_alloc_def wf_alloc_empty [OF wf])
      then show ?thesis by (rule ret)
    next
      case F: (Cons k ks)
      let ?n = "Ptr KMessageQueue k"
      show ?thesis
      proof (cases "length (F KQueue) < nat (prio + 1)")
        case short: True
        obtain s2 where s2: "mqOpen_create r mid prio s = Inr (set_retvalue r DSOS_EMQOPEN s2)"
          "sched_wf s2 (lostmq_lists ?n (F KQueue) L) (F(KMessageQueue := ks, KQueue := [])) r"
          "kernel_frame (newmq_contents ?n (F KQueue) mid prio s) s2"
          using mqOpen_create_short [OF run none _ _ F short] True by blast
        have "kept_inv s L s2 (lostmq_lists ?n (F KQueue) L) (F(KMessageQueue := ks, KQueue := [])) r"
          by (rule call [OF s2(3,2) same_other_lists(4-6) _ message_queues_not_created [OF i(11) none]]) simp
        then have "kept_inv s L (set_retvalue r DSOS_EMQOPEN s2) (lostmq_lists ?n (F KQueue) L) (F(KMessageQueue := ks, KQueue := [])) r"
          using inv_set_retvalue by simp
        then show ?thesis using s2(1) by blast
      next
        case False
        let ?xs = "take (nat (prio + 1)) (F KQueue)" and ?ys = "drop (nat (prio + 1)) (F KQueue)"
        have xs: "F KQueue = ?xs @ ?ys" "length ?xs = nat (prio + 1)" "distinct ?xs"
          using False kernel_wf_pool [OF wf, of KQueue] by (simp_all add: pool_inv_def)
        obtain s3 where s3: "mqOpen_create r mid prio s = mqOpen_attach r ?n s3"
          "sched_wf s3 (newmq_lists ?n ?xs L) (F(KMessageQueue := ks, KQueue := ?ys)) r"
          "kernel_frame (newmq_contents ?n ?xs mid prio s) s3"
          using mqOpen_create_first [OF run none _ _ F xs(1,2)] True by blast
        have kept: "kept_inv s L s3 (newmq_lists ?n ?xs L) (F(KMessageQueue := ks, KQueue := ?ys)) r"
          by (rule call [OF s3(3,2) same_other_lists(1-3) _ message_queues_created [OF i(11) none _ xs(3,2)]])
            (use True in simp_all)
        have "?n \<in> set (newmq_lists ?n ?xs L MessageQueuesList)" "pcb_last_mq_fd (pcbs s3 r) < 16"
          using few s3(3) by (simp_all add: newmq_lists_def kernel_frame_def newmq_contents_def)
        from inv_mq_attach [OF kept [THEN conjunct1] this] show ?thesis unfolding s3(1) kept [THEN conjunct2] .
      qed
    qed
  qed
qed

text \<open>The call that makes a second message queue is the one left out.\<close>

definition adds_second_queue :: "int \<Rightarrow> int \<Rightarrow> kernel \<Rightarrow> bool" where
  "adds_second_queue mid flags s \<longleftrightarrow>
     list_first MessageQueuesList s \<noteq> None \<and> flags AND DSOS_CREATE \<noteq> 0 \<and>
     MessageQueueList_byId MessageQueuesList mid s = Inr None"

lemma inv_mqOpen:
  assumes inv: "machine_inv s L F r" and first: "\<not> adds_second_queue (int_arg r 0 s) (int_arg r 1 s) s"
  shows "\<exists>s' L' F'. internal_mqOpen s = Inr s' \<and> kept_inv s L s' L' F' r"
proof -
  note i = machine_invD [OF inv] and run = machine_invD(1) [OF inv]
  note r = sched_wfD [OF run]
  let ?fd = "pcb_last_mq_fd (pcbs s r)" and ?mid = "int_arg r 0 s" and ?flags = "int_arg r 1 s"
  have rng: "int32_range (?fd + 1)" using message_queues_okD(8,9) [OF i(11), of r] by (simp add: int32_range_def)
  have look: "MessageQueueList_byId MessageQueuesList ?mid s = Inr (mq_lookup s L ?mid)" by (rule MessageQueueList_byId_wf [OF r(1)])
  show ?thesis
  proof (cases "internal_mqOpen s = Inr (set_retvalue r DSOS_EMQOPEN s)")
    case True
    then show ?thesis using inv_set_retvalue [OF inv, of r] by blast
  next
    case False
    then have few: "?fd < 16" using r(2,3) rng by (auto simp: internal_mqOpen_def Let_def split: if_splits)
    show ?thesis
    proof (cases "mq_lookup s L ?mid")
      case None
      then have "internal_mqOpen s = mqOpen_create r ?mid (int_arg r 2 s) s" and "?flags AND DSOS_CREATE \<noteq> 0"
        using False r(2,3) rng look by (auto simp: internal_mqOpen_def Let_def split: if_splits)
      moreover from this(2) have "L MessageQueuesList = []"
        using first look None wf_list_first [OF r(1)] by (cases "L MessageQueuesList") (auto simp: adds_second_queue_def)
      ultimately show ?thesis using inv_mq_create [OF inv _ few] by simp
    next
      case (Some mq)
      then have "internal_mqOpen s = mqOpen_attach r mq s"
        using False r(2,3) rng look by (auto simp: internal_mqOpen_def Let_def split: if_splits)
      moreover have "mq \<in> set (L MessageQueuesList)" using Some by (auto simp: mq_lookup_def dest: find_in_set)
      ultimately show ?thesis using inv_mq_attach [OF inv _ few] by simp
    qed
  qed
qed

end
