(* ===== verification/MachineStart.thy ===== *)
theory MachineStart
  imports MachineMq
begin

text \<open>
  The start of a first process, in \<^verbatim>\<open>src/disastrOS.c\<close>: when nothing runs any more the kernel goes
  back to that part of \<^verbatim>\<open>disastrOS_start\<close>, and the new process runs among those that sleep.
\<close>

lemma first_contents_fields:
  fixes f g n s
  defines "X \<equiv> first_contents f g n s"
  shows "pcb_status (pcbs X p) = (if p = n then Running else pcb_status (pcbs s p))"
    "pcb_pid (pcbs X p) = (if p = n then last_pid s else pcb_pid (pcbs s p))"
    "pcb_parent (pcbs X p) = (if p = n then None else pcb_parent (pcbs s p))"
    "pcb_timer (pcbs X p) = (if p = n then None else pcb_timer (pcbs s p))"
    "pcb_syscall_num (pcbs X p) = pcb_syscall_num (pcbs s p)"
    "pcb_ptrs X = pcb_ptrs s" "last_pid X = last_pid s + 1" "init_pcb X = Some n" "timers X = timers s"
  by (simp_all add: X_def first_contents_def new_pcb_def)

lemma same_ipc_first: "same_ipc s L (first_contents f g n s) (new_pcb_lists n L)"
  by (simp add: same_ipc_defs first_contents_def new_pcb_def new_pcb_lists_def)

lemma ipc_cong_wf:
  assumes "descriptors_ok s L" and "semaphores_ok s L" and "message_queues_ok s L" and wf: "kernel_wf s L F"
    and "same_ipc s L s' L'"
  shows "descriptors_ok s' L'" "semaphores_ok s' L'" "message_queues_ok s' L'" "blocked_on_sem s' L' = blocked_on_sem s L"
proof -
  have D: "same_descs k kp s s'" and L: "same_semaphores L L'" "same_resources L L'" "same_mqs s L s' L'" for k kp
    using assms(5) by (simp_all add: same_ipc_def same_descs_def)
  show "descriptors_ok s' L'" by (rule descriptors_cong [OF assms(1) wf D L(2)])
  show "semaphores_ok s' L'" "blocked_on_sem s' L' = blocked_on_sem s L" by (rule semaphores_cong [OF assms(2) wf D L(1)])+
  show "message_queues_ok s' L'" by (rule message_queues_cong [OF assms(3) wf D L(3)])
qed

lemma inv_restart:
  assumes idle: "idle s L F" and s': "start_first_process f g s = Inr s'"
  shows "\<exists>L' F' n. moved_inv s L s' L' F' n"
proof -
  note i = idleD [OF idle]
  obtain w where w: "w \<in> set (L WaitingList)" "places_ok L F w" "family_ok s L w" "pids_ok s L w" "parents_ok s L w"
    using idle by (auto simp: idle_def)
  obtain a as where F: "F KPCB = a # as" and rng: "int32_range (last_pid s + 1)"
    using first_process_needs [OF i(3) s'] by (auto simp: neq_Nil_conv)
  let ?n = "Ptr KPCB a" and ?L = "new_pcb_lists (Ptr KPCB a) L" and ?F = "F(KPCB := as)"
  let ?X = "first_contents f g ?n s"
  have n: "sched_wf s' ?L ?F ?n" "kernel_frame ?X s'" using first_process_wf [OF i(3) F rng, of f g] s' by auto
  note X = first_contents_fields [of f g ?n s] and ipc = ipc_cong_wf [OF i(8,9,10,3) same_ipc_first, of f g ?n]
  have lists: "?L ReadyList = []" "?L WaitingList = L WaitingList" "?L ZombieList = L ZombieList" "?L TimerList = L TimerList"
    by (simp_all add: new_pcb_lists_def i(2))
  have new: "?n \<notin> set (L h)" for h using kernel_wf_live [OF i(3), of ?n h] F by (auto simp: live_def)
  have P: "procs ?L ?n = insert ?n (procs L w)" using w(1) by (auto simp: procs_def lists i(2))
  have nP: "?n \<notin> procs L w" using new w(1) by (auto simp: procs_def)
  have C: "child_ptrs ?L \<subseteq> child_ptrs L" by (auto simp: child_ptrs_def new_pcb_lists_def split: if_splits)
  have rest: "\<And>p. p \<in> blocked_on_sem s L \<Longrightarrow> pcb_status (pcbs s p) = Running \<or> pcb_status (pcbs s p) = Ready"
    "\<And>p. p \<in> set (L ZombieList) \<Longrightarrow> pcb_status (pcbs s p) = Zombie"
    "\<And>p. pcb_status (pcbs s p) = Waiting \<longleftrightarrow> p \<in> set (L WaitingList) \<and> p \<notin> blocked_on_sem s L"
    "\<And>p. p \<in> blocked_on_sem s L \<Longrightarrow> p \<in> set (L WaitingList)"
    using i(6) unfolding rest_ok_def by auto
  have nB: "?n \<notin> blocked_on_sem s L" using rest(4) new by blast
  have "status_ok ?X ?L ?n"
    by (rule status_okI [OF ipc(4)]) (use rest nB new in \<open>auto simp: X lists\<close>)
  moreover have "places_ok ?L ?F ?n" using w(2) F unfolding places_ok_def P by auto
  moreover have "family_ok ?X ?L ?n"
    using w(3) C inj_on_subset unfolding family_ok_def P X by blast
  moreover have "pids_ok ?X ?L ?n" by (rule pids_new [OF w(4) nP P X(2,7)])
  moreover have "parents_ok ?X ?L ?n"
  proof -
    have "kind_of par = KPCB \<and> par \<noteq> p" if "p \<in> procs ?L ?n" "pcb_parent (pcbs ?X p) = Some par" for p par
      using that w(5) unfolding parents_ok_def X(3) P by (cases "p = ?n") auto
    moreover have "init_pcb ?X = Some ?n" "pcb_parent (pcbs ?X ?n) = None" "?n \<in> procs ?L ?n - set (?L ZombieList)"
      using new by (simp_all add: X lists P)
    ultimately show ?thesis unfolding parents_ok_def by blast
  qed
  moreover have "sleepers_ok ?X ?L" using i(7) by (simp add: sleepers_ok_def lists X timer_owner_def ipc(4))
  moreover have "timers s' = timers s" using n(2) X(9) by (simp add: kernel_frame_def)
  then have "timers_ok s' ?L" by (rule timers_ok_cong [OF i(5)]) (simp_all add: lists)
  ultimately have "machine_inv s' ?L ?F ?n" using machine_invI [OF n(2,1)] ipc(1-3) by blast
  moreover have "life_step (census s L) (census s' ?L)"
  proof -
    have pid: "pid_of s' p = (if p = ?n then last_pid s else pid_of s p)" for p
      using n(2) X(2) [of p] by (simp add: pid_of_def kernel_frame_def)
    have same: "map (pid_of s') (L h) = map (pid_of s) (L h)" for h using new [of h] by (auto simp: pid)
    have "last_pid s' = last_pid s + 1" using n(2) X(7) by (simp add: kernel_frame_def)
    then show ?thesis
      using life_step.restart
      by (simp add: census_running [OF n(1)] lists same pid del: map_eq_conv) (simp add: census_def i(1,2))
  qed
  ultimately show ?thesis by blast
qed

end
