(* ===== verification/Reachable.thy ===== *)
theory Reachable
  imports MachineStart
begin

text \<open>
  The transition system: what can happen while a process runs, the states that can be reached from
  the start, the invariant on them, and what a sequence of ticks does. Only a call that makes a second
  message queue is left out: it links queues into the wrong list, and the state is then not well formed.
\<close>

section \<open>Steps\<close>

text \<open>
  A call with a number that has no handler only returns; the running process may write its own memory, in
  which the texts of messages are; when nothing runs and there was no shutdown the start of a first
  process is run again.
\<close>

inductive machine_step :: "kernel \<Rightarrow> kernel \<Rightarrow> bool" where
  tick: "running s \<noteq> None \<Longrightarrow> timerInterrupt s = Inr s' \<Longrightarrow> machine_step s s'"
| preempt: "disastrOS_preempt s = Inr (Inr s') \<Longrightarrow> machine_step s s'"
| fork: "disastrOS_fork s = Inr (Inr s') \<Longrightarrow> machine_step s s'"
| spawn: "disastrOS_spawn f a s = Inr (Inr s') \<Longrightarrow> machine_step s s'"
| wait: "disastrOS_wait pid ret s = Inr (Inr s') \<Longrightarrow> machine_step s s'"
| exit: "disastrOS_exit v s = Inr (Inr s') \<Longrightarrow> machine_step s s'"
| sleep: "disastrOS_sleep t s = Inr (Inr s') \<Longrightarrow> machine_step s s'"
| openResource: "disastrOS_openResource rid rtype mode s = Inr (Inr s') \<Longrightarrow> machine_step s s'"
| closeResource: "disastrOS_closeResource fd s = Inr (Inr s') \<Longrightarrow> machine_step s s'"
| destroyResource: "disastrOS_destroyResource rid s = Inr (Inr s') \<Longrightarrow> machine_step s s'"
| semOpen: "disastrOS_semOpen sid mode count s = Inr (Inr s') \<Longrightarrow> machine_step s s'"
| semClose: "disastrOS_semClose fd s = Inr (Inr s') \<Longrightarrow> machine_step s s'"
| semWait: "disastrOS_semWait fd s = Inr (Inr s') \<Longrightarrow> machine_step s s'"
| semPost: "disastrOS_semPost fd s = Inr (Inr s') \<Longrightarrow> machine_step s s'"
| shutdown: "disastrOS_shutdown s = Inr (Inr s') \<Longrightarrow> machine_step s s'"
| mqOpen: "\<not> adds_second_queue (to_int32 mid) (to_int32 flags) s \<Longrightarrow> disastrOS_mqOpen mid flags priority s = Inr (Inr s') \<Longrightarrow>
    machine_step s s'"
| mqClose: "disastrOS_mqClose fd s = Inr (Inr s') \<Longrightarrow> machine_step s s'"
| mqRead: "disastrOS_mqRead fd buf buf_size prio_addr s = Inr (Inr s') \<Longrightarrow> machine_step s s'"
| mqWrite: "disastrOS_mqWrite fd buf buf_size prio s = Inr (Inr s') \<Longrightarrow> machine_step s s'"
| mqUnlink: "disastrOS_mqUnlink mid s = Inr (Inr s') \<Longrightarrow> machine_step s s'"
| unimplemented: "syscall_vector n = None \<Longrightarrow> disastrOS_syscall n args s = Inr (Inr s') \<Longrightarrow> machine_step s s'"
| store: "running s \<noteq> None \<Longrightarrow> machine_step s (s\<lparr>umem := m\<rparr>)"
| restart: "running s = None \<Longrightarrow> shutdown_now s = 0 \<Longrightarrow> start_first_process f f_args s = Inr s' \<Longrightarrow> machine_step s s'"

inductive reachable :: "kernel \<Rightarrow> bool" where
  start: "platform_ok pf \<Longrightarrow> disastrOS_start pf f a reset_kernel = Inr s \<Longrightarrow> reachable s"
| step: "reachable s \<Longrightarrow> machine_step s s' \<Longrightarrow> reachable s'"

inductive_cases machine_stepE: "machine_step s s'"

definition machine_ok :: "kernel \<Rightarrow> bool" where
  "machine_ok s \<longleftrightarrow> (\<exists>L F. idle s L F) \<or> (\<exists>L F r. machine_inv s L F r)"

text \<open>While nothing runs the start of a first process is the only step.\<close>

lemma idle_step:
  assumes "machine_step s s'" and "running s = None"
  shows "\<exists>f g. start_first_process f g s = Inr s'"
  using assms
  by (auto elim!: machine_stepE simp: disastrOS_syscall_def disastrOS_preempt_def disastrOS_fork_def
      disastrOS_spawn_def disastrOS_wait_def disastrOS_exit_def disastrOS_sleep_def disastrOS_shutdown_def
      disastrOS_openResource_def disastrOS_closeResource_def disastrOS_destroyResource_def
      disastrOS_semOpen_def disastrOS_semClose_def disastrOS_semWait_def disastrOS_semPost_def
      disastrOS_mqOpen_def disastrOS_mqClose_def disastrOS_mqRead_def disastrOS_mqWrite_def disastrOS_mqUnlink_def)

section \<open>The invariant holds at the start\<close>

lemma inv_start:
  assumes "platform_ok pf" and "disastrOS_start pf f a reset_kernel = Inr s"
  shows "machine_inv s (\<lambda>_. []) boot_free (Ptr KPCB 0)"
proof -
  let ?X = "boot_contents f a" and ?L = "\<lambda>_ :: headref. [] :: ptr list" and ?r = "Ptr KPCB 0"
  have s: "sched_wf s ?L boot_free ?r" "kernel_frame ?X s" using start_wf [OF assms(1), of f a] assms(2) by auto
  have P: "procs ?L ?r = {?r}" "child_ptrs ?L = {}" by (simp_all add: procs_def child_ptrs_def)
  have st: "pcb_status (pcbs ?X p) = (if p = ?r then Running else Created)" for p
    by (simp add: boot_contents_def new_pcb_def reset_kernel_def zero_pcb_def)
  have "status_ok ?X ?L ?r" unfolding status_ok_def st by (simp add: blocked_on_sem_def)
  moreover have "places_ok ?L boot_free ?r" by (auto simp: places_ok_def P boot_free_def)
  moreover have "family_ok ?X ?L ?r" by (simp add: family_ok_def P)
  moreover have "pids_ok ?X ?L ?r"
    by (simp add: pids_ok_def P boot_contents_def new_pcb_def reset_kernel_def zero_pcb_def)
  moreover have "parents_ok ?X ?L ?r"
    by (simp add: parents_ok_def P boot_contents_def new_pcb_def reset_kernel_def zero_pcb_def)
  moreover have "semaphores_ok ?X ?L" by (simp add: semaphores_ok_def)
  moreover have "sleepers_ok ?X ?L"
    by (simp add: sleepers_ok_def boot_contents_def new_pcb_def reset_kernel_def zero_pcb_def)
  moreover have "message_queues_ok ?X ?L"
    by (simp add: message_queues_ok_def boot_contents_def new_pcb_def reset_kernel_def zero_pcb_def)
  moreover have "descriptors_ok ?X ?L" by (simp add: descriptors_ok_def)
  moreover have "timers_ok s ?L" by (simp add: timers_ok_def timers_sorted_def)
  ultimately show ?thesis using machine_invI [OF s(2,1)] by blast
qed

section \<open>Every step keeps it\<close>

lemma tick_wf:
  assumes inv: "machine_inv s L F r" and rng: "int32_range (disastrOS_time s + 1)"
  defines "s1 \<equiv> s\<lparr>disastrOS_time := disastrOS_time s + 1\<rparr>"
  shows "\<exists>s' L' F' r'. timerInterrupt s = Inr s' \<and> moved_inv s L s' L' F' r' \<and>
    disastrOS_time s' = disastrOS_time s + 1 \<and> timers s' = timers s \<and> L' TimerList = pending_timers s1 L \<and>
    L' WaitingList = filter (\<lambda>p. p \<notin> set (woken_pcbs s1 L)) (L WaitingList) \<and>
    r' # L' ReadyList = rotate1 (r # woken_pcbs s1 L @ L ReadyList)"
proof -
  have "machine_inv s1 L F r" using inv by (simp add: s1_def)
  from inv_schedule [OF this] obtain s' L' F' r' where s': "internal_schedule s1 = Inr s'" "moved_inv s L s' L' F' r'"
    "disastrOS_time s' = disastrOS_time s + 1" "timers s' = timers s" "L' TimerList = pending_timers s1 L"
    "L' WaitingList = filter (\<lambda>p. p \<notin> set (woken_pcbs s1 L)) (L WaitingList)"
    "r' # L' ReadyList = rotate1 (r # woken_pcbs s1 L @ L ReadyList)"
    unfolding s1_def by auto
  have "timerInterrupt s = Inr s'"
    using s'(1) rng sched_wfD(2,3) [OF machine_invD(1) [OF s'(2) [THEN conjunct1]]]
    by (simp add: timerInterrupt_def checked_int_def deref_def s1_def)
  with s' show ?thesis by blast
qed

lemma inv_memory:
  assumes "machine_inv s L F r"
  shows "machine_inv (s\<lparr>umem := m\<rparr>) L F r"
  by (rule inv_same_blocks [OF assms _ kernel_frame_refl])
    (use machine_invD(1) [OF assms] in \<open>simp_all add: same_blocks_def same_tree_def\<close>)

lemma adds_second_queue_calling:
  assumes "kernel_wf s L F" and "kernel_wf (calling n xs s) L F"
  shows "adds_second_queue mid flags (calling n xs s) = adds_second_queue mid flags s"
  by (simp add: adds_second_queue_def wf_list_first [OF assms(1)] wf_list_first [OF assms(2)]
      MessageQueueList_byId_wf [OF assms(1)] MessageQueueList_byId_wf [OF assms(2)] mq_lookup_def)

text \<open>After a step the machine runs or has come to rest, and the population made a move.\<close>

definition goes_on :: "kernel \<Rightarrow> (headref \<Rightarrow> ptr list) \<Rightarrow> kernel \<Rightarrow> bool" where
  "goes_on s L s' \<longleftrightarrow>
     (\<exists>L' F'. (idle s' L' F' \<or> (\<exists>r'. machine_inv s' L' F' r')) \<and> life_step (census s L) (census s' L'))"

lemma inv_step:
  assumes inv: "machine_inv s L F r" and step: "machine_step s s'"
  shows "goes_on s L s'"
proof -
  note r = sched_wfD(2,3) [OF machine_invD(1) [OF inv]]
  have c: "machine_inv (calling n xs s) L F r" for n xs by (rule inv_calling [OF inv])
  have ok: "goes_on s L s'" if "machine_inv s' L' F' r'" "life_step (census (calling n xs s) L) (census s' L')" for n xs L' F' r'
    using that by (auto simp: goes_on_def)
  have kept: "goes_on s L s'" if "machine_inv s' L' F' r'" "census s' L' = census (calling n xs s) L" for n xs L' F' r'
    using ok that kept_moved by blast
  show ?thesis
    using step
  proof (rule machine_stepE)
    assume t: "timerInterrupt s = Inr s'"
    then have "int32_range (disastrOS_time s + 1)"
      by (auto simp: timerInterrupt_def checked_int_def split: if_splits)
    from tick_wf [OF inv this] t show ?thesis using ok by auto
  next
    assume "disastrOS_preempt s = Inr (Inr s')"
    then have "internal_schedule (calling 1 [] s) = Inr s'"
      by (auto simp: call_eqs(1) [OF r] andThen_eq_Inr internal_preempt_def)
    then show ?thesis using inv_schedule [OF c, of 1 "[]"] ok by fastforce
  next
    assume "disastrOS_fork s = Inr (Inr s')"
    then have "internal_fork (calling 2 [] s) = Inr s'" by (auto simp: call_eqs(2) [OF r] andThen_eq_Inr)
    from inv_fork [OF c this] show ?thesis using ok by blast
  next
    fix f a assume "disastrOS_spawn f a s = Inr (Inr s')"
    then have "internal_spawn (calling 5 [f, a] s) = Inr s'" by (auto simp: call_eqs(5) [OF r] andThen_eq_Inr)
    from inv_spawn [OF c this] show ?thesis using ok by blast
  next
    fix pid ret assume "disastrOS_wait pid ret s = Inr (Inr s')"
    then have "internal_wait (calling 3 [pid, ret] s) = Inr s'" by (auto simp: call_eqs(3) [OF r] andThen_eq_Inr)
    from inv_wait [OF c this] show ?thesis using ok by blast
  next
    fix v assume "disastrOS_exit v s = Inr (Inr s')"
    then have "internal_exit (calling 4 [v] s) = Inr s'" by (auto simp: call_eqs(4) [OF r] andThen_eq_Inr)
    from inv_exit [OF c this] show ?thesis using ok by blast
  next
    fix t assume "disastrOS_sleep t s = Inr (Inr s')"
    then have s': "internal_sleep (calling 6 [t] s) = Inr s'" by (auto simp: call_eqs(6) [OF r] andThen_eq_Inr)
    have "pcb_syscall_num (pcbs (calling 6 [t] s) r) \<noteq> DSOS_CALL_WAIT"
      using r by (simp add: calling_def enter_syscall_def upd_pcb_def)
    from inv_sleep [OF c this s'] show ?thesis by (auto simp: goes_on_def)
  next
    fix rid rtype mode assume "disastrOS_openResource rid rtype mode s = Inr (Inr s')"
    then have "internal_openResource (calling 7 [rid, rtype, mode] s) = Inr s'"
      by (auto simp: call_eqs(7) [OF r] andThen_eq_Inr)
    from inv_openResource [OF c this] show ?thesis using kept by blast
  next
    fix fd assume "disastrOS_closeResource fd s = Inr (Inr s')"
    then have "internal_closeResource (calling 8 [fd] s) = Inr s'" by (auto simp: call_eqs(8) [OF r] andThen_eq_Inr)
    with inv_closeResource [OF c [of 8 "[fd]"]] show ?thesis using kept by auto
  next
    fix rid assume "disastrOS_destroyResource rid s = Inr (Inr s')"
    then have "internal_destroyResource (calling 9 [rid] s) = Inr s'" by (auto simp: call_eqs(9) [OF r] andThen_eq_Inr)
    with inv_destroyResource [OF c [of 9 "[rid]"]] show ?thesis using kept by auto
  next
    fix sid mode count assume "disastrOS_semOpen sid mode count s = Inr (Inr s')"
    then have "internal_semOpen (calling 11 [sid, mode, count] s) = Inr s'"
      by (auto simp: call_eqs(11) [OF r] andThen_eq_Inr)
    from inv_semOpen [OF c this] show ?thesis using kept by blast
  next
    fix fd assume "disastrOS_semClose fd s = Inr (Inr s')"
    then have "internal_semClose (calling 12 [fd] s) = Inr s'" by (auto simp: call_eqs(12) [OF r] andThen_eq_Inr)
    from inv_semClose [OF c this] show ?thesis using kept by blast
  next
    fix fd assume "disastrOS_semWait fd s = Inr (Inr s')"
    then have "internal_semWait (calling 13 [fd] s) = Inr s'" by (auto simp: call_eqs(13) [OF r] andThen_eq_Inr)
    from inv_semWait [OF c this] show ?thesis using ok by blast
  next
    fix fd assume "disastrOS_semPost fd s = Inr (Inr s')"
    then have "internal_semPost (calling 14 [fd] s) = Inr s'" by (auto simp: call_eqs(14) [OF r] andThen_eq_Inr)
    from inv_semPost [OF c this] show ?thesis using ok by blast
  next
    assume "disastrOS_shutdown s = Inr (Inr s')"
    then have "s' = internal_shutdown (calling 10 [] s)" by (simp add: call_eqs(10) [OF r])
    then show ?thesis using kept [of L F r 10 "[]"] inv_shutdown [OF c] by simp
  next
    fix mid flags prio
    assume first: "\<not> adds_second_queue (to_int32 mid) (to_int32 flags) s" and "disastrOS_mqOpen mid flags prio s = Inr (Inr s')"
    then have "internal_mqOpen (calling 15 [mid, flags, prio] s) = Inr s'" by (auto simp: call_eqs(15) [OF r] andThen_eq_Inr)
    moreover have "\<not> adds_second_queue (int_arg r 0 (calling 15 [mid, flags, prio] s)) (int_arg r 1 (calling 15 [mid, flags, prio] s))
        (calling 15 [mid, flags, prio] s)"
      using first adds_second_queue_calling [OF sched_wfD(1) [OF machine_invD(1) [OF inv]] sched_wfD(1) [OF machine_invD(1) [OF c]]]
        calling_arg(1) [OF r(1)] by simp
    ultimately show ?thesis using inv_mqOpen [OF c] kept by force
  next
    fix fd assume "disastrOS_mqClose fd s = Inr (Inr s')"
    then have "internal_mqClose (calling 16 [fd] s) = Inr s'" by (auto simp: call_eqs(16) [OF r] andThen_eq_Inr)
    then show ?thesis using inv_mqClose [OF c [of 16 "[fd]"]] kept by auto
  next
    fix fd buf len pa assume "disastrOS_mqRead fd buf len pa s = Inr (Inr s')"
    then have "internal_mqRead (calling 17 [fd, buf, len, pa] s) = Inr s'" by (auto simp: call_eqs(17) [OF r] andThen_eq_Inr)
    from mqRead_kept [OF c this] show ?thesis using kept by blast
  next
    fix fd buf len prio assume "disastrOS_mqWrite fd buf len prio s = Inr (Inr s')"
    then have "internal_mqWrite (calling 18 [fd, buf, len, prio] s) = Inr s'" by (auto simp: call_eqs(18) [OF r] andThen_eq_Inr)
    from mqWrite_kept [OF c this] show ?thesis using kept by blast
  next
    fix mid assume "disastrOS_mqUnlink mid s = Inr (Inr s')"
    then have "internal_mqUnlink (calling 19 [mid] s) = Inr s'" by (auto simp: call_eqs(19) [OF r] andThen_eq_Inr)
    then show ?thesis using inv_mqUnlink [OF c [of 19 "[mid]"]] kept by auto
  next
    fix n args
    assume none: "syscall_vector n = None" and call: "disastrOS_syscall n args s = Inr (Inr s')"
    from unimplemented_call [OF r call none] have s': "s' = set_retvalue r DSOS_ESYSCALL_NOT_IMPLEMENTED (calling n [] s)" .
    show ?thesis
      unfolding s' goes_on_def using inv_set_retvalue(1) [OF c] kept_moved [OF census_simps(1) [THEN trans, OF census_simps(2)]] by blast
  next
    fix m assume "s' = s\<lparr>umem := m\<rparr>"
    then show ?thesis using inv_memory [OF inv, of m] kept_moved [of "s\<lparr>umem := m\<rparr>" L s L] by (auto simp: goes_on_def)
  next
    assume "running s = None"
    then show ?thesis using r(1) by simp
  qed
qed

lemma inv_represents:
  assumes "machine_inv s L F r"
  shows "represents s L" "running s = Some r"
  using sched_wfD(1,2) [OF machine_invD(1) [OF assms]] kernel_wf_represents by blast+

lemma step_goes_on:
  assumes ok: "machine_ok s" and L: "represents s L" and step: "machine_step s s'"
  shows "goes_on s L s'"
proof (cases "\<exists>L F r. machine_inv s L F r")
  case True
  then obtain K F r where inv: "machine_inv s K F r" by blast
  have "K = L" by (rule represents_unique [OF inv_represents(1) [OF inv] L])
  then show ?thesis using inv_step [OF inv step] by simp
next
  case False
  then obtain K F where idle: "idle s K F" using ok by (auto simp: machine_ok_def)
  have "K = L" by (rule represents_unique [OF kernel_wf_represents [OF idleD(3) [OF idle]] L])
  moreover obtain f g where "start_first_process f g s = Inr s'" using idle_step [OF step idleD(1) [OF idle]] by blast
  ultimately show ?thesis using inv_restart [OF idle] unfolding goes_on_def by blast
qed

lemma machine_ok_represents:
  assumes "machine_ok s"
  obtains L where "represents s L"
  using assms inv_represents(1) idleD(3) kernel_wf_represents unfolding machine_ok_def by blast

lemma reachable_ok: "reachable s \<Longrightarrow> machine_ok s"
proof (induction rule: reachable.induct)
  case (start pf f a s)
  then show ?case using inv_start [OF start] unfolding machine_ok_def by blast
next
  case (step s s')
  obtain L where "represents s L" by (rule machine_ok_represents [OF step.IH])
  from step_goes_on [OF step.IH this step.hyps(2)] show ?case unfolding goes_on_def machine_ok_def by blast
qed

lemma reachable_inv:
  assumes "reachable s" and "running s = Some r"
  obtains L F where "machine_inv s L F r"
proof -
  obtain L F r' where i: "machine_inv s L F r'" using reachable_ok [OF assms(1)] assms(2) by (auto simp: machine_ok_def idle_def)
  moreover have "r' = r" using inv_represents(2) [OF i] assms(2) by simp
  ultimately show ?thesis using that by blast
qed

lemma reachable_lists:
  assumes "reachable s" and "running s = Some r" and "represents s L"
  shows "\<exists>F. machine_inv s L F r"
proof -
  obtain L' F where i: "machine_inv s L' F r" by (rule reachable_inv [OF assms(1,2)])
  have "L' = L" by (rule represents_unique [OF inv_represents(1) [OF i] assms(3)])
  then show ?thesis using i by blast
qed

section \<open>Ticks\<close>

primrec ticks :: "nat \<Rightarrow> kernel \<Rightarrow> fault + kernel" where
  "ticks 0 s = Inr s"
| "ticks (Suc n) s = andThen (timerInterrupt s) (ticks n)"

lemma reachable_ticks: "reachable s \<Longrightarrow> running s = Some r \<Longrightarrow> int32_range (disastrOS_time s) \<Longrightarrow>
    int32_range (disastrOS_time s + int n) \<Longrightarrow>
    \<exists>s' r'. ticks n s = Inr s' \<and> reachable s' \<and> running s' = Some r' \<and> disastrOS_time s' = disastrOS_time s + int n"
proof (induction n arbitrary: s r)
  case (Suc n)
  obtain L F where inv: "machine_inv s L F r" by (rule reachable_inv [OF Suc.prems(1,2)])
  have rng: "int32_range (disastrOS_time s + 1)" using Suc.prems(3,4) by (simp add: int32_range_def)
  obtain s1 L1 F1 r1 where s1: "timerInterrupt s = Inr s1" "machine_inv s1 L1 F1 r1" "disastrOS_time s1 = disastrOS_time s + 1"
    using tick_wf [OF inv rng] by blast
  have "reachable s1" using reachable.step [OF Suc.prems(1) machine_step.tick [OF _ s1(1)]] Suc.prems(2) by simp
  moreover have "running s1 = Some r1" using s1(2) machine_invD(1) sched_wfD(2) by blast
  ultimately obtain s' r' where "ticks n s1 = Inr s'" "reachable s'" "running s' = Some r'"
    "disastrOS_time s' = disastrOS_time s1 + int n"
    using Suc.IH [of s1 r1] Suc.prems(4) rng s1(3) by (auto simp: algebra_simps)
  then show ?case using s1(1,3) by (auto simp: algebra_simps)
qed simp

text \<open>
  A process asleep is woken: once the time of its timer has come, it is ready or runs.
\<close>

lemma tick_pending:
  assumes "timers_ok s L" and "t \<in> set (L TimerList)"
  shows "t \<in> set (pending_timers s L) \<or> timer_owner s t \<in> set (woken_pcbs s L)"
proof -
  have "t \<in> set (elapsed_timers s L @ pending_timers s L)" using assms(2) by (simp add: elapsed_timers_def pending_timers_def)
  then show ?thesis by (auto simp: woken_pcbs_def)
qed

lemma sleeper_wakes:
  assumes "machine_inv s L F r" and "int32_range (disastrOS_time s)" and "int32_range (disastrOS_time s + int n)"
    and "p \<in> procs L r" and "p \<notin> set (L ZombieList)"
    and "p \<notin> set (L WaitingList) \<or> (\<exists>t\<in>set (L TimerList). timer_owner s t = p \<and> wake_time s t \<le> disastrOS_time s + int n)"
    and "0 < n"
  shows "\<exists>s' L' F' r'. ticks n s = Inr s' \<and> machine_inv s' L' F' r' \<and> (p = r' \<or> p \<in> set (L' ReadyList))"
  using assms
proof (induction n arbitrary: s L F r)
  case (Suc n)
  let ?s1 = "s\<lparr>disastrOS_time := disastrOS_time s + 1\<rparr>"
  have rng: "int32_range (disastrOS_time s + 1)" using Suc.prems(2,3) by (simp add: int32_range_def)
  obtain s' L' F' r' where s': "timerInterrupt s = Inr s'" "machine_inv s' L' F' r'" "disastrOS_time s' = disastrOS_time s + 1"
    "timers s' = timers s" "L' TimerList = pending_timers ?s1 L"
    "L' WaitingList = filter (\<lambda>p. p \<notin> set (woken_pcbs ?s1 L)) (L WaitingList)"
    "r' # L' ReadyList = rotate1 (r # woken_pcbs ?s1 L @ L ReadyList)"
    using tick_wf [OF Suc.prems(1) rng] by blast
  have ok: "timers_ok ?s1 L" using machine_invD(2) [OF Suc.prems(1)] by simp
  have same: "timer_owner ?s1 = timer_owner s" "wake_time ?s1 = wake_time s" "timer_owner s' = timer_owner s"
    "wake_time s' = wake_time s"
    by (simp_all add: timer_owner_def wake_time_def fun_eq_iff s'(4))
  have now: "insert r' (set (L' ReadyList)) = insert r (set (woken_pcbs ?s1 L) \<union> set (L ReadyList))"
    using arg_cong [OF s'(7), of set] by auto
  have awake: "p = r' \<or> p \<in> set (L' ReadyList)" if "p \<notin> set (L' WaitingList)"
    using that Suc.prems(4,5) s'(6) now by (auto simp: procs_def)
  show ?case
  proof (cases "p \<in> set (L' WaitingList)")
    case False
    show ?thesis
    proof (cases n)
      case 0
      then show ?thesis using s'(1,2) awake [OF False] by auto
    next
      case (Suc m)
      have P: "p \<in> procs L' r'" using awake [OF False] by (auto simp: procs_def)
      have Z: "p \<notin> set (L' ZombieList)"
        using awake [OF False] sched_disjoint [OF machine_invD(1) [OF s'(2)]] by auto
      obtain s2 L2 F2 r2 where "ticks n s' = Inr s2" "machine_inv s2 L2 F2 r2" "p = r2 \<or> p \<in> set (L2 ReadyList)"
        using Suc.IH [OF s'(2) _ _ P Z] False Suc.prems(3) rng s'(3) \<open>n = Suc m\<close> by (auto simp: algebra_simps)
      then show ?thesis using s'(1) by auto
    qed
  next
    case True
    then have "p \<in> set (L WaitingList)" "p \<notin> set (woken_pcbs ?s1 L)" using s'(6) by simp_all
    then obtain t where t: "t \<in> set (L TimerList)" "timer_owner s t = p" "wake_time s t \<le> disastrOS_time s + int (Suc n)"
      using Suc.prems(6) by blast
    then have pend: "t \<in> set (L' TimerList)"
      using tick_pending [OF ok t(1)] \<open>p \<notin> set (woken_pcbs ?s1 L)\<close> by (simp add: same s'(5))
    have "0 < n"
    proof (rule ccontr)
      assume "\<not> 0 < n"
      then have "wake_time s t \<le> disastrOS_time s + 1" using t(3) by simp
      moreover have "disastrOS_time s + 1 < wake_time s t"
        using elapsed_timers_set(2) [of ?s1 L] ok pend by (simp add: timers_ok_def same s'(5))
      ultimately show False by simp
    qed
    have P: "p \<in> procs L' r'" using True by (auto simp: procs_def)
    have Z: "p \<notin> set (L' ZombieList)"
      using sched_disjoint(2) [OF machine_invD(1) [OF s'(2)] _ True, of ZombieList] by simp
    have "\<exists>t\<in>set (L' TimerList). timer_owner s' t = p \<and> wake_time s' t \<le> disastrOS_time s' + int n"
      using pend t(2,3) s'(3) by (auto simp: same)
    then obtain s2 L2 F2 r2 where "ticks n s' = Inr s2" "machine_inv s2 L2 F2 r2" "p = r2 \<or> p \<in> set (L2 ReadyList)"
      using Suc.IH [OF s'(2) _ _ P Z] Suc.prems(3) rng s'(3) \<open>0 < n\<close> by (auto simp: algebra_simps)
    then show ?thesis using s'(1) by auto
  qed
qed simp

text \<open>Without timers the processes that can run take turns.\<close>

lemma round_robin:
  assumes "machine_inv s L F r" and "int32_range (disastrOS_time s)" and "int32_range (disastrOS_time s + int n)"
    and "L TimerList = []"
  shows "\<exists>s' L' F' r'. ticks n s = Inr s' \<and> machine_inv s' L' F' r' \<and> L' TimerList = [] \<and>
    r' # L' ReadyList = rotate n (r # L ReadyList)"
  using assms
proof (induction n arbitrary: s L F r)
  case (Suc n)
  let ?s1 = "s\<lparr>disastrOS_time := disastrOS_time s + 1\<rparr>"
  have rng: "int32_range (disastrOS_time s + 1)" using Suc.prems(2,3) by (simp add: int32_range_def)
  have none: "woken_pcbs ?s1 L = []" "pending_timers ?s1 L = []"
    using Suc.prems(4) by (simp_all add: woken_pcbs_def elapsed_timers_def pending_timers_def)
  obtain s' L' F' r' where s': "timerInterrupt s = Inr s'" "machine_inv s' L' F' r'" "disastrOS_time s' = disastrOS_time s + 1"
    "L' TimerList = []" "r' # L' ReadyList = rotate1 (r # L ReadyList)"
    using tick_wf [OF Suc.prems(1) rng] unfolding none append_Nil by blast
  obtain s2 L2 F2 r2 where "ticks n s' = Inr s2" "machine_inv s2 L2 F2 r2" "L2 TimerList = []"
    "r2 # L2 ReadyList = rotate n (r' # L' ReadyList)"
    using Suc.IH [OF s'(2) _ _ s'(4)] Suc.prems(3) rng s'(3) by (auto simp: algebra_simps)
  then show ?case using s'(1,5) by (auto simp: rotate1_rotate_swap [symmetric] simp del: rotate1.simps)
qed auto

end
