(* ===== verification/Contexts.thy ===== *)
theory Contexts
  imports SystemCall Printing
begin

text \<open>
  The switch of machine contexts: \<^verbatim>\<open>ucontext_t\<close> and the four functions on it as
  \<^verbatim>\<open>src/disastrOS.c\<close>, \<^verbatim>\<open>src/disastrOS_spawn.c\<close> and
  \<^verbatim>\<open>src/disastrOS_shutdown.c\<close> use them, the signal of the clock, and the log file. The
  state is the kernel with all contexts, the place where control is, and the signal mask. The code of the
  processes is a parameter. Between two steps control is at the entry of a routine, in the code of a
  process, or at a place that was saved.
\<close>

section \<open>Contexts\<close>

text \<open>Storage in which a stack lies, and the contexts there are, one in each process control block.\<close>

datatype area = SystemStack | PcbStack ptr

datatype context_name = MainContext | TrapContext | InterruptContext | CpuState ptr

text \<open>The functions that are given to \<^verbatim>\<open>makecontext\<close>; a process has its function and argument.\<close>

datatype routine = TrapRoutine | InterruptRoutine | ProcessRoutine int int

text \<open>
  Where control can be: at the entry of a routine; behind \<^verbatim>\<open>getcontext(&main_context)\<close>; in
  the code of a process; behind the \<^verbatim>\<open>swapcontext\<close> of a system call, with what the process
  does with the value; behind the one of the signal handler, which then returns to the interrupted place
  and mask; nowhere, in a context that is all zeros; or the program has ended.
\<close>

datatype 'u place =
    Uninitialised
  | Entry routine
  | AfterMain
  | InUser 'u
  | SyscallReturn "int \<Rightarrow> 'u"
  | HandlerReturn "'u place" "int set"
  | Exited

record 'u ucontext =
  uc_stack :: "area option"
  uc_stack_size :: int
  uc_sigmask :: "int set"
  uc_link :: "context_name option"
  uc_place :: "'u place"

definition zero_context :: "'u ucontext" where
  "zero_context = \<lparr>uc_stack = None, uc_stack_size = 0, uc_sigmask = {}, uc_link = None, uc_place = Uninitialised\<rparr>"

text \<open>
  The set the handler blocks besides its own signal, the set \<^verbatim>\<open>signal_set\<close>, the period of the
  timer in microseconds once it runs, what has been written to the log file if there is one, and the
  parameters of \<^verbatim>\<open>disastrOS_start\<close>, which stay in its frame. The name of the log file is
  null, or it stands for the answer of \<^verbatim>\<open>fopen\<close>, a parameter of the model: whether the
  file can be opened, at each state in which that is tried.
\<close>

record 'u cpu =
  kern :: kernel
  contexts :: "context_name \<Rightarrow> 'u ucontext"
  control :: "'u place"
  sigmask :: "int set"
  sa_mask :: "int set"
  signal_set :: "int set"
  itimer :: "int option"
  log_file :: "string option"
  start_f :: int
  start_args :: int
  start_logfile :: "(kernel \<Rightarrow> bool) option"

definition SIGALRM :: int where "SIGALRM = 14"

definition upd_context :: "context_name \<Rightarrow> ('u ucontext \<Rightarrow> 'u ucontext) \<Rightarrow> 'u cpu \<Rightarrow> 'u cpu" where
  "upd_context n f c = c\<lparr>contexts := (contexts c)(n := f (contexts c n))\<rparr>"

text \<open>The library: the stack and the link of a context are not written by saving.\<close>

definition save_context :: "context_name \<Rightarrow> 'u place \<Rightarrow> 'u cpu \<Rightarrow> 'u cpu" where
  "save_context n pl c = upd_context n (\<lambda>u. u\<lparr>uc_place := pl, uc_sigmask := sigmask c\<rparr>) c"

definition getcontext :: "context_name \<Rightarrow> 'u cpu \<Rightarrow> 'u cpu" where
  "getcontext n c = save_context n (control c) c"

definition setcontext :: "context_name \<Rightarrow> 'u cpu \<Rightarrow> fault + 'u cpu" where
  "setcontext n c =
     (case uc_place (contexts c n) of
        Uninitialised \<Rightarrow> Inl NullDeref
      | pl \<Rightarrow> Inr (c\<lparr>control := pl, sigmask := uc_sigmask (contexts c n)\<rparr>))"

definition swapcontext :: "context_name \<Rightarrow> 'u place \<Rightarrow> context_name \<Rightarrow> 'u cpu \<Rightarrow> fault + 'u cpu" where
  "swapcontext old pl new c = setcontext new (save_context old pl c)"

definition makecontext :: "context_name \<Rightarrow> routine \<Rightarrow> 'u cpu \<Rightarrow> 'u cpu" where
  "makecontext n f = upd_context n (\<lambda>u. u\<lparr>uc_place := Entry f\<rparr>)"

text \<open>A routine that returns: its link is resumed; without one the program ends.\<close>

definition return_from_context :: "context_name \<Rightarrow> 'u cpu \<Rightarrow> fault + 'u cpu" where
  "return_from_context n c =
     (case uc_link (contexts c n) of
        None \<Rightarrow> Inr (c\<lparr>control := Exited\<rparr>)
      | Some m \<Rightarrow> setcontext m c)"

section \<open>The log file\<close>

text \<open>\<^verbatim>\<open>fprintf(log_file, "TIME: %d\tPID: %d\tACTION: ...")\<close>, with the process that runs.\<close>

definition log_line :: "int \<Rightarrow> int \<Rightarrow> string \<Rightarrow> string" where
  "log_line t pid action = ''TIME: '' @ print_int t @ tab @ ''PID: '' @ print_int pid @ tab @ ''ACTION: '' @ action @ newline"

definition log_action :: "string \<Rightarrow> 'u cpu \<Rightarrow> fault + 'u cpu" where
  "log_action action c =
     (case log_file c of
        None \<Rightarrow> Inr c
      | Some text \<Rightarrow>
          andThen (deref KPCB (running (kern c))) (\<lambda>r.
          Inr (c\<lparr>log_file := Some (text @ log_line (disastrOS_time (kern c)) (pcb_pid (pcbs (kern c) r)) action)\<rparr>)))"

section \<open>The clock\<close>

definition setupSignals :: "'u cpu \<Rightarrow> 'u cpu" where
  "setupSignals c = c\<lparr>sa_mask := {}, signal_set := {SIGALRM}, itimer := Some (INTERVAL * 1000)\<rparr>"

text \<open>
  The signal is delivered when the timer runs and it is not blocked. While the handler runs its own signal
  is blocked, and what \<open>sa_mask\<close> holds.
\<close>

definition alarm_enabled :: "'u cpu \<Rightarrow> bool" where
  "alarm_enabled c \<longleftrightarrow> itimer c \<noteq> None \<and> SIGALRM \<notin> sigmask c \<and> control c \<noteq> Exited"

definition timerHandler :: "'u cpu \<Rightarrow> fault + 'u cpu" where
  "timerHandler c =
     andThen (deref KPCB (running (kern c))) (\<lambda>r.
     swapcontext (CpuState r) (HandlerReturn (control c) (sigmask c)) InterruptContext
       (c\<lparr>sigmask := insert SIGALRM (sigmask c \<union> sa_mask c)\<rparr>))"

definition interrupt_routine :: "'u cpu \<Rightarrow> fault + 'u cpu" where
  "interrupt_routine c =
     andThen (log_action ''TIMER_OUT'' c) (\<lambda>c1.
     andThen (timerInterrupt (kern c1)) (\<lambda>s.
     andThen (log_action ''TIMER_IN'' (c1\<lparr>kern := s\<rparr>)) (\<lambda>c2.
     andThen (deref KPCB (running (kern c2))) (\<lambda>r.
     setcontext (CpuState r) c2))))"

section \<open>The start\<close>

text \<open>The context of a process, as spawn and the start make it; spawn also empties the mask.\<close>

definition init_process_context :: "ptr \<Rightarrow> 'u cpu \<Rightarrow> 'u cpu" where
  "init_process_context p c =
     upd_context (CpuState p) (\<lambda>u. u\<lparr>uc_stack := Some (PcbStack p), uc_stack_size := STACK_SIZE, uc_link := Some MainContext\<rparr>)
       (getcontext (CpuState p) c)"

definition init_trap_context :: "'u cpu \<Rightarrow> 'u cpu" where
  "init_trap_context c =
     makecontext TrapContext TrapRoutine
       (upd_context TrapContext (\<lambda>u. u\<lparr>uc_stack := Some SystemStack, uc_stack_size := STACK_SIZE, uc_sigmask := {SIGALRM},
          uc_link := Some MainContext\<rparr>) (getcontext TrapContext c))"

definition init_interrupt_context :: "'u cpu \<Rightarrow> 'u cpu" where
  "init_interrupt_context c =
     makecontext InterruptContext InterruptRoutine
       (upd_context InterruptContext (\<lambda>_. (contexts c TrapContext)\<lparr>uc_link := Some MainContext, uc_sigmask := {}\<rparr>) c)"

text \<open>The file that cannot be opened is a null pointer, and is written to all the same.\<close>

definition open_log :: "'u cpu \<Rightarrow> fault + 'u cpu" where
  "open_log c =
     (case start_logfile c of
        None \<Rightarrow> Inr c
      | Some opens \<Rightarrow>
          if opens (kern c) then Inr (c\<lparr>log_file := Some (log_line (disastrOS_time (kern c)) (-1) ''START'')\<rparr>)
          else Inl NullDeref)"

text \<open>What follows \<^verbatim>\<open>getcontext(&main_context)\<close>, each time control comes there.\<close>

definition start_routine :: "'u cpu \<Rightarrow> fault + 'u cpu" where
  "start_routine c =
     (if shutdown_now (kern c) \<noteq> 0 then Inr (c\<lparr>control := Exited\<rparr>)
      else
        let c1 = init_interrupt_context (init_trap_context c) in
        andThen (start_first_process (start_f c) (start_args c) (kern c1)) (\<lambda>s.
        andThen (deref KPCB (running s)) (\<lambda>p.
        let c2 = makecontext (CpuState p) (ProcessRoutine (start_f c) (start_args c)) (init_process_context p (c1\<lparr>kern := s\<rparr>)) in
        andThen (open_log (setupSignals c2)) (setcontext (CpuState p)))))"

text \<open>The part before it: the static contexts are all zeros, and the process has the mask \<open>m\<close>.\<close>

definition boot_cpu :: "platform \<Rightarrow> int \<Rightarrow> int \<Rightarrow> (kernel \<Rightarrow> bool) option \<Rightarrow> int set \<Rightarrow> fault + 'u cpu" where
  "boot_cpu pf f f_args logfile m =
     andThen (init_pools pf reset_kernel) (\<lambda>s.
     Inr (getcontext MainContext
       \<lparr>kern = init_lists (s\<lparr>init_pcb := None, running := None\<rparr>), contexts = (\<lambda>_. zero_context), control = AfterMain,
        sigmask = m, sa_mask = {}, signal_set = {}, itimer = None, log_file = None, start_f = f, start_args = f_args,
        start_logfile = logfile\<rparr>))"

section \<open>System calls\<close>

text \<open>Spawn and shutdown are the two handlers that have to do with contexts; shutdown does not return.\<close>

definition spawn_handler :: "'u cpu \<Rightarrow> fault + 'u cpu" where
  "spawn_handler c =
     andThen (make_child (kern c)) (\<lambda>(new_pcb, s1).
     case new_pcb of
       None \<Rightarrow> Inr (c\<lparr>kern := s1\<rparr>)
     | Some n \<Rightarrow>
         andThen (deref KPCB (running s1)) (\<lambda>r.
         let f = syscall_arg r 0 s1; g = syscall_arg r 1 s1;
             c1 = c\<lparr>kern := upd_pcb n (\<lambda>x. x\<lparr>pcb_cpu_entry := Some (f, g)\<rparr>) s1\<rparr>;
             c2 = upd_context (CpuState n) (\<lambda>u. u\<lparr>uc_sigmask := {}\<rparr>) (init_process_context n c1)
         in Inr (makecontext (CpuState n) (ProcessRoutine f g) c2)))"

definition shutdown_handler :: "'u cpu \<Rightarrow> fault + 'u cpu" where
  "shutdown_handler c = setcontext MainContext (c\<lparr>kern := internal_shutdown (kern c)\<rparr>)"

definition run_handler :: "(kernel \<Rightarrow> fault + kernel) \<Rightarrow> 'u cpu \<Rightarrow> fault + 'u cpu" where
  "run_handler h c = andThen (h (kern c)) (\<lambda>s. Inr (c\<lparr>kern := s\<rparr>))"

text \<open>Behind the label \<^verbatim>\<open>return_to_process\<close>. Without a process the status is printed.\<close>

definition return_to_process :: "int \<Rightarrow> 'u cpu \<Rightarrow> fault + 'u cpu" where
  "return_to_process n c =
     andThen (log_action (''SYSCALL_OUT '' @ print_int n) c) (\<lambda>c1.
     if running (kern c1) \<noteq> None
     then andThen (deref KPCB (running (kern c1))) (\<lambda>r. setcontext (CpuState r) c1)
     else andThen (disastrOS_printStatus (kern c1)) (\<lambda>_. return_from_context TrapContext c1))"

definition trap_routine :: "'u cpu \<Rightarrow> fault + 'u cpu" where
  "trap_routine c =
     andThen (deref KPCB (running (kern c))) (\<lambda>r.
     let n = pcb_syscall_num (pcbs (kern c) r) in
     andThen (log_action (''SYSCALL_IN '' @ print_int n) c) (\<lambda>c1.
     if \<not> syscall_in_range n
     then return_to_process n (c1\<lparr>kern := set_retvalue r DSOS_ESYSCALL_OUT_OF_RANGE (kern c1)\<rparr>)
     else
       andThen (table_entry syscall_vector n) (\<lambda>my_syscall.
       case my_syscall of
         None \<Rightarrow> return_to_process n (c1\<lparr>kern := set_retvalue r DSOS_ESYSCALL_NOT_IMPLEMENTED (kern c1)\<rparr>)
       | Some handler \<Rightarrow>
           if n = DSOS_CALL_SHUTDOWN then shutdown_handler c1
           else
             andThen (if n = DSOS_CALL_SPAWN then spawn_handler c1 else run_handler handler c1)
               (return_to_process n))))"

text \<open>\<^verbatim>\<open>disastrOS_syscall\<close> in a process; \<open>k\<close> is what the process does with the value.\<close>

definition syscall_entry :: "int \<Rightarrow> (nat \<Rightarrow> int) \<Rightarrow> (int \<Rightarrow> 'u) \<Rightarrow> 'u cpu \<Rightarrow> fault + 'u cpu" where
  "syscall_entry n args k c =
     (if running (kern c) = None then Inl AssertFail
      else if \<not> syscall_in_range n then Inr (c\<lparr>control := InUser (k DSOS_ESYSCALL_OUT_OF_RANGE)\<rparr>)
      else
        andThen (table_entry syscall_numarg n) (\<lambda>nargs.
        andThen (deref KPCB (running (kern c))) (\<lambda>r.
        swapcontext (CpuState r) (SyscallReturn k) TrapContext (c\<lparr>kern := enter_syscall n args nargs r (kern c)\<rparr>))))"

definition syscall_return :: "(int \<Rightarrow> 'u) \<Rightarrow> 'u cpu \<Rightarrow> fault + 'u cpu" where
  "syscall_return k c =
     andThen (deref KPCB (running (kern c))) (\<lambda>r. Inr (c\<lparr>control := InUser (k (retvalue r (kern c)))\<rparr>))"

section \<open>Steps\<close>

text \<open>What the code of a process does next: it computes and writes memory, makes a call, or returns from its function.\<close>

datatype 'u action = Compute 'u "int \<Rightarrow> int" | Syscall int "nat \<Rightarrow> int" "int \<Rightarrow> 'u" | Return

type_synonym 'u program = "'u \<Rightarrow> (int \<Rightarrow> int) \<Rightarrow> 'u action"

definition user_step :: "'u program \<Rightarrow> 'u \<Rightarrow> 'u cpu \<Rightarrow> fault + 'u cpu" where
  "user_step prog u c =
     (case prog u (umem (kern c)) of
        Compute u' m \<Rightarrow> Inr (c\<lparr>kern := (kern c)\<lparr>umem := m\<rparr>, control := InUser u'\<rparr>)
      | Syscall n args k \<Rightarrow> syscall_entry n args k c
      | Return \<Rightarrow> andThen (deref KPCB (running (kern c))) (\<lambda>r. return_from_context (CpuState r) c))"

text \<open>\<open>entry f g\<close> is the code at the entry of the function \<open>f\<close> with the argument \<open>g\<close>.\<close>

definition advance :: "'u program \<Rightarrow> (int \<Rightarrow> int \<Rightarrow> 'u) \<Rightarrow> 'u cpu \<Rightarrow> fault + 'u cpu" where
  "advance prog entry c =
     (case control c of
        Uninitialised \<Rightarrow> Inl NullDeref
      | Entry TrapRoutine \<Rightarrow> trap_routine c
      | Entry InterruptRoutine \<Rightarrow> interrupt_routine c
      | Entry (ProcessRoutine f g) \<Rightarrow> Inr (c\<lparr>control := InUser (entry f g)\<rparr>)
      | AfterMain \<Rightarrow> start_routine c
      | InUser u \<Rightarrow> user_step prog u c
      | SyscallReturn k \<Rightarrow> syscall_return k c
      | HandlerReturn pl m \<Rightarrow> Inr (c\<lparr>control := pl, sigmask := m\<rparr>)
      | Exited \<Rightarrow> Inr c)"

inductive cpu_step :: "'u program \<Rightarrow> (int \<Rightarrow> int \<Rightarrow> 'u) \<Rightarrow> 'u cpu \<Rightarrow> 'u cpu \<Rightarrow> bool" for prog entry where
  go: "advance prog entry c = Inr c' \<Longrightarrow> cpu_step prog entry c c'"
| tick: "alarm_enabled c \<Longrightarrow> timerHandler c = Inr c' \<Longrightarrow> cpu_step prog entry c c'"

inductive_cases cpu_stepE: "cpu_step prog entry c c'"

end
