(* ===== verification/ContextMachine.thy ===== *)
theory ContextMachine
  imports Reachable Contexts
begin

text \<open>
  The switch of contexts implements the transition system: while no clock signal comes during an
  interrupt or the start, no process returns from its function and none opens a second message queue, every step of control is a step of the
  machine or none. Shown with a simulation, for every program.
\<close>

section \<open>Simulations\<close>

locale simulation =
  fixes low :: "'c \<Rightarrow> 'c \<Rightarrow> bool" and high :: "'s \<Rightarrow> 's \<Rightarrow> bool" and matches :: "'c \<Rightarrow> 's \<Rightarrow> bool"
  assumes simulates: "matches c s \<Longrightarrow> low c c' \<Longrightarrow> \<exists>s'. high\<^sup>*\<^sup>* s s' \<and> matches c' s'"
begin

lemma runs:
  assumes "low\<^sup>*\<^sup>* c c'" and "matches c s"
  shows "\<exists>s'. high\<^sup>*\<^sup>* s s' \<and> matches c' s'"
  using assms
proof (induction rule: rtranclp_induct)
  case (step d e)
  then obtain t where t: "high\<^sup>*\<^sup>* s t" "matches d t" by blast
  from simulates [OF t(2) step.hyps(2)] show ?case using rtranclp_trans [OF t(1)] by blast
qed blast

lemma keeps:
  assumes "low\<^sup>*\<^sup>* c c'" and "matches c s" and "\<And>d t. matches d t \<Longrightarrow> P d"
  shows "P c'"
  using runs [OF assms(1,2)] assms(3) by blast

end

section \<open>What the functions on contexts change\<close>

lemma upd_context_fields [simp]:
  "kern (upd_context n f c) = kern c" "control (upd_context n f c) = control c" "sigmask (upd_context n f c) = sigmask c"
  "contexts (upd_context n f c) = (contexts c)(n := f (contexts c n))" "itimer (upd_context n f c) = itimer c"
  "log_file (upd_context n f c) = log_file c" "sa_mask (upd_context n f c) = sa_mask c"
  "start_f (upd_context n f c) = start_f c" "start_args (upd_context n f c) = start_args c"
  "start_logfile (upd_context n f c) = start_logfile c"
  by (simp_all add: upd_context_def)

lemmas context_defs = save_context_def getcontext_def makecontext_def init_process_context_def init_trap_context_def
  init_interrupt_context_def

lemma setcontext_eq_Inr:
  "setcontext n c = Inr c' \<longleftrightarrow> uc_place (contexts c n) \<noteq> Uninitialised \<and>
     c' = c\<lparr>control := uc_place (contexts c n), sigmask := uc_sigmask (contexts c n)\<rparr>"
  by (auto simp: setcontext_def split: place.splits)

lemma log_action_Inr: "log_action a c = Inr c' \<Longrightarrow> \<exists>t. c' = c\<lparr>log_file := t\<rparr>"
  by (cases "log_file c") (auto simp: log_action_def andThen_eq_Inr intro: exI [of _ None])

lemma log_action_runs:
  assumes "running (kern c) = Some r" and "kind_of r = KPCB"
  obtains t where "log_action a c = Inr (c\<lparr>log_file := t\<rparr>)" "t = None \<longleftrightarrow> log_file c = None"
  using assms by (cases "log_file c") (auto simp: log_action_def deref_def)

text \<open>The log file that was asked for, if any, can be opened in the state \<open>s\<close>.\<close>

definition log_opens :: "'u cpu \<Rightarrow> kernel \<Rightarrow> bool" where
  "log_opens c s \<longleftrightarrow> (\<forall>opens. start_logfile c = Some opens \<longrightarrow> opens s)"

lemma open_log_Inr:
  assumes "open_log c = Inr c'"
  obtains x where "c' = c\<lparr>log_file := x\<rparr>" "start_logfile c = None \<or> x \<noteq> None"
proof -
  have "c' = c\<lparr>log_file := log_file c'\<rparr> \<and> (start_logfile c = None \<or> log_file c' \<noteq> None)"
    using assms by (auto simp: open_log_def split: option.splits if_splits)
  then show ?thesis using that by blast
qed

lemma open_log_opens: "log_opens c (kern c) \<Longrightarrow> \<exists>x. open_log c = Inr (c\<lparr>log_file := x\<rparr>)"
  by (cases "start_logfile c") (auto simp: open_log_def log_opens_def intro: exI [of _ "log_file c"])

lemma open_log_fails: "\<not> log_opens c (kern c) \<Longrightarrow> open_log c = Inl NullDeref"
  by (auto simp: open_log_def log_opens_def)

lemma setupSignals_fields [simp]:
  "kern (setupSignals c) = kern c" "contexts (setupSignals c) = contexts c" "control (setupSignals c) = control c"
  "sigmask (setupSignals c) = sigmask c" "start_logfile (setupSignals c) = start_logfile c"
  by (simp_all add: setupSignals_def)

lemma interrupt_routine_Inr:
  assumes "interrupt_routine c = Inr c'"
  obtains s r x where "timerInterrupt (kern c) = Inr s" "running s = Some r" "kind_of r = KPCB"
    "uc_place (contexts c (CpuState r)) \<noteq> Uninitialised"
    "c' = c\<lparr>kern := s, log_file := x, control := uc_place (contexts c (CpuState r)), sigmask := uc_sigmask (contexts c (CpuState r))\<rparr>"
proof -
  obtain c1 s c2 r where i: "log_action ''TIMER_OUT'' c = Inr c1" "timerInterrupt (kern c1) = Inr s"
    "log_action ''TIMER_IN'' (c1\<lparr>kern := s\<rparr>) = Inr c2" "deref KPCB (running (kern c2)) = Inr r" "setcontext (CpuState r) c2 = Inr c'"
    using assms by (auto simp: interrupt_routine_def andThen_eq_Inr)
  obtain x y where "c1 = c\<lparr>log_file := x\<rparr>" "c2 = c1\<lparr>kern := s, log_file := y\<rparr>"
    using log_action_Inr [OF i(1)] log_action_Inr [OF i(3)] by blast
  then show ?thesis using i(2,4,5) that by (simp add: deref_Inr setcontext_eq_Inr)
qed

text \<open>The context of a process that is made: it starts at the entry of its function, on its own stack.\<close>

definition new_context :: "ptr \<Rightarrow> int \<Rightarrow> int \<Rightarrow> int set \<Rightarrow> 'u ucontext" where
  "new_context p f g m = \<lparr>uc_stack = Some (PcbStack p), uc_stack_size = STACK_SIZE, uc_sigmask = m, uc_link = Some MainContext,
     uc_place = Entry (ProcessRoutine f g)\<rparr>"

lemma new_context_eq [simp]:
  "u\<lparr>uc_stack := Some (PcbStack p), uc_stack_size := 16384, uc_link := Some MainContext, uc_sigmask := m,
     uc_place := Entry (ProcessRoutine f g)\<rparr> = new_context p f g m"
  by (cases u) (simp add: new_context_def)

lemma process_context_made:
  fixes p f g and d :: "'u cpu"
  defines "e \<equiv> makecontext (CpuState p) (ProcessRoutine f g) (init_process_context p d)"
  shows "contexts e = (contexts d)(CpuState p := new_context p f g (sigmask d))" "kern e = kern d" "control e = control d"
    "sigmask e = sigmask d"
  by (cases "contexts d (CpuState p)"; simp add: e_def context_defs new_context_def)+

text \<open>The contexts of the kernel, as the start makes them.\<close>

lemma kernel_contexts_made:
  fixes c :: "'u cpu"
  defines "e \<equiv> init_interrupt_context (init_trap_context c)"
  shows "kern e = kern c" "control e = control c" "sigmask e = sigmask c" "log_file e = log_file c"
    "contexts e (CpuState p) = contexts c (CpuState p)" "contexts e MainContext = contexts c MainContext"
    "uc_place (contexts e TrapContext) = Entry TrapRoutine" "uc_sigmask (contexts e TrapContext) = {SIGALRM}"
    "uc_link (contexts e TrapContext) = Some MainContext"
    "uc_place (contexts e InterruptContext) = Entry InterruptRoutine" "uc_sigmask (contexts e InterruptContext) = {}"
    "uc_link (contexts e InterruptContext) = Some MainContext"
  by (simp_all add: e_def context_defs)

lemma spawn_handler_Inr:
  assumes "spawn_handler c = Inr c'"
  shows "internal_spawn (kern c) = Inr (kern c') \<and> control c' = control c \<and> sigmask c' = sigmask c \<and> log_file c' = log_file c \<and>
    (contexts c' = contexts c \<or> (\<exists>n s1 f g. make_child (kern c) = Inr (Some n, s1) \<and>
       contexts c' = (contexts c)(CpuState n := new_context n f g {})))"
proof -
  obtain x s1 where m: "make_child (kern c) = Inr (x, s1)" using assms by (auto simp: spawn_handler_def andThen_eq_Inr)
  show ?thesis
  proof (cases x)
    case None
    then show ?thesis using assms m by (auto simp: spawn_handler_def internal_spawn_def)
  next
    case (Some n)
    then obtain r where r: "deref KPCB (running s1) = Inr r" using assms m by (auto simp: spawn_handler_def andThen_eq_Inr)
    show ?thesis
      using assms m r Some by (auto simp: spawn_handler_def internal_spawn_def Let_def context_defs) blast
  qed
qed

text \<open>
  Behind a system call control goes to the place of the process that runs, or, when none does or after a
  shutdown, to the start.
\<close>

lemma return_to_process_Inr:
  assumes "return_to_process n c = Inr c'"
  shows "kern c' = kern c \<and> contexts c' = contexts c \<and>
    (case running (kern c) of
       Some p \<Rightarrow> uc_place (contexts c (CpuState p)) \<noteq> Uninitialised \<and>
         control c' = uc_place (contexts c (CpuState p)) \<and> sigmask c' = uc_sigmask (contexts c (CpuState p))
     | None \<Rightarrow>
         (case uc_link (contexts c TrapContext) of
            None \<Rightarrow> control c' = Exited
          | Some m \<Rightarrow> control c' = uc_place (contexts c m) \<and> sigmask c' = uc_sigmask (contexts c m)))"
proof -
  obtain t where rest: "(if running (kern c) \<noteq> None
     then andThen (deref KPCB (running (kern c))) (\<lambda>r. setcontext (CpuState r) (c\<lparr>log_file := t\<rparr>))
     else andThen (disastrOS_printStatus (kern c)) (\<lambda>_. return_from_context TrapContext (c\<lparr>log_file := t\<rparr>))) = Inr c'"
    using assms log_action_Inr unfolding return_to_process_def andThen_eq_Inr by fastforce
  show ?thesis
  proof (cases "running (kern c)")
    case None
    then have "return_from_context TrapContext (c\<lparr>log_file := t\<rparr>) = Inr c'" using rest by (auto simp: andThen_eq_Inr)
    then show ?thesis using None by (auto simp: return_from_context_def setcontext_eq_Inr split: option.splits)
  next
    case (Some p)
    then have "setcontext (CpuState p) (c\<lparr>log_file := t\<rparr>) = Inr c'" using rest by (auto simp: deref_def split: if_splits)
    then show ?thesis using Some by (auto simp: setcontext_eq_Inr)
  qed
qed

text \<open>A trap logs the call and runs its handler; all but two handlers change only the kernel.\<close>

lemma trap_logged:
  assumes r: "running (kern c) = Some r" "kind_of r = KPCB"
  defines "n \<equiv> pcb_syscall_num (pcbs (kern c) r)"
  obtains t where "t = None \<longleftrightarrow> log_file c = None"
    "n = DSOS_CALL_SHUTDOWN \<Longrightarrow> trap_routine c = shutdown_handler (c\<lparr>log_file := t\<rparr>)"
    "n = DSOS_CALL_SPAWN \<Longrightarrow> trap_routine c = andThen (spawn_handler (c\<lparr>log_file := t\<rparr>)) (return_to_process n)"
    "n \<noteq> DSOS_CALL_SHUTDOWN \<Longrightarrow> n \<noteq> DSOS_CALL_SPAWN \<Longrightarrow>
      trap_routine c = andThen (disastrOS_trap (kern c)) (\<lambda>s. return_to_process n (c\<lparr>log_file := t, kern := s\<rparr>))"
proof -
  obtain t where t: "log_action (''SYSCALL_IN '' @ print_int n) c = Inr (c\<lparr>log_file := t\<rparr>)" "t = None \<longleftrightarrow> log_file c = None"
    by (rule log_action_runs [OF r])
  have num: "pcb_syscall_num (pcbs (kern c) r) = n" by (simp add: n_def)
  note unfold = trap_routine_def disastrOS_trap_def deref_def num r t(1)
  have other: "trap_routine c = andThen (disastrOS_trap (kern c)) (\<lambda>s. return_to_process n (c\<lparr>log_file := t, kern := s\<rparr>))"
    if no: "n \<noteq> DSOS_CALL_SHUTDOWN" "n \<noteq> DSOS_CALL_SPAWN"
  proof (cases "table_entry syscall_vector n")
    case (Inl f)
    then show ?thesis by (simp add: unfold del: append.simps)
  next
    case (Inr e)
    show ?thesis
    proof (cases e)
      case None
      then show ?thesis using Inr by (simp add: unfold del: append.simps)
    next
      case (Some h)
      then show ?thesis using Inr no by (cases "h (kern c)") (simp_all add: unfold run_handler_def del: append.simps)
    qed
  qed
  show ?thesis
    by (rule that [OF t(2) _ _ other])
      (use t(1) in \<open>simp_all add: unfold syscall_in_range_def table_entry_def syscall_vector_def del: append.simps\<close>)
qed

lemma trap_runs:
  assumes r: "running (kern c) = Some r" "kind_of r = KPCB" and trap: "disastrOS_trap (kern c) = Inr s"
    and no: "pcb_syscall_num (pcbs (kern c) r) \<noteq> DSOS_CALL_SHUTDOWN" "pcb_syscall_num (pcbs (kern c) r) \<noteq> DSOS_CALL_SPAWN"
  obtains t where "trap_routine c = return_to_process (pcb_syscall_num (pcbs (kern c) r)) (c\<lparr>log_file := t, kern := s\<rparr>)"
    "t = None \<longleftrightarrow> log_file c = None"
  by (rule trap_logged [OF r]) (metis trap no that andThen_simps(2))

text \<open>A trap does what the handler does; only spawn makes a context.\<close>

lemma trap_routine_Inr:
  assumes t: "trap_routine c = Inr c'" and run: "running (kern c) = Some r" and k: "kind_of r = KPCB"
  shows "disastrOS_trap (kern c) = Inr (kern c') \<and>
    (contexts c' = contexts c \<or> (\<exists>n s1 f g. make_child (kern c) = Inr (Some n, s1) \<and>
       contexts c' = (contexts c)(CpuState n := new_context n f g {}))) \<and>
    (if pcb_syscall_num (pcbs (kern c) r) = DSOS_CALL_SHUTDOWN
     then kern c' = internal_shutdown (kern c) \<and> control c' = uc_place (contexts c' MainContext) \<and> sigmask c' = uc_sigmask (contexts c' MainContext)
     else case running (kern c') of
       Some p \<Rightarrow> uc_place (contexts c' (CpuState p)) \<noteq> Uninitialised \<and>
         control c' = uc_place (contexts c' (CpuState p)) \<and> sigmask c' = uc_sigmask (contexts c' (CpuState p))
     | None \<Rightarrow>
         (case uc_link (contexts c' TrapContext) of
            None \<Rightarrow> control c' = Exited
          | Some m \<Rightarrow> control c' = uc_place (contexts c' m) \<and> sigmask c' = uc_sigmask (contexts c' m)))"
proof -
  let ?n = "pcb_syscall_num (pcbs (kern c) r)"
  obtain tx where tx: "?n = DSOS_CALL_SHUTDOWN \<Longrightarrow> trap_routine c = shutdown_handler (c\<lparr>log_file := tx\<rparr>)"
    "?n = DSOS_CALL_SPAWN \<Longrightarrow> trap_routine c = andThen (spawn_handler (c\<lparr>log_file := tx\<rparr>)) (return_to_process ?n)"
    "?n \<noteq> DSOS_CALL_SHUTDOWN \<Longrightarrow> ?n \<noteq> DSOS_CALL_SPAWN \<Longrightarrow>
      trap_routine c = andThen (disastrOS_trap (kern c)) (\<lambda>s. return_to_process ?n (c\<lparr>log_file := tx, kern := s\<rparr>))"
    by (rule trap_logged [OF run k]) blast
  note kernel = disastrOS_trap_def [of "kern c"] run k
  consider "?n = DSOS_CALL_SHUTDOWN" | "?n = DSOS_CALL_SPAWN" | "?n \<noteq> DSOS_CALL_SHUTDOWN" "?n \<noteq> DSOS_CALL_SPAWN" by blast
  then show ?thesis
  proof cases
    case 1
    then have "disastrOS_trap (kern c) = Inr (internal_shutdown (kern c))"
      using kernel by (simp add: syscall_in_range_def table_entry_def syscall_vector_def)
    moreover have "setcontext MainContext (c\<lparr>log_file := tx, kern := internal_shutdown (kern c)\<rparr>) = Inr c'"
      using t [unfolded tx(1) [OF 1]] by (simp add: shutdown_handler_def)
    ultimately show ?thesis using 1 by (auto simp: setcontext_eq_Inr)
  next
    case 2
    then have s: "disastrOS_trap (kern c) = internal_spawn (kern c)"
      using kernel by (simp add: syscall_in_range_def table_entry_def syscall_vector_def)
    obtain d where d: "spawn_handler (c\<lparr>log_file := tx\<rparr>) = Inr d" "return_to_process ?n d = Inr c'"
      using t [unfolded tx(2) [OF 2]] by (auto simp: andThen_eq_Inr)
    show ?thesis using spawn_handler_Inr [OF d(1)] return_to_process_Inr [OF d(2)] s 2 by (simp split: option.splits)
  next
    case 3
    then obtain s where s: "disastrOS_trap (kern c) = Inr s" "return_to_process ?n (c\<lparr>log_file := tx, kern := s\<rparr>) = Inr c'"
      using t [unfolded tx(3) [OF 3]] by (auto simp: andThen_eq_Inr)
    then show ?thesis using return_to_process_Inr [OF s(2)] 3 by (simp split: option.splits)
  qed
qed

section \<open>A system call is a step\<close>

lemma syscall_args:
  "disastrOS_syscall n args s = disastrOS_syscall n (args_of (map args [0..<syscall_numarg n])) s"
proof -
  have "enter_syscall n (args_of (map args [0..<k])) k r s = enter_syscall n args k r s" for k r
    by (simp add: enter_syscall_def args_of_def cong: if_cong)
  then show ?thesis by (auto simp: disastrOS_syscall_def table_entry_def)
qed

lemma call_is_step:
  assumes call: "disastrOS_syscall n args s = Inr (Inr s')"
    and one: "n = DSOS_CALL_MQOPEN \<Longrightarrow> \<not> adds_second_queue (to_int32 (args 0)) (to_int32 (args 1)) s"
  shows "machine_step s s'"
proof (cases "syscall_vector n = None")
  case True
  then show ?thesis using call by (rule machine_step.unimplemented)
next
  case False
  then consider "n = 1" | "n = 2" | "n = 3" | "n = 4" | "n = 5" | "n = 6" | "n = 7" | "n = 8" | "n = 9" | "n = 10" | "n = 11"
    | "n = 12" | "n = 13" | "n = 14" | "n = 15" | "n = 16" | "n = 17" | "n = 18" | "n = 19"
    by (auto simp: syscall_vector_def split: if_splits)
  note cases = this and c = call [unfolded syscall_args [of n args s]]
  show ?thesis
  proof (cases rule: cases)
    case 1 then show ?thesis using c machine_step.preempt by (simp add: disastrOS_preempt_def syscall_numarg_def)
  next
    case 2 then show ?thesis using c machine_step.fork by (simp add: disastrOS_fork_def syscall_numarg_def)
  next
    case 3 then show ?thesis using c machine_step.wait [of "args 0" "args 1"] by (simp add: disastrOS_wait_def syscall_numarg_def upt_rec)
  next
    case 4 then show ?thesis using c machine_step.exit [of "args 0"] by (simp add: disastrOS_exit_def syscall_numarg_def upt_rec)
  next
    case 5 then show ?thesis using c machine_step.spawn [of "args 0" "args 1"] by (simp add: disastrOS_spawn_def syscall_numarg_def upt_rec)
  next
    case 6 then show ?thesis using c machine_step.sleep [of "args 0"] by (simp add: disastrOS_sleep_def syscall_numarg_def upt_rec)
  next
    case 7 then show ?thesis
      using c machine_step.openResource [of "args 0" "args 1" "args 2"]
      by (simp add: disastrOS_openResource_def syscall_numarg_def upt_rec numeral_2_eq_2)
  next
    case 8 then show ?thesis using c machine_step.closeResource [of "args 0"] by (simp add: disastrOS_closeResource_def syscall_numarg_def upt_rec)
  next
    case 9 then show ?thesis using c machine_step.destroyResource [of "args 0"] by (simp add: disastrOS_destroyResource_def syscall_numarg_def upt_rec)
  next
    case 10 then show ?thesis using c machine_step.shutdown by (simp add: disastrOS_shutdown_def syscall_numarg_def)
  next
    case 11 then show ?thesis
      using c machine_step.semOpen [of "args 0" "args 1" "args 2"]
      by (simp add: disastrOS_semOpen_def syscall_numarg_def upt_rec numeral_2_eq_2)
  next
    case 12 then show ?thesis using c machine_step.semClose [of "args 0"] by (simp add: disastrOS_semClose_def syscall_numarg_def upt_rec)
  next
    case 13 then show ?thesis using c machine_step.semWait [of "args 0"] by (simp add: disastrOS_semWait_def syscall_numarg_def upt_rec)
  next
    case 14 then show ?thesis using c machine_step.semPost [of "args 0"] by (simp add: disastrOS_semPost_def syscall_numarg_def upt_rec)
  next
    case 15 then show ?thesis
      using c one machine_step.mqOpen [of "args 0" "args 1" s "args 2"]
      by (simp add: disastrOS_mqOpen_def syscall_numarg_def upt_rec numeral_2_eq_2)
  next
    case 16 then show ?thesis using c machine_step.mqClose [of "args 0"] by (simp add: disastrOS_mqClose_def syscall_numarg_def upt_rec)
  next
    case 17 then show ?thesis
      using c machine_step.mqRead [of "args 0" "args 1" "args 2" "args 3"]
      by (simp add: disastrOS_mqRead_def syscall_numarg_def upt_rec eval_nat_numeral)
  next
    case 18 then show ?thesis
      using c machine_step.mqWrite [of "args 0" "args 1" "args 2" "args 3"]
      by (simp add: disastrOS_mqWrite_def syscall_numarg_def upt_rec eval_nat_numeral)
  next
    case 19 then show ?thesis using c machine_step.mqUnlink [of "args 0"] by (simp add: disastrOS_mqUnlink_def syscall_numarg_def upt_rec)
  qed
qed

section \<open>Orderly control\<close>

text \<open>The places at which the code of a process is, or to which it comes back from a call or the handler.\<close>

fun process_place :: "'u place \<Rightarrow> bool" where
  "process_place (Entry (ProcessRoutine f g)) = True"
| "process_place (InUser u) = True"
| "process_place (SyscallReturn k) = True"
| "process_place (HandlerReturn pl m) = process_place pl"
| "process_place pl = False"

text \<open>The process is about to return from its function, or to open a second message queue.\<close>

definition about_to_return :: "'u program \<Rightarrow> 'u cpu \<Rightarrow> bool" where
  "about_to_return prog c \<longleftrightarrow> (\<exists>u. control c = InUser u \<and> prog u (umem (kern c)) = Return)"

definition about_to_add_queue :: "'u program \<Rightarrow> 'u cpu \<Rightarrow> bool" where
  "about_to_add_queue prog c \<longleftrightarrow> (\<exists>u args k. control c = InUser u \<and> prog u (umem (kern c)) = Syscall DSOS_CALL_MQOPEN args k \<and>
     adds_second_queue (to_int32 (args 0)) (to_int32 (args 1)) (kern c))"

inductive orderly_step :: "'u program \<Rightarrow> (int \<Rightarrow> int \<Rightarrow> 'u) \<Rightarrow> 'u cpu \<Rightarrow> 'u cpu \<Rightarrow> bool" for prog entry where
  go: "advance prog entry c = Inr c' \<Longrightarrow> \<not> about_to_return prog c \<Longrightarrow> \<not> about_to_add_queue prog c \<Longrightarrow> orderly_step prog entry c c'"
| tick: "alarm_enabled c \<Longrightarrow> process_place (control c) \<Longrightarrow> timerHandler c = Inr c' \<Longrightarrow> orderly_step prog entry c c'"

lemma orderly_cpu_step: "orderly_step prog entry c c' \<Longrightarrow> cpu_step prog entry c c'"
  by (auto elim!: orderly_step.cases intro: cpu_step.intros)

text \<open>
  What holds of the contexts: those of processes are at places of processes and lead to the start, or were
  never written; the others have their routines, and the clock is blocked in a trap.
\<close>

definition process_context :: "'u ucontext \<Rightarrow> bool" where
  "process_context u \<longleftrightarrow> process_place (uc_place u) \<and> uc_link u = Some MainContext"

definition contexts_ok :: "'u cpu \<Rightarrow> bool" where
  "contexts_ok c \<longleftrightarrow>
     (\<forall>p. process_context (contexts c (CpuState p)) \<or> uc_place (contexts c (CpuState p)) = Uninitialised) \<and>
     uc_place (contexts c MainContext) = AfterMain \<and>
     (control c = AfterMain \<or> control c = Exited \<or>
       uc_place (contexts c TrapContext) = Entry TrapRoutine \<and> uc_sigmask (contexts c TrapContext) = {SIGALRM} \<and>
       uc_link (contexts c TrapContext) = Some MainContext \<and>
       uc_place (contexts c InterruptContext) = Entry InterruptRoutine \<and> uc_sigmask (contexts c InterruptContext) = {})"

text \<open>
  The state of the machine that a state of control stands for: the kernel, or in a trap the kernel before
  the call.
\<close>

definition in_trap :: "'u cpu \<Rightarrow> kernel \<Rightarrow> bool" where
  "in_trap c s \<longleftrightarrow> SIGALRM \<in> sigmask c \<and>
     (\<exists>n args r. running s = Some r \<and> kind_of r = KPCB \<and> syscall_in_range n \<and> n < DSOS_MAX_SYSCALLS \<and>
       kern c = enter_syscall n args (syscall_numarg n) r s \<and>
       (n = DSOS_CALL_MQOPEN \<longrightarrow> \<not> adds_second_queue (to_int32 (args 0)) (to_int32 (args 1)) s))"

definition returns_to_main :: "'u cpu \<Rightarrow> kernel \<Rightarrow> bool" where
  "returns_to_main c s \<longleftrightarrow> (\<exists>r. running s = Some r \<and> uc_link (contexts c (CpuState r)) = Some MainContext)"

definition stands_for :: "'u cpu \<Rightarrow> kernel \<Rightarrow> bool" where
  "stands_for c s \<longleftrightarrow> contexts_ok c \<and>
     (if control c = Entry TrapRoutine then in_trap c s
      else kern c = s \<and>
        (control c = Exited \<or> control c = AfterMain \<and> (shutdown_now s \<noteq> 0 \<or> running s = None) \<or>
         (process_place (control c) \<or> control c = Entry InterruptRoutine) \<and> returns_to_main c s))"

section \<open>Each orderly step is a step of the machine, or none\<close>

lemma stands_forD:
  assumes "stands_for c s"
  shows "contexts_ok c" "control c \<noteq> Uninitialised"
    "control c = Entry TrapRoutine \<Longrightarrow> in_trap c s" "control c \<noteq> Entry TrapRoutine \<Longrightarrow> kern c = s"
    "process_place (control c) \<Longrightarrow> returns_to_main c s" "control c = Entry InterruptRoutine \<Longrightarrow> returns_to_main c s"
    "control c = AfterMain \<Longrightarrow> shutdown_now s \<noteq> 0 \<or> running s = None"
  using assms by (auto simp: stands_for_def split: if_splits)

lemma stands_for_process:
  assumes "contexts_ok c" and "kern c = s" and "process_place (control c)" and "returns_to_main c s"
  shows "stands_for c s"
  using assms by (auto simp: stands_for_def)

text \<open>The contexts stay in order when one of a process is written and control is in kernel or process.\<close>

lemma contexts_ok_same:
  assumes "contexts_ok c" and "contexts c' = contexts c" and "control c \<noteq> AfterMain" and "control c \<noteq> Exited"
  shows "contexts_ok c'"
  using assms by (simp add: contexts_ok_def)

lemma contexts_ok_write:
  assumes "contexts_ok c" and "contexts c' = (contexts c)(CpuState p := u)" and "process_context u"
    and "control c \<noteq> AfterMain" and "control c \<noteq> Exited"
  shows "contexts_ok c'"
  using assms by (simp add: contexts_ok_def)

lemma resumed_place:
  assumes "contexts_ok c" and "uc_place (contexts c (CpuState p)) \<noteq> Uninitialised"
  shows "process_place (uc_place (contexts c (CpuState p)))" "running s = Some p \<Longrightarrow> returns_to_main c s"
  using assms by (auto simp: contexts_ok_def process_context_def returns_to_main_def)

lemma returning_runs: "returns_to_main c s \<Longrightarrow> running s \<noteq> None"
  by (auto simp: returns_to_main_def)

lemma in_trap_step:
  assumes "in_trap c s" and trap: "disastrOS_trap (kern c) = Inr s'"
  shows "machine_step s s'"
proof -
  obtain n args r where r: "running s = Some r" "kind_of r = KPCB" "syscall_in_range n" "n < DSOS_MAX_SYSCALLS"
    "kern c = enter_syscall n args (syscall_numarg n) r s"
    "n = DSOS_CALL_MQOPEN \<longrightarrow> \<not> adds_second_queue (to_int32 (args 0)) (to_int32 (args 1)) s"
    using assms(1) unfolding in_trap_def by blast
  have "disastrOS_syscall n args s = Inr (Inr s')"
    using trap r(1-5) by (auto simp: disastrOS_syscall_def table_entry_def syscall_in_range_def)
  then show ?thesis by (rule call_is_step) (use r(6) in simp)
qed

lemma sim_trap:
  assumes m: "stands_for c s" and ctl: "control c = Entry TrapRoutine" and t: "trap_routine c = Inr c'"
  shows "machine_step s (kern c') \<and> stands_for c' (kern c')"
proof -
  obtain n args r where r: "running s = Some r" "kind_of r = KPCB" "syscall_in_range n" "n < DSOS_MAX_SYSCALLS"
    "kern c = enter_syscall n args (syscall_numarg n) r s"
    "n = DSOS_CALL_MQOPEN \<longrightarrow> \<not> adds_second_queue (to_int32 (args 0)) (to_int32 (args 1)) s"
    using stands_forD(3) [OF m ctl] unfolding in_trap_def by blast
  have k: "running (kern c) = Some r" "pcb_syscall_num (pcbs (kern c) r) = n"
    by (simp_all add: r(5) enter_syscall_def upd_pcb_def r(1))
  note ti = trap_routine_Inr [OF t k(1) r(2)] and ok = stands_forD(1) [OF m]
  have step: "machine_step s (kern c')" using in_trap_step [OF stands_forD(3) [OF m ctl]] ti by blast
  have links: "uc_link (contexts c' TrapContext) = Some MainContext" "uc_place (contexts c' MainContext) = AfterMain"
    using ti ok ctl by (auto simp: contexts_ok_def)
  have ok': "contexts_ok c'"
    using ti contexts_ok_same [OF ok, of c'] contexts_ok_write [OF ok, of c'] ctl by (auto simp: new_context_def process_context_def)
  have "stands_for c' (kern c')"
  proof (cases "n = DSOS_CALL_SHUTDOWN")
    case True
    then show ?thesis using ti k(2) ok' links(2) by (simp add: stands_for_def internal_shutdown_def)
  next
    case False
    then have resumed: "case running (kern c') of
       Some p \<Rightarrow> uc_place (contexts c' (CpuState p)) \<noteq> Uninitialised \<and> control c' = uc_place (contexts c' (CpuState p))
     | None \<Rightarrow> control c' = AfterMain"
      using ti k(2) links by (auto split: option.splits)
    show ?thesis
    proof (cases "running (kern c')")
      case None
      then show ?thesis using resumed ok' by (simp add: stands_for_def)
    next
      case (Some p)
      then show ?thesis using resumed resumed_place [OF ok', of p] by (intro stands_for_process [OF ok' refl]) simp_all
    qed
  qed
  with step show ?thesis ..
qed

lemma sim_interrupt:
  assumes m: "stands_for c s" and ctl: "control c = Entry InterruptRoutine" and t: "interrupt_routine c = Inr c'"
  shows "machine_step s (kern c') \<and> stands_for c' (kern c')"
proof -
  note ok = stands_forD(1) [OF m]
  have s: "kern c = s" "running s \<noteq> None" using stands_forD(4,6) [OF m] ctl returning_runs by auto
  obtain s' r x where i: "timerInterrupt (kern c) = Inr s'" "running s' = Some r" "kind_of r = KPCB"
    "uc_place (contexts c (CpuState r)) \<noteq> Uninitialised"
    "c' = c\<lparr>kern := s', log_file := x, control := uc_place (contexts c (CpuState r)), sigmask := uc_sigmask (contexts c (CpuState r))\<rparr>"
    by (rule interrupt_routine_Inr [OF t])
  have c': "kern c' = s'" "contexts c' = contexts c" "control c' = uc_place (contexts c (CpuState r))"
    using i(5) by simp_all
  have "running s' = Some r" by (rule i(2))
  moreover have "contexts_ok c'" by (rule contexts_ok_same [OF ok c'(2)]) (simp_all add: ctl)
  ultimately have "stands_for c' (kern c')"
    using stands_for_process [of c' s'] resumed_place [OF ok i(4)] c' by (simp add: returns_to_main_def)
  moreover have "machine_step s (kern c')" using machine_step.tick [OF s(2)] i(1) s(1) c'(1) by simp
  ultimately show ?thesis by blast
qed

text \<open>The start of a first process: its context is made and resumed.\<close>

lemma start_routine_Inr:
  assumes t: "start_routine c = Inr c'" and on: "shutdown_now (kern c) = 0"
  obtains s p x where "start_first_process (start_f c) (start_args c) (kern c) = Inr s" "running s = Some p" "kind_of p = KPCB"
    "setcontext (CpuState p) ((setupSignals (makecontext (CpuState p) (ProcessRoutine (start_f c) (start_args c))
       (init_process_context p ((init_interrupt_context (init_trap_context c))\<lparr>kern := s\<rparr>))))\<lparr>log_file := x\<rparr>) = Inr c'"
    "start_logfile c = None \<or> x \<noteq> None"
proof -
  let ?c1 = "init_interrupt_context (init_trap_context c)"
  let ?d = "\<lambda>p s. setupSignals (makecontext (CpuState p) (ProcessRoutine (start_f c) (start_args c)) (init_process_context p (?c1\<lparr>kern := s\<rparr>)))"
  obtain s p d where s: "start_first_process (start_f c) (start_args c) (kern c) = Inr s" "deref KPCB (running s) = Inr p"
    and d: "open_log (?d p s) = Inr d" "setcontext (CpuState p) d = Inr c'"
    using t on by (auto simp: start_routine_def andThen_eq_Inr Let_def kernel_contexts_made(1))
  obtain x where x: "d = (?d p s)\<lparr>log_file := x\<rparr>" "start_logfile (?d p s) = None \<or> x \<noteq> None" by (rule open_log_Inr [OF d(1)])
  have "start_logfile (?d p s) = start_logfile c" by (simp add: context_defs)
  then show ?thesis using that [OF s(1) _ _ d(2) [unfolded x(1)]] s(2) x(2) by (simp add: deref_Inr)
qed

lemma sim_start:
  assumes m: "stands_for c s" and ctl: "control c = AfterMain" and t: "start_routine c = Inr c'"
  shows "(machine_step s (kern c') \<or> kern c' = s) \<and> stands_for c' (kern c')"
proof (cases "shutdown_now s \<noteq> 0")
  case True
  then have "c' = c\<lparr>control := Exited\<rparr>" "kern c = s" using t stands_forD(4) [OF m] ctl by (simp_all add: start_routine_def)
  then show ?thesis using stands_forD(1) [OF m] by (auto simp: stands_for_def contexts_ok_def)
next
  case False
  have s: "kern c = s" "running s = None" using stands_forD(4,7) [OF m] ctl False by simp_all
  let ?c1 = "init_interrupt_context (init_trap_context c)"
  obtain s' p x where p: "start_first_process (start_f c) (start_args c) s = Inr s'" "running s' = Some p"
    "setcontext (CpuState p) ((setupSignals (makecontext (CpuState p) (ProcessRoutine (start_f c) (start_args c))
       (init_process_context p (?c1\<lparr>kern := s'\<rparr>))))\<lparr>log_file := x\<rparr>) = Inr c'"
    by (rule start_routine_Inr [OF t]) (use s False in auto)
  note made = process_context_made [of p "start_f c" "start_args c" "?c1\<lparr>kern := s'\<rparr>"]
  have c': "kern c' = s'" "control c' = Entry (ProcessRoutine (start_f c) (start_args c))"
    "contexts c' = (contexts ?c1)(CpuState p := new_context p (start_f c) (start_args c) (sigmask c))"
    using p(3) made by (auto simp: setcontext_eq_Inr new_context_def kernel_contexts_made(3))
  have "contexts_ok c'"
    using stands_forD(1) [OF m] by (simp add: contexts_ok_def c'(3) kernel_contexts_made new_context_def process_context_def)
  moreover have "returns_to_main c' s'" using p(2) by (simp add: returns_to_main_def c'(3) new_context_def)
  ultimately show ?thesis
    using stands_for_process [of c' s'] machine_step.restart [OF s(2) _ p(1)] False c'(1,2) by simp
qed

lemma process_keeps:
  assumes m: "stands_for c s" and ctl: "process_place (control c)"
    and c': "contexts c' = contexts c" "kern c' = s" "process_place (control c')"
  shows "stands_for c' s"
proof -
  have ne: "control c \<noteq> AfterMain" "control c \<noteq> Exited" using ctl by auto
  show ?thesis
    using stands_for_process [OF contexts_ok_same [OF stands_forD(1) [OF m] c'(1) ne] c'(2,3)] stands_forD(5) [OF m ctl] c'(1)
    by (auto simp: returns_to_main_def)
qed

lemma sim_call:
  assumes m: "stands_for c s" and ctl: "process_place (control c)" and call: "syscall_entry n args k c = Inr c'"
    and one: "n = DSOS_CALL_MQOPEN \<Longrightarrow> \<not> adds_second_queue (to_int32 (args 0)) (to_int32 (args 1)) s"
  shows "\<exists>s'. (machine_step s s' \<or> s' = s) \<and> stands_for c' s'"
proof -
  note ok = stands_forD(1) [OF m]
  have ne: "control c \<noteq> AfterMain" "control c \<noteq> Exited" "control c \<noteq> Entry TrapRoutine" using ctl by auto
  have s: "kern c = s" "running s \<noteq> None" and lk: "returns_to_main c s" using stands_forD(4,5) [OF m] ne ctl returning_runs by auto
  show ?thesis
  proof (cases "syscall_in_range n")
    case False
    then have "stands_for c' s" using call s by (intro process_keeps [OF m ctl]) (auto simp: syscall_entry_def)
    then show ?thesis by blast
  next
    case True
    then obtain r where r: "running s = Some r" "kind_of r = KPCB" "n < DSOS_MAX_SYSCALLS"
      "swapcontext (CpuState r) (SyscallReturn k) TrapContext (c\<lparr>kern := enter_syscall n args (syscall_numarg n) r s\<rparr>) = Inr c'"
      using call s by (auto simp: syscall_entry_def andThen_eq_Inr table_entry_def deref_Inr split: if_splits)
    have trap: "uc_place (contexts c TrapContext) = Entry TrapRoutine" "uc_sigmask (contexts c TrapContext) = {SIGALRM}"
      using ok ne by (auto simp: contexts_ok_def)
    then have c': "kern c' = enter_syscall n args (syscall_numarg n) r s" "control c' = Entry TrapRoutine" "sigmask c' = {SIGALRM}"
      "contexts c' = (contexts c)(CpuState r := (contexts c (CpuState r))\<lparr>uc_place := SyscallReturn k, uc_sigmask := sigmask c\<rparr>)"
      using r(4) by (auto simp: swapcontext_def save_context_def setcontext_eq_Inr)
    have "in_trap c' s" unfolding in_trap_def c' using r(1-3) True one by blast
    moreover have "contexts_ok c'"
      by (rule contexts_ok_write [OF ok c'(4) _ ne(1,2)]) (use lk r(1) in \<open>simp add: process_context_def returns_to_main_def\<close>)
    ultimately show ?thesis by (auto simp: stands_for_def c'(2))
  qed
qed

lemma sim_process:
  assumes m: "stands_for c s" and ctl: "process_place (control c)" and t: "advance prog entry c = Inr c'"
    and no: "\<not> about_to_return prog c" "\<not> about_to_add_queue prog c"
  shows "\<exists>s'. (machine_step s s' \<or> s' = s) \<and> stands_for c' s'"
proof -
  note ok = stands_forD(1) [OF m]
  have ne: "control c \<noteq> AfterMain" "control c \<noteq> Exited" "control c \<noteq> Entry TrapRoutine" using ctl by auto
  have s: "kern c = s" "running s \<noteq> None" and lk: "returns_to_main c s" using stands_forD(4,5) [OF m] ne ctl returning_runs by auto
  have stays: ?thesis if "contexts c' = contexts c" "kern c' = s" "process_place (control c')"
    using process_keeps [OF m ctl that] by blast
  show ?thesis
    using ctl
  proof (cases "control c" rule: process_place.cases)
    case (1 f g)
    then show ?thesis using t by (intro stays) (auto simp: advance_def s(1))
  next
    case (2 u)
    show ?thesis
    proof (cases "prog u (umem (kern c))")
      case (Compute u' w)
      then have c': "c' = c\<lparr>kern := s\<lparr>umem := w\<rparr>, control := InUser u'\<rparr>" using t 2 by (simp add: advance_def user_step_def s(1))
      have "contexts_ok c'" by (rule contexts_ok_same [OF ok _ ne(1,2)]) (simp add: c')
      then have "stands_for c' (s\<lparr>umem := w\<rparr>)" using lk c' by (intro stands_for_process) (simp_all add: returns_to_main_def)
      then show ?thesis using machine_step.store [OF s(2)] by blast
    next
      case (Syscall n args k)
      then have call: "syscall_entry n args k c = Inr c'" using t 2 by (simp add: advance_def user_step_def)
      show ?thesis by (rule sim_call [OF m ctl call]) (use no(2) 2 Syscall in \<open>auto simp: about_to_add_queue_def s(1)\<close>)
    next
      case Return
      then show ?thesis using no(1) 2 by (simp add: about_to_return_def)
    qed
  next
    case (3 k)
    then show ?thesis using t by (intro stays) (auto simp: advance_def syscall_return_def andThen_eq_Inr s(1))
  next
    case (4 pl w)
    then show ?thesis using t ctl by (intro stays) (auto simp: advance_def s(1))
  qed simp_all
qed

lemma sim_tick:
  assumes m: "stands_for c s" and ctl: "process_place (control c)" and t: "timerHandler c = Inr c'"
  shows "stands_for c' s"
proof -
  note ok = stands_forD(1) [OF m]
  have ne: "control c \<noteq> AfterMain" "control c \<noteq> Exited" "control c \<noteq> Entry TrapRoutine" using ctl by auto
  have s: "kern c = s" "running s \<noteq> None" and lk: "returns_to_main c s" using stands_forD(4,5) [OF m] ne ctl returning_runs by auto
  have "uc_place (contexts c InterruptContext) = Entry InterruptRoutine" using ok ne by (auto simp: contexts_ok_def)
  then obtain r w where c': "running s = Some r" "kern c' = s" "control c' = Entry InterruptRoutine"
    "contexts c' = (contexts c)(CpuState r := (contexts c (CpuState r))\<lparr>uc_place := HandlerReturn (control c) (sigmask c), uc_sigmask := w\<rparr>)"
    using t s by (auto simp: timerHandler_def andThen_eq_Inr deref_Inr swapcontext_def save_context_def setcontext_eq_Inr)
  have "contexts_ok c'"
    by (rule contexts_ok_write [OF ok c'(4) _ ne(1,2)]) (use ctl lk c'(1) in \<open>simp add: process_context_def returns_to_main_def\<close>)
  then show ?thesis using c' lk by (simp add: stands_for_def returns_to_main_def)
qed

interpretation control: simulation "orderly_step prog entry" machine_step stands_for for prog :: "'u program" and entry
proof
  fix c c' :: "'u cpu" and s
  assume m: "stands_for c s" and step: "orderly_step prog entry c c'"
  have "\<exists>s'. (machine_step s s' \<or> s' = s) \<and> stands_for c' s'"
    using step
  proof cases
    case go
    show ?thesis
    proof (cases "process_place (control c)")
      case True
      from sim_process [OF m True go] show ?thesis .
    next
      case False
      then consider "control c = Entry TrapRoutine" | "control c = Entry InterruptRoutine" | "control c = AfterMain" | "control c = Exited"
        using m by (auto simp: stands_for_def split: if_splits)
      then show ?thesis
      proof cases
        case 1
        then show ?thesis using sim_trap [OF m 1] go(1) by (auto simp: advance_def)
      next
        case 2
        then show ?thesis using sim_interrupt [OF m 2] go(1) by (auto simp: advance_def)
      next
        case 3
        then show ?thesis using sim_start [OF m 3] go(1) by (auto simp: advance_def)
      next
        case 4
        then show ?thesis using m go(1) by (auto simp: advance_def)
      qed
    qed
  next
    case tick
    then show ?thesis using sim_tick [OF m] by blast
  qed
  then show "\<exists>s'. machine_step\<^sup>*\<^sup>* s s' \<and> stands_for c' s'" by blast
qed

text \<open>The states of control that an orderly run gets to.\<close>

inductive controlled :: "'u program \<Rightarrow> (int \<Rightarrow> int \<Rightarrow> 'u) \<Rightarrow> 'u cpu \<Rightarrow> bool" for prog entry where
  boot: "platform_ok pf \<Longrightarrow> boot_cpu pf f g logfile m = Inr c \<Longrightarrow> controlled prog entry c"
| step: "controlled prog entry c \<Longrightarrow> orderly_step prog entry c c' \<Longrightarrow> controlled prog entry c'"

end
