(* ===== verification/Scenario.thy ===== *)
theory Scenario
  imports SystemCall
begin

text \<open>
  Concrete states, made by running the model: a machine that has just started, the same machine
  with one and with two more processes, and what processes do next. They show that the hypotheses
  of the theorems can be met.
\<close>

definition demo_platform :: platform where
  "demo_platform = \<lparr>struct_size = (\<lambda>k. if k = KPCB then 17632 else 96),
     buffer_address = (\<lambda>k. case k of KPCB \<Rightarrow> 1 * 2 ^ 26 | KPCBPtr \<Rightarrow> 2 * 2 ^ 26 | KTimerItem \<Rightarrow> 3 * 2 ^ 26
       | KResource \<Rightarrow> 4 * 2 ^ 26 | KDescriptor \<Rightarrow> 5 * 2 ^ 26 | KDescriptorPtr \<Rightarrow> 6 * 2 ^ 26
       | KSemaphore \<Rightarrow> 7 * 2 ^ 26 | KSemDescriptor \<Rightarrow> 8 * 2 ^ 26 | KSemDescriptorPtr \<Rightarrow> 9 * 2 ^ 26
       | KMessageQueue \<Rightarrow> 10 * 2 ^ 26 | KQueue \<Rightarrow> 11 * 2 ^ 26 | KMessage \<Rightarrow> 12 * 2 ^ 26
       | KMQDescriptor \<Rightarrow> 13 * 2 ^ 26 | KMQDescriptorPtr \<Rightarrow> 14 * 2 ^ 26)\<rparr>"

lemma demo_platform_ok: "platform_ok demo_platform"
  by (simp add: platform_ok_def demo_platform_def)

abbreviation no_lists :: "headref \<Rightarrow> ptr list" where "no_lists \<equiv> \<lambda>_. []"
abbreviation p0 :: ptr where "p0 \<equiv> Ptr KPCB 0"
abbreviation p1 :: ptr where "p1 \<equiv> Ptr KPCB 1"
abbreviation pp0 :: ptr where "pp0 \<equiv> Ptr KPCBPtr 0"
abbreviation t0 :: ptr where "t0 \<equiv> Ptr KTimerItem 0"

text \<open>The result of an operation that succeeds.\<close>

definition result_of :: "fault + 'a \<Rightarrow> 'a" where
  "result_of m = projr m"

lemma result_of_Inr [simp]: "result_of (Inr x) = x"
  by (simp add: result_of_def)

section \<open>After the start\<close>

definition started :: kernel where
  "started = result_of (disastrOS_start demo_platform 0 0 reset_kernel)"

lemma started_wf:
  "disastrOS_start demo_platform 0 0 reset_kernel = Inr started"
  "sched_wf started no_lists boot_free p0" "kernel_frame (boot_contents 0 0) started"
  using start_wf [OF demo_platform_ok, of 0 0] by (auto simp: started_def)

lemma boot_free_simps [simp]:
  "boot_free KPCB = 1 # [2..1023]" "boot_free KPCBPtr = 0 # [1..1023]" "boot_free KTimerItem = 0 # [1..1023]"
  "boot_free KResource = 0 # [1..1023]" "boot_free KDescriptor = 0 # [1..1023]"
  "boot_free KDescriptorPtr = 0 # [1..1023]" "boot_free KSemaphore = 0 # [1..1023]"
  "boot_free KSemDescriptor = 0 # [1..1023]" "boot_free KSemDescriptorPtr = 0 # [1..1023]"
  "boot_free KMessageQueue = 0 # [1..15]" "boot_free KQueue = 0 # [1..63]" "boot_free KMessage = 0 # [1..127]"
  "boot_free KMQDescriptor = 0 # [1..1023]" "boot_free KMQDescriptorPtr = 0 # [1..1023]"
  by (simp_all add: boot_free_def pool_items_def upto_rec1)

lemma timers_ok_empty [simp]: "L TimerList = [] \<Longrightarrow> timers_ok s L"
  by (simp add: timers_ok_def timers_sorted_def)

lemma to_int32_small [simp]:
  "to_int32 0 = 0" "to_int32 1 = 1" "to_int32 2 = 2" "to_int32 3 = 3" "to_int32 5 = 5" "to_int32 7 = 7"
  by (simp_all add: to_int32_id int32_range_def)

lemma started_fields [simp]:
  "running started = Some p0" "init_pcb started = Some p0" "last_pid started = 1" "disastrOS_time started = 0"
  "pcb_pid (pcbs started p0) = 0" "pcb_status (pcbs started p0) = Running" "pcb_parent (pcbs started p0) = None"
  "pcb_timer (pcbs started p0) = None" "pcb_last_fd (pcbs started p0) = 0" "pcb_last_sem_fd (pcbs started p0) = 0"
  "pcb_last_mq_fd (pcbs started p0) = 0" "pcb_signals_mask (pcbs started p0) = -1"
  using started_wf(3)
  by (simp_all add: kernel_frame_def boot_contents_def new_pcb_def reset_kernel_def zero_pcb_def)

text \<open>The same machine with the pool of one kind of blocks used up.\<close>

definition full_pool :: pool_allocator where
  "full_pool = zero_pool\<lparr>free_list := (\<lambda>_. DetachedIdx), size_max := 1, item_size := 1, first_idx := NullIdx\<rparr>"

definition drained :: "kind \<Rightarrow> kernel" where
  "drained k = started\<lparr>pools := (pools started)(k := full_pool)\<rparr>"

lemma drained_fields [simp]:
  "running (drained k) = Some p0" "init_pcb (drained k) = Some p0" "last_pid (drained k) = 1"
  "disastrOS_time (drained k) = 0" "pcbs (drained k) = pcbs started"
  by (simp_all add: drained_def)

lemma drained_wf: "sched_wf (drained k) no_lists (boot_free(k := [])) p0"
proof -
  have inv: "pool_inv full_pool []"
    by (simp add: pool_inv_def full_pool_def zero_pool_def int32_range_def)
  have "represents (drained k) no_lists"
    using kernel_wf_represents [OF sched_wfD(1) [OF started_wf(2)]] by (simp add: represents_def drained_def)
  then have "kernel_wf (drained k) no_lists (boot_free(k := []))"
    using inv kernel_wf_pool [OF sched_wfD(1) [OF started_wf(2)]] by (simp add: kernel_wf_def drained_def)
  moreover have "fresh_block (drained k) no_lists (boot_free(k := [])) p0"
    using sched_wfD(5-7) [OF started_wf(2)]
    by (simp add: fresh_block_def live_def unlinked_def drained_def full_pool_def)
  ultimately show ?thesis by (simp add: sched_wf_def)
qed

section \<open>One child\<close>

definition forked :: kernel where
  "forked = result_of (internal_fork (calling 2 [] started))"

definition forked_lists :: "headref \<Rightarrow> ptr list" where
  "forked_lists = no_lists(PcbChildren p0 := [pp0], ReadyList := [p1])"

definition forked_free :: "kind \<Rightarrow> int list" where
  "forked_free = boot_free(KPCB := [2..1023], KPCBPtr := [1..1023])"

lemma forked_wf:
  "internal_fork (calling 2 [] started) = Inr forked" "sched_wf forked forked_lists forked_free p0"
  "kernel_frame (child_contents p0 p1 pp0 (calling 2 [] started)) forked"
proof -
  have "child_lists p0 p1 pp0 no_lists = forked_lists"
    by (auto simp: child_lists_def new_pcb_lists_def forked_lists_def)
  moreover have "int32_range (last_pid (calling 2 [] started) + 1)" by (simp add: int32_range_def)
  ultimately show "internal_fork (calling 2 [] started) = Inr forked" "sched_wf forked forked_lists forked_free p0"
    "kernel_frame (child_contents p0 p1 pp0 (calling 2 [] started)) forked"
    using fork_wf [OF calling_wf [OF started_wf(2), of 2 "[]"], of 1 "[2..1023]" 0 "[1..1023]"]
    by (auto simp: forked_def forked_free_def)
qed

lemma forked_fields [simp]:
  "running forked = Some p0" "init_pcb forked = Some p0" "last_pid forked = 2" "disastrOS_time forked = 0"
  "pcb_pid (pcbs forked p0) = 0" "pcb_pid (pcbs forked p1) = 1" "pcb_status (pcbs forked p1) = Ready"
  "pcb_parent (pcbs forked p1) = Some p0" "pcb_timer (pcbs forked p0) = None" "pcb_ptrs forked pp0 = Some p1"
  "pcb_status (pcbs forked p0) = Running" "pcb_timer (pcbs forked p1) = None" "pcb_parent (pcbs forked p0) = None"
  using forked_wf(3)
  by (simp_all add: kernel_frame_def child_contents_def upd_defs new_pcb_def)

lemma forked_lists_simps [simp]:
  "forked_lists ReadyList = [p1]" "forked_lists TimerList = []" "forked_lists WaitingList = []"
  "forked_lists ZombieList = []" "forked_lists (PcbChildren p0) = [pp0]" "forked_lists (PcbChildren p1) = []"
  "forked_lists (PcbDescriptors p) = []"
  by (simp_all add: forked_lists_def)

lemma forked_free_simps [simp]:
  "forked_free KTimerItem = 0 # [1..1023]" "forked_free KPCB = [2..1023]" "forked_free KPCBPtr = [1..1023]"
  by (simp_all add: forked_free_def)

section \<open>The parent sleeps\<close>

definition slept :: kernel where
  "slept = result_of (internal_sleep (calling 6 [3] forked))"

definition slept_lists :: "headref \<Rightarrow> ptr list" where
  "slept_lists = forked_lists(TimerList := [t0], WaitingList := [p0], ReadyList := [])"

lemma slept_wf:
  "internal_sleep (calling 6 [3] forked) = Inr slept"
  "sched_wf slept slept_lists (forked_free(KTimerItem := [1..1023])) p1" "timers_ok slept slept_lists"
  "kernel_frame ((asleep_contents p0 3 t0 (calling 6 [3] forked))\<lparr>running := Some p1\<rparr>) slept"
proof -
  let ?s = "calling 6 [3] forked"
  have arg: "int_arg p0 0 ?s = 3" by (simp add: calling_arg)
  have L: "(asleep_lists ?s p0 3 t0 forked_lists)(ReadyList := []) = slept_lists"
    by (simp add: asleep_lists_def slept_lists_def add_timer_def)
  have "\<exists>s'. internal_sleep ?s = Inr s' \<and>
      sched_wf s' slept_lists (forked_free(KTimerItem := [1..1023])) p1 \<and> timers_ok s' slept_lists \<and>
      kernel_frame ((asleep_contents p0 3 t0 ?s)\<lparr>running := Some p1\<rparr>) s'"
    using sleep_next [OF calling_wf [OF forked_wf(2), of 6 "[3]"], of 0 "[1..1023]" p1 "[]"]
    by (simp add: arg int32_range_def L)
  then show "internal_sleep ?s = Inr slept"
    "sched_wf slept slept_lists (forked_free(KTimerItem := [1..1023])) p1" "timers_ok slept slept_lists"
    "kernel_frame ((asleep_contents p0 3 t0 ?s)\<lparr>running := Some p1\<rparr>) slept"
    by (auto simp: slept_def)
qed

lemma slept_fields [simp]:
  "running slept = Some p1" "disastrOS_time slept = 0" "pcb_status (pcbs slept p0) = Waiting"
  "timer_pcb (timers slept t0) = Some p0" "wake_time slept t0 = 3" "init_pcb slept = Some p0"
  using slept_wf(4)
  by (simp_all add: kernel_frame_def asleep_contents_def set_status_def upd_pcb_def wake_time_def)

section \<open>The child runs\<close>

text \<open>The parent gives way.\<close>

definition switched :: kernel where
  "switched = result_of (internal_schedule forked)"

definition switched_lists :: "headref \<Rightarrow> ptr list" where
  "switched_lists = forked_lists(ReadyList := [p0])"

lemma nobody_awake [simp]:
  assumes "L TimerList = []"
  shows "woken_pcbs s L = []" "(awake_lists s L)(ReadyList := q) = L(ReadyList := q)" "awake_free s L F = F"
    "awake_contents s L = s"
  using assms by (auto simp: woken_pcbs_def elapsed_timers_def pending_timers_def awake_lists_def awake_free_def
      awake_contents_def fun_eq_iff)

lemma switched_wf:
  "internal_schedule forked = Inr switched" "sched_wf switched switched_lists forked_free p1"
  "kernel_frame ((set_status p1 Running (set_status p0 Ready forked))\<lparr>running := Some p1\<rparr>) switched"
  using schedule_wf [OF forked_wf(2) timers_ok_empty, where n = p1 and q = "[]"]
  by (auto simp: switched_def switched_lists_def)

lemma switched_fields [simp]:
  "running switched = Some p1" "init_pcb switched = Some p0" "pcb_pid (pcbs switched p0) = 0"
  "pcb_pid (pcbs switched p1) = 1" "pcb_status (pcbs switched p0) = Ready" "pcb_parent (pcbs switched p1) = Some p0"
  "pcb_ptrs switched pp0 = Some p1" "pcb_timer (pcbs switched p1) = None" "disastrOS_time switched = 0"
  using switched_wf(3) by (simp_all add: kernel_frame_def set_status_def upd_pcb_def)

lemma switched_lists_simps [simp]:
  "switched_lists ReadyList = [p0]" "switched_lists TimerList = []" "switched_lists WaitingList = []"
  "switched_lists ZombieList = []" "switched_lists (PcbChildren p0) = [pp0]" "switched_lists (PcbChildren p1) = []"
  "switched_lists (PcbDescriptors p) = []"
  by (simp_all add: switched_lists_def)

text \<open>The child exits with the value 7 while its parent is ready.\<close>

definition zombied :: kernel where
  "zombied = result_of (internal_exit (calling 4 [7] switched))"

definition zombied_lists :: "headref \<Rightarrow> ptr list" where
  "zombied_lists = forked_lists(ReadyList := [], ZombieList := [p1])"

lemma zombied_wf:
  "internal_exit (calling 4 [7] switched) = Inr zombied" "sched_wf zombied zombied_lists forked_free p0"
  "kernel_frame ((set_status p0 Running (exit_contents p1 p0 {} (calling 4 [7] switched)))\<lparr>running := Some p0\<rparr>)
    zombied"
proof -
  let ?s = "calling 4 [7] switched"
  have L: "(zombie_lists p1 p0 switched_lists)(ReadyList := []) = zombied_lists"
    by (auto simp: zombie_lists_def reparented_def zombied_lists_def switched_lists_def forked_lists_def fun_eq_iff)
  have "\<exists>s'. internal_exit ?s = Inr s' \<and> sched_wf s' zombied_lists forked_free p0 \<and>
      kernel_frame ((set_status p0 Running (exit_contents p1 p0 {} ?s))\<lparr>running := Some p0\<rparr>) s'"
    using exit_ready_wf [OF calling_wf [OF switched_wf(2), of 4 "[7]"], of p0 p0 p0 "[]"]
    by (simp add: children_ok_def awaits_def L)
  then show "internal_exit ?s = Inr zombied" "sched_wf zombied zombied_lists forked_free p0"
    "kernel_frame ((set_status p0 Running (exit_contents p1 p0 {} ?s))\<lparr>running := Some p0\<rparr>) zombied"
    by (auto simp: zombied_def)
qed

section \<open>The parent waits\<close>

definition waited :: kernel where
  "waited = result_of (internal_wait (calling 3 [0, 0] forked))"

definition waited_lists :: "headref \<Rightarrow> ptr list" where
  "waited_lists = forked_lists(WaitingList := [p0], ReadyList := [])"

lemma awaited_single [simp]: "awaited pid s [pp] = pp"
  by (simp add: awaited_def)

lemma waited_wf:
  "internal_wait (calling 3 [0, 0] forked) = Inr waited" "sched_wf waited waited_lists forked_free p1"
  "kernel_frame ((set_status p0 Waiting (calling 3 [0, 0] forked))\<lparr>running := Some p1\<rparr>) waited"
proof -
  let ?s = "calling 3 [0, 0] forked"
  have run: "sched_wf ?s forked_lists forked_free p0" by (rule calling_wf [OF forked_wf(2)])
  have "internal_wait ?s = wait_sleep p0 ?s"
    using wait_cases_wf [OF run] by (simp add: children_ok_def child_def)
  moreover have "\<exists>s'. wait_sleep p0 ?s = Inr s' \<and> sched_wf s' waited_lists forked_free p1 \<and>
      kernel_frame ((set_status p0 Waiting ?s)\<lparr>running := Some p1\<rparr>) s'"
    using wait_sleep_wf [OF run, of p1 "[]"] by (simp add: waited_lists_def)
  ultimately show "internal_wait ?s = Inr waited" "sched_wf waited waited_lists forked_free p1"
    "kernel_frame ((set_status p0 Waiting ?s)\<lparr>running := Some p1\<rparr>) waited"
    by (auto simp: waited_def)
qed

lemma waited_fields [simp]:
  "running waited = Some p1" "init_pcb waited = Some p0" "pcb_pid (pcbs waited p0) = 0"
  "pcb_pid (pcbs waited p1) = 1" "pcb_status (pcbs waited p0) = Waiting" "pcb_parent (pcbs waited p1) = Some p0"
  "pcb_ptrs waited pp0 = Some p1" "pcb_syscall_num (pcbs waited p0) = 3"
  using waited_wf(3)
  by (simp_all add: kernel_frame_def set_status_def upd_pcb_def calling_def enter_syscall_def)

lemma zombied_fields [simp]:
  "running zombied = Some p0" "pcb_pid (pcbs zombied p1) = 1" "pcb_status (pcbs zombied p1) = Zombie"
  "pcb_ptrs zombied pp0 = Some p1" "pcb_return_value (pcbs zombied p1) = 7"
  using zombied_wf(3)
  by (simp_all add: kernel_frame_def exit_contents_def set_status_def send_signal_def upd_pcb_def
      hang_up_children_def calling_arg)

lemma waited_arg: "syscall_arg p0 i waited = syscall_arg p0 i (calling 3 [0, 0] forked)"
  using waited_wf(3) by (simp add: kernel_frame_def set_status_def upd_pcb_def syscall_arg_def)

lemma waited_awaits: "awaits p0 p1 (calling 4 xs waited)"
proof -
  have "syscall_arg p0 0 (calling 4 xs waited) = 0"
    by (simp add: calling_other waited_arg calling_arg)
  moreover have "pcb_syscall_num (pcbs (calling 4 xs waited) p0) = 3" by (simp add: calling_other)
  ultimately show ?thesis by (simp add: awaits_def)
qed

lemma waited_lists_simps [simp]:
  "waited_lists ReadyList = []" "waited_lists TimerList = []" "waited_lists WaitingList = [p0]"
  "waited_lists ZombieList = []" "waited_lists (PcbChildren p0) = [pp0]" "waited_lists (PcbChildren p1) = []"
  "waited_lists (PcbDescriptors p) = []"
  by (simp_all add: waited_lists_def)

lemma waited_self:
  "pid_lookup (calling 4 xs waited) 1 (zombie_lists p1 p0 waited_lists (PcbChildren p0)) = Some pp0"
  by (simp add: pid_lookup_def zombie_lists_def reparented_def child_def)

lemma waited_children:
  "children_ok (calling 4 xs waited) waited_lists p0" "children_ok (calling 4 xs waited) waited_lists p1"
  by (simp_all add: children_ok_def)

lemmas waited_simps = waited_awaits waited_self waited_children

lemma zombied_simps [simp]:
  "zombied_lists (PcbChildren p0) = [pp0]" "zombied_lists ZombieList = [p1]"
  by (simp_all add: zombied_lists_def)

lemma slept_simps [simp]:
  "slept_lists ReadyList = []" "slept_lists (PcbChildren p1) = []" "pcb_parent (pcbs slept p1) = Some p0"
  "pcb_syscall_num (pcbs slept p0) = 6"
  using slept_wf(4)
  by (simp_all add: slept_lists_def kernel_frame_def asleep_contents_def set_status_def upd_pcb_def
      calling_def enter_syscall_def)

end
