(* ===== verification/ContextScenario.thy ===== *)
theory ContextScenario
  imports ContextMachine Scenario
begin

text \<open>
  Concrete runs with contexts: the start of a first process, which makes one call, gets out of its function, or
  computes; with and without a log file.
\<close>

section \<open>After the start\<close>

text \<open>No log file, or one that can be opened.\<close>

definition demo_log :: "bool \<Rightarrow> (kernel \<Rightarrow> bool) option" where
  "demo_log logfile = (if logfile then Some (\<lambda>_. True) else None)"

definition demo_boot :: "bool \<Rightarrow> nat cpu" where
  "demo_boot logfile = result_of (boot_cpu demo_platform 0 0 (demo_log logfile) {})"

definition started_cpu :: "bool \<Rightarrow> nat cpu" where
  "started_cpu logfile = result_of (start_routine (demo_boot logfile))"

lemma demo_boot:
  "boot_cpu demo_platform 0 0 (demo_log logfile) {} = Inr (demo_boot logfile)"
  "start_first_process 0 0 (kern (demo_boot logfile)) = Inr started" "control (demo_boot logfile) = AfterMain"
  "start_f (demo_boot logfile) = 0" "start_args (demo_boot logfile) = 0" "start_logfile (demo_boot logfile) = demo_log logfile"
  "log_file (demo_boot logfile) = None" "sigmask (demo_boot logfile) = {}" "shutdown_now (kern (demo_boot logfile)) = 0"
  "contexts (demo_boot logfile) (CpuState p) = zero_context"
  "uc_place (contexts (demo_boot logfile) MainContext) = AfterMain" "uc_sigmask (contexts (demo_boot logfile) MainContext) = {}"
proof -
  obtain P where P: "init_pools demo_platform reset_kernel = Inr (reset_kernel\<lparr>pools := P\<rparr>)"
    using pools_made_wf [OF demo_platform_ok] by blast
  have "shutdown_now reset_kernel = 0" by (simp add: reset_kernel_def)
  note boot = this P boot_cpu_def demo_boot_def context_defs
  show "boot_cpu demo_platform 0 0 (demo_log logfile) {} = Inr (demo_boot logfile)"
    "control (demo_boot logfile) = AfterMain"
    "start_f (demo_boot logfile) = 0" "start_args (demo_boot logfile) = 0" "start_logfile (demo_boot logfile) = demo_log logfile"
    "log_file (demo_boot logfile) = None" "sigmask (demo_boot logfile) = {}" "shutdown_now (kern (demo_boot logfile)) = 0"
    "contexts (demo_boot logfile) (CpuState p) = zero_context"
    "uc_place (contexts (demo_boot logfile) MainContext) = AfterMain" "uc_sigmask (contexts (demo_boot logfile) MainContext) = {}"
    by (simp_all add: boot init_lists_def)
  show "start_first_process 0 0 (kern (demo_boot logfile)) = Inr started"
    using started_wf(1) by (simp add: boot disastrOS_start_def)
qed

lemma started_cpu:
  "start_routine (demo_boot logfile) = Inr (started_cpu logfile)" "kern (started_cpu logfile) = started"
  "control (started_cpu logfile) = Entry (ProcessRoutine 0 0)" "sigmask (started_cpu logfile) = {}" "sa_mask (started_cpu logfile) = {}"
  "itimer (started_cpu logfile) = Some (INTERVAL * 1000)" "log_file (started_cpu logfile) = None \<longleftrightarrow> \<not> logfile"
  "start_f (started_cpu logfile) = 0" "start_args (started_cpu logfile) = 0"
  "contexts (started_cpu logfile) (CpuState p) = (if p = p0 then new_context p0 0 0 {} else zero_context)"
  "uc_place (contexts (started_cpu logfile) TrapContext) = Entry TrapRoutine"
  "uc_sigmask (contexts (started_cpu logfile) TrapContext) = {SIGALRM}"
  "uc_place (contexts (started_cpu logfile) InterruptContext) = Entry InterruptRoutine"
  "uc_sigmask (contexts (started_cpu logfile) InterruptContext) = {}"
  "start_logfile (started_cpu logfile) = demo_log logfile"
proof -
  let ?c1 = "init_interrupt_context (init_trap_context (demo_boot logfile))"
  have c1: "start_first_process 0 0 (kern ?c1) = Inr started" "sigmask ?c1 = {}" "log_file ?c1 = None"
    "start_logfile ?c1 = demo_log logfile" "start_f ?c1 = 0" "start_args ?c1 = 0"
    by (simp_all add: kernel_contexts_made demo_boot) (simp_all add: context_defs demo_boot)
  define d where "d = makecontext (CpuState p0) (ProcessRoutine 0 0) (init_process_context p0 (?c1\<lparr>kern := started\<rparr>))"
  note d = process_context_made [of p0 0 0 "?c1\<lparr>kern := started\<rparr>", folded d_def]
  have other: "log_file d = None" "start_logfile d = demo_log logfile" "start_f d = 0" "start_args d = 0"
    using c1 by (simp_all add: d_def makecontext_def init_process_context_def getcontext_def save_context_def)
  define e where "e = (setupSignals d)\<lparr>log_file := if logfile then Some (log_line (disastrOS_time started) (-1) ''START'') else None\<rparr>"
  have "open_log (setupSignals d) = Inr e"
    using d other by (cases logfile) (simp_all add: open_log_def setupSignals_def demo_log_def e_def)
  then have "start_routine (demo_boot logfile) = setcontext (CpuState p0) e"
    by (simp add: start_routine_def demo_boot c1(1) Let_def d_def)
  also have "\<dots> = Inr (e\<lparr>control := Entry (ProcessRoutine 0 0), sigmask := {}\<rparr>)"
    using d c1(2) by (simp add: setcontext_def new_context_def e_def)
  finally have run: "start_routine (demo_boot logfile) = Inr (e\<lparr>control := Entry (ProcessRoutine 0 0), sigmask := {}\<rparr>)" .
  then have eq: "started_cpu logfile = e\<lparr>control := Entry (ProcessRoutine 0 0), sigmask := {}\<rparr>"
    by (simp add: started_cpu_def)
  show "start_routine (demo_boot logfile) = Inr (started_cpu logfile)" using run eq by simp
  show "kern (started_cpu logfile) = started" "control (started_cpu logfile) = Entry (ProcessRoutine 0 0)" "sigmask (started_cpu logfile) = {}"
    using d by (simp_all add: eq e_def)
  show "contexts (started_cpu logfile) (CpuState p) = (if p = p0 then new_context p0 0 0 {} else zero_context)"
    "uc_place (contexts (started_cpu logfile) TrapContext) = Entry TrapRoutine"
    "uc_sigmask (contexts (started_cpu logfile) TrapContext) = {SIGALRM}"
    "uc_place (contexts (started_cpu logfile) InterruptContext) = Entry InterruptRoutine"
    "uc_sigmask (contexts (started_cpu logfile) InterruptContext) = {}"
    using d(1) c1(2) by (simp_all add: eq e_def kernel_contexts_made demo_boot)
  show "sa_mask (started_cpu logfile) = {}" "itimer (started_cpu logfile) = Some (INTERVAL * 1000)"
    "log_file (started_cpu logfile) = None \<longleftrightarrow> \<not> logfile" "start_f (started_cpu logfile) = 0" "start_args (started_cpu logfile) = 0"
    "start_logfile (started_cpu logfile) = demo_log logfile"
    using other by (simp_all add: eq e_def setupSignals_def)
qed

section \<open>The first process\<close>

text \<open>The first function begins with \<open>first\<close>; then it computes, as the function with number 1 does.\<close>

definition demo_prog :: "nat action \<Rightarrow> nat program" where
  "demo_prog first u m = (if u = 0 then first else Compute u m)"

definition demo_entry :: "int \<Rightarrow> int \<Rightarrow> nat" where
  "demo_entry f g = nat f"

definition entered :: "bool \<Rightarrow> nat cpu" where
  "entered logfile = (started_cpu logfile)\<lparr>control := InUser 0\<rparr>"

lemma controlled_started: "controlled prog entry (started_cpu logfile)"
proof -
  have "advance prog entry (demo_boot logfile) = Inr (started_cpu logfile)" by (simp add: advance_def demo_boot started_cpu(1))
  moreover have "\<not> about_to_return prog (demo_boot logfile)" "\<not> about_to_add_queue prog (demo_boot logfile)"
    by (simp_all add: about_to_return_def about_to_add_queue_def demo_boot)
  ultimately show ?thesis
    by (rule controlled.step [OF controlled.boot [OF demo_platform_ok demo_boot(1)] orderly_step.go])
qed

lemma controlled_entered: "controlled prog demo_entry (entered logfile)"
proof (rule controlled.step [OF controlled_started [of _ _ logfile] orderly_step.go])
  show "advance prog demo_entry (started_cpu logfile) = Inr (entered logfile)"
    by (simp add: advance_def started_cpu entered_def demo_entry_def)
  show "\<not> about_to_return prog (started_cpu logfile)" "\<not> about_to_add_queue prog (started_cpu logfile)"
    by (simp_all add: about_to_return_def about_to_add_queue_def started_cpu)
qed

text \<open>It makes the call \<open>n\<close>, with the arguments \<open>xs\<close>.\<close>

abbreviation calls :: "int \<Rightarrow> int list \<Rightarrow> nat program" where
  "calls n xs \<equiv> demo_prog (Syscall n (args_of xs) (\<lambda>_. 2))"

definition called :: "int \<Rightarrow> int list \<Rightarrow> bool \<Rightarrow> nat cpu" where
  "called n xs logfile = result_of (syscall_entry n (args_of xs) (\<lambda>_. 2) (entered logfile))"

lemma called:
  fixes logfile
  assumes n: "0 \<le> n" "n < DSOS_MAX_SYSCALLS" "syscall_numarg n = length xs"
  defines "c \<equiv> called n xs logfile"
  shows "syscall_entry n (args_of xs) (\<lambda>_. 2) (entered logfile) = Inr c" "kern c = calling n xs started"
    "control c = Entry TrapRoutine" "log_file c = None \<longleftrightarrow> \<not> logfile" "start_f c = 0" "start_args c = 0"
    "itimer c = Some (INTERVAL * 1000)" "sa_mask c = {}"
    "contexts c = (contexts (started_cpu logfile))(CpuState p0 := (new_context p0 0 0 {})\<lparr>uc_place := SyscallReturn (\<lambda>_. 2)\<rparr>)"
proof -
  have "syscall_entry n (args_of xs) (\<lambda>_. 2) (entered logfile) =
      swapcontext (CpuState p0) (SyscallReturn (\<lambda>_. 2)) TrapContext ((entered logfile)\<lparr>kern := calling n xs started\<rparr>)"
    using n by (simp add: syscall_entry_def entered_def started_cpu syscall_in_range_def table_entry_def calling_def)
  also have "\<dots> = Inr (upd_context (CpuState p0) (\<lambda>_. (new_context p0 0 0 {})\<lparr>uc_place := SyscallReturn (\<lambda>_. 2)\<rparr>) (entered logfile)
      \<lparr>kern := calling n xs started, control := Entry TrapRoutine, sigmask := {SIGALRM}\<rparr>)"
    by (simp add: swapcontext_def save_context_def setcontext_def entered_def started_cpu new_context_def upd_context_def)
  finally have "syscall_entry n (args_of xs) (\<lambda>_. 2) (entered logfile) =
      Inr (upd_context (CpuState p0) (\<lambda>_. (new_context p0 0 0 {})\<lparr>uc_place := SyscallReturn (\<lambda>_. 2)\<rparr>) (entered logfile)
        \<lparr>kern := calling n xs started, control := Entry TrapRoutine, sigmask := {SIGALRM}\<rparr>)" .
  then show "syscall_entry n (args_of xs) (\<lambda>_. 2) (entered logfile) = Inr c" "kern c = calling n xs started"
    "control c = Entry TrapRoutine" "log_file c = None \<longleftrightarrow> \<not> logfile" "start_f c = 0" "start_args c = 0"
    "itimer c = Some (INTERVAL * 1000)" "sa_mask c = {}"
    "contexts c = (contexts (started_cpu logfile))(CpuState p0 := (new_context p0 0 0 {})\<lparr>uc_place := SyscallReturn (\<lambda>_. 2)\<rparr>)"
    by (simp_all add: c_def called_def entered_def started_cpu upd_context_def)
qed

lemma controlled_called:
  assumes n: "0 \<le> n" "n < DSOS_MAX_SYSCALLS" "syscall_numarg n = length xs" "n \<noteq> DSOS_CALL_MQOPEN"
  shows "controlled (calls n xs) demo_entry (called n xs logfile)"
proof (rule controlled.step [OF controlled_entered [of _ logfile] orderly_step.go])
  have ctl: "control (entered logfile) = InUser 0" by (simp add: entered_def)
  show "advance (calls n xs) demo_entry (entered logfile) = Inr (called n xs logfile)"
    using called(1) [OF n(1-3)] by (simp add: advance_def ctl user_step_def demo_prog_def)
  show "\<not> about_to_return (calls n xs) (entered logfile)" "\<not> about_to_add_queue (calls n xs) (entered logfile)"
    using n(4) by (simp_all add: about_to_return_def about_to_add_queue_def ctl demo_prog_def)
qed

section \<open>It spawns a child\<close>

abbreviation spawns :: "nat program" where "spawns \<equiv> calls 5 [1, 7]"

definition spawned_cpu :: "nat cpu" where
  "spawned_cpu = result_of (trap_routine (called 5 [1, 7] False))"

lemma spawn_made:
  obtains s1 where "make_child (calling 5 [1, 7] started) = Inr (Some p1, s1)" "running s1 = Some p0"
    "sched_wf s1 forked_lists forked_free p0" "kernel_frame (child_contents p0 p1 pp0 (calling 5 [1, 7] started)) s1"
proof -
  have "int32_range (last_pid (calling 5 [1, 7] started) + 1)" by (simp add: int32_range_def)
  moreover have "child_lists p0 p1 pp0 no_lists = forked_lists"
    by (auto simp: child_lists_def new_pcb_lists_def forked_lists_def)
  ultimately obtain s1 where "make_child (calling 5 [1, 7] started) = Inr (Some p1, s1)" "sched_wf s1 forked_lists forked_free p0"
    "kernel_frame (child_contents p0 p1 pp0 (calling 5 [1, 7] started)) s1"
    using make_child_wf [OF calling_wf [OF started_wf(2), of 5 "[1, 7]"], of 1 "[2..1023]" 0 "[1..1023]"]
    by (auto simp: forked_free_def)
  then show ?thesis using that sched_wfD(2) by blast
qed

lemma log_action_none [simp]: "log_file c = None \<Longrightarrow> log_action a c = Inr c"
  by (simp add: log_action_def)

lemma spawned_cpu:
  "trap_routine (called 5 [1, 7] False) = Inr spawned_cpu" "control spawned_cpu = SyscallReturn (\<lambda>_. 2)"
  "sigmask spawned_cpu = {}" "itimer spawned_cpu = Some (INTERVAL * 1000)" "sa_mask spawned_cpu = {}" "log_file spawned_cpu = None"
  "contexts spawned_cpu (CpuState p1) = new_context p1 1 7 {}"
  "uc_place (contexts spawned_cpu InterruptContext) = Entry InterruptRoutine" "uc_sigmask (contexts spawned_cpu InterruptContext) = {}"
  "running (kern spawned_cpu) = Some p0" "disastrOS_time (kern spawned_cpu) = 0"
  "represents (kern spawned_cpu) forked_lists"
proof -
  obtain s1 where s1: "make_child (calling 5 [1, 7] started) = Inr (Some p1, s1)" "running s1 = Some p0"
    "sched_wf s1 forked_lists forked_free p0" "kernel_frame (child_contents p0 p1 pp0 (calling 5 [1, 7] started)) s1"
    by (rule spawn_made)
  note c = called [of 5 "[1, 7]" False]
  have n: "running (calling 5 [1, 7] started) = Some p0" "pcb_syscall_num (pcbs (calling 5 [1, 7] started) p0) = 5"
    by (simp_all add: calling_def enter_syscall_def upd_pcb_def)
  have arg: "syscall_arg p0 i s1 = [1, 7] ! i" if "i < 2" for i
    using s1(4) that
    by (simp add: syscall_arg_def kernel_frame_def child_contents_def calling_def enter_syscall_def args_of_def upd_defs)
  define d where "d = (called 5 [1, 7] False)\<lparr>kern := upd_pcb p1 (\<lambda>x. x\<lparr>pcb_cpu_entry := Some (1, 7)\<rparr>) s1,
    contexts := (contexts (called 5 [1, 7] False))(CpuState p1 := new_context p1 1 7 {})\<rparr>"
  have "spawn_handler (called 5 [1, 7] False) = Inr d"
    using s1(1,2) c(2) arg [of 0] arg [of 1]
    by (simp add: spawn_handler_def syscall_numarg_def Let_def context_defs d_def upd_context_def)
  moreover have run: "running (kern d) = Some p0" "log_file d = None"
    using s1(2) c(4) by (simp_all add: d_def upd_pcb_def syscall_numarg_def)
  have cd: "contexts d = (contexts (called 5 [1, 7] False))(CpuState p1 := new_context p1 1 7 {})" by (simp add: d_def)
  have "return_to_process 5 d = Inr (d\<lparr>control := SyscallReturn (\<lambda>_. 2), sigmask := {}\<rparr>)"
    using run by (simp add: return_to_process_def setcontext_def cd c(9) syscall_numarg_def new_context_def)
  ultimately have t: "trap_routine (called 5 [1, 7] False) = Inr (d\<lparr>control := SyscallReturn (\<lambda>_. 2), sigmask := {}\<rparr>)"
    using n c(2,4) by (simp add: trap_routine_def syscall_numarg_def syscall_in_range_def table_entry_def syscall_vector_def)
  then have eq: "spawned_cpu = d\<lparr>control := SyscallReturn (\<lambda>_. 2), sigmask := {}\<rparr>" by (simp add: spawned_cpu_def)
  show "trap_routine (called 5 [1, 7] False) = Inr spawned_cpu" "control spawned_cpu = SyscallReturn (\<lambda>_. 2)"
    "sigmask spawned_cpu = {}" "running (kern spawned_cpu) = Some p0" "log_file spawned_cpu = None"
    "contexts spawned_cpu (CpuState p1) = new_context p1 1 7 {}"
    using t run by (simp_all add: eq cd)
  show "itimer spawned_cpu = Some (INTERVAL * 1000)" "sa_mask spawned_cpu = {}"
    "uc_place (contexts spawned_cpu InterruptContext) = Entry InterruptRoutine" "uc_sigmask (contexts spawned_cpu InterruptContext) = {}"
    using c by (simp_all add: eq d_def syscall_numarg_def started_cpu)
  show "disastrOS_time (kern spawned_cpu) = 0"
    using s1(4) by (simp add: eq d_def upd_pcb_def kernel_frame_def child_contents_def upd_defs)
  show "represents (kern spawned_cpu) forked_lists"
    using kernel_wf_represents [OF sched_wfD(1) [OF s1(3)]] by (simp add: represents_def eq d_def upd_pcb_def)
qed

lemma controlled_spawned: "controlled spawns demo_entry spawned_cpu"
proof (rule controlled.step [OF controlled_called orderly_step.go])
  have ctl: "control (called 5 [1, 7] False) = Entry TrapRoutine" by (rule called) (simp_all add: syscall_numarg_def)
  then show "advance spawns demo_entry (called 5 [1, 7] False) = Inr spawned_cpu" by (simp add: advance_def spawned_cpu(1))
  show "\<not> about_to_return spawns (called 5 [1, 7] False)" "\<not> about_to_add_queue spawns (called 5 [1, 7] False)"
    by (simp_all add: about_to_return_def about_to_add_queue_def ctl)
qed (simp_all add: syscall_numarg_def)

section \<open>The clock ticks\<close>

definition ticked_cpu :: "nat cpu" where
  "ticked_cpu = result_of (timerHandler spawned_cpu)"

lemma spawned_alarm: "alarm_enabled spawned_cpu"
  by (simp add: alarm_enabled_def spawned_cpu)

lemma ticked_cpu:
  "timerHandler spawned_cpu = Inr ticked_cpu" "control ticked_cpu = Entry InterruptRoutine" "kern ticked_cpu = kern spawned_cpu"
  "log_file ticked_cpu = None" "contexts ticked_cpu (CpuState p1) = new_context p1 1 7 {}"
proof -
  have "timerHandler spawned_cpu = Inr (upd_context (CpuState p0)
      (\<lambda>u. u\<lparr>uc_place := HandlerReturn (SyscallReturn (\<lambda>_. 2)) {}, uc_sigmask := {SIGALRM}\<rparr>) spawned_cpu
      \<lparr>control := Entry InterruptRoutine, sigmask := {}\<rparr>)" (is "_ = Inr ?c")
    by (simp add: timerHandler_def swapcontext_def save_context_def setcontext_def spawned_cpu upd_context_def)
  then show "timerHandler spawned_cpu = Inr ticked_cpu" "control ticked_cpu = Entry InterruptRoutine" "kern ticked_cpu = kern spawned_cpu"
    "log_file ticked_cpu = None" "contexts ticked_cpu (CpuState p1) = new_context p1 1 7 {}"
    by (simp_all add: ticked_cpu_def spawned_cpu)
qed

end
