(* ===== verification/ContextClaims.thy ===== *)
theory ContextClaims
  imports ContextScenario
begin

text \<open>
  What the switch of contexts gives, from the start on, for every program: process code only ever runs in
  states the machine can reach, system calls are not interrupted, a process that is suspended goes on
  where it was; and what happens at the ends: the last process sleeps, one returns, one shuts down, or the
  clock ticks again during an interrupt.
\<close>

section \<open>From the start\<close>

text \<open>What the machine makes of the state before its start.\<close>

inductive booted :: "kernel \<Rightarrow> bool" where
  "platform_ok pf \<Longrightarrow> init_pools pf reset_kernel = Inr s \<Longrightarrow> booted (init_lists (s\<lparr>init_pcb := None, running := None\<rparr>))"

lemma booted_step:
  assumes "booted s" and "machine_step s s'"
  shows "reachable s'"
  using assms(1)
proof cases
  case (1 pf t)
  have "running s = None" by (simp add: 1(1) init_lists_def)
  then obtain f g where "start_first_process f g s = Inr s'" using idle_step [OF assms(2)] by blast
  then have "disastrOS_start pf f g reset_kernel = Inr s'" using 1 by (simp add: disastrOS_start_def)
  then show ?thesis by (rule reachable.start [OF 1(2)])
qed

lemma booted_steps:
  assumes "machine_step\<^sup>*\<^sup>* s s'" and "booted s \<or> reachable s"
  shows "booted s' \<or> reachable s'"
  using assms by (induction rule: rtranclp_induct) (use booted_step reachable.step in blast)+

lemma boot_stands_for:
  assumes "platform_ok pf" and "boot_cpu pf f g logfile m = Inr c"
  shows "booted (kern c)" "stands_for c (kern c)"
proof -
  obtain s where s: "init_pools pf reset_kernel = Inr s" and c: "c = getcontext MainContext
       \<lparr>kern = init_lists (s\<lparr>init_pcb := None, running := None\<rparr>), contexts = (\<lambda>_. zero_context), control = AfterMain,
        sigmask = m, sa_mask = {}, signal_set = {}, itimer = None, log_file = None, start_f = f, start_args = g,
        start_logfile = logfile\<rparr>"
    using assms(2) by (auto simp: boot_cpu_def andThen_eq_Inr)
  show "booted (kern c)" using booted.intros [OF assms(1) s] by (simp add: c context_defs)
  show "stands_for c (kern c)"
    by (simp add: c context_defs stands_for_def contexts_ok_def zero_context_def init_lists_def)
qed

lemma controlled_stands_for:
  assumes "controlled prog entry c"
  shows "\<exists>s. stands_for c s \<and> (booted s \<or> reachable s)"
  using assms
proof (induction rule: controlled.induct)
  case (boot pf f g logfile m c)
  then show ?case using boot_stands_for by blast
next
  case (step c c')
  then obtain s where s: "stands_for c s" "booted s \<or> reachable s" by blast
  obtain s' where "machine_step\<^sup>*\<^sup>* s s'" "stands_for c' s'" using control.simulates [OF s(1) step.hyps(2)] by blast
  then show ?case using booted_steps s(2) by blast
qed

lemma booted_rests: "booted s \<Longrightarrow> running s = None"
  by (auto elim!: booted.cases simp: init_lists_def)

lemma controlled_process:
  assumes "controlled prog entry c" and "process_place (control c) \<or> control c = Entry InterruptRoutine"
  shows "reachable (kern c)" "returns_to_main c (kern c)" "contexts_ok c"
proof -
  obtain s where s: "stands_for c s" "booted s \<or> reachable s" using controlled_stands_for [OF assms(1)] by blast
  have ne: "control c \<noteq> Entry TrapRoutine" using assms(2) by auto
  then have k: "kern c = s" "returns_to_main c s" using stands_forD(4-6) [OF s(1)] assms(2) by auto
  then show "reachable (kern c)" "returns_to_main c (kern c)" "contexts_ok c"
    using s(2) booted_rests [of s] returning_runs [OF k(2)] stands_forD(1) [OF s(1)] by blast+
qed

text \<open>The same in a trap: the kernel is the one of a reachable state, with the call stored.\<close>

lemma in_trap_kernel:
  assumes "in_trap c s"
  obtains n xs r where "running s = Some r" "kind_of r = KPCB" "kern c = calling n xs s" "running (kern c) = Some r"
    "pcb_syscall_num (pcbs (kern c) r) = n"
proof -
  obtain n args r where r: "running s = Some r" "kind_of r = KPCB" "kern c = enter_syscall n args (syscall_numarg n) r s"
    using assms by (auto simp: in_trap_def)
  have "kern c = calling n (map args [0..<syscall_numarg n]) s"
    unfolding r(3) by (simp add: calling_def r(1) enter_syscall_def args_of_def cong: if_cong)
  moreover have "running (kern c) = Some r" "pcb_syscall_num (pcbs (kern c) r) = n"
    by (simp_all add: r(1,3) enter_syscall_def upd_pcb_def)
  ultimately show ?thesis using that r(1,2) by blast
qed

lemma controlled_trap:
  assumes "controlled prog entry c" and "control c = Entry TrapRoutine"
  obtains s n xs r L F where "reachable s" "kern c = calling n xs s" "machine_inv (kern c) L F r" "SIGALRM \<in> sigmask c" "contexts_ok c"
    "pcb_syscall_num (pcbs (kern c) r) = n"
proof -
  obtain s where s: "stands_for c s" "booted s \<or> reachable s" using controlled_stands_for [OF assms(1)] by blast
  have t: "in_trap c s" by (rule stands_forD(3) [OF s(1) assms(2)])
  obtain n xs r where r: "running s = Some r" "kern c = calling n xs s" "running (kern c) = Some r" "pcb_syscall_num (pcbs (kern c) r) = n"
    using in_trap_kernel [OF t] by blast
  have R: "reachable s" using s(2) booted_rests [of s] r(1) by auto
  obtain L F where "machine_inv s L F r" by (rule reachable_inv [OF R r(1)])
  then have "machine_inv (kern c) L F r" unfolding r(2) by (rule inv_calling)
  then show ?thesis using that R r(2,4) t stands_forD(1) [OF s(1)] by (auto simp: in_trap_def)
qed

lemma controlled_trap_reaches:
  assumes "controlled prog entry c" and "control c = Entry TrapRoutine" and "disastrOS_trap (kern c) = Inr s"
  shows "reachable s"
proof -
  obtain s0 where s0: "stands_for c s0" "booted s0 \<or> reachable s0" using controlled_stands_for [OF assms(1)] by blast
  have t: "in_trap c s0" by (rule stands_forD(3) [OF s0(1) assms(2)])
  have "reachable s0" using s0(2) booted_rests t by (auto simp: in_trap_def)
  then show ?thesis using reachable.step in_trap_step [OF t assms(3)] by blast
qed

section \<open>Process code runs in reachable states\<close>

text \<open>C3: In an orderly run from the start, whenever control is in the code of a process, or on its way back into it
  from a system call or the signal handler, the kernel is in a state that the transition system can reach,
  and a process runs in it: the contexts of the processes, of the trap and of the interrupt implement the
  machine. Orderly means three things: no process returns from its function, none makes a call that opens a
  second message queue, and the clock does not tick in the interrupt or the start. For the rest the
  processes are arbitrary.\<close>

theorem contexts_refine_machine:
  assumes "controlled prog entry c" and "process_place (control c)"
  shows "reachable (kern c) \<and> running (kern c) \<noteq> None"
  using controlled_process [OF assms(1)] assms(2) returning_runs by blast

theorem contexts_refine_machine_witness:
  "reachable (kern spawned_cpu) \<and> running (kern spawned_cpu) \<noteq> None"
  using contexts_refine_machine [OF controlled_spawned] by (simp add: spawned_cpu)

section \<open>System calls are not interrupted\<close>

text \<open>Places and contexts of any run, also of one that is not orderly: none is within a trap.\<close>

fun outside_trap :: "'u place \<Rightarrow> bool" where
  "outside_trap (Entry TrapRoutine) = False"
| "outside_trap (HandlerReturn pl m) = outside_trap pl"
| "outside_trap pl = True"

definition main_link :: "'u ucontext \<Rightarrow> bool" where
  "main_link u \<longleftrightarrow> uc_link u = None \<or> uc_link u = Some MainContext"

lemma outside_new_context [simp]: "outside_trap (uc_place (new_context p f g m))"
  by (simp add: new_context_def)

lemma main_link_simps [simp]: "main_link (new_context p f g m)" "main_link (u\<lparr>uc_place := pl, uc_sigmask := m\<rparr>)= main_link u"
  by (simp_all add: main_link_def new_context_def)

definition trap_blocked :: "'u cpu \<Rightarrow> bool" where
  "trap_blocked c \<longleftrightarrow>
     (\<forall>n. n \<noteq> TrapContext \<longrightarrow> outside_trap (uc_place (contexts c n))) \<and>
     (uc_place (contexts c TrapContext) = Entry TrapRoutine \<and> uc_sigmask (contexts c TrapContext) = {SIGALRM} \<or>
       uc_place (contexts c TrapContext) = Uninitialised) \<and>
     (\<forall>n. main_link (contexts c n)) \<and>
     (control c = Entry TrapRoutine \<and> SIGALRM \<in> sigmask c \<or> outside_trap (control c))"

lemma trap_blocked_setcontext:
  assumes "setcontext n c = Inr c'" and "trap_blocked c"
  shows "trap_blocked c'"
  using assms by (cases "n = TrapContext") (auto simp: setcontext_eq_Inr trap_blocked_def)

lemma trap_blocked_save:
  assumes "trap_blocked c" and "outside_trap pl"
  shows "trap_blocked (save_context (CpuState p) pl c)"
  using assms by (auto simp: save_context_def trap_blocked_def)

lemma trap_blocked_cong:
  assumes "trap_blocked c" and "contexts c' = contexts c" and "control c' = control c" and "sigmask c' = sigmask c"
  shows "trap_blocked c'"
  using assms by (simp add: trap_blocked_def)

lemma trap_blocked_place:
  assumes "trap_blocked c" and "contexts c' = contexts c" and "outside_trap (control c')"
  shows "trap_blocked c'"
  using assms by (simp add: trap_blocked_def)

lemma trap_blocked_return:
  assumes "return_from_context n c = Inr c'" and "trap_blocked c"
  shows "trap_blocked c'"
  using assms trap_blocked_setcontext trap_blocked_place [of c c'] by (auto simp: return_from_context_def split: option.splits)

lemma trap_blocked_new:
  assumes "trap_blocked c" and "contexts c' = (contexts c)(CpuState p := new_context p f g m)"
    and "control c' = control c" and "sigmask c' = sigmask c"
  shows "trap_blocked c'"
  using assms by (auto simp: trap_blocked_def)

lemma trap_blocked_trap:
  assumes t: "trap_routine c = Inr c'" and ok: "trap_blocked c"
  shows "trap_blocked c'"
proof -
  obtain r where r: "running (kern c) = Some r" "kind_of r = KPCB" using t by (auto simp: trap_routine_def andThen_eq_Inr deref_Inr)
  note ti = trap_routine_Inr [OF t r]
  have new: "contexts c' = contexts c \<or> (\<exists>n f g. contexts c' = (contexts c)(CpuState n := new_context n f g {}))" using ti by blast
  then have same: "contexts c' TrapContext = contexts c TrapContext" "contexts c' MainContext = contexts c MainContext" by auto
  have places: "\<forall>n. n \<noteq> TrapContext \<longrightarrow> outside_trap (uc_place (contexts c' n))"
    and links: "main_link (contexts c' n)" for n
    using new ok by (auto simp: trap_blocked_def)
  have "outside_trap (control c')"
  proof (cases "pcb_syscall_num (pcbs (kern c) r) = DSOS_CALL_SHUTDOWN")
    case True
    then show ?thesis using ti places by simp
  next
    case False
    then show ?thesis
      using ti places links [of TrapContext] by (cases "running (kern c')") (auto simp: main_link_def)
  qed
  then show ?thesis using ok places links same by (simp add: trap_blocked_def)
qed

lemma trap_blocked_interrupt:
  assumes "interrupt_routine c = Inr c'" and ok: "trap_blocked c"
  shows "trap_blocked c'"
proof -
  obtain s r x where "c' = c\<lparr>kern := s, log_file := x, control := uc_place (contexts c (CpuState r)),
      sigmask := uc_sigmask (contexts c (CpuState r))\<rparr>"
    using interrupt_routine_Inr [OF assms(1)] by metis
  then show ?thesis using ok by (intro trap_blocked_place [OF ok]) (auto simp: trap_blocked_def)
qed

lemma trap_blocked_handler:
  assumes t: "timerHandler c = Inr c'" and ok: "trap_blocked c" and on: "alarm_enabled c"
  shows "trap_blocked c'"
proof -
  have out: "outside_trap (HandlerReturn (control c) (sigmask c))" using ok on by (auto simp: trap_blocked_def alarm_enabled_def)
  define d where "d = c\<lparr>sigmask := insert SIGALRM (sigmask c \<union> sa_mask c)\<rparr>"
  have "trap_blocked d" using ok by (auto simp: trap_blocked_def d_def)
  then show ?thesis
    using t trap_blocked_setcontext [OF _ trap_blocked_save [OF _ out]]
    by (auto simp: timerHandler_def andThen_eq_Inr swapcontext_def d_def)
qed

lemma trap_blocked_call:
  assumes t: "syscall_entry n args k c = Inr c'" and ok: "trap_blocked c"
  shows "trap_blocked c'"
proof (cases "syscall_in_range n")
  case False
  then show ?thesis using t by (intro trap_blocked_place [OF ok]) (auto simp: syscall_entry_def split: if_splits)
next
  case True
  then obtain r s where swap: "swapcontext (CpuState r) (SyscallReturn k) TrapContext (c\<lparr>kern := s\<rparr>) = Inr c'"
    using t by (auto simp: syscall_entry_def andThen_eq_Inr split: if_splits)
  have "trap_blocked (save_context (CpuState r) (SyscallReturn k) (c\<lparr>kern := s\<rparr>))"
    using trap_blocked_cong [OF ok] by (intro trap_blocked_save) simp_all
  then show ?thesis using swap trap_blocked_setcontext by (auto simp: swapcontext_def)
qed

lemma trap_blocked_start:
  assumes t: "start_routine c = Inr c'" and ok: "trap_blocked c" and ctl: "control c = AfterMain"
  shows "trap_blocked c'"
proof (cases "shutdown_now (kern c) \<noteq> 0")
  case True
  then show ?thesis using t by (intro trap_blocked_place [OF ok]) (auto simp: start_routine_def)
next
  case False
  let ?c1 = "init_interrupt_context (init_trap_context c)"
  obtain s p x where p: "setcontext (CpuState p) ((setupSignals (makecontext (CpuState p) (ProcessRoutine (start_f c) (start_args c))
       (init_process_context p (?c1\<lparr>kern := s\<rparr>))))\<lparr>log_file := x\<rparr>) = Inr c'"
    by (rule start_routine_Inr [OF t]) (use False in auto)
  have was: "outside_trap (uc_place (contexts c MainContext))" "outside_trap (uc_place (contexts c (CpuState q)))"
    "main_link (contexts c n)" for n q
    using ok unfolding trap_blocked_def by blast+
  have out: "outside_trap (uc_place (contexts ?c1 n))" if "n \<noteq> TrapContext" for n
    using that was(1,2) by (cases n) (simp_all add: kernel_contexts_made)
  have link: "main_link (contexts ?c1 n)" for n
    using was(3) [of n] by (cases n) (simp_all add: kernel_contexts_made main_link_def)
  have one: "trap_blocked (?c1\<lparr>kern := s\<rparr>)"
    using out link ctl unfolding trap_blocked_def by (simp add: kernel_contexts_made)
  note made = process_context_made [of p "start_f c" "start_args c" "?c1\<lparr>kern := s\<rparr>"]
  have "trap_blocked (makecontext (CpuState p) (ProcessRoutine (start_f c) (start_args c)) (init_process_context p (?c1\<lparr>kern := s\<rparr>)))"
    by (rule trap_blocked_new [OF one made(1,3,4)])
  then show ?thesis by (rule trap_blocked_setcontext [OF p trap_blocked_cong]) simp_all
qed

lemma trap_blocked_step:
  assumes "cpu_step prog entry c c'" and ok: "trap_blocked c"
  shows "trap_blocked c'"
  using assms(1)
proof (cases rule: cpu_step.cases)
  case tick
  then show ?thesis using trap_blocked_handler ok by blast
next
  case go
  show ?thesis
  proof (cases "control c")
    case (Entry f)
    then show ?thesis
      using go ok trap_blocked_trap trap_blocked_interrupt trap_blocked_place [OF ok, of c']
      by (cases f) (auto simp: advance_def)
  next
    case AfterMain
    then show ?thesis using go ok trap_blocked_start by (auto simp: advance_def)
  next
    case (InUser u)
    then show ?thesis
      using go ok trap_blocked_call trap_blocked_return trap_blocked_place [OF ok, of c']
      by (auto simp: advance_def user_step_def andThen_eq_Inr split: action.splits)
  next
    case (HandlerReturn pl m)
    then have "outside_trap pl" using ok by (simp add: trap_blocked_def)
    then show ?thesis using go HandlerReturn by (intro trap_blocked_place [OF ok]) (auto simp: advance_def)
  qed (use go trap_blocked_place [OF ok, of c'] ok in \<open>auto simp: advance_def syscall_return_def andThen_eq_Inr\<close>)
qed

lemma trap_blocked_boot:
  assumes "boot_cpu pf f g logfile m = Inr c"
  shows "trap_blocked c"
  using assms by (auto simp: boot_cpu_def andThen_eq_Inr trap_blocked_def context_defs zero_context_def main_link_def)

text \<open>C6: In any run from the start, orderly or not, the signal of the clock is not delivered while a system
  call is served: the trap context blocks it, and no other context and no saved place is within the
  trap, so an interrupt never finds the kernel lists half changed by a call.\<close>

theorem system_calls_uninterrupted:
  assumes "boot_cpu pf f g logfile m = Inr c0" and "(cpu_step prog entry)\<^sup>*\<^sup>* c0 c" and "control c = Entry TrapRoutine"
  shows "\<not> alarm_enabled c"
proof -
  from assms(2) have "trap_blocked c"
    by (induction rule: rtranclp_induct) (use trap_blocked_boot [OF assms(1)] trap_blocked_step in blast)+
  then show ?thesis using assms(3) by (auto simp: trap_blocked_def alarm_enabled_def)
qed

theorem system_calls_uninterrupted_witness:
  "(cpu_step spawns demo_entry)\<^sup>*\<^sup>* (demo_boot False) (called 5 [1, 7] False) \<and> \<not> alarm_enabled (called 5 [1, 7] False)"
proof -
  have "cpu_step spawns demo_entry (demo_boot False) (started_cpu False)"
    by (rule cpu_step.go) (simp add: advance_def demo_boot started_cpu(1))
  moreover have "cpu_step spawns demo_entry (started_cpu False) (entered False)"
    by (rule cpu_step.go) (simp add: advance_def started_cpu entered_def demo_entry_def)
  moreover have "cpu_step spawns demo_entry (entered False) (called 5 [1, 7] False)"
    using called(1) [of 5 "[1, 7]" False]
    by (intro cpu_step.go) (simp add: advance_def entered_def user_step_def demo_prog_def syscall_numarg_def)
  ultimately have run: "(cpu_step spawns demo_entry)\<^sup>*\<^sup>* (demo_boot False) (called 5 [1, 7] False)"
    by (meson rtranclp.rtrancl_into_rtrancl rtranclp.rtrancl_refl)
  have "control (called 5 [1, 7] False) = Entry TrapRoutine" by (rule called) (simp_all add: syscall_numarg_def)
  from system_calls_uninterrupted [OF demo_boot(1) run this] run show ?thesis by simp
qed

section \<open>A process that is suspended goes on where it was\<close>

text \<open>A process is in the list of those that are ready, or of those that wait.\<close>

definition suspended :: "ptr \<Rightarrow> 'u cpu \<Rightarrow> bool" where
  "suspended p c \<longleftrightarrow> (\<exists>L. represents (kern c) L \<and> p \<in> set (L ReadyList) \<union> set (L WaitingList))"

definition suspended_step :: "'u program \<Rightarrow> (int \<Rightarrow> int \<Rightarrow> 'u) \<Rightarrow> ptr \<Rightarrow> 'u cpu \<Rightarrow> 'u cpu \<Rightarrow> bool" where
  "suspended_step prog entry p c c' \<longleftrightarrow> suspended p c \<and> orderly_step prog entry c c'"

text \<open>Control is where the context of the process says.\<close>

definition resumed :: "ptr \<Rightarrow> 'u cpu \<Rightarrow> bool" where
  "resumed p c \<longleftrightarrow> control c = uc_place (contexts c (CpuState p)) \<and> sigmask c = uc_sigmask (contexts c (CpuState p))"

lemma make_child_alloc: "make_child s = Inr (Some n, s1) \<Longrightarrow> \<exists>x. PCB_alloc s = Inr (Some n, x)"
  by (auto simp: make_child_def andThen_eq_Inr Let_def split: option.splits if_splits)

lemma first_process_alloc:
  "start_first_process f g s = Inr s' \<Longrightarrow> \<exists>n x. PCB_alloc s = Inr (Some n, x) \<and> running s' = Some n"
  by (auto simp: start_first_process_def andThen_eq_Inr deref_Inr Let_def set_status_def upd_pcb_def)

text \<open>A step writes the context of the process that runs, or of one that is made.\<close>

lemma start_keeps_context:
  assumes t: "start_routine c = Inr c'" and new: "\<And>n x. PCB_alloc (kern c) = Inr (Some n, x) \<Longrightarrow> n \<noteq> p"
    and other: "running (kern c) \<noteq> Some p"
  shows "contexts c' (CpuState p) = contexts c (CpuState p)" "running (kern c') \<noteq> Some p"
proof -
  have "contexts c' (CpuState p) = contexts c (CpuState p) \<and> running (kern c') \<noteq> Some p"
  proof (cases "shutdown_now (kern c) \<noteq> 0")
    case True
    then have "c' = c\<lparr>control := Exited\<rparr>" using t by (simp add: start_routine_def)
    then show ?thesis using other by simp
  next
    case False
    let ?c1 = "init_interrupt_context (init_trap_context c)"
    obtain s n x where n: "start_first_process (start_f c) (start_args c) (kern c) = Inr s" "running s = Some n"
      "setcontext (CpuState n) ((setupSignals (makecontext (CpuState n) (ProcessRoutine (start_f c) (start_args c))
         (init_process_context n (?c1\<lparr>kern := s\<rparr>))))\<lparr>log_file := x\<rparr>) = Inr c'"
      by (rule start_routine_Inr [OF t]) (use False in auto)
    note made = process_context_made [of n "start_f c" "start_args c" "?c1\<lparr>kern := s\<rparr>"]
    have "n \<noteq> p" using first_process_alloc [OF n(1)] new n(2) by auto
    then show ?thesis
      using n(2,3) made by (auto simp: setcontext_eq_Inr kernel_contexts_made)
  qed
  then show "contexts c' (CpuState p) = contexts c (CpuState p)" "running (kern c') \<noteq> Some p" by blast+
qed

lemma trap_keeps_context:
  assumes t: "trap_routine c = Inr c'" and new: "\<And>n x. PCB_alloc (kern c) = Inr (Some n, x) \<Longrightarrow> n \<noteq> p"
    and other: "running (kern c) \<noteq> Some p"
  shows "contexts c' (CpuState p) = contexts c (CpuState p)" "running (kern c') = Some p \<longrightarrow> resumed p c'"
proof -
  obtain r where r: "running (kern c) = Some r" "kind_of r = KPCB" using t by (auto simp: trap_routine_def andThen_eq_Inr deref_Inr)
  note ti = trap_routine_Inr [OF t r]
  have "n \<noteq> p" if "make_child (kern c) = Inr (Some n, s1)" for n s1 using make_child_alloc [OF that] new by blast
  then show "contexts c' (CpuState p) = contexts c (CpuState p)" using ti by auto
  show "running (kern c') = Some p \<longrightarrow> resumed p c'"
    using ti other by (auto simp: resumed_def internal_shutdown_def split: if_splits)
qed

lemma call_keeps_context:
  assumes "syscall_entry n args k c = Inr c'" and "running (kern c) \<noteq> Some p"
  shows "contexts c' (CpuState p) = contexts c (CpuState p)" "running (kern c') = running (kern c)"
  using assms
  by (auto simp: syscall_entry_def andThen_eq_Inr deref_Inr swapcontext_def save_context_def setcontext_eq_Inr enter_syscall_def
      upd_pcb_def split: if_splits)

lemma return_keeps_context:
  assumes "return_from_context n c = Inr c'"
  shows "contexts c' = contexts c" "kern c' = kern c"
  using assms by (auto simp: return_from_context_def setcontext_eq_Inr split: option.splits)

lemma step_keeps_context:
  assumes step: "cpu_step prog entry c c'" and new: "\<And>n x. PCB_alloc (kern c) = Inr (Some n, x) \<Longrightarrow> n \<noteq> p"
    and other: "running (kern c) \<noteq> Some p"
  shows "contexts c' (CpuState p) = contexts c (CpuState p)" "running (kern c') = Some p \<longrightarrow> resumed p c'"
proof -
  have "contexts c' (CpuState p) = contexts c (CpuState p) \<and> (running (kern c') = Some p \<longrightarrow> resumed p c')"
    using step
  proof (cases rule: cpu_step.cases)
    case tick
    then show ?thesis
      using other by (auto simp: timerHandler_def andThen_eq_Inr deref_Inr swapcontext_def save_context_def setcontext_eq_Inr)
  next
    case go
    show ?thesis
    proof (cases "control c")
      case (Entry f)
      show ?thesis
      proof (cases f)
        case TrapRoutine
        then show ?thesis using go Entry trap_keeps_context [OF _ new other] by (simp add: advance_def)
      next
        case InterruptRoutine
        then have "interrupt_routine c = Inr c'" using go Entry by (simp add: advance_def)
        then show ?thesis by (rule interrupt_routine_Inr) (auto simp: resumed_def)
      next
        case (ProcessRoutine a b)
        then show ?thesis using go Entry other by (auto simp: advance_def)
      qed
    next
      case AfterMain
      then show ?thesis using go start_keeps_context [OF _ new other] by (simp add: advance_def)
    next
      case (InUser u)
      then show ?thesis
        using go other call_keeps_context [OF _ other] return_keeps_context
        by (fastforce simp: advance_def user_step_def andThen_eq_Inr split: action.splits)
    qed (use go other in \<open>auto simp: advance_def syscall_return_def andThen_eq_Inr\<close>)
  qed
  then show "contexts c' (CpuState p) = contexts c (CpuState p)" "running (kern c') = Some p \<longrightarrow> resumed p c'" by blast+
qed

lemma booted_wf: "booted s \<Longrightarrow> \<exists>F. kernel_wf s (\<lambda>_. []) F"
proof (induction rule: booted.induct)
  case (1 pf s)
  obtain P where P: "init_pools pf reset_kernel = Inr (reset_kernel\<lparr>pools := P\<rparr>)"
    "kernel_wf (init_lists (reset_kernel\<lparr>pools := P, init_pcb := None, running := None\<rparr>)) (\<lambda>_. []) (\<lambda>k. [0..pool_items k - 1])"
    by (rule pools_made_wf [OF 1(1)])
  then show ?case using 1(2) by auto
qed

lemma controlled_wf:
  assumes "controlled prog entry c"
  obtains L F where "kernel_wf (kern c) L F" "\<forall>r. running (kern c) = Some r \<longrightarrow> \<not> listed L r"
proof (cases "control c = Entry TrapRoutine")
  case True
  then obtain L F r where "machine_inv (kern c) L F r" using controlled_trap [OF assms] by metis
  from sched_wfD [OF machine_invD(1) [OF this]] show ?thesis using that by (metis option.inject)
next
  case False
  obtain s where s: "stands_for c s" "booted s \<or> reachable s" using controlled_stands_for [OF assms] by blast
  then have k: "kern c = s" using stands_forD(4) False by blast
  show ?thesis
  proof (cases "running s")
    case None
    then have "\<exists>L F. kernel_wf s L F"
      using s(2) booted_wf reachable_ok [of s] inv_represents(2) [of s] unfolding machine_ok_def idle_def by fastforce
    then show ?thesis using that None k by force
  next
    case (Some r)
    then have "reachable s" using s(2) booted_rests by auto
    then obtain L F where "machine_inv s L F r" using Some by (rule reachable_inv)
    from sched_wfD [OF machine_invD(1) [OF this]] show ?thesis using that k by (metis option.inject)
  qed
qed

text \<open>A block that is taken from the pool is in no list.\<close>

lemma alloc_not_listed:
  assumes wf: "kernel_wf s L F" and a: "PCB_alloc s = Inr (Some n, x)"
  shows "n \<notin> set (L h)"
proof -
  obtain i is' where F: "F KPCB = i # is'" and rng: "int32_range (last_pid s + 1)"
    using PCB_alloc_needs [OF wf a] by (auto simp: neq_Nil_conv)
  then have "n = Ptr KPCB i" using PCB_alloc_wf [OF wf F rng] a by auto
  then show ?thesis using kernel_wf_live [OF wf, of n h] F by (auto simp: live_def)
qed

lemma suspended_kept:
  assumes ok: "controlled prog entry c" and p: "suspended p c" and step: "cpu_step prog entry c c'"
  shows "contexts c' (CpuState p) = contexts c (CpuState p)" "running (kern c') = Some p \<longrightarrow> resumed p c'"
proof -
  obtain L F where wf: "kernel_wf (kern c) L F" and other: "\<forall>r. running (kern c) = Some r \<longrightarrow> \<not> listed L r"
    by (rule controlled_wf [OF ok])
  obtain h where h: "p \<in> set (L h)"
    using p represents_unique [OF kernel_wf_represents [OF wf]] by (auto simp: suspended_def)
  have 1: "n \<noteq> p" if "PCB_alloc (kern c) = Inr (Some n, x)" for n x using alloc_not_listed [OF wf that] h by blast
  have 2: "running (kern c) \<noteq> Some p" using other h by (auto simp: listed_def)
  show "contexts c' (CpuState p) = contexts c (CpuState p)" "running (kern c') = Some p \<longrightarrow> resumed p c'"
    by (rule step_keeps_context [OF step _ 2], erule 1)+
qed

lemma suspended_run:
  assumes "(suspended_step prog entry p)\<^sup>+\<^sup>+ c c'" and "controlled prog entry c"
  shows "controlled prog entry c' \<and> contexts c' (CpuState p) = contexts c (CpuState p) \<and> (running (kern c') = Some p \<longrightarrow> resumed p c')"
proof -
  have one: "controlled prog entry e \<and> contexts e (CpuState p) = contexts d (CpuState p) \<and> (running (kern e) = Some p \<longrightarrow> resumed p e)"
    if "suspended_step prog entry p d e" "controlled prog entry d" for d e
    using that suspended_kept [OF that(2)] controlled.step [OF that(2)] orderly_cpu_step unfolding suspended_step_def by blast
  show ?thesis using assms by (induction rule: tranclp_induct) (simp_all add: one)
qed

text \<open>C5: In an orderly run from the start (no process returns from its function, none opens a second message
  queue, and the clock does not tick in the interrupt or the start) a process that is ready or waits is not
  disturbed by what the others do: its saved context stays as it was when it stopped to run, and when it comes
  to run again control is at the place saved there, in the system call, the signal handler or at the entry
  of its function, with the saved signal mask.\<close>

theorem suspended_process_resumes:
  assumes "controlled prog entry c" and "(suspended_step prog entry p)\<^sup>+\<^sup>+ c c'"
  shows "contexts c' (CpuState p) = contexts c (CpuState p) \<and>
    (running (kern c') = Some p \<longrightarrow>
      control c' = uc_place (contexts c (CpuState p)) \<and> sigmask c' = uc_sigmask (contexts c (CpuState p)))"
  using suspended_run [OF assms(2,1)] by (simp add: resumed_def)

text \<open>The child that was spawned comes to run when the clock ticks.\<close>

lemma ticked_run:
  obtains c where "suspended_step spawns demo_entry p1 spawned_cpu ticked_cpu" "suspended_step spawns demo_entry p1 ticked_cpu c"
    "running (kern c) = Some p1"
proof -
  have R: "reachable (kern spawned_cpu)" using controlled_process(1) [OF controlled_spawned] by (simp add: spawned_cpu)
  then obtain F where inv: "machine_inv (kern spawned_cpu) forked_lists F p0"
    using reachable_lists [OF R spawned_cpu(10,12)] by blast
  have none: "woken_pcbs s forked_lists = []" for s by (simp add: woken_pcbs_def elapsed_timers_def)
  have "int32_range (disastrOS_time (kern spawned_cpu) + 1)" by (simp add: spawned_cpu int32_range_def)
  from tick_wf [OF inv this, unfolded none] obtain s L G r where s: "timerInterrupt (kern spawned_cpu) = Inr s" "machine_inv s L G r"
    "r # L ReadyList = rotate1 (p0 # [] @ forked_lists ReadyList)"
    by blast
  have r: "running s = Some p1" using inv_represents(2) [OF s(2)] s(3) by simp
  define c where "c = ticked_cpu\<lparr>kern := s, control := Entry (ProcessRoutine 1 7), sigmask := {}\<rparr>"
  have go: "advance spawns demo_entry ticked_cpu = Inr c"
    by (simp add: advance_def ticked_cpu interrupt_routine_def s(1) r setcontext_def new_context_def c_def)
  have "suspended p1 c'" if "kern c' = kern spawned_cpu" for c' :: "nat cpu"
    using spawned_cpu(12) that unfolding suspended_def by force
  moreover have "orderly_step spawns demo_entry spawned_cpu ticked_cpu"
    by (rule orderly_step.tick [OF spawned_alarm _ ticked_cpu(1)]) (simp add: spawned_cpu)
  moreover have "orderly_step spawns demo_entry ticked_cpu c"
    by (rule orderly_step.go [OF go]) (simp_all add: about_to_return_def about_to_add_queue_def ticked_cpu)
  ultimately show ?thesis using that [of c] r ticked_cpu(3) by (simp add: suspended_step_def c_def)
qed

theorem suspended_process_resumes_witness:
  "\<exists>c'. (suspended_step spawns demo_entry p1)\<^sup>+\<^sup>+ spawned_cpu c' \<and> running (kern c') = Some p1 \<and>
     control c' = Entry (ProcessRoutine 1 7) \<and> sigmask c' = {}"
proof -
  obtain c where c: "suspended_step spawns demo_entry p1 spawned_cpu ticked_cpu" "suspended_step spawns demo_entry p1 ticked_cpu c"
    "running (kern c) = Some p1"
    by (rule ticked_run)
  from c(1,2) have "(suspended_step spawns demo_entry p1)\<^sup>+\<^sup>+ spawned_cpu c" by (meson tranclp.intros)
  then show ?thesis
    using suspended_process_resumes [OF controlled_spawned] c(3) by (auto simp: spawned_cpu new_context_def)
qed

end
