(* ===== verification/ContextEnds.thy ===== *)
theory ContextEnds
  imports ContextClaims StatusText
begin

text \<open>
  What happens at the ends: the last process goes to sleep, a process returns from its function or is made
  without a context, the clock ticks in the interrupt, and the machine is shut down.
\<close>

section \<open>The start runs again\<close>

lemma start_runs:
  assumes no: "shutdown_now (kern c) = 0" and first: "start_first_process (start_f c) (start_args c) (kern c) = Inr s"
    and n: "running s = Some n" "kind_of n = KPCB"
  shows "if log_opens c s
    then \<exists>c'. start_routine c = Inr c' \<and> kern c' = s \<and> control c' = Entry (ProcessRoutine (start_f c) (start_args c))
    else start_routine c = Inl NullDeref"
proof -
  let ?c1 = "init_interrupt_context (init_trap_context c)"
  define d where "d = setupSignals (makecontext (CpuState n) (ProcessRoutine (start_f c) (start_args c))
    (init_process_context n (?c1\<lparr>kern := s\<rparr>)))"
  have d: "kern d = s" "uc_place (contexts d (CpuState n)) = Entry (ProcessRoutine (start_f c) (start_args c))"
    by (simp_all add: d_def process_context_made new_context_def)
  have same: "log_opens d s = log_opens c s" by (simp add: log_opens_def d_def context_defs)
  have start: "start_routine c = andThen (open_log d) (setcontext (CpuState n))"
    using no first n by (simp add: start_routine_def kernel_contexts_made Let_def d_def deref_def)
  show ?thesis
  proof (cases "log_opens c s")
    case True
    then obtain x where "open_log d = Inr (d\<lparr>log_file := x\<rparr>)" using open_log_opens [of d] d(1) same by auto
    then have "start_routine c = Inr (d\<lparr>log_file := x, control := Entry (ProcessRoutine (start_f c) (start_args c)),
        sigmask := uc_sigmask (contexts d (CpuState n))\<rparr>)"
      using d(2) start by (simp add: setcontext_def)
    then show ?thesis using d(1) True by simp
  next
    case False
    then show ?thesis using open_log_fails [of d] d(1) same start by simp
  qed
qed

text \<open>
  A log file that was asked for is open from the first start on: a step keeps it open, and a start that cannot
  open it is a fault.
\<close>

definition log_kept :: "'u cpu \<Rightarrow> 'u cpu \<Rightarrow> bool" where
  "log_kept c c' \<longleftrightarrow> start_logfile c' = start_logfile c \<and> (log_file c' = None \<longrightarrow> log_file c = None)"

definition log_open :: "'u cpu \<Rightarrow> bool" where
  "log_open c \<longleftrightarrow> start_logfile c = None \<or> log_file c \<noteq> None \<or> control c = AfterMain \<or> control c = Exited"

lemma log_kept_refl [simp]: "log_kept c c"
  by (simp add: log_kept_def)

lemma log_kept_trans: "log_kept c d \<Longrightarrow> log_kept d e \<Longrightarrow> log_kept c e"
  by (simp add: log_kept_def)

lemma log_kept_action: "log_action a c = Inr c' \<Longrightarrow> log_kept c c'"
  by (auto simp: log_action_def log_kept_def andThen_eq_Inr split: option.splits)

lemma log_kept_return: "return_from_context n c = Inr c' \<Longrightarrow> log_kept c c'"
  by (auto simp: return_from_context_def setcontext_eq_Inr log_kept_def split: option.splits)

lemma log_kept_spawn: "spawn_handler c = Inr c' \<Longrightarrow> log_kept c c'"
  by (auto simp: spawn_handler_def andThen_eq_Inr Let_def log_kept_def context_defs split: option.splits)

lemma log_kept_return_to_process:
  assumes "return_to_process n c = Inr c'"
  shows "log_kept c c'"
proof -
  obtain d where d: "log_action (''SYSCALL_OUT '' @ print_int n) c = Inr d"
    "(if running (kern d) \<noteq> None then andThen (deref KPCB (running (kern d))) (\<lambda>r. setcontext (CpuState r) d)
      else andThen (disastrOS_printStatus (kern d)) (\<lambda>_. return_from_context TrapContext d)) = Inr c'"
    using assms by (auto simp: return_to_process_def andThen_eq_Inr)
  have "log_kept d c'"
  proof (cases "running (kern d) = None")
    case True
    then have "return_from_context TrapContext d = Inr c'" using d(2) by (auto simp: andThen_eq_Inr)
    then show ?thesis by (rule log_kept_return)
  next
    case False
    then obtain r where "setcontext (CpuState r) d = Inr c'" using d(2) by (auto simp: andThen_eq_Inr)
    then show ?thesis by (auto simp: setcontext_eq_Inr log_kept_def)
  qed
  then show ?thesis using log_kept_action [OF d(1)] log_kept_trans by blast
qed

lemma log_kept_trap:
  assumes t: "trap_routine c = Inr c'"
  shows "log_kept c c'"
proof -
  obtain r where r: "running (kern c) = Some r" "kind_of r = KPCB" using t by (auto simp: trap_routine_def andThen_eq_Inr deref_Inr)
  let ?n = "pcb_syscall_num (pcbs (kern c) r)"
  have one: "log_kept c (c\<lparr>log_file := x, kern := s\<rparr>)" "log_kept c (c\<lparr>log_file := x\<rparr>)" if "x = None \<longleftrightarrow> log_file c = None" for x s
    using that by (simp_all add: log_kept_def)
  consider "?n = DSOS_CALL_SHUTDOWN" | "?n = DSOS_CALL_SPAWN" | "?n \<noteq> DSOS_CALL_SHUTDOWN" "?n \<noteq> DSOS_CALL_SPAWN" by blast
  then show ?thesis
  proof cases
    case 1
    obtain x where x: "x = None \<longleftrightarrow> log_file c = None" "trap_routine c = shutdown_handler (c\<lparr>log_file := x\<rparr>)"
      by (rule trap_logged [OF r]) (use 1 in simp)
    then show ?thesis using t [unfolded x(2)] x(1) by (auto simp: shutdown_handler_def setcontext_eq_Inr log_kept_def)
  next
    case 2
    obtain x where x: "x = None \<longleftrightarrow> log_file c = None"
      "trap_routine c = andThen (spawn_handler (c\<lparr>log_file := x\<rparr>)) (return_to_process ?n)"
      by (rule trap_logged [OF r]) (use 2 in simp)
    obtain d where "spawn_handler (c\<lparr>log_file := x\<rparr>) = Inr d" "return_to_process ?n d = Inr c'"
      using t [unfolded x(2)] by (auto simp: andThen_eq_Inr)
    then show ?thesis using one(2) [OF x(1)] log_kept_spawn log_kept_return_to_process log_kept_trans by blast
  next
    case 3
    obtain x where x: "x = None \<longleftrightarrow> log_file c = None"
      "trap_routine c = andThen (disastrOS_trap (kern c)) (\<lambda>s. return_to_process ?n (c\<lparr>log_file := x, kern := s\<rparr>))"
      by (rule trap_logged [OF r]) (use 3 in simp)
    obtain s where "return_to_process ?n (c\<lparr>log_file := x, kern := s\<rparr>) = Inr c'"
      using t [unfolded x(2)] by (auto simp: andThen_eq_Inr)
    then show ?thesis using one(1) [OF x(1)] log_kept_return_to_process log_kept_trans by blast
  qed
qed

lemma log_kept_interrupt:
  assumes "interrupt_routine c = Inr c'"
  shows "log_kept c c'"
proof -
  obtain c1 s c2 r where i: "log_action ''TIMER_OUT'' c = Inr c1" "log_action ''TIMER_IN'' (c1\<lparr>kern := s\<rparr>) = Inr c2"
    "setcontext (CpuState r) c2 = Inr c'"
    using assms by (auto simp: interrupt_routine_def andThen_eq_Inr)
  have "log_kept c1 (c1\<lparr>kern := s\<rparr>)" "log_kept c2 c'" using i(3) by (auto simp: log_kept_def setcontext_eq_Inr)
  then show ?thesis using log_kept_action [OF i(1)] log_kept_action [OF i(2)] log_kept_trans by blast
qed

lemma log_kept_process:
  assumes "user_step prog u c = Inr c'"
  shows "log_kept c c'"
proof (cases "prog u (umem (kern c))")
  case (Syscall n args k)
  then show ?thesis
    using assms by (auto simp: user_step_def syscall_entry_def andThen_eq_Inr swapcontext_def save_context_def setcontext_eq_Inr log_kept_def
        split: if_splits)
qed (use assms log_kept_return in \<open>auto simp: user_step_def andThen_eq_Inr log_kept_def\<close>)

lemma log_open_start:
  assumes t: "start_routine c = Inr c'"
  shows "log_open c'"
proof (cases "shutdown_now (kern c) = 0")
  case True
  then obtain s p x where
    "setcontext (CpuState p) ((setupSignals (makecontext (CpuState p) (ProcessRoutine (start_f c) (start_args c))
       (init_process_context p ((init_interrupt_context (init_trap_context c))\<lparr>kern := s\<rparr>))))\<lparr>log_file := x\<rparr>) = Inr c'"
    "start_logfile c = None \<or> x \<noteq> None"
    by (rule start_routine_Inr [OF t])
  then show ?thesis by (auto simp: setcontext_eq_Inr log_open_def context_defs)
qed (use t in \<open>auto simp: start_routine_def log_open_def\<close>)

lemma log_open_step:
  assumes step: "orderly_step prog entry c c'" and ok: "log_open c"
  shows "log_open c'"
proof -
  have kept: ?thesis if "log_kept c c'" "control c \<noteq> AfterMain" "control c \<noteq> Exited"
    using that ok by (auto simp: log_open_def log_kept_def)
  show ?thesis
    using step
  proof cases
    case go
    show ?thesis
    proof (cases "control c")
      case (Entry f)
      have "log_kept c c'"
        using go(1) Entry log_kept_trap [of c c'] log_kept_interrupt [of c c'] by (cases f) (auto simp: advance_def log_kept_def)
      then show ?thesis by (rule kept) (simp_all add: Entry)
    next
      case AfterMain
      then show ?thesis using go(1) log_open_start by (simp add: advance_def)
    next
      case (InUser u)
      then have "user_step prog u c = Inr c'" using go(1) by (simp add: advance_def)
      then show ?thesis by (rule kept [OF log_kept_process]) (simp_all add: InUser)
    next
      case Exited
      then show ?thesis using go(1) ok by (simp add: advance_def)
    qed (use go(1) kept in \<open>auto simp: advance_def syscall_return_def andThen_eq_Inr log_kept_def\<close>)
  next
    case tick
    then have "log_kept c c'"
      by (auto simp: timerHandler_def andThen_eq_Inr swapcontext_def save_context_def setcontext_eq_Inr log_kept_def)
    then show ?thesis by (rule kept) (use tick(2) in auto)
  qed
qed

lemma controlled_log_open: "controlled prog entry c \<Longrightarrow> log_open c"
proof (induction rule: controlled.induct)
  case (boot pf f g logfile m c)
  then show ?case by (auto simp: boot_cpu_def andThen_eq_Inr log_open_def context_defs)
next
  case (step c c')
  then show ?case using log_open_step by blast
qed

text \<open>The block of the new process was free.\<close>

lemma first_process_new:
  assumes wf: "kernel_wf s L F" and first: "start_first_process f g s = Inr s'"
  obtains n K where "running s' = Some n" "init_pcb s' = Some n" "kind_of n = KPCB" "\<And>h. n \<notin> set (L h)"
    "kernel_wf s' (new_pcb_lists n L) K" "\<And>p. live s F p \<Longrightarrow> p \<noteq> n \<and> live s' K p" "timers s' = timers s"
proof -
  obtain i is' where F: "F KPCB = i # is'" and rng: "int32_range (last_pid s + 1)"
    using first_process_needs [OF wf first] by (auto simp: neq_Nil_conv)
  let ?n = "Ptr KPCB i"
  have s': "sched_wf s' (new_pcb_lists ?n L) (F(KPCB := is')) ?n" "kernel_frame (first_contents f g ?n s) s'"
    using first_process_wf [OF wf F rng, of f g] first by auto
  obtain s1 where s1: "PCB_alloc s = Inr (Some ?n, s1)" "\<And>p. live s F p \<Longrightarrow> p \<noteq> ?n \<and> live s1 (F(KPCB := is')) p"
    using PCB_alloc_wf [OF wf F rng] by blast
  have "pools s' = pools s1" using first s1(1) by (auto simp: start_first_process_def Let_def set_status_def upd_pcb_def)
  then have "live s' (F(KPCB := is')) p = live s1 (F(KPCB := is')) p" for p by (simp add: live_def)
  then show ?thesis
    using that [OF sched_wfD(2) [OF s'(1)] _ _ alloc_not_listed [OF wf s1(1)] sched_wfD(1) [OF s'(1)]] s1(2) s'(2)
    by (simp add: kernel_frame_def first_contents_def)
qed

section \<open>The last process sleeps\<close>

text \<open>When a call leaves nothing to run it is neither of the two calls that have to do with contexts.\<close>

lemma nobody_left:
  assumes inv: "machine_inv s L F r" and trap: "disastrOS_trap s = Inr s'" and none: "running s' = None"
  shows "pcb_syscall_num (pcbs s r) \<noteq> DSOS_CALL_SHUTDOWN" "pcb_syscall_num (pcbs s r) \<noteq> DSOS_CALL_SPAWN"
proof -
  note r = sched_wfD(2,3) [OF machine_invD(1) [OF inv]]
  show "pcb_syscall_num (pcbs s r) \<noteq> DSOS_CALL_SHUTDOWN"
    using trap r none
    by (auto simp: disastrOS_trap_def syscall_in_range_def table_entry_def syscall_vector_def internal_shutdown_def)
  show "pcb_syscall_num (pcbs s r) \<noteq> DSOS_CALL_SPAWN"
  proof
    assume "pcb_syscall_num (pcbs s r) = DSOS_CALL_SPAWN"
    then have "internal_spawn s = Inr s'"
      using trap r by (simp add: disastrOS_trap_def syscall_in_range_def table_entry_def syscall_vector_def)
    from inv_spawn [OF inv this] show False using none inv_represents(2) by auto
  qed
qed

text \<open>C32: When the last process that can run goes to sleep, the trap finds nobody to return to. With a log file
  it dereferences the null pointer, to write the line of the end of the call. Without one it prints the
  status and its context ends; control goes back to the start, which makes a further first process in a
  new block and runs the start function anew, while the others still sleep: the waiting processes and the
  timers are the same as before. This supposes an orderly run from the start, that nobody has asked for a
  shutdown (which would end the program instead), that the texts of the messages that are stored end (printing
  them would go on for ever), and that the first process can be made: a block is free and the counter of
  identifiers not at its end.\<close>

theorem last_sleeper_restarts:
  assumes "controlled prog entry c" and "control c = Entry TrapRoutine" and "disastrOS_trap (kern c) = Inr s"
    and "running s = None" and "shutdown_now s = 0" and "represents s L" and "texts_end s L"
    and "start_first_process (start_f c) (start_args c) s = Inr s'"
  shows "if log_file c = None
    then \<exists>c1 c2 n. advance prog entry c = Inr c1 \<and> control c1 = AfterMain \<and> advance prog entry c1 = Inr c2 \<and> kern c2 = s' \<and>
      control c2 = Entry (ProcessRoutine (start_f c) (start_args c)) \<and> running s' = Some n \<and> init_pcb s' = Some n \<and>
      (\<forall>h. n \<notin> set (L h)) \<and> timers s' = timers s \<and>
      (\<exists>L'. represents s' L' \<and> L' WaitingList = L WaitingList \<and> L' TimerList = L TimerList)
    else advance prog entry c = Inl NullDeref"
proof -
  obtain r K G where inv: "machine_inv (kern c) K G r" and ok: "contexts_ok c"
    by (rule controlled_trap [OF assms(1,2)])
  note r = sched_wfD(2,3) [OF machine_invD(1) [OF inv]]
  obtain t where t: "trap_routine c = return_to_process (pcb_syscall_num (pcbs (kern c) r)) (c\<lparr>log_file := t, kern := s\<rparr>)"
    "t = None \<longleftrightarrow> log_file c = None"
    by (rule trap_runs [OF r assms(3) nobody_left [OF inv assms(3,4)]])
  have "reachable s" by (rule controlled_trap_reaches [OF assms(1-3)])
  moreover have "\<not> machine_inv s K G r" for K G r using inv_represents(2) [of s] assms(4) by auto
  ultimately obtain L' F where idle: "idle s L' F"
    using reachable_ok [of s] unfolding machine_ok_def by blast
  have L: "L' = L" by (rule represents_unique [OF kernel_wf_represents [OF idleD(3) [OF idle]] assms(6)])
  have status: "disastrOS_printStatus s = Inr (status_text s L)"
    using printStatus_wf idleD(3,4) [OF idle] assms(7) L by blast
  obtain n K where n: "running s' = Some n" "init_pcb s' = Some n" "kind_of n = KPCB" "\<forall>h. n \<notin> set (L h)"
    "kernel_wf s' (new_pcb_lists n L) K" "timers s' = timers s"
    using first_process_new [OF idleD(3) [OF idle] assms(8)] L by metis
  have asleep: "\<exists>L'. represents s' L' \<and> L' WaitingList = L WaitingList \<and> L' TimerList = L TimerList"
    using kernel_wf_represents [OF n(5)] by (intro exI [of _ "new_pcb_lists n L"]) (simp add: new_pcb_lists_def)
  show ?thesis
  proof (cases "log_file c = None")
    case False
    then show ?thesis
      using t assms(2,4) by (auto simp: advance_def return_to_process_def log_action_def deref_def)
  next
    case True
    let ?c1 = "c\<lparr>log_file := None, kern := s, control := AfterMain, sigmask := uc_sigmask (contexts c MainContext)\<rparr>"
    have "start_logfile c = None" using controlled_log_open [OF assms(1)] True assms(2) by (simp add: log_open_def)
    then have opens: "log_opens ?c1 s'" by (simp add: log_opens_def)
    have "uc_link (contexts c TrapContext) = Some MainContext" "uc_place (contexts c MainContext) = AfterMain"
      using ok assms(2) by (auto simp: contexts_ok_def)
    then have "trap_routine c = Inr ?c1"
      using True t assms(4) status
      by (simp add: return_to_process_def return_from_context_def setcontext_def)
    moreover obtain c2 where "start_routine ?c1 = Inr c2" "kern c2 = s'" "control c2 = Entry (ProcessRoutine (start_f c) (start_args c))"
      using start_runs [of ?c1 s' n] assms(5,8) n(1,3) opens by auto
    ultimately have "advance prog entry c = Inr ?c1 \<and> control ?c1 = AfterMain \<and> advance prog entry ?c1 = Inr c2 \<and> kern c2 = s' \<and>
      control c2 = Entry (ProcessRoutine (start_f c) (start_args c))"
      using assms(2) by (simp add: advance_def)
    then show ?thesis using True n(1,2,4,6) asleep by auto
  qed
qed

lemma started_open [simp]: "shutdown_now started = 0"
  using started_wf(3) by (simp add: kernel_frame_def boot_contents_def reset_kernel_def)

text \<open>The first process sleeps, and there is no other.\<close>

lemma alone_asleep:
  obtains s L s' where "disastrOS_trap (calling 6 [3] started) = Inr s" "running s = None" "shutdown_now s = 0" "represents s L"
    "texts_end s L" "start_first_process 0 0 s = Inr s'"
proof -
  let ?s = "calling 6 [3] started" and ?L = "asleep_lists (calling 6 [3] started) p0 3 t0 no_lists"
  have r: "running ?s = Some p0" "pcb_syscall_num (pcbs ?s p0) = 6" "shutdown_now ?s = 0" "pcb_timer (pcbs ?s p0) = None" "int_arg p0 0 ?s = 3"
    by (simp_all add: calling_def enter_syscall_def upd_pcb_def int_arg_def syscall_arg_def args_of_def)
  obtain s where z: "internal_sleep ?s = andThen (disastrOS_printStatus s) (\<lambda>_. Inr s)"
    and s: "running s = None" "kernel_wf s ?L (boot_free(KTimerItem := [1..1023]))"
      "kernel_frame ((asleep_contents p0 3 t0 ?s)\<lparr>running := None\<rparr>) s"
    using sleep_last [OF calling_wf [OF started_wf(2), of 6 "[3]"] timers_ok_empty r(4), of 0 "[1..1023]"]
    by (auto simp: r(5) int32_range_def)
  obtain G where "machine_inv started no_lists G p0"
    using reachable_lists [OF reachable.start [OF demo_platform_ok started_wf(1)] sched_wfD(2) [OF started_wf(2)] kernel_wf_represents [OF sched_wfD(1) [OF started_wf(2)]]]
    by blast
  then have shown: "printable s ?L" by (rule printable_asleep [OF inv_calling s(3)])
  have texts: "texts_end s ?L" by (simp add: texts_end_def asleep_lists_def add_timer_def)
  have sleep: "internal_sleep ?s = Inr s" using z printStatus_wf [OF s(2) shown texts] by simp
  have "last_pid s = 1" "shutdown_now s = 0"
    using s(3) r(3) by (simp_all add: kernel_frame_def asleep_contents_def set_status_def upd_pcb_def)
  moreover have "\<exists>s'. start_first_process 0 0 s = Inr s'"
    using first_process_wf [OF s(2), of 1 "[2..1023]" 0 0] calculation(1) by (auto simp: int32_range_def)
  moreover have "disastrOS_trap ?s = Inr s"
    using sleep r(1,2) by (simp add: disastrOS_trap_def syscall_in_range_def table_entry_def syscall_vector_def)
  ultimately show ?thesis using that s(1) texts kernel_wf_represents [OF s(2)] by blast
qed

theorem last_sleeper_restarts_witness:
  "advance (calls 6 [3]) demo_entry (called 6 [3] True) = Inl NullDeref \<and>
   (\<exists>c1 c2. advance (calls 6 [3]) demo_entry (called 6 [3] False) = Inr c1 \<and> control c1 = AfterMain \<and>
      advance (calls 6 [3]) demo_entry c1 = Inr c2 \<and> control c2 = Entry (ProcessRoutine 0 0))"
proof -
  obtain s L s' where s: "disastrOS_trap (calling 6 [3] started) = Inr s" "running s = None" "shutdown_now s = 0" "represents s L"
    "texts_end s L" "start_first_process 0 0 s = Inr s'"
    by (rule alone_asleep)
  have n: "(0::int) \<le> 6" "(6::int) < DSOS_MAX_SYSCALLS" "syscall_numarg 6 = length [3::int]" "(6::int) \<noteq> DSOS_CALL_MQOPEN"
    by (simp_all add: syscall_numarg_def)
  note c = called [OF n(1-3)]
  have "disastrOS_trap (kern (called 6 [3] lf)) = Inr s"
    "start_first_process (start_f (called 6 [3] lf)) (start_args (called 6 [3] lf)) s = Inr s'" for lf
    using s(1,6) by (simp_all add: c)
  note both = last_sleeper_restarts [OF controlled_called [OF n] c(3) this(1) s(2,3,4,5) this(2)]
  show ?thesis using both [of False] both [of True] by (auto simp: c)
qed

section \<open>A process returns from its function\<close>

text \<open>C33: A process that returns from its function, instead of calling exit, does not end: control goes by the link
  of its context to the start, which makes a further first process that runs the start function. The block of the
  process that returned stays allocated, in none of the lists, and nothing refers to it as the running one
  any more. (The start opens the log file anew, if there is one; if it cannot, it writes to a null pointer, a
  fault.)\<close>

theorem returning_process_is_lost:
  assumes "controlled prog entry c" and "control c = InUser u" and "prog u (umem (kern c)) = Return" and "running (kern c) = Some r"
    and "shutdown_now (kern c) = 0" and "start_first_process (start_f c) (start_args c) (kern c) = Inr s"
  shows "\<exists>c1 L F. advance prog entry c = Inr c1 \<and> control c1 = AfterMain \<and>
    (if log_opens c s
     then \<exists>c2. advance prog entry c1 = Inr c2 \<and> kern c2 = s \<and> control c2 = Entry (ProcessRoutine (start_f c) (start_args c))
     else advance prog entry c1 = Inl NullDeref) \<and>
    running s = init_pcb s \<and> running s \<noteq> Some r \<and> kernel_wf s L F \<and> live s F r \<and> (\<forall>h. r \<notin> set (L h))"
proof -
  have place: "process_place (control c)" by (simp add: assms(2))
  have p: "reachable (kern c)" "returns_to_main c (kern c)" "contexts_ok c" using controlled_process [OF assms(1)] place by blast+
  obtain L F where inv: "machine_inv (kern c) L F r" by (rule reachable_inv [OF p(1) assms(4)])
  note run = sched_wfD [OF machine_invD(1) [OF inv]]
  obtain n K where n: "running s = Some n" "init_pcb s = Some n" "kind_of n = KPCB"
    "kernel_wf s (new_pcb_lists n L) K" "\<And>p. live (kern c) F p \<Longrightarrow> p \<noteq> n \<and> live s K p"
    using first_process_new [OF run(1) assms(6)] by metis
  let ?c1 = "c\<lparr>control := AfterMain, sigmask := uc_sigmask (contexts c MainContext)\<rparr>"
  have "advance prog entry c = Inr ?c1"
    using p(2,3) assms(2-4) run(3)
    by (simp add: advance_def user_step_def deref_def return_from_context_def returns_to_main_def contexts_ok_def setcontext_def)
  moreover have "log_opens ?c1 s = log_opens c s" by (simp add: log_opens_def)
  then have "if log_opens c s
     then \<exists>c2. advance prog entry ?c1 = Inr c2 \<and> kern c2 = s \<and> control c2 = Entry (ProcessRoutine (start_f c) (start_args c))
     else advance prog entry ?c1 = Inl NullDeref"
    using start_runs [of ?c1 s n] assms(5,6) n(1,3) by (cases "log_opens c s") (simp_all add: advance_def)
  moreover have "r \<notin> set (new_pcb_lists n L h)" for h using run(5) by (auto simp: listed_def new_pcb_lists_def)
  moreover have "running s = init_pcb s" "running s \<noteq> Some r" "live s K r" using n(1,2) n(5) [OF run(7)] by auto
  ultimately show ?thesis using n(4) by (intro exI [of _ ?c1] exI [of _ "new_pcb_lists n L"] exI [of _ K]) simp
qed

theorem returning_process_is_lost_witness:
  "\<exists>c1 c2. advance (demo_prog Return) demo_entry (entered False) = Inr c1 \<and> advance (demo_prog Return) demo_entry c1 = Inr c2 \<and>
     control c2 = Entry (ProcessRoutine 0 0) \<and> running (kern c2) \<noteq> Some p0"
proof -
  have c: "control (entered False) = InUser 0" "kern (entered False) = started" "start_f (entered False) = 0"
    "start_args (entered False) = 0"
    by (simp_all add: entered_def started_cpu)
  obtain s where "start_first_process 0 0 started = Inr s"
    using first_process_wf [OF sched_wfD(1) [OF started_wf(2)], of 1 "[2..1023]" 0 0] by (auto simp: int32_range_def)
  then show ?thesis
    using returning_process_is_lost [OF controlled_entered c(1), of "demo_prog Return" p0] c
    by (force simp: demo_prog_def log_opens_def entered_def started_cpu demo_log_def)
qed

section \<open>The clock ticks in the interrupt\<close>

text \<open>C34: The signal of the clock is not blocked in the interrupt, whose context has the empty mask. When it comes
  again before the interrupt is over, the handler saves the place in the interrupt over the one of the
  process that was interrupted: the process does not go on where it was, it runs the interrupt again.\<close>

theorem interrupt_can_be_interrupted:
  assumes "controlled prog entry c" and "process_place (control c)" and "running (kern c) = Some p" and "alarm_enabled c"
  shows "\<exists>c1 c2. timerHandler c = Inr c1 \<and> control c1 = Entry InterruptRoutine \<and>
      uc_place (contexts c1 (CpuState p)) = HandlerReturn (control c) (sigmask c) \<and>
    alarm_enabled c1 \<and> timerHandler c1 = Inr c2 \<and> control c2 = Entry InterruptRoutine \<and> kern c2 = kern c \<and>
      uc_place (contexts c2 (CpuState p)) = HandlerReturn (Entry InterruptRoutine) {}"
proof -
  have R: "reachable (kern c)" and ok: "contexts_ok c" using controlled_process [OF assms(1)] assms(2) by blast+
  obtain L F where "machine_inv (kern c) L F p" by (rule reachable_inv [OF R assms(3)])
  then have k: "kind_of p = KPCB" using sched_wfD(3) [OF machine_invD(1)] by blast
  have i: "uc_place (contexts c InterruptContext) = Entry InterruptRoutine" "uc_sigmask (contexts c InterruptContext) = {}"
    using ok assms(2) by (auto simp: contexts_ok_def)
  define handle where "handle d = (upd_context (CpuState p) (\<lambda>u. u\<lparr>uc_place := HandlerReturn (control d) (sigmask d),
    uc_sigmask := insert SIGALRM (sigmask d \<union> sa_mask d)\<rparr>) d)\<lparr>control := Entry InterruptRoutine, sigmask := {}\<rparr>" for d :: "'a cpu"
  have h: "timerHandler d = Inr (handle d)"
    if "running (kern d) = Some p" "contexts d InterruptContext = contexts c InterruptContext" for d
    using that k i by (simp add: timerHandler_def deref_def swapcontext_def save_context_def setcontext_def handle_def upd_context_def)
  have "timerHandler c = Inr (handle c)" "timerHandler (handle c) = Inr (handle (handle c))"
    using assms(3) by (simp_all add: h) (simp add: h handle_def)
  moreover have "alarm_enabled (handle c)" using assms(4) by (simp add: alarm_enabled_def handle_def)
  moreover have "control (handle d) = Entry InterruptRoutine \<and> kern (handle d) = kern d \<and> sigmask (handle d) = {} \<and>
      uc_place (contexts (handle d) (CpuState p)) = HandlerReturn (control d) (sigmask d)" for d
    by (simp add: handle_def)
  ultimately show ?thesis by (intro exI [of _ "handle c"] exI [of _ "handle (handle c)"]) simp
qed

theorem interrupt_can_be_interrupted_witness:
  "\<exists>c2. timerHandler ticked_cpu = Inr c2 \<and> uc_place (contexts c2 (CpuState p0)) = HandlerReturn (Entry InterruptRoutine) {}"
  using interrupt_can_be_interrupted [OF controlled_spawned _ spawned_cpu(10) spawned_alarm] ticked_cpu(1)
  by (auto simp: spawned_cpu)

section \<open>Shutdown\<close>

text \<open>C35: A shutdown ends the program: its handler does not return to the process, control comes to the start,
  and that sees the flag and exits, so two steps after the entry of the trap the program is over.\<close>

theorem shutdown_exits:
  assumes "controlled prog entry c" and "control c = Entry TrapRoutine" and "running (kern c) = Some r"
    and "pcb_syscall_num (pcbs (kern c) r) = DSOS_CALL_SHUTDOWN"
  shows "\<exists>c1 c2. advance prog entry c = Inr c1 \<and> control c1 = AfterMain \<and> advance prog entry c1 = Inr c2 \<and> control c2 = Exited \<and>
    kern c2 = internal_shutdown (kern c)"
proof -
  obtain q K G where inv: "machine_inv (kern c) K G q" and ok: "contexts_ok c"
    by (rule controlled_trap [OF assms(1,2)])
  have k: "kind_of r = KPCB" using sched_wfD(2,3) [OF machine_invD(1) [OF inv]] assms(3) by simp
  obtain t where t: "trap_routine c = shutdown_handler (c\<lparr>log_file := t\<rparr>)"
    using trap_logged [OF assms(3) k] assms(4) by blast
  have main: "uc_place (contexts c MainContext) = AfterMain" using ok by (simp add: contexts_ok_def)
  let ?c1 = "c\<lparr>log_file := t, kern := internal_shutdown (kern c), control := AfterMain, sigmask := uc_sigmask (contexts c MainContext)\<rparr>"
  have "advance prog entry c = Inr ?c1"
    using t main assms(2) by (simp add: advance_def shutdown_handler_def setcontext_def)
  moreover have "advance prog entry ?c1 = Inr (?c1\<lparr>control := Exited\<rparr>)"
    by (simp add: advance_def start_routine_def internal_shutdown_def)
  ultimately show ?thesis by (intro exI [of _ ?c1] exI [of _ "?c1\<lparr>control := Exited\<rparr>"]) simp
qed

theorem shutdown_exits_witness:
  "\<exists>c1 c2. advance (calls 10 []) demo_entry (called 10 [] True) = Inr c1 \<and> advance (calls 10 []) demo_entry c1 = Inr c2 \<and>
     control c2 = Exited"
proof -
  have n: "(0::int) \<le> 10" "(10::int) < DSOS_MAX_SYSCALLS" "syscall_numarg 10 = length ([]::int list)" "(10::int) \<noteq> DSOS_CALL_MQOPEN"
    by (simp_all add: syscall_numarg_def)
  note c = called [OF n(1-3)]
  have "running (kern (called 10 [] True)) = Some p0" "pcb_syscall_num (pcbs (kern (called 10 [] True)) p0) = DSOS_CALL_SHUTDOWN"
    by (simp_all add: c(2)) (simp add: calling_def enter_syscall_def upd_pcb_def)
  from shutdown_exits [OF controlled_called [OF n] c(3) this] show ?thesis by blast
qed

section \<open>A process without a context\<close>

text \<open>C36: \<open>fork\<close> makes no context for the child. When its block was never used before, the first switch to the
  child, by a tick of the clock, takes a context that is all zeros and is a fault.\<close>

theorem forked_child_has_no_context:
  assumes "controlled prog entry c" and "control c = Entry TrapRoutine" and "running (kern c) = Some r"
    and "pcb_syscall_num (pcbs (kern c) r) = DSOS_CALL_FORK" and "advance prog entry c = Inr c1"
    and "contexts c (CpuState n) = zero_context"
    and "(suspended_step prog entry n)\<^sup>*\<^sup>* c1 d" and "control d = Entry InterruptRoutine"
    and "timerInterrupt (kern d) = Inr s" and "running s = Some n"
  shows "advance prog entry d = Inl NullDeref"
proof -
  obtain q K G where inv: "machine_inv (kern c) K G q" and ok: "contexts_ok c"
    by (rule controlled_trap [OF assms(1,2)])
  have k: "kind_of r = KPCB" using sched_wfD(2,3) [OF machine_invD(1) [OF inv]] assms(3) by simp
  have t: "trap_routine c = Inr c1" using assms(2,5) by (simp add: advance_def)
  note ti = trap_routine_Inr [OF t assms(3) k]
  have no: "\<not> about_to_return prog c" "\<not> about_to_add_queue prog c" by (simp_all add: about_to_return_def about_to_add_queue_def assms(2))
  have c1: "controlled prog entry c1" by (rule controlled.step [OF assms(1) orderly_step.go [OF assms(5) no]])
  obtain t' where t': "trap_routine c = return_to_process 2 (c\<lparr>log_file := t', kern := kern c1\<rparr>)"
    using trap_runs [OF assms(3) k, of "kern c1"] ti assms(4) by auto
  have "contexts c1 = contexts c" using return_to_process_Inr [OF t [unfolded t']] by simp
  moreover have d: "controlled prog entry d \<and> contexts d (CpuState n) = contexts c1 (CpuState n)"
    using rtranclpD [OF assms(7)] suspended_run [of prog entry n c1 d] c1 by auto
  ultimately have zero: "uc_place (contexts d (CpuState n)) = Uninitialised" using assms(6) by (simp add: zero_context_def)
  have D: "reachable (kern d)" "running (kern d) \<noteq> None"
    using controlled_process [of prog entry d] d assms(8) returning_runs by blast+
  then obtain q' where q': "running (kern d) = Some q'" by blast
  obtain L F where "machine_inv (kern d) L F q'" by (rule reachable_inv [OF D(1) q'])
  then have kq: "kind_of q' = KPCB" using sched_wfD(3) [OF machine_invD(1)] by blast
  have kn: "kind_of n = KPCB" using assms(9,10) by (auto simp: timerInterrupt_def andThen_eq_Inr deref_Inr)
  obtain t1 where t1: "log_action ''TIMER_OUT'' d = Inr (d\<lparr>log_file := t1\<rparr>)" by (rule log_action_runs [OF q' kq])
  obtain t2 where t2: "log_action ''TIMER_IN'' (d\<lparr>log_file := t1, kern := s\<rparr>) = Inr (d\<lparr>kern := s, log_file := t2\<rparr>)"
    using log_action_runs [of "d\<lparr>log_file := t1, kern := s\<rparr>" n "''TIMER_IN''"] assms(10) kn by auto
  have "interrupt_routine d = setcontext (CpuState n) (d\<lparr>kern := s, log_file := t2\<rparr>)"
    using t1 t2 assms(9,10) kn by (simp add: interrupt_routine_def deref_def)
  then show ?thesis using zero assms(8) by (simp add: advance_def setcontext_def)
qed

text \<open>The child of the first process.\<close>

definition forked_cpu :: "nat cpu" where
  "forked_cpu = result_of (trap_routine (called 2 [] False))"

lemma forked_cpu:
  "trap_routine (called 2 [] False) = Inr forked_cpu" "kern forked_cpu = forked" "control forked_cpu = SyscallReturn (\<lambda>_. 2)"
  "sigmask forked_cpu = {}" "itimer forked_cpu = Some (INTERVAL * 1000)"
  "uc_place (contexts forked_cpu InterruptContext) = Entry InterruptRoutine"
proof -
  have n: "(0::int) \<le> 2" "(2::int) < DSOS_MAX_SYSCALLS" "syscall_numarg 2 = length ([]::int list)" by (simp_all add: syscall_numarg_def)
  note c = called [OF n, of False]
  have r: "running (kern (called 2 [] False)) = Some p0" "pcb_syscall_num (pcbs (kern (called 2 [] False)) p0) = 2"
    by (simp_all add: c(2)) (simp add: calling_def enter_syscall_def upd_pcb_def)
  have "disastrOS_trap (kern (called 2 [] False)) = Inr forked"
    using r forked_wf(1) by (simp add: disastrOS_trap_def c(2) syscall_in_range_def table_entry_def syscall_vector_def)
  then obtain t where t: "trap_routine (called 2 [] False) = return_to_process 2 ((called 2 [] False)\<lparr>log_file := t, kern := forked\<rparr>)"
    "t = None \<longleftrightarrow> log_file (called 2 [] False) = None"
    using trap_runs [OF r(1), of forked] r(2) by auto
  then have run: "trap_routine (called 2 [] False) =
      Inr ((called 2 [] False)\<lparr>log_file := None, kern := forked, control := SyscallReturn (\<lambda>_. 2), sigmask := {}\<rparr>)"
    using c(4) by (simp add: return_to_process_def setcontext_def c(9) new_context_def deref_def)
  then have eq: "forked_cpu = (called 2 [] False)\<lparr>log_file := None, kern := forked, control := SyscallReturn (\<lambda>_. 2), sigmask := {}\<rparr>"
    by (simp add: forked_cpu_def)
  show "trap_routine (called 2 [] False) = Inr forked_cpu" using run eq by simp
  show "kern forked_cpu = forked" "control forked_cpu = SyscallReturn (\<lambda>_. 2)" "sigmask forked_cpu = {}"
    "itimer forked_cpu = Some (INTERVAL * 1000)" "uc_place (contexts forked_cpu InterruptContext) = Entry InterruptRoutine"
    by (simp_all add: eq c started_cpu)
qed

theorem forked_child_has_no_context_witness:
  "\<exists>d. timerHandler forked_cpu = Inr d \<and> advance (calls 2 []) demo_entry d = Inl NullDeref"
proof -
  have n: "(0::int) \<le> 2" "(2::int) < DSOS_MAX_SYSCALLS" "syscall_numarg 2 = length ([]::int list)" "(2::int) \<noteq> DSOS_CALL_MQOPEN"
    by (simp_all add: syscall_numarg_def)
  note c = called [OF n(1-3), of False]
  have r: "running (kern (called 2 [] False)) = Some p0" "pcb_syscall_num (pcbs (kern (called 2 [] False)) p0) = DSOS_CALL_FORK"
    by (simp_all add: c(2)) (simp add: calling_def enter_syscall_def upd_pcb_def)
  have zero: "contexts (called 2 [] False) (CpuState p1) = zero_context" by (simp add: c(9) started_cpu)
  have go: "advance (calls 2 []) demo_entry (called 2 [] False) = Inr forked_cpu" by (simp add: advance_def c(3) forked_cpu(1))
  obtain d where d: "timerHandler forked_cpu = Inr d" "kern d = forked" "control d = Entry InterruptRoutine"
    by (simp add: timerHandler_def forked_cpu swapcontext_def save_context_def setcontext_def)
  have "alarm_enabled forked_cpu" by (simp add: alarm_enabled_def forked_cpu)
  moreover have "suspended p1 forked_cpu"
    using kernel_wf_represents [OF sched_wfD(1) [OF forked_wf(2)]] by (force simp: suspended_def forked_cpu)
  ultimately have "suspended_step (calls 2 []) demo_entry p1 forked_cpu d"
    unfolding suspended_step_def using orderly_step.tick [OF _ _ d(1)] by (simp add: forked_cpu)
  then have run: "(suspended_step (calls 2 []) demo_entry p1)\<^sup>*\<^sup>* forked_cpu d" ..
  let ?s1 = "forked\<lparr>disastrOS_time := 1\<rparr>"
  have "sched_wf ?s1 forked_lists forked_free p0" using forked_wf(2) by (simp add: sched_wf_def)
  then obtain s where s: "internal_schedule ?s1 = Inr s" "running s = Some p1"
    using schedule_wf [of ?s1 forked_lists forked_free p0 p1 "[]"] sched_wfD(2) by fastforce
  then have "timerInterrupt (kern d) = Inr s" by (simp add: timerInterrupt_def d(2) checked_int_def int32_range_def)
  from forked_child_has_no_context [OF controlled_called [OF n] c(3) r go zero run d(3) this s(2)] d(1) show ?thesis by blast
qed

end
