(* ===== verification/MachineClaims.thy ===== *)
theory MachineClaims
  imports Reachable Scenario
begin

text \<open>
  What holds of every state the machine can get to, by any sequence of ticks and of calls, short of one
  that opens a second message queue.
\<close>

section \<open>A run\<close>

text \<open>The first process forks and sleeps for three ticks; its child runs.\<close>

lemma reachable_started: "reachable started"
  by (rule reachable.start [OF demo_platform_ok started_wf(1)])

lemma reachable_forked: "reachable forked"
  by (rule reachable.step [OF reachable_started machine_step.fork])
    (use call_eqs(2) [of started p0] forked_wf(1) in simp)

lemma reachable_slept: "reachable slept"
  by (rule reachable.step [OF reachable_forked machine_step.sleep [where t = 3]])
    (use call_eqs(6) [of forked p0] slept_wf(1) in simp)

lemma demo_run:
  obtains s where "reachable s" "running s = Some p1" "represents s slept_lists" "timer_pcb (timers s t0) = Some p0"
    "wake_time s t0 = 3" "disastrOS_time s = 0"
  using that [OF reachable_slept] kernel_wf_represents [OF sched_wfD(1) [OF slept_wf(2)]] by simp

section \<open>Invariants\<close>

text \<open>C1: In every state the machine can reach, the lists and the pools are
  well formed, the timers are in order and belong to waiting processes, the status of each process agrees
  with its list, no block of a process is lost, every pointer to a child points to a process of its own,
  process ids are unique, init has no parent and nobody is its own, and the descriptors of resources,
  semaphores and the message queue are linked to what they stand for. Either one process runs, outside of
  all lists, or none does and somebody sleeps.\<close>

theorem machine_invariant:
  assumes "reachable s"
  shows "(\<exists>L F. idle s L F) \<or> (\<exists>L F r. machine_inv s L F r)"
  using reachable_ok [OF assms] by (simp add: machine_ok_def)

theorem machine_invariant_witness: "\<exists>s. running s = Some p1 \<and> (\<exists>F. machine_inv s slept_lists F p1)"
proof -
  obtain s where s: "reachable s" "running s = Some p1" "represents s slept_lists" by (rule demo_run)
  obtain L F r where i: "machine_inv s L F r" using machine_invariant [OF s(1)] s(2) by (auto simp: idle_def)
  have "L = slept_lists" by (rule represents_unique [OF inv_represents(1) [OF i] s(3)])
  moreover have "r = p1" using inv_represents(2) [OF i] s(2) by simp
  ultimately show ?thesis using i s(2) by blast
qed

text \<open>C4: Each of the 1024 blocks for processes is, in every state the machine can reach while something
  runs, in exactly one place: it is free, runs, is ready, waits, or is a zombie. The status tells zombies
  and processes that wait apart, but for those that wait on a semaphore, whose status stays what it was.\<close>

theorem process_in_one_place:
  assumes "reachable s" and "running s = Some r" and "represents s L" and "0 \<le> i" and "i < 1024"
  shows "\<exists>free. pool_inv (pools s KPCB) free \<and>
    length (filter (\<lambda>b. b) [i \<in> set free, Ptr KPCB i = r, Ptr KPCB i \<in> set (L ReadyList),
      Ptr KPCB i \<in> set (L WaitingList), Ptr KPCB i \<in> set (L ZombieList)]) = 1 \<and>
    (Ptr KPCB i \<in> set (L ReadyList) \<longrightarrow> pcb_status (pcbs s (Ptr KPCB i)) \<in> {Ready, Running}) \<and>
    (pcb_status (pcbs s (Ptr KPCB i)) = Waiting \<longleftrightarrow>
      Ptr KPCB i \<in> set (L WaitingList) \<and> Ptr KPCB i \<notin> blocked_on_sem s L) \<and>
    (Ptr KPCB i \<in> set (L ZombieList) \<longrightarrow> pcb_status (pcbs s (Ptr KPCB i)) = Zombie)"
proof -
  obtain F where inv: "machine_inv s L F r" using reachable_lists [OF assms(1-3)] by blast
  note i = machine_invD [OF inv] and d = sched_disjoint [OF machine_invD(1) [OF inv]]
  let ?p = "Ptr KPCB i"
  have "?p \<in> procs L r \<or> i \<in> set (F KPCB)" using i(4) assms(4,5) by (auto simp: places_ok_def)
  moreover have "i \<notin> set (F KPCB)" if "?p \<in> procs L r" using procs_wf(2) [OF i(1) that] by (simp add: live_def)
  ultimately have "length (filter (\<lambda>b. b) [i \<in> set (F KPCB), ?p = r, ?p \<in> set (L ReadyList), ?p \<in> set (L WaitingList),
      ?p \<in> set (L ZombieList)]) = 1"
    using d(1) [of ReadyList] d(1) [of WaitingList] d(1) [of ZombieList] d(2) [of ReadyList WaitingList ?p]
      d(2) [of ReadyList ZombieList ?p] d(2) [of WaitingList ZombieList ?p]
    by (auto simp: procs_def)
  then show ?thesis
    using kernel_wf_pool [OF sched_wfD(1) [OF i(1)], of KPCB] status_okD(2,3) [OF i(3), of ?p] status_okD(4) [OF i(3), of ?p]
    by blast
qed

theorem process_in_one_place_witness:
  "\<exists>s :: kernel. represents s slept_lists \<and> pcb_status (pcbs s p0) = Waiting"
proof -
  obtain s where s: "reachable s" "running s = Some p1" "represents s slept_lists" by (rule demo_run)
  have "p0 \<in> set (slept_lists WaitingList)" "p0 \<notin> blocked_on_sem s slept_lists"
    by (simp_all add: slept_lists_def forked_lists_def blocked_on_sem_def)
  then have "pcb_status (pcbs s p0) = Waiting" using process_in_one_place [OF s, of 0] by auto
  then show ?thesis using s(3) by blast
qed

text \<open>Two different processes of a state the machine can reach never have the same id, dead ones
  included, and every id is below the next to be given out.\<close>

theorem process_ids_unique:
  assumes "reachable s" and "running s = Some r" and "represents s L"
    and "p \<in> procs L r" and "q \<in> procs L r" and "p \<noteq> q"
  shows "pcb_pid (pcbs s p) \<noteq> pcb_pid (pcbs s q) \<and> pcb_pid (pcbs s p) < last_pid s"
proof -
  obtain F where inv: "machine_inv s L F r" using reachable_lists [OF assms(1-3)] by blast
  then show ?thesis using machine_invD(6) [OF inv] assms(4-6) by (auto simp: pids_ok_def dest: inj_onD)
qed

theorem process_ids_unique_witness: "\<exists>s :: kernel. represents s slept_lists \<and> pcb_pid (pcbs s p0) \<noteq> pcb_pid (pcbs s p1)"
proof -
  obtain s where s: "reachable s" "running s = Some p1" "represents s slept_lists" by (rule demo_run)
  have "p0 \<in> procs slept_lists p1" "p1 \<in> procs slept_lists p1" by (simp_all add: procs_def slept_lists_def)
  then have "pcb_pid (pcbs s p0) \<noteq> pcb_pid (pcbs s p1)" using process_ids_unique [OF s, of p0 p1] by simp
  then show ?thesis using s(3) by blast
qed

text \<open>C8: In every state the machine can reach while something runs, whatever is in a list of the kernel is
  a block of the structure that the code casts the items of that list to, and the block is handed out: no
  list leads to a block that was given back.\<close>

theorem lists_hold_allocated_blocks:
  assumes "reachable s" and "running s = Some r" and "represents s L" and "p \<in> set (L h)"
  shows "kind_of p = item_kind h \<and>
    (\<exists>free. pool_inv (pools s (item_kind h)) free \<and> 0 \<le> idx_of p \<and> idx_of p < size_max (pools s (item_kind h)) \<and>
      idx_of p \<notin> set free)"
proof -
  obtain F where inv: "machine_inv s L F r" using reachable_lists [OF assms(1-3)] by blast
  note wf = sched_wfD(1) [OF machine_invD(1) [OF inv]]
  have k: "kind_of p = item_kind h" using kernel_wf_kind [OF wf assms(4)] .
  then show ?thesis using kernel_wf_live [OF wf assms(4)] kernel_wf_pool [OF wf, of "item_kind h"] by (auto simp: live_def)
qed

theorem lists_hold_allocated_blocks_witness: "\<exists>free. pool_inv (pools slept KPCB) free \<and> 0 \<notin> set free"
proof -
  have "represents slept slept_lists" by (rule kernel_wf_represents [OF sched_wfD(1) [OF slept_wf(2)]])
  moreover have "p0 \<in> set (slept_lists WaitingList)" by (simp add: slept_lists_def)
  ultimately show ?thesis using lists_hold_allocated_blocks [OF reachable_slept, of p1 slept_lists p0 WaitingList] by auto
qed

section \<open>What the clock brings about\<close>



text \<open>C14: A sleeping process is woken: after the ticks its timer is set to, or more, it runs or is ready.\<close>

theorem sleeper_is_woken:
  assumes "reachable s" and "running s = Some r" and "represents s L" and "int32_range (disastrOS_time s)"
    and "int32_range (disastrOS_time s + int n)" and "0 < n"
    and "t \<in> set (L TimerList)" and "timer_pcb (timers s t) = Some p" and "wake_time s t \<le> disastrOS_time s + int n"
  shows "\<exists>s' L'. ticks n s = Inr s' \<and> represents s' L' \<and> (running s' = Some p \<or> p \<in> set (L' ReadyList))"
proof -
  obtain F where inv: "machine_inv s L F r" using reachable_lists [OF assms(1-3)] by blast
  have owner: "timer_owner s t = p" using assms(8) by (simp add: timer_owner_def)
  then have W: "p \<in> set (L WaitingList)" using machine_invD(2) [OF inv] assms(7) by (auto simp: timers_ok_def)
  have P: "p \<in> procs L r" using W by (simp add: procs_def)
  have Z: "p \<notin> set (L ZombieList)" using sched_disjoint(2) [OF machine_invD(1) [OF inv] _ W] by simp
  obtain s' L2 F2 r2 where "ticks n s = Inr s'" "machine_inv s' L2 F2 r2" "p = r2 \<or> p \<in> set (L2 ReadyList)"
    using sleeper_wakes [OF inv assms(4,5) P Z _ assms(6)] owner assms(7,9) by blast
  moreover from this(2) have "represents s' L2" "running s' = Some r2" by (rule inv_represents)+
  ultimately show ?thesis by auto
qed

theorem sleeper_is_woken_witness:
  "\<exists>s s' L'. represents s slept_lists \<and> ticks 3 s = Inr s' \<and> represents s' L' \<and> (running s' = Some p0 \<or> p0 \<in> set (L' ReadyList))"
proof -
  obtain s where s: "reachable s" "running s = Some p1" "represents s slept_lists" "timer_pcb (timers s t0) = Some p0"
    "wake_time s t0 = 3" "disastrOS_time s = 0" by (rule demo_run)
  have "t0 \<in> set (slept_lists TimerList)" by (simp add: slept_lists_def)
  from sleeper_is_woken [OF s(1-3) _ _ _ this s(4), of 3] s(3,5,6) show ?thesis by (auto simp: int32_range_def)
qed

text \<open>C15: While nobody sleeps the ticks share the processor out in turn: after \<open>n\<close> ticks the running process
  and those ready are the same ones in the same cyclic order, \<open>n\<close> places on.\<close>

theorem scheduling_is_round_robin:
  assumes "reachable s" and "running s = Some r" and "represents s L" and "int32_range (disastrOS_time s)"
    and "int32_range (disastrOS_time s + int n)" and "L TimerList = []"
  shows "\<exists>s' L' r'. ticks n s = Inr s' \<and> represents s' L' \<and> running s' = Some r' \<and>
    r' # L' ReadyList = rotate n (r # L ReadyList)"
proof -
  obtain F where inv: "machine_inv s L F r" using reachable_lists [OF assms(1-3)] by blast
  obtain s' L2 F2 r2 where "ticks n s = Inr s'" "machine_inv s' L2 F2 r2" "r2 # L2 ReadyList = rotate n (r # L ReadyList)"
    using round_robin [OF inv assms(4-6)] by blast
  moreover from this(2) have "represents s' L2" "running s' = Some r2" by (rule inv_represents)+
  ultimately show ?thesis by blast
qed

theorem scheduling_is_round_robin_witness:
  "\<exists>s' L'. ticks 5 started = Inr s' \<and> represents s' L' \<and> running s' = Some p0"
proof -
  note r = reachable_started
  have rep: "represents started no_lists" using kernel_wf_represents [OF sched_wfD(1) [OF started_wf(2)]] .
  have one: "rotate n [p0] = [p0]" for n by (induction n) auto
  show ?thesis using scheduling_is_round_robin [OF r _ rep, of p0 5] by (auto simp: int32_range_def one)
qed

end
