(* ===== verification/LifeClaims.thy ===== *)
theory LifeClaims
  imports MachineClaims
begin

text \<open>
  The machine seen from afar: every step of it, whatever call is made or tick comes, is one of the moves of
  \<^verbatim>\<open>LifeCycle\<close>, so what holds of the moves holds of the machine.
\<close>

section \<open>Steps are moves\<close>

lemma step_moves:
  assumes "reachable s" and "represents s L" and "machine_step s s'"
  obtains L' where "represents s' L'" "life_step (census s L) (census s' L')"
  using that step_goes_on [OF reachable_ok [OF assms(1)] assms(2,3)] inv_represents(1) kernel_wf_represents
  unfolding goes_on_def idle_def by blast

lemma steps_keep_dead:
  assumes "machine_step\<^sup>*\<^sup>* s s'" and "reachable s" and "represents s L" and "p < next_pid (census s L)" and "p \<notin> alive (census s L)"
  shows "reachable s' \<and> (\<exists>L'. represents s' L' \<and> p < next_pid (census s' L') \<and> p \<notin> alive (census s' L'))"
  using assms
proof (induction rule: rtranclp_induct)
  case (step t u)
  then obtain K where t: "reachable t" "represents t K" "p < next_pid (census t K)" "p \<notin> alive (census t K)" by blast
  obtain K' where "represents u K'" "life_step (census t K) (census u K')" by (rule step_moves [OF t(1,2) step.hyps(2)])
  then show ?case using dead_stay_dead t(3,4) reachable.step [OF t(1) step.hyps(2)] by blast
qed blast

section \<open>A run\<close>

text \<open>The first process forks and waits for its child, which exits: the child is gone at once.\<close>

lemma reachable_waited: "reachable waited" "represents waited waited_lists"
proof -
  show "reachable waited"
    by (rule reachable.step [OF reachable_forked machine_step.wait [where pid = 0 and ret = 0]])
      (use call_eqs(3) [of forked p0] waited_wf(1) in simp)
  show "represents waited waited_lists" by (rule kernel_wf_represents [OF sched_wfD(1) [OF waited_wf(2)]])
qed

lemma waited_census:
  "census waited waited_lists = \<lparr>running_pid = Some 1, ready_pids = [], waiting_pids = [0], zombie_pids = [], next_pid = 2\<rparr>"
proof -
  have "last_pid waited = 2" using waited_wf(3) by (simp add: kernel_frame_def set_status_def upd_pcb_def)
  then show ?thesis by (simp add: census_def pid_of_def)
qed

lemma waited_exit:
  obtains s L where "disastrOS_exit 7 waited = Inr (Inr s)" "reachable s" "represents s L" "running s = Some p0"
    "disastrOS_time s = 0" "census s L = \<lparr>running_pid = Some 0, ready_pids = [], waiting_pids = [], zombie_pids = [], next_pid = 2\<rparr>"
proof -
  let ?s = "calling 4 [7] waited"
  let ?L = "gone_lists ?s p1 p0 pp0 (zombie_lists p1 p0 waited_lists)"
  obtain s F where s: "internal_exit ?s = Inr s" "sched_wf s ?L F p0"
    "kernel_frame (gone_contents p1 p0 (exit_contents p1 p0 (child ?s ` set (waited_lists (PcbChildren p1))) ?s)) s"
    using exit_parent_wf [OF calling_wf [OF waited_wf(2), of 4 "[7]"], of p0 p0 pp0] by (auto simp: waited_simps)
  have call: "disastrOS_exit 7 waited = Inr (Inr s)" using call_eqs(4) [of waited p1] s(1) by simp
  have run: "running s = Some p0" by (rule sched_wfD(2) [OF s(2)])
  have "last_pid s = 2" "disastrOS_time s = 0" "pcb_pid (pcbs s p0) = 0"
    using s(3) waited_wf(3)
    by (simp_all add: kernel_frame_def gone_contents_def store_result_def set_retvalue_def exit_contents_def set_status_def
        send_signal_def upd_pcb_def hang_up_children_def)
  then show ?thesis
    using that [OF call reachable.step [OF reachable_waited(1) machine_step.exit [OF call]] kernel_wf_represents [OF sched_wfD(1) [OF s(2)]] run]
      by (simp add: census_def pid_of_def run gone_lists_def zombie_lists_def reparented_def released_lists_def others_timers_def)
qed

section \<open>Claims\<close>

text \<open>C2: From any state the machine can reach, a step of it is a move in the life of its processes: nothing
  changes, those awake have a turn, a process is created with the next id and is the last of those ready,
  the running one waits or dies and the first one ready or its waiting parent runs, one that waits is
  made ready, a dead one is reaped, or, when none runs, a new first process is made and runs. No step loses a process, makes two or changes an order otherwise.\<close>

theorem machine_refines_life_cycle:
  assumes "reachable s" and "represents s L" and "machine_step s s'"
  shows "\<exists>L'. represents s' L' \<and> life_step (census s L) (census s' L')"
  using step_moves [OF assms] by blast

theorem machine_refines_life_cycle_witness:
  "\<exists>s' L'. disastrOS_exit 7 waited = Inr (Inr s') \<and> represents s' L' \<and> life_step
     \<lparr>running_pid = Some 1, ready_pids = [], waiting_pids = [0], zombie_pids = [], next_pid = 2\<rparr> (census s' L')"
proof -
  obtain s' where "disastrOS_exit 7 waited = Inr (Inr s')" by (rule waited_exit)
  then show ?thesis
    using machine_refines_life_cycle [OF reachable_waited machine_step.exit, of 7 s'] waited_census by auto
qed

text \<open>C7: A process that has died, a zombie or reaped, never runs, is ready or waits again, whatever happens,
  and its id is not given to another one.\<close>

theorem dead_processes_stay_dead:
  assumes "reachable s" and "represents s L" and "machine_step\<^sup>*\<^sup>* s s'" and "represents s' L'"
    and "pid < last_pid s" and "pid \<notin> alive (census s L)"
  shows "pid \<notin> alive (census s' L')"
proof -
  have "pid < next_pid (census s L)" using assms(5) by (simp add: census_def)
  from steps_keep_dead [OF assms(3,1,2) this assms(6)] show ?thesis using represents_unique assms(4) by blast
qed

theorem dead_processes_stay_dead_witness:
  "\<exists>s s' L'. disastrOS_exit 7 waited = Inr (Inr s) \<and> timerInterrupt s = Inr s' \<and> represents s' L' \<and> 1 \<notin> alive (census s' L')"
proof -
  obtain s L where s: "disastrOS_exit 7 waited = Inr (Inr s)" "reachable s" "represents s L" "running s = Some p0"
    "disastrOS_time s = 0" "census s L = \<lparr>running_pid = Some 0, ready_pids = [], waiting_pids = [], zombie_pids = [], next_pid = 2\<rparr>"
    by (rule waited_exit)
  obtain F where inv: "machine_inv s L F p0" using reachable_lists [OF s(2,4,3)] by blast
  have "int32_range (disastrOS_time s + 1)" by (simp add: s(5) int32_range_def)
  from tick_wf [OF inv this] obtain s' L' F' r' where s': "timerInterrupt s = Inr s'" "machine_inv s' L' F' r'" by blast
  note rep = inv_represents(1) [OF s'(2)]
  have "machine_step s s'" by (rule machine_step.tick [OF _ s'(1)]) (simp add: s(4))
  moreover have "last_pid s = 2" using s(6) by (simp add: census_def)
  ultimately show ?thesis
    using dead_processes_stay_dead [OF s(2,3) r_into_rtranclp rep, of 1] s(1,6) s'(1) rep by (auto simp: alive_def)
qed

text \<open>Only the process that runs can die: nobody else becomes a zombie in a step.\<close>

theorem only_the_running_process_dies:
  assumes "reachable s" and "represents s L" and "machine_step s s'" and "represents s' L'"
    and "pid \<in> set (zombie_pids (census s' L'))" and "pid \<notin> set (zombie_pids (census s L))"
  shows "running_pid (census s L) = Some pid"
proof -
  obtain K where k: "represents s' K" "life_step (census s L) (census s' K)" by (rule step_moves [OF assms(1-3)])
  have "K = L'" by (rule represents_unique [OF k(1) assms(4)])
  then show ?thesis using new_zombie k(2) assms(5,6) by blast
qed

end
