(* ===== verification/ScenarioIpc.thy ===== *)
theory ScenarioIpc
  imports Scenario
begin

text \<open>
  Concrete states of processes that share things: a resource opened by the first process, a
  semaphore on which one process waits and that another has opened too, and a message queue before
  and after a message is written.
\<close>

unbundle bit_operations_syntax

declare One_nat_def [simp del]

lemma flags [simp]:
  "(1::int) AND 4 = 0" "(0::int) AND 4 = 0" "(5::int) AND 4 = 4" "(5::int) AND 1 = 1"
  by simp_all

section \<open>A resource\<close>

abbreviation res0 :: ptr where "res0 \<equiv> Ptr KResource 0"
abbreviation d0 :: ptr where "d0 \<equiv> Ptr KDescriptor 0"
abbreviation dp0 :: ptr where "dp0 \<equiv> Ptr KDescriptorPtr 0"

definition opened :: kernel where
  "opened = result_of (internal_openResource (calling 7 [5, 2, 1] started))"

definition opened_state_lists :: "headref \<Rightarrow> ptr list" where
  "opened_state_lists = no_lists(ResourcesList := [res0], PcbDescriptors p0 := [d0], ResDescriptors res0 := [dp0])"

definition opened_state_free :: "kind \<Rightarrow> int list" where
  "opened_state_free = boot_free(KResource := [1..1023], KDescriptor := [1..1023], KDescriptorPtr := [1..1023])"

lemma opened_state:
  "internal_openResource (calling 7 [5, 2, 1] started) = Inr opened"
  "kernel_wf opened opened_state_lists opened_state_free"
  "kernel_frame (opened_contents p0 res0 d0 dp0 ((calling 7 [5, 2, 1] started)
     \<lparr>resources := (resources started)(res0 := \<lparr>res_id = 5, res_type = 2\<rparr>)\<rparr>)) opened"
proof -
  let ?s = "calling 7 [5, 2, 1] started"
  have run: "sched_wf ?s no_lists boot_free p0" by (rule calling_wf [OF started_wf(2)])
  have arg: "int_arg p0 0 ?s = 5" "int_arg p0 1 ?s = 2" "int_arg p0 2 ?s = 1" by (simp_all add: calling_arg)
  have L: "opened_lists p0 res0 d0 dp0 (no_lists(ResDescriptors res0 := [], ResourcesList := [res0])) =
      opened_state_lists"
    by (auto simp: opened_lists_def opened_state_lists_def)
  have "\<exists>s'. internal_openResource ?s = Inr s' \<and> kernel_wf s' opened_state_lists opened_state_free \<and>
      kernel_frame (opened_contents p0 res0 d0 dp0
        (?s\<lparr>resources := (resources started)(res0 := \<lparr>res_id = 5, res_type = 2\<rparr>)\<rparr>)) s'"
    using openResource_create_wf [OF sched_wfD(1-3) [OF run], of 0 "[1..1023]" 0 "[1..1023]" 0 "[1..1023]"]
    by (simp add: arg res_lookup_def int32_range_def L opened_state_free_def)
  then show "internal_openResource ?s = Inr opened" "kernel_wf opened opened_state_lists opened_state_free"
    "kernel_frame (opened_contents p0 res0 d0 dp0
      (?s\<lparr>resources := (resources started)(res0 := \<lparr>res_id = 5, res_type = 2\<rparr>)\<rparr>)) opened"
    by (auto simp: opened_def)
qed

lemma opened_fields [simp]:
  "running opened = Some p0" "res_id (resources opened res0) = 5" "res_type (resources opened res0) = 2"
  "pcb_last_fd (pcbs opened p0) = 1" "retvalue p0 opened = 0"
  "descs opened d0 = \<lparr>desc_pcb = Some p0, desc_object = Some res0, desc_fd = 0, desc_ptr = Some dp0\<rparr>"
  "desc_ptrs opened dp0 = Some d0"
  using opened_state(3) by (simp_all add: kernel_frame_def opened_contents_def retvalue_def)

lemma opened_lists_simps [simp]:
  "opened_state_lists ResourcesList = [res0]" "opened_state_lists (PcbDescriptors p0) = [d0]"
  "opened_state_lists (ResDescriptors res0) = [dp0]"
  by (simp_all add: opened_state_lists_def)

lemma opened_state_free_simps [simp]:
  "opened_state_free KDescriptor = 1 # [2..1023]" "opened_state_free KDescriptorPtr = 1 # [2..1023]"
  by (simp_all add: opened_state_free_def upto_rec1)

text \<open>\<open>kernel_wf\<close> and the fields survive the preparation of a call.\<close>

lemma calling_kernel_wf: "kernel_wf s L F \<Longrightarrow> kernel_wf (calling n xs s) L F"
  by (simp add: calling_def enter_syscall_def upd_pcb_def)

section \<open>A semaphore\<close>

abbreviation sem0 :: ptr where "sem0 \<equiv> Ptr KSemaphore 0"
abbreviation sd0 :: ptr where "sd0 \<equiv> Ptr KSemDescriptor 0"
abbreviation sd1 :: ptr where "sd1 \<equiv> Ptr KSemDescriptor 1"
abbreviation sp0 :: ptr where "sp0 \<equiv> Ptr KSemDescriptorPtr 0"
abbreviation sp1 :: ptr where "sp1 \<equiv> Ptr KSemDescriptorPtr 1"

text \<open>The parent of a ready child creates semaphore 5 with the given count.\<close>

definition sem_made :: "int \<Rightarrow> kernel" where
  "sem_made c = result_of (internal_semOpen (calling 11 [5, 1, c] forked))"

definition sem_lists :: "headref \<Rightarrow> ptr list" where
  "sem_lists = forked_lists(SemaphoresList := [sem0], PcbSemDescriptors p0 := [sd0], SemDescriptors sem0 := [sp0])"

definition sem_free :: "kind \<Rightarrow> int list" where
  "sem_free = forked_free(KSemaphore := [1..1023], KSemDescriptor := [1..1023], KSemDescriptorPtr := [1..1023])"

definition sem_made_contents :: "int \<Rightarrow> kernel" where
  "sem_made_contents c = semopened_contents p0 sem0 sd0 sp0 ((calling 11 [5, 1, c] forked)
     \<lparr>sems := (sems forked)(sem0 := \<lparr>sem_id = 5, sem_count = c\<rparr>)\<rparr>)"

lemma forked_more [simp]:
  "pcb_last_sem_fd (pcbs forked p0) = 0" "pcb_last_sem_fd (pcbs forked p1) = 0"
  "forked_free KSemaphore = 0 # [1..1023]" "forked_free KSemDescriptor = 0 # [1..1023]"
  "forked_free KSemDescriptorPtr = 0 # [1..1023]" "forked_lists SemaphoresList = []"
  "forked_lists (PcbSemDescriptors p) = []" "forked_lists (SemDescriptors p) = []" "forked_lists (SemWaiting p) = []"
  using forked_wf(3)
  by (simp_all add: kernel_frame_def child_contents_def upd_defs new_pcb_def forked_free_def forked_lists_def)

lemma sem_made_state:
  assumes c: "0 \<le> c" "int32_range c"
  shows "internal_semOpen (calling 11 [5, 1, c] forked) = Inr (sem_made c)"
    "sched_wf (sem_made c) sem_lists sem_free p0" "kernel_frame (sem_made_contents c) (sem_made c)"
proof -
  let ?s = "calling 11 [5, 1, c] forked"
  have run: "sched_wf ?s forked_lists forked_free p0" by (rule calling_wf [OF forked_wf(2)])
  have arg: "int_arg p0 0 ?s = 5" "int_arg p0 1 ?s = 1" "int_arg p0 2 ?s = c"
    using c by (simp_all add: calling_arg to_int32_id)
  have L: "semopened_lists p0 sem0 sd0 sp0 (newsem_lists sem0 forked_lists) = sem_lists"
    by (auto simp: semopened_lists_def newsem_lists_def sem_lists_def forked_lists_def)
  have "\<exists>s'. internal_semOpen ?s = Inr s' \<and> sched_wf s' sem_lists sem_free p0 \<and>
      kernel_frame (sem_made_contents c) s'"
    using semOpen_creates [OF run, of 0 "[1..1023]" 0 "[1..1023]" 0 "[1..1023]"]
    by (simp add: arg sem_lookup_def int32_range_def L sem_free_def sem_made_contents_def)
  then show "internal_semOpen ?s = Inr (sem_made c)" "sched_wf (sem_made c) sem_lists sem_free p0"
    "kernel_frame (sem_made_contents c) (sem_made c)"
    by (auto simp: sem_made_def)
qed

lemma sem_made_fields [simp]:
  assumes "0 \<le> c" "int32_range c"
  shows "running (sem_made c) = Some p0" "sem_count (sems (sem_made c) sem0) = c" "sem_id (sems (sem_made c) sem0) = 5"
    "descs (sem_made c) sd0 = \<lparr>desc_pcb = Some p0, desc_object = Some sem0, desc_fd = 0, desc_ptr = Some sp0\<rparr>"
    "pcb_last_sem_fd (pcbs (sem_made c) p0) = 1" "desc_ptrs (sem_made c) sp0 = Some sd0"
    "pcb_last_sem_fd (pcbs (sem_made c) p1) = 0"
  using sem_made_state(3) [OF assms]
  by (simp_all add: kernel_frame_def sem_made_contents_def semopened_contents_def opened_desc_def set_last_sem_fd_def)

lemma sem_lists_simps [simp]:
  "sem_lists SemaphoresList = [sem0]" "sem_lists (PcbSemDescriptors p0) = [sd0]"
  "sem_lists (PcbSemDescriptors p1) = []" "sem_lists (SemDescriptors sem0) = [sp0]"
  "sem_lists (SemWaiting sem0) = []" "sem_lists ReadyList = [p1]" "sem_lists WaitingList = []"
  by (simp_all add: sem_lists_def)

lemma sem_free_simps [simp]:
  "sem_free KSemDescriptor = 1 # [2..1023]" "sem_free KSemDescriptorPtr = 1 # [2..1023]"
  "sem_free KSemaphore = 1 # [2..1023]"
  by (simp_all add: sem_free_def upto_rec1)

lemma sem_made_handle:
  assumes "0 \<le> c" "int32_range c"
  shows "sem_handle (calling n xs (sem_made c)) sem_lists p0 0 = Some (sd0, sem0)"
  using assms by (simp add: sem_handle_def fd_lookup_def)

text \<open>The parent waits on the empty semaphore, and the child runs.\<close>

definition sem_blocked :: kernel where
  "sem_blocked = result_of (internal_semWait (calling 13 [0] (sem_made 0)))"

definition sem_blocked_lists :: "headref \<Rightarrow> ptr list" where
  "sem_blocked_lists = sem_lists(SemDescriptors sem0 := [], SemWaiting sem0 := [sp0], ReadyList := [],
     WaitingList := [p0])"

lemma sem_blocked_state:
  "internal_semWait (calling 13 [0] (sem_made 0)) = Inr sem_blocked"
  "sched_wf sem_blocked sem_blocked_lists sem_free p1"
  "kernel_frame ((calling 13 [0] (sem_made 0))\<lparr>running := Some p1\<rparr>) sem_blocked"
proof -
  let ?s = "calling 13 [0] (sem_made 0)"
  have c: "(0::int) \<le> 0" "int32_range 0" by (simp_all add: int32_range_def)
  have run: "sched_wf ?s sem_lists sem_free p0" by (rule calling_wf [OF sem_made_state(2) [OF c]])
  have arg: "int_arg p0 0 ?s = 0" by (simp add: calling_arg c)
  have L: "blocked_lists p0 sem0 sp0 sem_lists = sem_blocked_lists"
    by (simp add: blocked_lists_def sem_blocked_lists_def)
  have "\<exists>s'. internal_semWait ?s = Inr s' \<and> sched_wf s' sem_blocked_lists sem_free p1 \<and>
      kernel_frame (?s\<lparr>running := Some p1\<rparr>) s'"
    using semWait_blocks [OF run, of sd0 sem0 sp0 p1 "[]"] by (simp add: arg sem_made_handle c L)
  then show "internal_semWait ?s = Inr sem_blocked" "sched_wf sem_blocked sem_blocked_lists sem_free p1"
    "kernel_frame (?s\<lparr>running := Some p1\<rparr>) sem_blocked"
    by (auto simp: sem_blocked_def)
qed

lemma sem_blocked_fields [simp]:
  "running sem_blocked = Some p1" "sem_count (sems sem_blocked sem0) = 0" "sem_id (sems sem_blocked sem0) = 5"
  "descs sem_blocked sd0 = \<lparr>desc_pcb = Some p0, desc_object = Some sem0, desc_fd = 0, desc_ptr = Some sp0\<rparr>"
  "desc_ptrs sem_blocked sp0 = Some sd0" "pcb_last_sem_fd (pcbs sem_blocked p1) = 0"
  using sem_blocked_state(3) by (simp_all add: kernel_frame_def int32_range_def)

lemma sem_blocked_lists_simps [simp]:
  "sem_blocked_lists SemaphoresList = [sem0]" "sem_blocked_lists (PcbSemDescriptors p1) = []"
  "sem_blocked_lists (SemDescriptors sem0) = []" "sem_blocked_lists (SemWaiting sem0) = [sp0]"
  "sem_blocked_lists ReadyList = []" "sem_blocked_lists WaitingList = [p0]"
  by (simp_all add: sem_blocked_lists_def)

text \<open>The child opens the semaphore too.\<close>

definition sem_joined :: kernel where
  "sem_joined = result_of (internal_semOpen (calling 11 [5, 0, 0] sem_blocked))"

definition sem_joined_lists :: "headref \<Rightarrow> ptr list" where
  "sem_joined_lists = sem_blocked_lists(PcbSemDescriptors p1 := [sd1], SemDescriptors sem0 := [sp1])"

definition sem_joined_free :: "kind \<Rightarrow> int list" where
  "sem_joined_free = sem_free(KSemDescriptor := [2..1023], KSemDescriptorPtr := [2..1023])"

lemma sem_joined_state:
  "internal_semOpen (calling 11 [5, 0, 0] sem_blocked) = Inr sem_joined"
  "sched_wf sem_joined sem_joined_lists sem_joined_free p1"
  "kernel_frame (semopened_contents p1 sem0 sd1 sp1 (calling 11 [5, 0, 0] sem_blocked)) sem_joined"
proof -
  let ?s = "calling 11 [5, 0, 0] sem_blocked"
  have run: "sched_wf ?s sem_blocked_lists sem_free p1" by (rule calling_wf [OF sem_blocked_state(2)])
  have arg: "int_arg p1 0 ?s = 5" "int_arg p1 1 ?s = 0" "int_arg p1 2 ?s = 0" by (simp_all add: calling_arg)
  have look: "sem_lookup ?s sem_blocked_lists (int_arg p1 0 ?s) = Some sem0" by (simp add: sem_lookup_def arg)
  have L: "semopened_lists p1 sem0 sd1 sp1 sem_blocked_lists = sem_joined_lists"
    by (simp add: semopened_lists_def sem_joined_lists_def)
  have "\<exists>s'. internal_semOpen ?s = Inr s' \<and> sched_wf s' sem_joined_lists sem_joined_free p1 \<and>
      kernel_frame (semopened_contents p1 sem0 sd1 sp1 ?s) s'"
    using semOpen_existing [OF run look, of 1 "[2..1023]" 1 "[2..1023]"]
    by (simp add: arg int32_range_def L sem_joined_free_def)
  then show "internal_semOpen ?s = Inr sem_joined" "sched_wf sem_joined sem_joined_lists sem_joined_free p1"
    "kernel_frame (semopened_contents p1 sem0 sd1 sp1 ?s) sem_joined"
    by (auto simp: sem_joined_def)
qed

lemma sem_joined_fields [simp]:
  "running sem_joined = Some p1" "sem_count (sems sem_joined sem0) = 0"
  "descs sem_joined sd0 = \<lparr>desc_pcb = Some p0, desc_object = Some sem0, desc_fd = 0, desc_ptr = Some sp0\<rparr>"
  "descs sem_joined sd1 = \<lparr>desc_pcb = Some p1, desc_object = Some sem0, desc_fd = 0, desc_ptr = Some sp1\<rparr>"
  "desc_ptrs sem_joined sp0 = Some sd0" "pcb_last_sem_fd (pcbs sem_joined p1) = 1"
  using sem_joined_state(3)
  by (simp_all add: kernel_frame_def semopened_contents_def opened_desc_def set_last_sem_fd_def)

lemma sem_joined_lists_simps [simp]:
  "sem_joined_lists SemaphoresList = [sem0]" "sem_joined_lists (PcbSemDescriptors p1) = [sd1]"
  "sem_joined_lists (SemDescriptors sem0) = [sp1]" "sem_joined_lists (SemWaiting sem0) = [sp0]"
  "sem_joined_lists ReadyList = []" "sem_joined_lists WaitingList = [p0]"
  by (simp_all add: sem_joined_lists_def)

lemma sem_joined_handle: "sem_handle (calling n xs sem_joined) sem_joined_lists p1 0 = Some (sd1, sem0)"
  by (simp add: sem_handle_def fd_lookup_def)

section \<open>A message queue\<close>

abbreviation mq0 :: ptr where "mq0 \<equiv> Ptr KMessageQueue 0"
abbreviation q0 :: ptr where "q0 \<equiv> Ptr KQueue 0"
abbreviation q1 :: ptr where "q1 \<equiv> Ptr KQueue 1"
abbreviation md0 :: ptr where "md0 \<equiv> Ptr KMQDescriptor 0"
abbreviation mp0 :: ptr where "mp0 \<equiv> Ptr KMQDescriptorPtr 0"
abbreviation m0 :: ptr where "m0 \<equiv> Ptr KMessage 0"

text \<open>The first process creates message queue 5, with the priorities 0 and 1.\<close>

definition mq_made :: kernel where
  "mq_made = result_of (internal_mqOpen (calling 15 [5, 1, 1] started))"

definition mq_lists :: "headref \<Rightarrow> ptr list" where
  "mq_lists = no_lists(MessageQueuesList := [mq0], MqQueues mq0 := [q1, q0], PcbMqDescriptors p0 := [md0],
     MqDescriptors mq0 := [mp0])"

definition mq_free :: "kind \<Rightarrow> int list" where
  "mq_free = boot_free(KMessageQueue := [1..15], KQueue := [2..63], KMQDescriptor := [1..1023],
     KMQDescriptorPtr := [1..1023])"

definition mq_made_contents :: kernel where
  "mq_made_contents = opened_desc pcb_last_mq_fd set_last_mq_fd p0 mq0 md0 mp0
     (newmq_contents mq0 [0, 1] 5 1 (calling 15 [5, 1, 1] started))"

lemma mq_made_state:
  "internal_mqOpen (calling 15 [5, 1, 1] started) = Inr mq_made" "sched_wf mq_made mq_lists mq_free p0"
  "kernel_frame mq_made_contents mq_made"
proof -
  let ?s = "calling 15 [5, 1, 1] started"
  have run: "sched_wf ?s no_lists boot_free p0" by (rule calling_wf [OF started_wf(2)])
  have arg: "int_arg p0 0 ?s = 5" "int_arg p0 1 ?s = 1" "int_arg p0 2 ?s = 1" by (simp_all add: calling_arg)
  have F: "boot_free KQueue = [0, 1] @ [2..63]" by (simp add: upto_rec1)
  have L: "mqopened_lists p0 mq0 md0 mp0 (newmq_lists mq0 [0, 1] no_lists) = mq_lists"
    by (auto simp: mqopened_lists_def newmq_lists_def mq_lists_def)
  have "\<exists>s'. internal_mqOpen ?s = Inr s' \<and> sched_wf s' mq_lists mq_free p0 \<and> kernel_frame mq_made_contents s'"
    using mqOpen_creates_first [OF run, of 0 "[1..15]" "[0, 1]" "[2..63]" 0 "[1..1023]" 0 "[1..1023]"] F
    by (simp add: arg int32_range_def L mq_free_def mq_made_contents_def)
  then show "internal_mqOpen ?s = Inr mq_made" "sched_wf mq_made mq_lists mq_free p0"
    "kernel_frame mq_made_contents mq_made"
    by (auto simp: mq_made_def)
qed

lemma mq_made_fields [simp]:
  "running mq_made = Some p0" "mqs mq_made mq0 = \<lparr>mq_id = 5, mq_priority = 1, mq_num_messages = 0\<rparr>"
  "queue_priority mq_made q0 = 0" "queue_priority mq_made q1 = 1"
  "descs mq_made md0 = \<lparr>desc_pcb = Some p0, desc_object = Some mq0, desc_fd = 0, desc_ptr = Some mp0\<rparr>"
  "pcb_last_mq_fd (pcbs mq_made p0) = 1" "desc_ptrs mq_made mp0 = Some md0"
  using mq_made_state(3)
  by (simp_all add: kernel_frame_def mq_made_contents_def opened_desc_def newmq_contents_def set_last_mq_fd_def)

lemma mq_lists_simps [simp]:
  "mq_lists MessageQueuesList = [mq0]" "mq_lists (MqQueues mq0) = [q1, q0]" "mq_lists (PcbMqDescriptors p0) = [md0]"
  "mq_lists (MqDescriptors mq0) = [mp0]" "mq_lists (QueueMessages q) = []" "mq_lists ReadyList = []"
  by (simp_all add: mq_lists_def)

lemma mq_free_simps [simp]:
  "mq_free KMessage = 0 # [1..127]" "mq_free KMQDescriptor = 1 # [2..1023]" "mq_free KMQDescriptorPtr = 1 # [2..1023]"
  by (simp_all add: mq_free_def upto_rec1)

text \<open>The memory of the process holds zeros, so every text in it ends.\<close>

lemma mq_made_memory: "umem mq_made = (\<lambda>_. 0)"
  using mq_made_state(3) started_wf(3)
  by (simp add: kernel_frame_def mq_made_contents_def opened_desc_def newmq_contents_def boot_contents_def reset_kernel_def)

lemma mq_made_readable: "a \<noteq> 0 \<Longrightarrow> text_ends (calling n xs mq_made) a"
  by (simp add: text_ends_def mq_made_memory)

text \<open>It writes a message of three characters, at address 100, with the given priority.\<close>

definition mq_written :: "int \<Rightarrow> kernel" where
  "mq_written p = result_of (internal_mqWrite (calling 18 [0, 100, 3, p] mq_made))"

definition written_queue :: "int \<Rightarrow> ptr" where
  "written_queue p = (if p = 0 then q0 else q1)"

lemma mq_written_state:
  assumes p: "int32_range p"
  shows "internal_mqWrite (calling 18 [0, 100, 3, p] mq_made) = Inr (mq_written p)"
    "sched_wf (mq_written p) (mq_lists(QueueMessages (written_queue p) := [m0])) (mq_free(KMessage := [1..127])) p0"
    "kernel_frame (write_contents p0 mq0 m0 100 3 (if p = 0 then 0 else 1) (calling 18 [0, 100, 3, p] mq_made))
      (mq_written p)"
proof -
  let ?s = "calling 18 [0, 100, 3, p] mq_made" and ?p = "if p = 0 then 0 else 1 :: int"
  have run: "sched_wf ?s mq_lists mq_free p0" by (rule calling_wf [OF mq_made_state(2)])
  have arg: "int_arg p0 0 ?s = 0" "syscall_arg p0 1 ?s = 100" "int_arg p0 2 ?s = 3" "int_arg p0 3 ?s = p"
    using p by (simp_all add: calling_arg to_int32_id)
  have e: "effective_priority 1 p = ?p" by (auto simp: effective_priority_def)
  have h: "mq_handle ?s mq_lists p0 0 = Some (md0, mq0)" by (simp add: mq_handle_def fd_lookup_def)
  have q: "queue_lookup ?s mq_lists mq0 ?p = Some (written_queue p)"
    by (simp add: queue_lookup_def written_queue_def)
  have readable: "text_ends ?s 100" by (rule mq_made_readable) simp
  have "\<exists>s'. internal_mqWrite ?s = Inr s' \<and>
      sched_wf s' (mq_lists(QueueMessages (written_queue p) := [m0])) (mq_free(KMessage := [1..127])) p0 \<and>
      kernel_frame (write_contents p0 mq0 m0 100 3 ?p ?s) s'"
    using mqWrite_wf [OF run, of md0 mq0 "written_queue p" 0 "[1..127]"]
    by (simp add: arg h e q readable mq_fd_bad_def)
  then show "internal_mqWrite ?s = Inr (mq_written p)"
    "sched_wf (mq_written p) (mq_lists(QueueMessages (written_queue p) := [m0])) (mq_free(KMessage := [1..127])) p0"
    "kernel_frame (write_contents p0 mq0 m0 100 3 ?p ?s) (mq_written p)"
    by (auto simp: mq_written_def)
qed

lemma mq_written_fields [simp]:
  assumes "int32_range p"
  shows "running (mq_written p) = Some p0"
    "mqs (mq_written p) mq0 = \<lparr>mq_id = 5, mq_priority = 1, mq_num_messages = 1\<rparr>"
    "queue_priority (mq_written p) q0 = 0" "queue_priority (mq_written p) q1 = 1"
    "descs (mq_written p) md0 = \<lparr>desc_pcb = Some p0, desc_object = Some mq0, desc_fd = 0, desc_ptr = Some mp0\<rparr>"
    "msgs (mq_written p) m0 = \<lparr>msg_text_length = 3, msg_text = 100\<rparr>"
  using mq_written_state(3) [OF assms]
  by (simp_all add: kernel_frame_def write_contents_def set_retvalue_def upd_mq_def upd_msg_def upd_pcb_def)

lemma mq_written_readable:
  assumes "int32_range p" and "a \<noteq> 0"
  shows "text_ends (calling n xs (mq_written p)) a"
  using mq_written_state(3) [OF assms(1)] assms(2)
  by (simp add: text_ends_def kernel_frame_def write_contents_def upd_defs mq_made_memory)

lemma mq_written_handle:
  assumes "int32_range p"
  shows "mq_handle (calling n xs (mq_written p)) (mq_lists(QueueMessages q := ms)) p0 0 = Some (md0, mq0)"
  using assms by (simp add: mq_handle_def fd_lookup_def)

end
