(* ===== verification/MachineIpcClaims.thy ===== *)
theory MachineIpcClaims
  imports MachineClaims ScenarioIpc
begin

text \<open>
  Resources and semaphores in every state the machine can get to: descriptors always lead to their
  objects and back, closing and destroying never fail, and a process that waits on a semaphore is woken
  by a post and runs.
\<close>

section \<open>A run\<close>

text \<open>The first process opens a resource.\<close>

lemma reachable_opened: "reachable opened"
  by (rule reachable.step [OF reachable_started machine_step.openResource [where rid = 5 and rtype = 2 and mode = 1]])
    (use call_eqs(7) [of started p0] opened_state(1) in simp)

lemma represents_opened: "represents opened opened_state_lists"
  by (rule kernel_wf_represents [OF opened_state(2)])

text \<open>Or it makes a semaphore that is zero and waits on it; its child opens the semaphore too.\<close>

lemma reachable_sem_made: "reachable (sem_made 0)"
  by (rule reachable.step [OF reachable_forked machine_step.semOpen [where sid = 5 and mode = 1 and count = 0]])
    (use call_eqs(11) [of forked p0] sem_made_state(1) [of 0] in \<open>simp add: int32_range_def\<close>)

lemma reachable_sem_blocked: "reachable sem_blocked"
  by (rule reachable.step [OF reachable_sem_made machine_step.semWait [where fd = 0]])
    (use call_eqs(13) [of "sem_made 0" p0] sem_blocked_state(1) in \<open>simp add: int32_range_def\<close>)

lemma reachable_sem_joined: "reachable sem_joined"
  by (rule reachable.step [OF reachable_sem_blocked machine_step.semOpen [where sid = 5 and mode = 0 and count = 0]])
    (use call_eqs(11) [of sem_blocked p1] sem_joined_state(1) in simp)

lemma represents_sem:
  "represents (sem_made 0) sem_lists" "represents sem_joined sem_joined_lists"
  using sched_wfD(1) [OF sem_made_state(2) [of 0]] sched_wfD(1) [OF sem_joined_state(2)] kernel_wf_represents
  by (auto simp: int32_range_def)

lemma sem_handle_calling: "sem_handle (calling n xs s) L r fd = sem_handle s L r fd"
  by (simp add: sem_handle_def fd_lookup_def cong: option.case_cong)

section \<open>Resources\<close>

text \<open>C18: In every state the machine can reach each descriptor a process has open names a resource of the
  system, and its pointer is in the list of that resource and leads back to it.\<close>

theorem resource_descriptors_linked:
  assumes "reachable s" and "running s = Some r" and "represents s L" and "d \<in> set (L (PcbDescriptors q))"
  shows "\<exists>res dp. desc_object (descs s d) = Some res \<and> res \<in> set (L ResourcesList) \<and>
    desc_ptr (descs s d) = Some dp \<and> dp \<in> set (L (ResDescriptors res)) \<and> desc_ptrs s dp = Some d"
proof -
  obtain F where inv: "machine_inv s L F r" using reachable_lists [OF assms(1-3)] by blast
  note ok = machine_invD(9) [OF inv]
  obtain res dp where l: "desc_linked s L d res dp" using descriptors_okD(1) [OF ok assms(4)] by blast
  then have "res \<in> set (L ResourcesList)" using descriptors_okD(2) [OF ok, of res] by (force simp: desc_linked_def)
  then show ?thesis using l by (auto simp: desc_linked_def)
qed

theorem resource_descriptors_linked_witness:
  "\<exists>res dp. desc_object (descs opened d0) = Some res \<and> res \<in> set (opened_state_lists ResourcesList) \<and>
    desc_ptrs opened dp = Some d0"
  using resource_descriptors_linked [OF reachable_opened _ represents_opened, of p0 d0 p0] by (auto simp del: opened_fields(7))

text \<open>C19: Closing a resource and destroying one never fail, whatever the arguments: from every state the
  machine can reach they return, with 0 or with the error for a descriptor the caller does not have, a
  resource that does not exist, or one that is in use.\<close>

theorem close_and_destroy_never_fail:
  assumes "reachable s" and "running s = Some r" and "represents s L"
  shows "(\<exists>s'. disastrOS_closeResource fd s = Inr (Inr s') \<and> reachable s' \<and>
      retvalue r s' = (if fd_lookup s (L (PcbDescriptors r)) (to_int32 fd) = None then DSOS_ERESOURCECLOSE else 0)) \<and>
    (\<exists>s'. disastrOS_destroyResource rid s = Inr (Inr s') \<and> reachable s' \<and>
      retvalue r s' = (case res_lookup s L (to_int32 rid) of None \<Rightarrow> DSOS_ERESOURCECLOSE
        | Some res \<Rightarrow> if L (ResDescriptors res) = [] then 0 else DSOS_ERESOURCEINUSE))"
proof -
  obtain F where inv: "machine_inv s L F r" using reachable_lists [OF assms] by blast
  note k = sched_wfD(2,3) [OF machine_invD(1) [OF inv]]
  have arg: "int_arg r 0 (calling n [x] s) = to_int32 x" for n x using calling_arg(1) [OF assms(2), of 0 "[x]"] by simp
  have look: "fd_lookup (calling n xs s) ds = fd_lookup s ds" "res_lookup (calling n xs s) L = res_lookup s L" for n xs ds
    by (simp_all add: fd_lookup_def res_lookup_def fun_eq_iff)
  obtain c where c: "disastrOS_closeResource fd s = Inr (Inr c)"
    "retvalue r c = (if fd_lookup s (L (PcbDescriptors r)) (to_int32 fd) = None then DSOS_ERESOURCECLOSE else 0)"
    using inv_closeResource [OF inv_calling [OF inv, of 8 "[fd]"]] call_eqs(8) [OF k, of fd] unfolding arg look by auto
  obtain d where d: "disastrOS_destroyResource rid s = Inr (Inr d)"
    "retvalue r d = (case res_lookup s L (to_int32 rid) of None \<Rightarrow> DSOS_ERESOURCECLOSE
      | Some res \<Rightarrow> if L (ResDescriptors res) = [] then 0 else DSOS_ERESOURCEINUSE)"
    using inv_destroyResource [OF inv_calling [OF inv, of 9 "[rid]"]] call_eqs(9) [OF k, of rid] unfolding arg look by auto
  show ?thesis
    using c d reachable.step [OF assms(1) machine_step.closeResource [OF c(1)]]
      reachable.step [OF assms(1) machine_step.destroyResource [OF d(1)]]
    by blast
qed

theorem close_and_destroy_never_fail_witness:
  "\<exists>s'. disastrOS_destroyResource 5 opened = Inr (Inr s') \<and> retvalue p0 s' = DSOS_ERESOURCEINUSE"
  using close_and_destroy_never_fail [OF reachable_opened _ represents_opened, of p0 0 5] by (auto simp: res_lookup_def)

section \<open>Semaphores\<close>

text \<open>C17: In every state the machine can reach, what waits in the queue of a semaphore is the pointer to
  an open descriptor of a process that is in the waiting list, has no timer, and waits on nothing else.\<close>

theorem semaphore_waiters:
  assumes "reachable s" and "running s = Some r" and "represents s L" and "dp \<in> set (L (SemWaiting sem))"
  shows "\<exists>d w. desc_ptrs s dp = Some d \<and> desc_pcb (descs s d) = Some w \<and> desc_object (descs s d) = Some sem \<and>
    d \<in> set (L (PcbSemDescriptors w)) \<and> w \<in> set (L WaitingList) \<and> (\<forall>t\<in>set (L TimerList). timer_pcb (timers s t) \<noteq> Some w) \<and>
    (\<forall>sem' dp' d'. dp' \<in> set (L (SemWaiting sem')) \<and> desc_ptrs s dp' = Some d' \<and> desc_pcb (descs s d') = Some w \<longrightarrow> dp' = dp)"
proof -
  obtain F where inv: "machine_inv s L F r" using reachable_lists [OF assms(1-3)] by blast
  note ok = machine_invD(10) [OF inv]
  obtain w d where w: "d \<in> set (L (PcbSemDescriptors w))" "semdesc_linked s L w d sem dp" "sem_waits s L d"
    "w \<in> blocked_on_sem s L" "w \<in> set (L WaitingList)"
    by (rule waiter [OF inv assms(4)])
  have "timer_pcb (timers s t) \<noteq> Some w" if "t \<in> set (L TimerList)" for t
    using machine_invD(8) [OF inv] that w(4) by (auto simp: sleepers_ok_def timer_owner_def)
  moreover have "dp' = dp"
    if x: "dp' \<in> set (L (SemWaiting sem'))" "desc_ptrs s dp' = Some d'" "desc_pcb (descs s d') = Some w" for sem' dp' d'
  proof -
    obtain v e where v: "e \<in> set (L (PcbSemDescriptors v))" "semdesc_linked s L v e sem' dp'" "sem_waits s L e"
      by (rule waiter [OF inv x(1)])
    then have "e = d'" "v = w" using x(2,3) by (simp_all add: semdesc_linked_def)
    then have "e = d" using semaphores_okD(3) [OF ok] v(1,3) w(1,3) by blast
    then show ?thesis using v(2) w(2) by (simp add: semdesc_linked_def)
  qed
  ultimately show ?thesis using w(1,2,5) unfolding semdesc_linked_def by blast
qed

theorem semaphore_waiters_witness:
  "\<exists>w. desc_pcb (descs sem_joined sd0) = Some w \<and> w \<in> set (sem_joined_lists WaitingList)"
  using semaphore_waiters [OF reachable_sem_joined _ represents_sem(2), of p1 sp0 sem0] by auto

text \<open>A post on a semaphore some process waits on wakes the one that waits longest: from every state
  the machine can reach it returns, with that process last among those ready and the next one first in the
  queue; the count stays.\<close>

theorem post_wakes_longest_waiting:
  assumes "reachable s" and "running s = Some r" and "represents s L"
    and "sem_handle s L r (to_int32 fd) = Some (d, sem)" and "0 \<le> sem_count (sems s sem)"
    and "int32_range (sem_count (sems s sem) + 1)" and "L (SemWaiting sem) = dp # dps"
  shows "\<exists>s' L' e w. disastrOS_semPost fd s = Inr (Inr s') \<and> reachable s' \<and> running s' = Some r \<and> represents s' L' \<and>
    desc_ptrs s dp = Some e \<and> desc_pcb (descs s e) = Some w \<and> w \<in> set (L WaitingList) \<and>
    L' ReadyList = L ReadyList @ [w] \<and> L' WaitingList = remove1 w (L WaitingList) \<and> L' (SemWaiting sem) = dps \<and>
    L' (SemDescriptors sem) = L (SemDescriptors sem) @ [dp] \<and> L' TimerList = L TimerList \<and>
    disastrOS_time s' = disastrOS_time s \<and> sem_count (sems s' sem) = sem_count (sems s sem)"
proof -
  obtain F where inv: "machine_inv s L F r" using reachable_lists [OF assms(1-3)] by blast
  note k = sched_wfD(2,3) [OF machine_invD(1) [OF inv]]
  let ?s = "calling 14 [fd] s"
  have inv': "machine_inv ?s L F r" by (rule inv_calling [OF inv])
  have "int_arg r 0 ?s = to_int32 fd" using calling_arg(1) [OF assms(2), of 0 "[fd]"] by simp
  then have h: "sem_handle ?s L r (int_arg r 0 ?s) = Some (d, sem)" using assms(4) by (simp add: sem_handle_calling)
  obtain s' w e where w: "internal_semPost ?s = Inr s'" "machine_inv s' (posted_lists sem dp w L) F r" "w \<in> blocked_on_sem ?s L"
    "semdesc_linked ?s L w e sem dp" "disastrOS_time s' = disastrOS_time ?s" "sems s' = sems ?s"
    using inv_semPost_wakes [OF inv' h _ _ assms(7)] assms(5,6) by auto
  have call: "disastrOS_semPost fd s = Inr (Inr s')" using call_eqs(14) [OF k, of fd] w(1) by simp
  moreover have "reachable s'" by (rule reachable.step [OF assms(1) machine_step.semPost [OF call]])
  moreover have "w \<in> set (L WaitingList)" by (rule status_okD(5) [OF machine_invD(3) [OF inv'] w(3)])
  ultimately show ?thesis
    using inv_represents [OF w(2)] w(4-6) assms(7)
    by (intro exI [of _ s'] exI [of _ "posted_lists sem dp w L"] exI [of _ e] exI [of _ w])
      (simp add: posted_lists_def semdesc_linked_def)
qed

theorem post_wakes_longest_waiting_witness:
  "\<exists>s' L'. disastrOS_semPost 0 sem_joined = Inr (Inr s') \<and> represents s' L' \<and> L' ReadyList = [p0] \<and> L' WaitingList = []"
proof -
  have "sem_handle sem_joined sem_joined_lists p1 (to_int32 0) = Some (sd1, sem0)"
    by (simp add: sem_handle_def fd_lookup_def)
  from post_wakes_longest_waiting [OF reachable_sem_joined _ represents_sem(2) this, of sp0 "[]"]
  show ?thesis by (auto simp: int32_range_def)
qed

text \<open>C20: When a semaphore some process waits on is posted, and its count is not negative, the process that is
  first in the queue gets to run: while nobody sleeps, after as many ticks as there are ready processes, and
  one more. A semaphore may also be opened with a negative count; then the post wakes nobody, it adds one to the
  count and leaves all lists as they are. (The count and the clock are supposed not to be at the end of their
  range.)\<close>

theorem woken_waiter_runs:
  assumes "reachable s" and "running s = Some r" and "represents s L"
    and "sem_handle s L r (to_int32 fd) = Some (d, sem)"
    and "int32_range (sem_count (sems s sem) + 1)" and "L (SemWaiting sem) = dp # dps"
    and "L TimerList = []" and "int32_range (disastrOS_time s)"
    and "int32_range (disastrOS_time s + int (length (L ReadyList) + 1))"
  shows "\<exists>s'. disastrOS_semPost fd s = Inr (Inr s') \<and>
    (if 0 \<le> sem_count (sems s sem)
     then \<exists>s'' e. ticks (length (L ReadyList) + 1) s' = Inr s'' \<and> desc_ptrs s dp = Some e \<and> running s'' = desc_pcb (descs s e)
     else represents s' L \<and> sem_count (sems s' sem) = sem_count (sems s sem) + 1)"
proof -
  obtain F where inv: "machine_inv s L F r" using reachable_lists [OF assms(1-3)] by blast
  note k = sched_wfD(2,3) [OF machine_invD(1) [OF inv]]
  let ?s = "calling 14 [fd] s" and ?n = "length (L ReadyList) + 1"
  have inv': "machine_inv ?s L F r" by (rule inv_calling [OF inv])
  have "int_arg r 0 ?s = to_int32 fd" using calling_arg(1) [OF assms(2), of 0 "[fd]"] by simp
  then have h: "sem_handle ?s L r (int_arg r 0 ?s) = Some (d, sem)" using assms(4) by (simp add: sem_handle_calling)
  show ?thesis
  proof (cases "0 \<le> sem_count (sems s sem)")
    case True
    obtain s' w e where w: "internal_semPost ?s = Inr s'" "machine_inv s' (posted_lists sem dp w L) F r"
      "semdesc_linked ?s L w e sem dp" "disastrOS_time s' = disastrOS_time ?s"
      using inv_semPost_wakes [OF inv' h _ _ assms(6)] assms(5) True by auto
    have "int32_range (disastrOS_time s')" "int32_range (disastrOS_time s' + int ?n)" "posted_lists sem dp w L TimerList = []"
      using assms(7-9) w(4) by (simp_all add: posted_lists_def)
    from round_robin [OF w(2) this] obtain s2 L2 F2 r2 where s2: "ticks ?n s' = Inr s2" "machine_inv s2 L2 F2 r2"
      "r2 # L2 ReadyList = rotate ?n (r # L ReadyList @ [w])"
      by (auto simp: posted_lists_def)
    have "rotate ?n ((r # L ReadyList) @ [w]) = [w] @ (r # L ReadyList)"
      using rotate_append [of "r # L ReadyList" "[w]"] by simp
    then have "running s2 = Some w" using s2(3) inv_represents(2) [OF s2(2)] by simp
    moreover have "disastrOS_semPost fd s = Inr (Inr s')" using call_eqs(14) [OF k, of fd] w(1) by simp
    ultimately show ?thesis using s2(1) w(3) True by (auto simp: semdesc_linked_def)
  next
    case False
    let ?s' = "set_retvalue r 0 (upd_sem sem (\<lambda>c. c\<lparr>sem_count := sem_count (sems s sem) + 1\<rparr>) ?s)"
    obtain dq where "kind_of sem = KSemaphore" by (rule handle_linked [OF inv' h])
    then have "internal_semPost ?s = Inr ?s'"
      using semPost_counts [OF machine_invD(1) [OF inv'] h] assms(5) False by simp
    then have "disastrOS_semPost fd s = Inr (Inr ?s')" using call_eqs(14) [OF k, of fd] by simp
    moreover have "represents ?s' L"
      using kernel_wf_represents [OF sched_wfD(1) [OF machine_invD(1) [OF inv']]] by (simp add: represents_def upd_defs)
    ultimately show ?thesis using False by (simp add: upd_defs)
  qed
qed

theorem woken_waiter_runs_witness:
  "\<exists>s' s''. disastrOS_semPost 0 sem_joined = Inr (Inr s') \<and> ticks 1 s' = Inr s'' \<and> running s'' = Some p0"
proof -
  have h: "sem_handle sem_joined sem_joined_lists p1 (to_int32 0) = Some (sd1, sem0)"
    by (simp add: sem_handle_def fd_lookup_def)
  have t: "sem_joined_lists TimerList = []"
    by (simp add: sem_joined_lists_def sem_blocked_lists_def sem_lists_def)
  have "disastrOS_time (sem_made 0) = 0"
    using sem_made_state(3) [of 0]
    by (simp add: int32_range_def kernel_frame_def sem_made_contents_def semopened_contents_def opened_desc_def)
  then have "disastrOS_time sem_joined = 0"
    using sem_blocked_state(3) sem_joined_state(3) by (simp add: kernel_frame_def semopened_contents_def opened_desc_def)
  note t = t this
  from woken_waiter_runs [OF reachable_sem_joined _ represents_sem(2) h _ _ t(1), of sp0 "[]"] t(2)
  show ?thesis by (auto simp: int32_range_def)
qed

text \<open>Waiting on a semaphore fails only when it cannot work: from a state the machine can reach the
  call returns unless the semaphore is used up and no other process is ready, and then null is
  dereferenced.\<close>

theorem semaphore_wait_fails_alone:
  assumes "reachable s" and "running s = Some r" and "represents s L"
  shows "if L ReadyList = [] \<and> (\<exists>d sem. sem_handle s L r (to_int32 fd) = Some (d, sem) \<and> sem_count (sems s sem) \<le> 0)
    then disastrOS_semWait fd s = Inl NullDeref else \<exists>s'. disastrOS_semWait fd s = Inr (Inr s') \<and> reachable s'"
proof -
  obtain F where inv: "machine_inv s L F r" using reachable_lists [OF assms] by blast
  note k = sched_wfD(2,3) [OF machine_invD(1) [OF inv]]
  let ?s = "calling 13 [fd] s"
  have inv': "machine_inv ?s L F r" by (rule inv_calling [OF inv])
  note run = machine_invD(1) [OF inv']
  have arg: "int_arg r 0 ?s = to_int32 fd" using calling_arg(1) [OF assms(2), of 0 "[fd]"] by simp
  have look: "sem_handle ?s L r (int_arg r 0 ?s) = sem_handle s L r (to_int32 fd)"
    unfolding arg by (rule sem_handle_calling)
  have call: "disastrOS_semWait fd s = andThen (internal_semWait ?s) (\<lambda>s'. Inr (Inr s'))" by (rule call_eqs(13) [OF k])
  have ok: "\<exists>s'. disastrOS_semWait fd s = Inr (Inr s') \<and> reachable s'" if "internal_semWait ?s = Inr s'" for s'
    using reachable.step [OF assms(1) machine_step.semWait] call that by auto
  show ?thesis
  proof (cases "sem_handle s L r (to_int32 fd)")
    case None
    then show ?thesis using ok [OF semWait_bad_fd [OF run]] look by simp
  next
    case (Some h)
    then obtain d sem where h: "sem_handle s L r (to_int32 fd) = Some (d, sem)" by (cases h) auto
    then have h': "sem_handle ?s L r (int_arg r 0 ?s) = Some (d, sem)" by (simp add: look)
    obtain dp where dp: "dp \<in> set (L (SemDescriptors sem))" "desc_ptr (descs ?s d) = Some dp" "kind_of sem = KSemaphore"
      by (rule handle_linked [OF inv' h'])
    show ?thesis
    proof (cases "sem_count (sems s sem) > 0")
      case True
      then show ?thesis using ok [OF semWait_takes [OF run h' dp(3)]] h by simp
    next
      case False
      then have none: "sem_count (sems ?s sem) \<le> 0" by simp
      show ?thesis
      proof (cases "L ReadyList")
        case Nil
        then show ?thesis using semWait_stuck [OF run h' dp(3) none dp(2,1) Nil] call none h by simp
      next
        case (Cons p q)
        then show ?thesis using inv_semWait_blocks [OF inv' h' none Cons] ok by auto
      qed
    qed
  qed
qed

theorem semaphore_wait_fails_alone_witness: "disastrOS_semWait 0 sem_joined = Inl NullDeref"
proof -
  have "sem_handle sem_joined sem_joined_lists p1 (to_int32 0) = Some (sd1, sem0)"
    by (simp add: sem_handle_def fd_lookup_def)
  then show ?thesis using semaphore_wait_fails_alone [OF reachable_sem_joined _ represents_sem(2), of p1 0] by simp
qed

end
