(* ===== verification/MachineMqClaims.thy ===== *)
theory MachineMqClaims
  imports MachineClaims ScenarioIpc
begin

text \<open>
  What holds of the message queue of every state the machine can get to, and what the calls on
  message queues do from there.
\<close>

section \<open>A run\<close>

lemma represents_started: "represents started no_lists"
  by (rule kernel_wf_represents [OF sched_wfD(1) [OF started_wf(2)]])

lemma reachable_mq_made: "reachable mq_made"
proof (rule reachable.step [OF reachable_started machine_step.mqOpen [where mid = 5 and flags = 1 and priority = 1]])
  show "\<not> adds_second_queue (to_int32 5) (to_int32 1) started"
    by (simp add: adds_second_queue_def wf_list_first [OF sched_wfD(1) [OF started_wf(2)]])
  show "disastrOS_mqOpen 5 1 1 started = Inr (Inr mq_made)" using call_eqs(15) [of started p0] mq_made_state(1) by simp
qed

lemma reachable_mq_written:
  assumes "int32_range p"
  shows "reachable (mq_written p)"
  by (rule reachable.step [OF reachable_mq_made machine_step.mqWrite [where fd = 0 and buf = 100 and buf_size = 3 and prio = p]])
    (use call_eqs(18) [of mq_made p0] mq_written_state(1) [OF assms] in simp)

lemma represents_mq_written:
  "int32_range p \<Longrightarrow> represents (mq_written p) (mq_lists(QueueMessages (written_queue p) := [m0]))"
  by (rule kernel_wf_represents [OF sched_wfD(1) [OF mq_written_state(2)]])

section \<open>Properties\<close>

text \<open>C21: In every state the machine can reach while something runs, as long as no second message queue was
  asked for, the message queue has exactly one queue for each priority from its own down to 0; its counter
  is at least the number of messages there are and at most 128; every message is in one of its queues and
  has a text. The number each process gives to its next descriptor is the number of those it has, at most 16.\<close>

theorem message_queue_levels:
  assumes "reachable s" and "running s = Some r" and "represents s L" and "mq \<in> set (L MessageQueuesList)"
  shows "L MessageQueuesList = [mq] \<and> map (queue_priority s) (L (MqQueues mq)) = rev [0..mq_priority (mqs s mq)] \<and>
    messages_in L mq \<le> mq_num_messages (mqs s mq) \<and> mq_num_messages (mqs s mq) \<le> 128 \<and>
    (\<forall>q. \<forall>m\<in>set (L (QueueMessages q)). q \<in> set (L (MqQueues mq)) \<and> msg_text (msgs s m) \<noteq> 0) \<and>
    (\<forall>p. pcb_last_mq_fd (pcbs s p) = int (length (L (PcbMqDescriptors p))) \<and> pcb_last_mq_fd (pcbs s p) \<le> 16)"
proof -
  obtain F where inv: "machine_inv s L F r" using reachable_lists [OF assms(1-3)] by blast
  note ok = machine_invD(11) [OF inv]
  have one: "L MessageQueuesList = [mq]" by (rule the_message_queue [OF ok assms(4)])
  have "q \<in> set (L (MqQueues mq))" if "m \<in> set (L (QueueMessages q))" for q m
    using message_queues_okD(3) [OF ok, of q] that one by (cases "q \<in> set (L (MqQueues mq))") auto
  then show ?thesis
    using one message_queues_okD(2) [OF ok assms(4)] message_queues_okD(4,8,9) [OF ok] by (simp add: levels_ok_def)
qed

theorem message_queue_levels_witness:
  "map (queue_priority (mq_written 0)) [q1, q0] = rev [0..1] \<and> mq_num_messages (mqs (mq_written 0) mq0) = 1 \<and>
    messages_in (mq_lists(QueueMessages q0 := [m0])) mq0 \<le> 1 \<and> msg_text (msgs (mq_written 0) m0) \<noteq> 0"
proof -
  have z: "int32_range 0" by (simp add: int32_range_def)
  have "written_queue 0 = q0" by (simp add: written_queue_def)
  then show ?thesis
    using message_queue_levels [OF reachable_mq_written [OF z] _ represents_mq_written [OF z], of p0 mq0] z by simp
qed

lemma read_finds_calling: "read_finds (calling n xs s) L r = read_finds s L r"
proof -
  have "mq_handle (calling n xs s) L r = mq_handle s L r"
    by (simp add: mq_handle_def fd_lookup_def fun_eq_iff split: option.split)
  moreover have "delivers (calling n xs s) = delivers s" by (simp add: delivers_def queue_lookup_def fun_eq_iff)
  ultimately show ?thesis by (simp add: read_finds_def fun_eq_iff)
qed

text \<open>C22: From every state the machine can reach the calls that close and unlink a message queue return, whatever
  their arguments, and so does the one that opens it unless it asks for a second one. A write returns exactly when
  its text can be read to a zero: a null text is a fault, and one without an end is printed for ever. A read
  returns when there is no message to deliver. When there is one, it returns unless the text of the message has no
  end (it is printed for ever) or the address for the text or the one for the priority is null (a fault). These
  are all the cases.\<close>

theorem message_queue_calls_return:
  assumes "reachable s" and "running s = Some r" and "represents s L"
  shows "(if text_ends s buf then \<exists>s'. disastrOS_mqWrite fd buf len prio s = Inr (Inr s') \<and> reachable s'
      else disastrOS_mqWrite fd buf len prio s = Inl (if buf = 0 then NullDeref else Diverges)) \<and>
    (\<exists>s'. disastrOS_mqClose fd s = Inr (Inr s') \<and> reachable s') \<and>
    (\<exists>s'. disastrOS_mqUnlink mid s = Inr (Inr s') \<and> reachable s') \<and>
    (adds_second_queue (to_int32 mid) (to_int32 flags) s \<or> (\<exists>s'. disastrOS_mqOpen mid flags prio s = Inr (Inr s') \<and> reachable s')) \<and>
    ((\<nexists>m. read_finds s L r (to_int32 fd) (to_int32 len) m) \<longrightarrow>
      (\<exists>s'. disastrOS_mqRead fd buf len pa s = Inr (Inr s') \<and> reachable s')) \<and>
    (\<forall>m. read_finds s L r (to_int32 fd) (to_int32 len) m \<longrightarrow>
      (if \<not> text_ends s (msg_text (msgs s m)) then disastrOS_mqRead fd buf len pa s = Inl Diverges
       else if buf = 0 \<or> pa = 0 then disastrOS_mqRead fd buf len pa s = Inl NullDeref
       else \<exists>s'. disastrOS_mqRead fd buf len pa s = Inr (Inr s') \<and> reachable s'))"
proof -
  obtain F where inv: "machine_inv s L F r" using reachable_lists [OF assms] by blast
  note k = sched_wfD(2,3) [OF machine_invD(1) [OF inv]]
  have c: "machine_inv (calling n xs s) L F r" for n xs by (rule inv_calling [OF inv])
  note eqs = call_eqs [OF k] and arg = calling_arg [OF assms(2)]
  note step = reachable.step [OF assms(1)]
  have ends: "text_ends (calling n xs s) a = text_ends s a" for n xs a by (rule text_ends_cong) simp
  have w: "if text_ends s buf then \<exists>w. disastrOS_mqWrite fd buf len prio s = Inr (Inr w) \<and> reachable w
      else disastrOS_mqWrite fd buf len prio s = Inl (if buf = 0 then NullDeref else Diverges)"
  proof -
    let ?c = "calling 18 [fd, buf, len, prio] s"
    have a: "syscall_arg r 1 ?c = buf" using arg by simp
    show ?thesis
    proof (cases "text_ends s buf")
      case True
      then obtain w where "disastrOS_mqWrite fd buf len prio s = Inr (Inr w)"
        using inv_mqWrite [OF c [of 18 "[fd, buf, len, prio]"]] eqs(18) a ends by auto
      then show ?thesis using True step [OF machine_step.mqWrite] by auto
    next
      case False
      then show ?thesis using mqWrite_unreadable [of ?c r] k eqs(18) a ends by simp
    qed
  qed
  obtain x where x: "disastrOS_mqClose fd s = Inr (Inr x)" using inv_mqClose [OF c [of 16 "[fd]"]] eqs(16) by auto
  obtain u where u: "disastrOS_mqUnlink mid s = Inr (Inr u)" using inv_mqUnlink [OF c [of 19 "[mid]"]] eqs(19) by auto
  have o: "\<exists>y. disastrOS_mqOpen mid flags prio s = Inr (Inr y) \<and> reachable y" if "\<not> adds_second_queue (to_int32 mid) (to_int32 flags) s"
  proof -
    let ?c = "calling 15 [mid, flags, prio] s"
    have "int_arg r 0 ?c = to_int32 mid" "int_arg r 1 ?c = to_int32 flags" using arg by simp_all
    then have "\<not> adds_second_queue (int_arg r 0 ?c) (int_arg r 1 ?c) ?c"
      using that adds_second_queue_calling [OF sched_wfD(1) [OF machine_invD(1) [OF inv]] sched_wfD(1) [OF machine_invD(1) [OF c]]]
      by simp
    then obtain y where "disastrOS_mqOpen mid flags prio s = Inr (Inr y)" using inv_mqOpen [OF c] eqs(15) by force
    then show ?thesis using step [OF machine_step.mqOpen [OF that]] by blast
  qed
  let ?c = "calling 17 [fd, buf, len, pa] s"
  have a: "syscall_arg r 1 ?c = buf" "syscall_arg r 3 ?c = pa" "int_arg r 0 ?c = to_int32 fd" "int_arg r 2 ?c = to_int32 len"
    using arg by simp_all
  have same: "delivered ?c m = delivered s m" for m by (simp add: delivered_def ends fun_eq_iff)
  obtain y where y: "if \<exists>m. read_finds s L r (to_int32 fd) (to_int32 len) m
     then \<forall>m. read_finds s L r (to_int32 fd) (to_int32 len) m \<longrightarrow> internal_mqRead ?c = delivered s m buf pa y
     else internal_mqRead ?c = Inr y"
    using inv_mqRead [OF c [of 17 "[fd, buf, len, pa]"]] unfolding a read_finds_calling same by blast
  have ok: "\<exists>y. disastrOS_mqRead fd buf len pa s = Inr (Inr y) \<and> reachable y" if "internal_mqRead ?c = Inr y"
  proof -
    have "disastrOS_mqRead fd buf len pa s = Inr (Inr y)" using that by (simp add: eqs(17))
    then show ?thesis using step [OF machine_step.mqRead] by blast
  qed
  have none: "\<exists>y. disastrOS_mqRead fd buf len pa s = Inr (Inr y) \<and> reachable y"
    if "\<nexists>m. read_finds s L r (to_int32 fd) (to_int32 len) m" using y that ok by (simp del: ex_simps)
  have some: "if \<not> text_ends s (msg_text (msgs s m)) then disastrOS_mqRead fd buf len pa s = Inl Diverges
       else if buf = 0 \<or> pa = 0 then disastrOS_mqRead fd buf len pa s = Inl NullDeref
       else \<exists>s'. disastrOS_mqRead fd buf len pa s = Inr (Inr s') \<and> reachable s'"
    if "read_finds s L r (to_int32 fd) (to_int32 len) m" for m
  proof -
    have "internal_mqRead ?c = delivered s m buf pa y" using y that by (metis (full_types))
    then show ?thesis using ok eqs(17) [of fd buf len pa] by (simp add: delivered_def split: if_splits)
  qed
  show ?thesis
    using w x u o none some step [OF machine_step.mqClose [OF x]] step [OF machine_step.mqUnlink [OF u]]
    by (intro conjI) blast+
qed

theorem message_queue_calls_return_witness:
  "disastrOS_mqRead 0 0 8 300 (mq_written 0) = Inl NullDeref \<and> disastrOS_mqWrite 0 0 8 5 (mq_written 0) = Inl NullDeref \<and>
    (\<exists>s'. disastrOS_mqRead 0 0 2 300 (mq_written 0) = Inr (Inr s')) \<and> (\<exists>s'. disastrOS_mqUnlink 5 (mq_written 0) = Inr (Inr s'))"
proof -
  have z: "int32_range 0" "to_int32 8 = 8" "to_int32 2 = 2" by (simp_all add: to_int32_id int32_range_def)
  have q: "written_queue 0 = q0" by (simp add: written_queue_def)
  let ?L = "mq_lists(QueueMessages q0 := [m0])"
  note run = message_queue_calls_return [OF reachable_mq_written [OF z(1)] _ represents_mq_written [OF z(1)], of p0, unfolded q]
  have h: "mq_handle (mq_written 0) ?L p0 0 = Some (md0, mq0)" by (simp add: mq_handle_def fd_lookup_def z)
  have d: "delivers (mq_written 0) ?L mq0 len 0 m \<longleftrightarrow> m = m0 \<and> 3 \<le> len" for len m
    by (auto simp: delivers_def queue_lookup_def z)
  have one: "mq_priority (mqs (mq_written 0) mq0) = 1" using z by simp
  have f: "read_finds (mq_written 0) ?L p0 0 len m \<longleftrightarrow> m = m0 \<and> 3 \<le> len" for len m
  proof
    assume "m = m0 \<and> 3 \<le> len"
    then show "read_finds (mq_written 0) ?L p0 0 len m"
      using h d one unfolding read_finds_def by (intro conjI exI [of _ 0] exI) (auto simp: mq_fd_bad_def)
  next
    assume "read_finds (mq_written 0) ?L p0 0 len m"
    then obtain j where j: "0 \<le> j" "j < 1" "delivers (mq_written 0) ?L mq0 len j m"
      using h one by (auto simp: read_finds_def)
    then have "j = 0" by linarith
    then show "m = m0 \<and> 3 \<le> len" using j(3) d by simp
  qed
  have e: "text_ends (mq_written 0) 100" "\<not> text_ends (mq_written 0) 0"
    using mq_written_readable [OF z(1), of 100 0 "[]"] by (simp_all add: text_ends_def)
  show ?thesis using run [of 0 0 8 5 5 0 300] run [of 0 0 2 5 5 0 300] z f e by auto
qed

end
