(* ===== verification/StatusClaims.thy ===== *)
theory StatusClaims
  imports MachineMqClaims
begin

text \<open>
  What the printing of the status does: in every state the machine can reach it ends without a fault
  and prints what the lists hold, and the line of a process tells which one it is.
\<close>

section \<open>Reading a printed process\<close>

lemma joined_no_comma: "c \<notin> set t \<Longrightarrow> takeWhile (\<lambda>x. x \<noteq> c) (t @ c # u) = t"
  by (induction t) auto

lemma decimal_digits: "set (decimal n) \<subseteq> set ''0123456789''"
proof (induction n rule: decimal.induct)
  case (1 n)
  have d: "digit m \<in> set ''0123456789''" if "m < 10" for m
    unfolding digit_def by (rule nth_mem) (use that in simp)
  show ?case
  proof (cases "n < 10")
    case True
    then show ?thesis using d [of n] by (simp add: decimal.simps [of n])
  next
    case False
    then have "decimal n = decimal (n div 10) @ [digit (n mod 10)]" by (simp add: decimal.simps [of n])
    then show ?thesis using 1 [OF False] d [of "n mod 10"] by (simp only: set_append) auto
  qed
qed

lemma print_int_no_comma: "CHR '','' \<notin> set (print_int i)"
proof -
  have "CHR '','' \<notin> set (decimal n)" for n using decimal_digits [of n] by auto
  then show ?thesis by (simp add: print_int_def)
qed

definition pid_of_line :: "string \<Rightarrow> int" where
  "pid_of_line t = read_int (takeWhile (\<lambda>c. c \<noteq> CHR '','') (drop 6 t))"

lemma pid_of_pcb_text: "pid_of_line (pcb_text s L p) = pcb_pid (pcbs s p)"
  using joined_no_comma [OF print_int_no_comma] by (simp add: pid_of_line_def pcb_text_def read_print_int)

section \<open>Properties\<close>

lemma reachable_printable:
  assumes "reachable s" and "represents s L"
  shows "\<exists>F. kernel_wf s L F \<and> printable s L"
proof -
  have "\<exists>L' F. kernel_wf s L' F \<and> printable s L'"
    using reachable_ok [OF assms(1)] inv_printable sched_wfD(1) [OF machine_invD(1)]
    unfolding machine_ok_def idle_def by blast
  then show ?thesis using represents_unique [OF _ assms(2)] kernel_wf_represents by blast
qed

text \<open>C31: In every state the machine can reach, also when nothing runs any more, printing the status ends
  without a fault, provided that the texts of the messages end with a zero; it prints the running process,
  the timers, the resources and the semaphores with the processes that hold and await them, the message
  queue with its priorities and messages, and the processes that are ready, wait, or are zombies, each in
  the order of its list.\<close>

theorem status_printed:
  assumes "reachable s" and "represents s L" and "texts_end s L"
  shows "disastrOS_printStatus s = Inr (status_text s L)"
  using reachable_printable [OF assms(1,2)] printStatus_wf assms(3) by blast

text \<open>The first process sleeps until time 3, its child runs.\<close>

lemma slept_pids [simp]: "pcb_pid (pcbs slept p0) = 0" "pcb_pid (pcbs slept p1) = 1"
  "slept_lists ResourcesList = []" "slept_lists SemaphoresList = []" "slept_lists MessageQueuesList = []"
  "slept_lists ZombieList = []" "slept_lists WaitingList = [p0]" "slept_lists TimerList = [t0]"
  "slept_lists (PcbChildren p0) = [pp0]" "child slept pp0 = p1"
  using slept_wf(4)
  by (simp_all add: slept_lists_def forked_lists_def kernel_frame_def asleep_contents_def set_status_def upd_pcb_def
      calling_def enter_syscall_def child_def)

theorem status_printed_witness:
  "disastrOS_printStatus slept = Inr (
     ''****************** DisastrOS ******************'' @ newline @ ''Running: [pid: 1, child: ()]'' @ newline @
     ''Timers: [(pid:0, t:3)]'' @ newline @ ''Resources: {'' @ newline @ ''}'' @ newline @ newline @
     ''Semaphores: {'' @ newline @ ''}'' @ newline @ newline @ ''Ready: {'' @ newline @ ''}'' @ newline @ newline @
     ''Waiting: {'' @ newline @ tab @ ''[pid: 0, child: (1)]'' @ newline @ ''}'' @ newline @ newline @
     ''Message Queues: {'' @ newline @ ''}'' @ newline @ newline @ ''Zombie: {'' @ newline @ ''}'' @ newline @ newline @
     ''***********************************************'' @ newline @ newline)"
proof -
  have "timer_awakening_time (timers slept t0) = 3" using slept_fields(5) by (simp add: wake_time_def)
  then have "timer_text slept t0 = ''(pid:0, t:3)''"
    by (simp add: timer_text_def print_int_def decimal.simps digit_def)
  moreover have "pcb_text slept slept_lists p1 = ''[pid: 1, child: ()]''" "pcb_text slept slept_lists p0 = ''[pid: 0, child: (1)]''"
    by (simp_all add: pcb_text_def inline_def print_int_def decimal.simps digit_def)
  moreover have "represents slept slept_lists" by (rule kernel_wf_represents [OF sched_wfD(1) [OF slept_wf(2)]])
  ultimately show ?thesis
    using status_printed [OF reachable_slept] by (simp add: texts_end_def status_text_def lines_text_def line_end_def inline_def)
qed

text \<open>The text printed for a process starts with its process id, from which it can be read back, and
  no other process of the machine is printed as the same text.\<close>

theorem printed_process_identified:
  assumes "reachable s" and "running s = Some r" and "represents s L" and "p \<in> procs L r"
  shows "\<exists>t. PCB_print p s = Inr t \<and> pid_of_line t = pcb_pid (pcbs s p) \<and>
    (\<forall>q\<in>procs L r. PCB_print q s = Inr t \<longrightarrow> q = p)"
proof -
  obtain F where i: "machine_inv s L F r" using reachable_lists [OF assms(1-3)] by blast
  note wf = sched_wfD(1) [OF machine_invD(1) [OF i]]
  have print: "PCB_print q s = Inr (pcb_text s L q)" for q
    by (rule PCB_print_wf [OF wf family_children_ok [OF machine_invD(1,5) [OF i]]])
  have "q = p" if "q \<in> procs L r" "pcb_text s L q = pcb_text s L p" for q
  proof -
    have "pcb_pid (pcbs s q) = pcb_pid (pcbs s p)" using pid_of_pcb_text that(2) by metis
    then show ?thesis using machine_invD(6) [OF i] that(1) assms(4) by (auto simp: pids_ok_def dest: inj_onD)
  qed
  then show ?thesis using print pid_of_pcb_text by auto
qed

theorem printed_process_identified_witness: "\<exists>t. PCB_print p0 slept = Inr t \<and> pid_of_line t = 0"
  using printed_process_identified [OF reachable_slept _ kernel_wf_represents [OF sched_wfD(1) [OF slept_wf(2)]], of p1 p0]
  by (auto simp: procs_def)

text \<open>In every state the machine can reach printing the message queues ends without a fault when the
  texts of all messages end with a zero, and prints each queue with its priority levels and the messages in
  them.\<close>

theorem message_queues_printed:
  assumes "reachable s" and "represents s L" and "texts_end s L"
  shows "MessageQueueList_print MessageQueuesList s = Inr (lines_text (map (mq_text s L) (L MessageQueuesList)))"
proof -
  obtain F where wf: "kernel_wf s L F" "printable s L" using reachable_printable [OF assms(1,2)] by blast
  then show ?thesis by (intro MessageQueueList_print_wf [OF wf(1) _ assms(3)]) (simp add: printable_def)
qed

text \<open>A message queue with one message of three characters, of which two are printed.\<close>

theorem message_queues_printed_witness:
  "MessageQueueList_print MessageQueuesList ((mq_written 0)\<lparr>umem := (\<lambda>_. 0)(100 := 104, 101 := 105)\<rparr>) = Inr (
     ''{'' @ newline @ tab @ ''[Message Queue] id: 5, priority: 1, num_messages: 1 '' @ newline @
     ''{'' @ newline @ tab @ ''[Priority Queue] priority: 1'' @ newline @ ''no messages'' @ newline @ '','' @ newline @
     tab @ ''[Priority Queue] priority: 0'' @ newline @
     ''{'' @ newline @ tab @ ''[Message] length: 3 text: hi'' @ newline @ newline @ ''}'' @ newline @ newline @
     ''}'' @ newline @ ''[(pid: 0, fd: 0, rid:5)]'' @ newline @ ''}'' @ newline)"
proof -
  define u :: "int \<Rightarrow> int" where "u = (\<lambda>_. 0)(100 := 104, 101 := 105)"
  let ?s = "(mq_written 0)\<lparr>umem := u\<rparr>"
  let ?L = "mq_lists(QueueMessages q0 := [m0])"
  have z: "int32_range 0" by (simp add: int32_range_def)
  have "reachable ?s" by (rule reachable.step [OF reachable_mq_written [OF z] machine_step.store]) (simp add: z)
  moreover have "represents ?s ?L"
    using kernel_wf_represents [of ?s ?L] sched_wfD(1) [OF mq_written_state(2) [OF z]] by (force simp: written_queue_def)
  moreover have f: "desc_ptrs ?s mp0 = Some md0" "pcb_pid (pcbs ?s p0) = 0"
    using mq_written_state(3) [OF z] mq_made_state(3)
    by (simp_all add: kernel_frame_def write_contents_def set_retvalue_def upd_mq_def upd_msg_def upd_pcb_def
        mq_made_contents_def opened_desc_def newmq_contents_def set_last_mq_fd_def calling_def enter_syscall_def)
  have "umem ?s (100 + int 2) = 0" by (simp add: u_def)
  then have "message_shown ?s m0" unfolding message_shown_def text_ends_def using z by (intro conjI exI [of _ 2]) (simp_all add: u_def)
  then have "texts_end ?s ?L" by (simp add: texts_end_def)
  ultimately have printed: "MessageQueueList_print MessageQueuesList ?s = Inr (lines_text (map (mq_text ?s ?L) (?L MessageQueuesList)))"
    by (intro message_queues_printed)
  have letters: "char_of (104 :: int) = CHR ''h''" "char_of (105 :: int) = CHR ''i''" by code_simp+
  have chars: "print_chars (umem ?s) 100 [] = Some ''hi''"
    by (simp add: print_chars.simps u_def letters)
  have "message_text ?s m0 = ''[Message] length: 3 text: hi'' @ newline"
    using z chars by (simp add: message_text_def print_int_def decimal.simps digit_def)
  moreover have "pointers_text ?s [mp0] = ''[(pid: 0, fd: 0, rid:5)]''"
    using z f by (simp add: pointers_text_def pointer_text_def pointer_fields_def desc_ptr_text_def id_of_def inline_def print_int_def
        decimal.simps digit_def)
  ultimately show ?thesis
    using printed z unfolding u_def [symmetric]
    by (simp add: mq_text_def queue_text_def lines_text_def line_end_def print_int_def decimal.simps digit_def)
qed

text \<open>The printers made for the pointers of semaphores and message queues swap process and number.\<close>

theorem pointer_printers_swap:
  assumes "kernel_wf s L F" and "\<forall>dp\<in>set (L (SemDescriptors sem)). ptr_shown s KSemDescriptor KSemaphore dp"
  shows "DescriptorPtrList_print (SemDescriptors sem) s = Inr (pointers_text s (L (SemDescriptors sem)))"
    and "SemDescriptorPtrList_print (SemDescriptors sem) s =
      Inr (''['' @ joined inline (map (\<lambda>dp. case pointer_fields s dp of (pid, fd, rid) \<Rightarrow> desc_ptr_text fd pid rid)
        (L (SemDescriptors sem))) @ '']'')"
  using DescriptorPtrList_print_wf [OF assms(1), of "SemDescriptors sem" KSemDescriptor KSemaphore]
    swapped_pointers(1) [OF assms(1), of "SemDescriptors sem" KSemDescriptor KSemaphore] assms(2) by simp_all

end
