(* ===== verification/ProcessClaims.thy ===== *)
theory ProcessClaims
  imports Scenario
begin

text \<open>
  What the kernel does for processes: the clock, sleeping, creation, exit and wait. Each property
  is followed by a concrete state in which its hypotheses hold.
\<close>

section \<open>Scheduling\<close>

text \<open>C9: The clock tick. When some sleeper is due or some process is ready, the tick wakes exactly
  the owners of the timers whose time has come, puts them in the order of their timers in front of
  the ready processes, sends the running process to the end of that queue as ready, and runs the
  first one. Timers, waiting list and free timer blocks change accordingly and nothing else does;
  the state stays well formed.\<close>

theorem timer_interrupt_schedules:
  assumes run: "sched_wf s L F r" and ok: "timers_ok s L" and rng: "int32_range (disastrOS_time s + 1)"
    and Q: "woken_pcbs (s\<lparr>disastrOS_time := disastrOS_time s + 1\<rparr>) L @ L ReadyList = n # q"
  shows "\<exists>s'. timerInterrupt s = Inr s' \<and>
    (let s1 = s\<lparr>disastrOS_time := disastrOS_time s + 1\<rparr>; L' = (awake_lists s1 L)(ReadyList := q @ [r]) in
     set (woken_pcbs s1 L) = timer_owner s ` {t \<in> set (L TimerList). wake_time s t \<le> disastrOS_time s + 1} \<and>
     sched_wf s' L' (awake_free s1 L F) n \<and> timers_ok s' L' \<and>
     kernel_frame ((set_status n Running (set_status r Ready (awake_contents s1 L)))\<lparr>running := Some n\<rparr>) s')"
proof -
  let ?s = "s\<lparr>disastrOS_time := disastrOS_time s + 1\<rparr>"
  have run': "sched_wf ?s L F r" using run by simp
  have ok': "timers_ok ?s L" using ok by simp
  have "timers_sorted ?s (L TimerList)" using ok' by (simp add: timers_ok_def)
  from elapsed_timers_set(1) [where L = L, OF this] have "set (woken_pcbs ?s L) =
      timer_owner s ` {t \<in> set (L TimerList). wake_time s t \<le> disastrOS_time s + 1}"
    by (simp add: woken_pcbs_def timer_owner_def wake_time_def)
  moreover obtain s' where s': "internal_schedule ?s = Inr s'"
    "sched_wf s' ((awake_lists ?s L)(ReadyList := q @ [r])) (awake_free ?s L F) n"
    "timers_ok s' ((awake_lists ?s L)(ReadyList := q @ [r]))"
    "kernel_frame ((set_status n Running (set_status r Ready (awake_contents ?s L)))\<lparr>running := Some n\<rparr>) s'"
    using schedule_wf [OF run' ok' Q] by blast
  moreover have "timerInterrupt s = Inr s'"
    using s'(1) sched_wfD(2,3) [OF s'(2)] rng by (simp add: timerInterrupt_def)
  ultimately show ?thesis by (auto simp: Let_def)
qed

theorem timer_interrupt_schedules_witness:
  "\<exists>s'. timerInterrupt (slept\<lparr>disastrOS_time := 2\<rparr>) = Inr s' \<and> running s' = Some p0 \<and>
     pcb_status (pcbs s' p0) = Running \<and> pcb_status (pcbs s' p1) = Ready"
proof -
  let ?s = "slept\<lparr>disastrOS_time := 2\<rparr>"
  have run: "sched_wf ?s slept_lists (forked_free(KTimerItem := [1..1023])) p1"
    using slept_wf(2) by simp
  have ok: "timers_ok ?s slept_lists" using slept_wf(3) by simp
  have Q: "woken_pcbs (?s\<lparr>disastrOS_time := disastrOS_time ?s + 1\<rparr>) slept_lists @ slept_lists ReadyList = p0 # []"
    by (simp add: woken_pcbs_def elapsed_timers_def slept_lists_def timer_owner_def wake_time_def
        slept_fields(4,5)[unfolded wake_time_def])
  have "int32_range (disastrOS_time ?s + 1)" by (simp add: int32_range_def)
  from timer_interrupt_schedules [OF run ok this Q] show ?thesis
    by (auto simp: Let_def kernel_frame_def set_status_def upd_pcb_def)
qed

text \<open>A tick that finds nobody to wake and nobody ready only advances the clock; the running
  process goes on.\<close>

theorem timer_interrupt_alone:
  assumes "sched_wf s L F r" and "timers_ok s L" and "int32_range (disastrOS_time s + 1)"
    and "woken_pcbs (s\<lparr>disastrOS_time := disastrOS_time s + 1\<rparr>) L = []" and "L ReadyList = []"
  shows "timerInterrupt s = Inr (s\<lparr>disastrOS_time := disastrOS_time s + 1\<rparr>)"
proof -
  let ?s = "s\<lparr>disastrOS_time := disastrOS_time s + 1\<rparr>"
  have run: "sched_wf ?s L F r" and ok: "timers_ok ?s L" using assms(1,2) by simp_all
  have "internal_schedule ?s = Inr ?s" by (rule schedule_alone [OF run ok]) (simp add: assms(4,5))
  then show ?thesis using assms(3) sched_wfD(2,3) [OF run] by (simp add: timerInterrupt_def)
qed

theorem timer_interrupt_alone_witness:
  "timerInterrupt started = Inr (started\<lparr>disastrOS_time := 1\<rparr>)"
  using timer_interrupt_alone [OF started_wf(2)] by (simp add: int32_range_def woken_pcbs_def elapsed_timers_def)

text \<open>C10: A process that sleeps for \<open>d\<close> ticks enters the waiting list with a timer for the time
  \<open>now + d\<close>, kept in the order of the wake-up times, and the first ready process runs.\<close>

theorem sleep_yields_until_timer:
  assumes run: "sched_wf s L F r" and ok: "timers_ok s L" and no: "pcb_timer (pcbs s r) = None"
    and F: "F KTimerItem = i # is" and rng: "int32_range (disastrOS_time s + int_arg r 0 s)"
    and L: "L ReadyList = p # q"
  shows "\<exists>s'. internal_sleep s = Inr s' \<and>
    (let t = disastrOS_time s + int_arg r 0 s; n = Ptr KTimerItem i;
         L' = (asleep_lists s r t n L)(ReadyList := q) in
     sched_wf s' L' (F(KTimerItem := is)) p \<and> timers_ok s' L' \<and> n \<in> set (L' TimerList) \<and>
     wake_time s' n = t \<and> timer_owner s' n = r \<and>
     kernel_frame ((asleep_contents r t n s)\<lparr>running := Some p\<rparr>) s')"
proof -
  let ?t = "disastrOS_time s + int_arg r 0 s" and ?n = "Ptr KTimerItem i"
  let ?L = "(asleep_lists s r ?t ?n L)(ReadyList := q)"
  obtain s' where s': "internal_sleep s = Inr s'" "sched_wf s' ?L (F(KTimerItem := is)) p" "timers_ok s' ?L"
    "kernel_frame ((asleep_contents r ?t ?n s)\<lparr>running := Some p\<rparr>) s'"
    using sleep_next [OF run ok no F rng L] by blast
  have "?n \<in> set (?L TimerList)" by (simp add: asleep_lists_def add_timer_set)
  moreover have "wake_time s' ?n = ?t" "timer_owner s' ?n = r"
    using s'(4) by (simp_all add: kernel_frame_def asleep_contents_def wake_time_def timer_owner_def
        set_status_def upd_pcb_def)
  ultimately show ?thesis unfolding Let_def using s' by blast
qed

theorem sleep_yields_until_timer_witness:
  "\<exists>s'. internal_sleep (calling 6 [3] forked) = Inr s' \<and> running s' = Some p1 \<and>
     pcb_status (pcbs s' p0) = Waiting \<and> wake_time s' t0 = 3"
proof -
  have arg: "int_arg p0 0 (calling 6 [3] forked) = 3" by (simp add: calling_arg)
  show ?thesis
    using sleep_yields_until_timer [OF calling_wf [OF forked_wf(2), of 6 "[3]"], of 0 "[1..1023]" p1 "[]"]
    by (auto simp: arg int32_range_def Let_def kernel_frame_def asleep_contents_def set_status_def upd_pcb_def)
qed

text \<open>
  When nobody is ready, a process that sleeps leaves the machine without a running process, and the
  status is printed before the call ends.
\<close>

theorem sleep_of_last_process:
  assumes "sched_wf s L F r" and "timers_ok s L" and "pcb_timer (pcbs s r) = None"
    and "F KTimerItem = i # is" and "int32_range (disastrOS_time s + int_arg r 0 s)" and "L ReadyList = []"
  shows "\<exists>s'. internal_sleep s = andThen (disastrOS_printStatus s') (\<lambda>_. Inr s') \<and> running s' = None \<and>
    kernel_wf s' (asleep_lists s r (disastrOS_time s + int_arg r 0 s) (Ptr KTimerItem i) L) (F(KTimerItem := is))"
  using sleep_last [OF assms] by auto

theorem sleep_of_last_process_witness:
  "\<exists>s'. internal_sleep (calling 6 [3] started) = andThen (disastrOS_printStatus s') (\<lambda>_. Inr s') \<and> running s' = None"
proof -
  have arg: "int_arg p0 0 (calling 6 [3] started) = 3" by (simp add: calling_arg)
  show ?thesis
    using sleep_of_last_process [OF calling_wf [OF started_wf(2), of 6 "[3]"], of 0 "[1..1023]"]
    by (auto simp: arg int32_range_def)
qed

text \<open>Without a free timer block sleeping is refused: the process gets \<open>DSOS_ESLEEP\<close> and goes on.\<close>

theorem sleep_without_timer_block:
  assumes "sched_wf s L F r" and "pcb_timer (pcbs s r) = None" and "F KTimerItem = []"
    and "int32_range (disastrOS_time s + int_arg r 0 s)"
  shows "internal_sleep s = Inr (set_retvalue r DSOS_ESLEEP s)"
  by (rule sleep_refused [OF assms])

theorem sleep_without_timer_block_witness:
  "internal_sleep (calling 6 [3] (drained KTimerItem)) =
     Inr (set_retvalue p0 DSOS_ESLEEP (calling 6 [3] (drained KTimerItem)))"
proof -
  have arg: "int_arg p0 0 (calling 6 [3] (drained KTimerItem)) = 3" by (simp add: calling_arg)
  show ?thesis
    by (rule sleep_without_timer_block [OF calling_wf [OF drained_wf [of KTimerItem]]])
      (simp_all add: arg int32_range_def)
qed

section \<open>Creating processes\<close>

text \<open>\<open>fork\<close> makes one process with the next process id, no signals pending, all signals
  enabled and no descriptors of resources or message queues, whose parent is the caller; it is the
  last of the caller's children and of the ready processes, and the caller gets its id.\<close>

theorem fork_creates_ready_child:
  assumes "sched_wf s L F r" and "timers_ok s L" and "F KPCB = i # is" and "F KPCBPtr = j # js"
    and "int32_range (last_pid s + 1)"
  shows "\<exists>s'. internal_fork s = Inr s' \<and>
    sched_wf s' (child_lists r (Ptr KPCB i) (Ptr KPCBPtr j) L) (F(KPCB := is, KPCBPtr := js)) r \<and>
    timers_ok s' (child_lists r (Ptr KPCB i) (Ptr KPCBPtr j) L) \<and>
    kernel_frame (child_contents r (Ptr KPCB i) (Ptr KPCBPtr j) s) s'"
  by (rule fork_wf [OF assms])

theorem fork_creates_ready_child_witness:
  "\<exists>s'. internal_fork started = Inr s' \<and> pcb_pid (pcbs s' p1) = 1 \<and> pcb_status (pcbs s' p1) = Ready \<and>
     retvalue p0 s' = 1"
proof -
  have "int32_range (last_pid started + 1)" by (simp add: int32_range_def)
  from fork_creates_ready_child [OF started_wf(2) timers_ok_empty _ _ this, of 1 "[2..1023]" 0 "[1..1023]"]
  show ?thesis by (auto simp: kernel_frame_def child_contents_def upd_defs new_pcb_def set_retvalue_def retvalue_def)
qed

text \<open>\<open>spawn\<close> makes a child in the same way and installs the start function and its argument,
  the two arguments of the call, in the context of the child.\<close>

theorem spawn_installs_entry:
  assumes "sched_wf s L F r" and "timers_ok s L" and "F KPCB = i # is" and "F KPCBPtr = j # js"
    and "int32_range (last_pid s + 1)"
  shows "\<exists>s'. internal_spawn s = Inr s' \<and>
    sched_wf s' (child_lists r (Ptr KPCB i) (Ptr KPCBPtr j) L) (F(KPCB := is, KPCBPtr := js)) r \<and>
    timers_ok s' (child_lists r (Ptr KPCB i) (Ptr KPCBPtr j) L) \<and>
    kernel_frame (upd_pcb (Ptr KPCB i) (\<lambda>c. c\<lparr>pcb_cpu_entry := Some (syscall_arg r 0 s, syscall_arg r 1 s)\<rparr>)
      (child_contents r (Ptr KPCB i) (Ptr KPCBPtr j) s)) s'"
  by (rule spawn_wf [OF assms])

theorem spawn_installs_entry_witness:
  "\<exists>s'. internal_spawn (calling 5 [100, 7] started) = Inr s' \<and> pcb_cpu_entry (pcbs s' p1) = Some (100, 7) \<and>
     retvalue p0 s' = 1"
proof -
  have "int32_range (last_pid (calling 5 [100, 7] started) + 1)" by (simp add: int32_range_def)
  from spawn_installs_entry [OF calling_wf [OF started_wf(2)] timers_ok_empty _ _ this,
      of 1 "[2..1023]" 0 "[1..1023]"]
  show ?thesis
    by (auto simp: kernel_frame_def child_contents_def upd_defs set_retvalue_def retvalue_def calling_arg)
qed

text \<open>When all control blocks, or all child pointers, are taken, \<open>fork\<close> and \<open>spawn\<close> dereference
  a null pointer instead of returning \<open>DSOS_ESPAWN\<close>.\<close>

theorem fork_crashes_when_table_full:
  assumes run: "sched_wf s L F r"
    and full: "F KPCB = [] \<or> F KPCB = i # is \<and> F KPCBPtr = [] \<and> int32_range (last_pid s + 1)"
  shows "internal_fork s = Inl NullDeref \<and> internal_spawn s = Inl NullDeref"
proof -
  have "make_child s = Inl NullDeref" using make_child_full [OF run] full by blast
  then show ?thesis by (simp add: internal_fork_def internal_spawn_def)
qed

theorem fork_crashes_when_table_full_witness:
  "internal_fork (drained KPCB) = Inl NullDeref"
  using fork_crashes_when_table_full [OF drained_wf] by simp

section \<open>Exit\<close>

text \<open>C11: A process that exits while its parent is not waiting for it becomes a zombie that keeps
  its exit value; its children are handed to the init process and sent \<open>SIGHUP\<close>, its parent is sent
  \<open>SIGCHLD\<close>, and the first ready process runs.\<close>

theorem exit_becomes_zombie:
  assumes "sched_wf s L F r" and "init_pcb s = Some ini" and "kind_of ini = KPCB" and "ini \<noteq> r"
    and "children_ok s L r" and "pcb_parent (pcbs s r) = Some par" and "kind_of par = KPCB" and "par \<noteq> r"
    and "\<not> awaits par r s" and "L ReadyList = p # q"
  shows "\<exists>s'. internal_exit s = Inr s' \<and> sched_wf s' ((zombie_lists r ini L)(ReadyList := q)) F p \<and>
    kernel_frame ((set_status p Running (exit_contents r par (child s ` set (L (PcbChildren r))) s))
      \<lparr>running := Some p\<rparr>) s'"
  by (rule exit_ready_wf [OF assms])

theorem exit_becomes_zombie_witness:
  "\<exists>s'. internal_exit (calling 4 [7] switched) = Inr s' \<and> running s' = Some p0 \<and>
     pcb_status (pcbs s' p1) = Zombie \<and> pcb_return_value (pcbs s' p1) = 7"
  using exit_becomes_zombie [OF calling_wf [OF switched_wf(2), of 4 "[7]"], of p0 p0 p0 "[]"]
  by (auto simp: children_ok_def awaits_def kernel_frame_def exit_contents_def set_status_def send_signal_def
      upd_pcb_def hang_up_children_def calling_arg)

text \<open>C12: When the parent waits for it, the process is removed at once: its control block, its
  timers and its resource descriptors are freed, the parent gets its id and, if it asked for it, the
  exit value, and runs.\<close>

theorem exit_resumes_waiting_parent:
  assumes "sched_wf s L F r" and "init_pcb s = Some ini" and "kind_of ini = KPCB" and "ini \<noteq> r"
    and "children_ok s L r" and "children_ok s L par"
    and "pcb_parent (pcbs s r) = Some par" and "par \<in> set (L WaitingList)" and "awaits par r s"
    and "pid_lookup s (pcb_pid (pcbs s r)) (zombie_lists r ini L (PcbChildren par)) = Some self"
    and "\<And>d. d \<in> set (L (PcbDescriptors r)) \<Longrightarrow> \<exists>res dp. desc_linked s L d res dp"
  shows "\<exists>s'. internal_exit s = Inr s' \<and>
    sched_wf s' (gone_lists s r par self (zombie_lists r ini L)) (gone_free s r (zombie_lists r ini L) F) par \<and>
    kernel_frame (gone_contents r par (exit_contents r par (child s ` set (L (PcbChildren r))) s)) s'"
  by (rule exit_parent_wf [OF assms])

theorem exit_resumes_waiting_parent_witness:
  "\<exists>s'. internal_exit (calling 4 [7] waited) = Inr s' \<and> running s' = Some p0 \<and> retvalue p0 s' = 1 \<and>
     pcb_status (pcbs s' p0) = Running"
  using exit_resumes_waiting_parent [OF calling_wf [OF waited_wf(2), of 4 "[7]"], of p0 p0 pp0]
  by (auto simp: waited_simps kernel_frame_def gone_contents_def store_result_def set_retvalue_def retvalue_def
      exit_contents_def set_status_def send_signal_def upd_pcb_def hang_up_children_def)

text \<open>The pointer through which the parent knew the child is then in no list and not free
  either: each such exit loses one block of the pool of child pointers for good.\<close>

theorem exit_to_parent_leaks_pointer:
  assumes run: "sched_wf s L F r" and ini: "init_pcb s = Some ini" "kind_of ini = KPCB" "ini \<noteq> r"
    and ok: "children_ok s L r" "children_ok s L par"
    and par: "pcb_parent (pcbs s r) = Some par" "par \<in> set (L WaitingList)" and waits: "awaits par r s"
    and self: "pid_lookup s (pcb_pid (pcbs s r)) (zombie_lists r ini L (PcbChildren par)) = Some self"
    and linked: "\<And>d. d \<in> set (L (PcbDescriptors r)) \<Longrightarrow> \<exists>res dp. desc_linked s L d res dp"
  shows "\<exists>s' L' F'. internal_exit s = Inr s' \<and> kernel_wf s' L' F' \<and>
    \<not> listed L' self \<and> idx_of self \<notin> set (F' KPCBPtr)"
proof -
  let ?L = "zombie_lists r ini L"
  let ?Lg = "gone_lists s r par self ?L" and ?Fg = "gone_free s r ?L F"
  obtain s' where s': "internal_exit s = Inr s'" "sched_wf s' ?Lg ?Fg par"
    using exit_parent_wf [OF run ini ok par waits self linked] by blast
  obtain s1 where "kernel_wf s1 ?L F"
    using exit_common [OF run ini ok(1) par(1)] kernel_wf_kind [OF sched_wfD(1) [OF run] par(2)]
      not_listedD [OF sched_wfD(5) [OF run]] par(2) by fastforce
  moreover have "self \<in> set (?L (PcbChildren par))"
    using self by (auto simp: pid_lookup_def dest: find_in_set)
  ultimately have "\<not> listed ?Lg self \<and> idx_of self \<notin> set (?Fg KPCBPtr)"
    by (rule exit_leaks_child_pointer)
  then show ?thesis using s' sched_wfD(1) by blast
qed

theorem exit_to_parent_leaks_pointer_witness:
  "\<exists>s' L' F'. internal_exit (calling 4 [7] waited) = Inr s' \<and> kernel_wf s' L' F' \<and>
    \<not> listed L' pp0 \<and> 0 \<notin> set (F' KPCBPtr)"
  using exit_to_parent_leaks_pointer [OF calling_wf [OF waited_wf(2), of 4 "[7]"], of p0 p0 pp0]
  by (simp add: waited_simps)

text \<open>C40: The init process cannot exit: with children it hands them to itself for ever, without
  children it dereferences the parent it does not have.\<close>

theorem init_cannot_exit:
  assumes run: "sched_wf s L F r" and ini: "init_pcb s = Some r" and ok: "children_ok s L r"
    and par: "pcb_parent (pcbs s r) = None"
  shows "internal_exit s = Inl (if L (PcbChildren r) \<noteq> [] then Diverges else NullDeref)"
  using exit_init_diverges [OF run ini ok] exit_init_no_parent [OF run ini _ par] by simp

theorem init_cannot_exit_witness:
  "internal_exit (calling 4 [0] forked) = Inl Diverges \<and> internal_exit (calling 4 [0] started) = Inl NullDeref"
  using init_cannot_exit [OF calling_wf [OF forked_wf(2), of 4 "[0]"]]
    init_cannot_exit [OF calling_wf [OF started_wf(2), of 4 "[0]"]]
  by (simp add: children_ok_def)

text \<open>An exit that finds nobody to run, neither a waiting parent nor a ready process,
  dereferences a null pointer.\<close>

theorem exit_needs_a_successor:
  assumes "sched_wf s L F r" and "init_pcb s = Some ini" and "kind_of ini = KPCB" and "ini \<noteq> r"
    and "children_ok s L r" and "pcb_parent (pcbs s r) = Some par" and "kind_of par = KPCB" and "par \<noteq> r"
    and "\<not> awaits par r s" and "L ReadyList = []"
  shows "internal_exit s = Inl NullDeref"
  by (rule exit_ready_stuck [OF assms])

theorem exit_needs_a_successor_witness:
  "internal_exit (calling 4 [0] slept) = Inl NullDeref"
  using exit_needs_a_successor [OF calling_wf [OF slept_wf(2), of 4 "[0]"], of p0 p0]
  by (simp add: children_ok_def awaits_def calling_other)

section \<open>Wait\<close>

text \<open>C13: Waiting for a child that is already a zombie, any child with argument 0, removes it: its
  block and the pointer to it are freed, and the caller gets the child's id and its exit value.\<close>

theorem wait_reaps_zombie:
  assumes run: "sched_wf s L F r" and ok: "children_ok s L r"
    and pp: "List.find (wait_match (int_arg r 0 s) s) (L (PcbChildren r)) = Some pp"
    and z: "pcb_status (pcbs s (child s pp)) = Zombie" "child s pp \<in> set (L ZombieList)"
  shows "\<exists>s'. internal_wait s = Inr s' \<and>
    sched_wf s' (reaped_lists r pp (child s pp) L) (reaped_free pp (child s pp) F) r \<and>
    kernel_frame (store_result r (pcb_return_value (pcbs s (child s pp)))
      (set_retvalue r (pcb_pid (pcbs s (child s pp))) s)) s'"
proof -
  have "pp \<in> set (L (PcbChildren r))" using pp by (auto dest: find_in_set)
  moreover have "awaited (int_arg r 0 s) s (L (PcbChildren r)) = pp" using pp by (simp add: awaited_def)
  ultimately show ?thesis
    using wait_cases_wf [OF run ok] reap_wf [OF run _ z(2)] z(1) by (cases "L (PcbChildren r)") auto
qed

theorem wait_reaps_zombie_witness:
  "\<exists>s'. internal_wait (calling 3 [0, 100] zombied) = Inr s' \<and> retvalue p0 s' = 1 \<and> umem s' 100 = 7"
proof -
  let ?s = "calling 3 [0, 100] zombied"
  have "int_arg p0 0 ?s = 0" by (simp add: calling_arg)
  then obtain s' where s': "internal_wait ?s = Inr s'" "kernel_frame (store_result p0 7 (set_retvalue p0 1 ?s)) s'"
    using wait_reaps_zombie [OF calling_wf [OF zombied_wf(2), of 3 "[0, 100]"], of pp0]
    by (auto simp: children_ok_def child_def wait_match_def)
  have "store_result p0 7 (set_retvalue p0 1 ?s) = (set_retvalue p0 1 ?s)\<lparr>umem := (umem zombied)(100 := 7)\<rparr>"
    by (simp add: calling_store)
  with s' show ?thesis by (auto simp: kernel_frame_def set_retvalue_def retvalue_def upd_pcb_def)
qed

text \<open>Waiting for a child that still runs, or for any child when none is a zombie, puts the
  caller in the waiting list and runs the first ready process; if there is none, the kernel
  dereferences a null pointer.\<close>

theorem wait_blocks_for_live_child:
  assumes run: "sched_wf s L F r" and ok: "children_ok s L r" and ne: "L (PcbChildren r) \<noteq> []"
    and alive: "\<And>pp. pp \<in> set (L (PcbChildren r)) \<Longrightarrow> pcb_status (pcbs s (child s pp)) \<noteq> Zombie"
  shows "case L ReadyList of [] \<Rightarrow> internal_wait s = Inl NullDeref
    | p # q \<Rightarrow> \<exists>s'. internal_wait s = Inr s' \<and>
        sched_wf s' (L(WaitingList := L WaitingList @ [r], ReadyList := q)) F p \<and>
        kernel_frame ((set_status r Waiting s)\<lparr>running := Some p\<rparr>) s'"
proof -
  have "internal_wait s = wait_sleep r s"
    using wait_cases_wf [OF run ok ne] alive awaited_in_set [OF ne] by simp
  then show ?thesis
    using wait_sleep_wf [OF run] wait_sleep_stuck [OF run] by (auto split: list.split)
qed

theorem wait_blocks_for_live_child_witness:
  "\<exists>s'. internal_wait (calling 3 [0, 0] forked) = Inr s' \<and> running s' = Some p1 \<and>
     pcb_status (pcbs s' p0) = Waiting"
  using wait_blocks_for_live_child [OF calling_wf [OF forked_wf(2), of 3 "[0, 0]"]]
  by (auto simp: children_ok_def child_def kernel_frame_def set_status_def upd_pcb_def)

text \<open>A process without children gets \<open>DSOS_EWAIT\<close>; but one that waits for a process id that
  is not a child's is not refused: it waits for, or removes, the last of its children.\<close>

theorem wait_for_stranger:
  assumes run: "sched_wf s L F r" and ok: "children_ok s L r"
    and no: "\<And>pp. pp \<in> set (L (PcbChildren r)) \<Longrightarrow> pcb_pid (pcbs s (child s pp)) \<noteq> int_arg r 0 s"
    and pid: "int_arg r 0 s \<noteq> 0"
  shows "internal_wait s =
    (if L (PcbChildren r) = [] then Inr (set_retvalue r DSOS_EWAIT s)
     else let pp = last (L (PcbChildren r)) in
       if pcb_status (pcbs s (child s pp)) = Zombie then reap r pp (child s pp) s else wait_sleep r s)"
proof (cases "L (PcbChildren r) = []")
  case True
  then show ?thesis by (simp add: wait_no_children [OF run])
next
  case False
  have "List.find (wait_match (int_arg r 0 s) s) (L (PcbChildren r)) = None"
    using no pid by (auto simp: find_None_iff wait_match_def)
  with False show ?thesis by (simp add: wait_cases_wf [OF run ok] awaited_def Let_def)
qed

theorem wait_for_stranger_witness:
  "internal_wait (calling 3 [5, 0] zombied) = reap p0 pp0 p1 (calling 3 [5, 0] zombied)"
proof -
  have "int_arg p0 0 (calling 3 [5, 0] zombied) = 5" by (simp add: calling_arg)
  then show ?thesis
    using wait_for_stranger [OF calling_wf [OF zombied_wf(2), of 3 "[5, 0]"]]
    by (simp add: children_ok_def child_def)
qed

end
