(* ===== verification/IpcClaims.thy ===== *)
theory IpcClaims
  imports ScenarioIpc
begin

text \<open>
  What the kernel does for things processes share: resources and
  semaphores.
\<close>

unbundle bit_operations_syntax

declare One_nat_def [simp del]

section \<open>Resources\<close>

lemma find_snoc: "(\<And>x. x \<in> set xs \<Longrightarrow> \<not> P x) \<Longrightarrow> P y \<Longrightarrow> List.find P (xs @ [y]) = Some y"
  by (simp add: find_append_miss)

text \<open>Opening a resource that does not exist, with the flag that creates it, makes it with the
  given id and type and gives the caller a descriptor whose number is the caller's counter, which
  goes up; the descriptor and the pointer to it are last in their lists.\<close>

theorem resource_open_creates:
  assumes "kernel_wf s L F" and "running s = Some r" and "kind_of r = KPCB"
    and "res_lookup s L (int_arg r 0 s) = None" and "int_arg r 2 s AND DSOS_CREATE \<noteq> 0"
    and "F KResource = k # ks" and "F KDescriptor = i # is" and "F KDescriptorPtr = j # js"
    and "int32_range (pcb_last_fd (pcbs s r) + 1)"
  shows "\<exists>s'. internal_openResource s = Inr s' \<and>
    kernel_wf s' (opened_lists r (Ptr KResource k) (Ptr KDescriptor i) (Ptr KDescriptorPtr j)
        (L(ResDescriptors (Ptr KResource k) := [], ResourcesList := L ResourcesList @ [Ptr KResource k])))
      (F(KResource := ks, KDescriptor := is, KDescriptorPtr := js)) \<and>
    kernel_frame (opened_contents r (Ptr KResource k) (Ptr KDescriptor i) (Ptr KDescriptorPtr j)
      (s\<lparr>resources := (resources s)(Ptr KResource k := \<lparr>res_id = int_arg r 0 s, res_type = int_arg r 1 s\<rparr>)\<rparr>)) s'"
  by (rule openResource_create_wf [OF assms])

theorem resource_open_creates_witness:
  "\<exists>s'. internal_openResource (calling 7 [5, 2, 1] started) = Inr s' \<and>
     resources s' res0 = \<lparr>res_id = 5, res_type = 2\<rparr> \<and> retvalue p0 s' = 0 \<and> pcb_last_fd (pcbs s' p0) = 1"
proof -
  have run: "sched_wf (calling 7 [5, 2, 1] started) no_lists boot_free p0" by (rule calling_wf [OF started_wf(2)])
  have "int_arg p0 0 (calling 7 [5, 2, 1] started) = 5" "int_arg p0 1 (calling 7 [5, 2, 1] started) = 2"
    "int_arg p0 2 (calling 7 [5, 2, 1] started) = 1" by (simp_all add: calling_arg)
  then show ?thesis
    using resource_open_creates [OF sched_wfD(1-3) [OF run], of 0 "[1..1023]" 0 "[1..1023]" 0 "[1..1023]"]
    by (auto simp: res_lookup_def int32_range_def kernel_frame_def opened_contents_def retvalue_def)
qed

text \<open>C30: Opening a resource that exists, of the given type and without DSOS_CREATE, and closing the descriptor just
  got gives back the lists and the free blocks there were, block for block. For the rest, only the control block
  of the caller changes, where the counter of descriptors has moved on and the argument and the value of the
  last call are kept, and what the two blocks hold that were taken and given back. (With DSOS_EXCL nobody may have
  the resource open; no older descriptor of the process may have the same number.)\<close>

theorem resource_open_close_roundtrip:
  assumes wf: "kernel_wf s L F" and run: "running s = Some r" "kind_of r = KPCB"
    and res: "res_lookup s L (int_arg r 0 s) = Some res" "res_type (resources s res) = int_arg r 1 s"
    and mode: "int_arg r 2 s AND DSOS_CREATE = 0" "int_arg r 2 s AND DSOS_EXCL = 0 \<or> L (ResDescriptors res) = []"
    and F: "F KDescriptor = i # is" "F KDescriptorPtr = j # js"
    and rng: "int32_range (pcb_last_fd (pcbs s r) + 1)" and fd: "int32_range (pcb_last_fd (pcbs s r))"
    and new: "fd_lookup s (L (PcbDescriptors r)) (pcb_last_fd (pcbs s r)) = None"
  shows "\<exists>s1 s2. internal_openResource s = Inr s1 \<and> retvalue r s1 = pcb_last_fd (pcbs s r) \<and>
    internal_closeResource (upd_pcb r (\<lambda>c. c\<lparr>pcb_syscall_args := \<lambda>_. pcb_last_fd (pcbs s r)\<rparr>) s1) = Inr s2 \<and>
    kernel_wf s2 L F \<and> retvalue r s2 = 0 \<and> pcb_last_fd (pcbs s2 r) = pcb_last_fd (pcbs s r) + 1 \<and>
    kernel_frame (set_retvalue r 0 (upd_pcb r (\<lambda>c. c\<lparr>pcb_last_fd := pcb_last_fd (pcbs s r) + 1,
        pcb_syscall_args := \<lambda>_. pcb_last_fd (pcbs s r)\<rparr>) s)
      \<lparr>descs := (descs s)(Ptr KDescriptor i := descs s2 (Ptr KDescriptor i)),
       desc_ptrs := (desc_ptrs s)(Ptr KDescriptorPtr j := desc_ptrs s2 (Ptr KDescriptorPtr j))\<rparr>) s2"
proof -
  let ?fd = "pcb_last_fd (pcbs s r)" and ?d = "Ptr KDescriptor i" and ?dp = "Ptr KDescriptorPtr j"
  let ?L = "opened_lists r res ?d ?dp L" and ?F = "F(KDescriptor := is, KDescriptorPtr := js)"
  obtain s1 where s1: "internal_openResource s = Inr s1" "kernel_wf s1 ?L ?F"
    "kernel_frame (opened_contents r res ?d ?dp s) s1"
    using openResource_existing_wf [OF wf run res mode F rng] by blast
  let ?c = "upd_pcb r (\<lambda>c. c\<lparr>pcb_syscall_args := \<lambda>_. ?fd\<rparr>) s1"
  have wf1: "kernel_wf ?c ?L ?F" using s1(2) by (simp add: upd_pcb_def)
  have run1: "running ?c = Some r" using s1(3) run by (simp add: kernel_frame_def opened_contents_def upd_pcb_def)
  have arg: "int_arg r 0 ?c = ?fd" using fd by (simp add: int_arg_def syscall_arg_def upd_pcb_def to_int32_id)
  have free: "\<not> live s F ?d" "\<not> live s F ?dp" using F by (simp_all add: live_def)
  have out: "?d \<notin> set (L h)" "?dp \<notin> set (L h)" for h using kernel_wf_live [OF wf] free by blast+
  have descs: "descs ?c ?d = \<lparr>desc_pcb = Some r, desc_object = Some res, desc_fd = ?fd, desc_ptr = Some ?dp\<rparr>"
    "x \<noteq> ?d \<Longrightarrow> descs ?c x = descs s x" "desc_ptrs ?c ?dp = Some ?d" for x
    using s1(3) by (simp_all add: kernel_frame_def opened_contents_def upd_pcb_def)
  have old: "desc_fd (descs ?c x) \<noteq> ?fd" if "x \<in> set (L (PcbDescriptors r))" for x
  proof -
    have "x \<noteq> ?d" using that out(1) by auto
    then have "descs ?c x = descs s x" by (rule descs(2))
    then show ?thesis using new that by (auto simp: fd_lookup_def find_None_iff)
  qed
  have look: "fd_lookup ?c (?L (PcbDescriptors r)) (int_arg r 0 ?c) = Some ?d"
  proof -
    have "?L (PcbDescriptors r) = L (PcbDescriptors r) @ [?d]" by (simp add: opened_lists_def)
    moreover have "desc_fd (descs ?c ?d) = ?fd" using descs(1) by simp
    ultimately show ?thesis unfolding arg fd_lookup_def using find_snoc [of _ "\<lambda>d. desc_fd (descs ?c d) = ?fd" ?d] old by simp
  qed
  have lk: "desc_linked ?c ?L ?d res ?dp"
  proof -
    have "kind_of res = KResource"
      using kernel_wf_kind [OF wf, of res ResourcesList] res(1) by (auto simp: res_lookup_def dest: find_in_set)
    then show ?thesis using descs(1,3) by (simp add: desc_linked_def opened_lists_def)
  qed
  obtain s2 where s2: "internal_closeResource ?c = Inr s2" "kernel_wf s2 (closed_lists r res ?d ?dp ?L)
      (?F(KDescriptor := idx_of ?d # ?F KDescriptor, KDescriptorPtr := idx_of ?dp # ?F KDescriptorPtr))"
    "kernel_frame (set_retvalue r 0 ?c) s2"
    using closeResource_wf [OF wf1 run1 run(2) look lk] by blast
  have L: "closed_lists r res ?d ?dp ?L = L"
    using out by (auto simp: closed_lists_def opened_lists_def fun_eq_iff remove1_append)
  have FF: "?F(KDescriptor := idx_of ?d # ?F KDescriptor, KDescriptorPtr := idx_of ?dp # ?F KDescriptorPtr) = F"
    using F by (auto simp: fun_eq_iff)
  have "retvalue r s1 = ?fd" "retvalue r s2 = 0" "pcb_last_fd (pcbs s2 r) = ?fd + 1"
    using s1(3) s2(3)
    by (simp_all add: kernel_frame_def opened_contents_def retvalue_def set_retvalue_def upd_pcb_def)
  moreover have "kernel_frame (set_retvalue r 0 (upd_pcb r (\<lambda>c. c\<lparr>pcb_last_fd := ?fd + 1, pcb_syscall_args := \<lambda>_. ?fd\<rparr>) s)
      \<lparr>descs := (descs s)(?d := descs s2 ?d), desc_ptrs := (desc_ptrs s)(?dp := desc_ptrs s2 ?dp)\<rparr>) s2"
    using s1(3) s2(3) by (simp add: kernel_frame_def opened_contents_def set_retvalue_def upd_pcb_def)
  ultimately show ?thesis using s1(1) s2(1,2) unfolding L FF by blast
qed

theorem resource_open_close_roundtrip_witness:
  "\<exists>s1 s2. internal_openResource (calling 7 [5, 2, 0] opened) = Inr s1 \<and> retvalue p0 s1 = 1 \<and>
     internal_closeResource (upd_pcb p0 (\<lambda>c. c\<lparr>pcb_syscall_args := \<lambda>_. 1\<rparr>) s1) = Inr s2 \<and>
     kernel_wf s2 opened_state_lists opened_state_free"
proof -
  let ?s = "calling 7 [5, 2, 0] opened"
  have arg: "int_arg p0 0 ?s = 5" "int_arg p0 1 ?s = 2" "int_arg p0 2 ?s = 0" by (simp_all add: calling_arg)
  have "fd_lookup ?s (opened_state_lists (PcbDescriptors p0)) 1 = None"
    "res_lookup ?s opened_state_lists (int_arg p0 0 ?s) = Some res0"
    by (simp_all add: arg fd_lookup_def res_lookup_def)
  then show ?thesis
    using resource_open_close_roundtrip [OF calling_kernel_wf [OF opened_state(2), of 7 "[5, 2, 0]"],
        where r = p0 and res = res0 and i = 1 and j = 1]
    by (auto simp: arg int32_range_def)
qed

text \<open>The refusals of opening: to create what exists, to open what does not exist or has
  another type, and to open exclusively what is in use. Each only sets the return value.\<close>

theorem resource_open_refused:
  assumes wf: "kernel_wf s L F" and run: "running s = Some r" "kind_of r = KPCB"
  shows "(int_arg r 2 s AND DSOS_CREATE \<noteq> 0 \<and> res_lookup s L (int_arg r 0 s) \<noteq> None \<longrightarrow>
      internal_openResource s = Inr (set_retvalue r DSOS_ERESOURCECREATE s)) \<and>
    (int_arg r 2 s AND DSOS_CREATE = 0 \<and>
      (case res_lookup s L (int_arg r 0 s) of None \<Rightarrow> True | Some x \<Rightarrow> res_type (resources s x) \<noteq> int_arg r 1 s) \<longrightarrow>
      internal_openResource s = Inr (set_retvalue r DSOS_ERESOURCEOPEN s)) \<and>
    (int_arg r 2 s AND DSOS_CREATE = 0 \<and> int_arg r 2 s AND DSOS_EXCL \<noteq> 0 \<and>
      (case res_lookup s L (int_arg r 0 s) of None \<Rightarrow> False
       | Some x \<Rightarrow> res_type (resources s x) = int_arg r 1 s \<and> L (ResDescriptors x) \<noteq> []) \<longrightarrow>
      internal_openResource s = Inr (set_retvalue r DSOS_ERESOURCENOEXCL s))"
  using openResource_refused [OF wf run] by (cases "res_lookup s L (int_arg r 0 s)") auto

theorem resource_open_refused_witness:
  "internal_openResource (calling 7 [5, 2, 1] opened) = Inr (set_retvalue p0 DSOS_ERESOURCECREATE (calling 7 [5, 2, 1] opened)) \<and>
   internal_openResource (calling 7 [6, 2, 0] opened) = Inr (set_retvalue p0 DSOS_ERESOURCEOPEN (calling 7 [6, 2, 0] opened)) \<and>
   internal_openResource (calling 7 [5, 2, 4] opened) = Inr (set_retvalue p0 DSOS_ERESOURCENOEXCL (calling 7 [5, 2, 4] opened))"
proof -
  have arg: "int_arg p0 0 (calling 7 [x, y, z] opened) = to_int32 x" "int_arg p0 1 (calling 7 [x, y, z] opened) = to_int32 y"
    "int_arg p0 2 (calling 7 [x, y, z] opened) = to_int32 z" for x y z by (simp_all add: calling_arg)
  have six: "to_int32 6 = 6" "to_int32 4 = 4" by (simp_all add: to_int32_id int32_range_def)
  have run: "running (calling 7 xs opened) = Some p0" "kind_of p0 = KPCB" for xs by simp_all
  note r = resource_open_refused [OF calling_kernel_wf [OF opened_state(2)] run]
  show ?thesis
    using r [of "[5, 2, 1]"] r [of "[6, 2, 0]"] r [of "[5, 2, 4]"] by (simp add: arg six res_lookup_def)
qed

text \<open>Closing a descriptor of the caller unlinks it from the process and its pointer from the
  resource, and frees both; a number the caller does not have is refused.\<close>

theorem resource_close:
  assumes wf: "kernel_wf s L F" and run: "running s = Some r" "kind_of r = KPCB"
    and linked: "\<And>d. fd_lookup s (L (PcbDescriptors r)) (int_arg r 0 s) = Some d \<Longrightarrow> desc_linked s L d (res d) (dp d)"
  shows "case fd_lookup s (L (PcbDescriptors r)) (int_arg r 0 s) of
      None \<Rightarrow> internal_closeResource s = Inr (set_retvalue r DSOS_ERESOURCECLOSE s)
    | Some d \<Rightarrow> \<exists>s'. internal_closeResource s = Inr s' \<and> kernel_wf s' (closed_lists r (res d) d (dp d) L)
        (F(KDescriptor := idx_of d # F KDescriptor, KDescriptorPtr := idx_of (dp d) # F KDescriptorPtr)) \<and>
      kernel_frame (set_retvalue r 0 s) s'"
  using closeResource_bad_fd [OF wf run] closeResource_wf [OF wf run _ linked] by (auto split: option.split)

theorem resource_close_witness:
  "\<exists>s'. internal_closeResource (calling 8 [0] opened) = Inr s' \<and> retvalue p0 s' = 0"
proof -
  have arg: "int_arg p0 0 (calling 8 [0] opened) = 0" by (simp add: calling_arg)
  have "fd_lookup (calling 8 [0] opened) (opened_state_lists (PcbDescriptors p0)) 0 = Some d0"
    by (simp add: fd_lookup_def)
  then show ?thesis
    using resource_close [OF calling_kernel_wf [OF opened_state(2), of 8 "[0]"],
        where r = p0 and res = "\<lambda>_. res0" and dp = "\<lambda>_. dp0"]
    by (auto simp: arg desc_linked_def kernel_frame_def set_retvalue_def retvalue_def upd_pcb_def)
qed

text \<open>Destroying a resource that nobody has open takes it out of the system's list and frees it;
  it is refused while descriptors are open, and for an id that does not exist.\<close>

theorem resource_destroy:
  assumes wf: "kernel_wf s L F" and run: "running s = Some r" "kind_of r = KPCB"
  shows "case res_lookup s L (int_arg r 0 s) of
      None \<Rightarrow> internal_destroyResource s = Inr (set_retvalue r DSOS_ERESOURCECLOSE s)
    | Some res \<Rightarrow>
        if L (ResDescriptors res) \<noteq> [] then internal_destroyResource s = Inr (set_retvalue r DSOS_ERESOURCEINUSE s)
        else \<exists>s'. internal_destroyResource s = Inr s' \<and>
          kernel_wf s' (L(ResourcesList := remove1 res (L ResourcesList))) (F(KResource := idx_of res # F KResource)) \<and>
          kernel_frame (set_retvalue r 0 s) s'"
  using destroyResource_refused [OF wf run] destroyResource_wf [OF wf run] by (auto split: option.split)

theorem resource_destroy_witness:
  "internal_destroyResource (calling 9 [5] opened) = Inr (set_retvalue p0 DSOS_ERESOURCEINUSE (calling 9 [5] opened))"
proof -
  have arg: "int_arg p0 0 (calling 9 [5] opened) = 5" by (simp add: calling_arg)
  show ?thesis
    using resource_destroy [OF calling_kernel_wf [OF opened_state(2), of 9 "[5]"], where r = p0]
    by (simp add: arg res_lookup_def)
qed

section \<open>Semaphores\<close>

text \<open>C23: The system call wait implements the wait of a counting semaphore: a positive count goes
  down and the caller goes on with 0; otherwise the caller joins the end of the semaphore's queue
  and the waiting list, and the first ready process runs. No other semaphore changes.\<close>

theorem semaphore_wait_refines:
  assumes "sched_wf s L F r" and "sem_linked s L r sem d dp" and "asem_ok (sem_abs s L sem)"
    and "0 < sem_count (sems s sem) \<or> L ReadyList = p # q"
  shows "\<exists>s' L' r'. internal_semWait s = Inr s' \<and> sched_wf s' L' F r' \<and>
    sem_abs s' L' sem = asem_wait r (sem_abs s L sem) \<and>
    (\<forall>x. x \<noteq> sem \<longrightarrow> sem_abs s' L' x = sem_abs s L x) \<and>
    (if 0 < sem_count (sems s sem) then r' = r \<and> retvalue r s' = 0 else r' = p \<and> r \<in> set (L' WaitingList))"
  by (rule semWait_refines [OF assms])

theorem semaphore_wait_refines_witness:
  "\<exists>s' L' r'. internal_semWait (calling 13 [0] (sem_made 0)) = Inr s' \<and> sched_wf s' L' sem_free r' \<and>
     sem_abs s' L' sem0 = (0, [p0]) \<and> r' = p1"
proof -
  let ?s = "calling 13 [0] (sem_made 0)"
  have c: "(0::int) \<le> 0" "int32_range 0" by (simp_all add: int32_range_def)
  have arg: "int_arg p0 0 ?s = 0" by (simp add: calling_arg c)
  have lk: "sem_linked ?s sem_lists p0 sem0 sd0 sp0" by (simp add: sem_linked_def arg sem_made_handle c)
  have ab: "sem_abs ?s sem_lists sem0 = (0, [])" by (simp add: sem_abs_def c)
  have "sem_count (sems ?s sem0) = 0" by (simp add: c)
  then show ?thesis
    using semaphore_wait_refines [OF calling_wf [OF sem_made_state(2) [OF c], of 13 "[0]"] lk, of p1 "[]"]
    by (auto simp: ab asem_ok_def asem_wait_def)
qed



text \<open>A post that wakes a process changes no contents at all: neither the caller nor the process
  that is woken gets a return value, and the status of the woken process stays as it was.\<close>

theorem semaphore_post_wakes_first:
  assumes "sched_wf s L F r" and "sem_handle s L r (int_arg r 0 s) = Some (d, sem)"
    and "kind_of sem = KSemaphore" and "int32_range (sem_count (sems s sem) + 1)"
    and "sem_count (sems s sem) \<ge> 0" and "L (SemWaiting sem) = dp # dps"
    and "desc_ptrs s dp = Some wd" and "kind_of wd = KSemDescriptor"
    and "desc_pcb (descs s wd) = Some w" and "w \<in> set (L WaitingList)"
  shows "\<exists>s'. internal_semPost s = Inr s' \<and> sched_wf s' (posted_lists sem dp w L) F r \<and> pcbs s' = pcbs s \<and> sems s' = sems s"
  using semPost_wakes [OF assms] by (auto simp: kernel_frame_def)

theorem semaphore_post_wakes_first_witness:
  "\<exists>s'. internal_semPost (calling 14 [0] sem_joined) = Inr s' \<and> pcbs s' = pcbs (calling 14 [0] sem_joined)"
proof -
  have arg: "int_arg p1 0 (calling 14 [0] sem_joined) = 0" by (simp add: calling_arg)
  show ?thesis
    using semaphore_post_wakes_first [OF calling_wf [OF sem_joined_state(2), of 14 "[0]"],
        of sd1 sem0 sp0 "[]" sd0 p0]
    by (auto simp: arg sem_joined_handle int32_range_def)
qed

text \<open>A process that would have to wait while nobody is ready crashes the kernel: a null pointer
  is dereferenced before the test for it.\<close>

theorem semaphore_wait_needs_successor:
  assumes "sched_wf s L F r" and "sem_handle s L r (int_arg r 0 s) = Some (d, sem)" and "kind_of sem = KSemaphore"
    and "sem_count (sems s sem) \<le> 0" and "desc_ptr (descs s d) = Some dp" and "dp \<in> set (L (SemDescriptors sem))"
    and "L ReadyList = []"
  shows "internal_semWait s = Inl NullDeref"
  by (rule semWait_stuck [OF assms])

theorem semaphore_wait_needs_successor_witness:
  "internal_semWait (calling 13 [0] sem_joined) = Inl NullDeref"
proof -
  have arg: "int_arg p1 0 (calling 13 [0] sem_joined) = 0" by (simp add: calling_arg)
  show ?thesis
    using semaphore_wait_needs_successor [OF calling_wf [OF sem_joined_state(2), of 13 "[0]"], of sd1 sem0 sp1]
    by (simp add: arg sem_joined_handle)
qed

text \<open>Opening a semaphore that does not exist, with the flag that creates it, makes it with the
  given id and count, and gives the caller a descriptor numbered by its counter.\<close>

theorem semaphore_open_creates:
  assumes "sched_wf s L F r" and "sem_lookup s L (int_arg r 0 s) = None"
    and "pcb_last_sem_fd (pcbs s r) < 32" and "0 \<le> int_arg r 0 s" and "int32_range (pcb_last_sem_fd (pcbs s r))"
    and "int_arg r 1 s AND DSOS_CREATE \<noteq> 0" and "length (L SemaphoresList) < 1024"
    and "F KSemaphore = k # ks" and "F KSemDescriptor = i # is" and "F KSemDescriptorPtr = j # js"
  shows "\<exists>s'. internal_semOpen s = Inr s' \<and>
    sched_wf s' (semopened_lists r (Ptr KSemaphore k) (Ptr KSemDescriptor i) (Ptr KSemDescriptorPtr j)
        (newsem_lists (Ptr KSemaphore k) L))
      (F(KSemaphore := ks, KSemDescriptor := is, KSemDescriptorPtr := js)) r \<and>
    kernel_frame (semopened_contents r (Ptr KSemaphore k) (Ptr KSemDescriptor i) (Ptr KSemDescriptorPtr j)
      (s\<lparr>sems := (sems s)(Ptr KSemaphore k := \<lparr>sem_id = int_arg r 0 s, sem_count = int_arg r 2 s\<rparr>)\<rparr>)) s'"
  by (rule semOpen_creates [OF assms])

theorem semaphore_open_creates_witness:
  "\<exists>s'. internal_semOpen (calling 11 [5, 1, 3] forked) = Inr s' \<and> sems s' sem0 = \<lparr>sem_id = 5, sem_count = 3\<rparr> \<and>
     retvalue p0 s' = 0"
proof -
  let ?s = "calling 11 [5, 1, 3] forked"
  have "int_arg p0 0 ?s = 5" "int_arg p0 1 ?s = 1" "int_arg p0 2 ?s = 3" by (simp_all add: calling_arg)
  then show ?thesis
    using semaphore_open_creates [OF calling_wf [OF forked_wf(2), of 11 "[5, 1, 3]"], of 0 "[1..1023]" 0 "[1..1023]" 0 "[1..1023]"]
    by (auto simp: sem_lookup_def int32_range_def kernel_frame_def semopened_contents_def opened_desc_def retvalue_def)
qed

text \<open>The refusals of opening a semaphore: too many descriptors, a negative id, a semaphore that
  does not exist, one that exists although it should be created exclusively, and no room for another.\<close>

theorem semaphore_open_refused:
  assumes "sched_wf s L F r" and "int32_range (pcb_last_sem_fd (pcbs s r) + 1)"
    and "pcb_last_sem_fd (pcbs s r) \<ge> 32 \<or> int_arg r 0 s < 0 \<or>
      int_arg r 1 s AND DSOS_CREATE = 0 \<and> sem_lookup s L (int_arg r 0 s) = None \<or>
      int_arg r 1 s AND DSOS_CREATE \<noteq> 0 \<and> int_arg r 1 s AND DSOS_EXCL \<noteq> 0 \<and> sem_lookup s L (int_arg r 0 s) \<noteq> None \<or>
      int_arg r 1 s AND DSOS_CREATE \<noteq> 0 \<and> sem_lookup s L (int_arg r 0 s) = None \<and>
        (length (L SemaphoresList) \<ge> 1024 \<or> F KSemaphore = [])"
  shows "internal_semOpen s = Inr (set_retvalue r DSOS_ESEMAPHOREOPEN s)"
  by (rule semOpen_refused [OF assms])

theorem semaphore_open_refused_witness:
  "internal_semOpen (calling 11 [5, 5, 0] sem_blocked) =
     Inr (set_retvalue p1 DSOS_ESEMAPHOREOPEN (calling 11 [5, 5, 0] sem_blocked))"
proof -
  let ?s = "calling 11 [5, 5, 0] sem_blocked"
  have "int_arg p1 0 ?s = 5" "int_arg p1 1 ?s = 5" by (simp_all add: calling_arg)
  then show ?thesis
    using semaphore_open_refused [OF calling_wf [OF sem_blocked_state(2), of 11 "[5, 5, 0]"]]
    by (simp add: int32_range_def sem_lookup_def)
qed

text \<open>Closing a semaphore frees the descriptor and the pointer to it; when no pointer is left in
  the list of its descriptors the semaphore is freed too, whether or not processes wait on it.\<close>

theorem semaphore_close_last_descriptor:
  assumes "sched_wf s L F r" and "sem_handle s L r (int_arg r 0 s) = Some (d, sem)" and "kind_of sem = KSemaphore"
    and "int32_range (pcb_last_sem_fd (pcbs s r) - 1)" and "desc_ptr (descs s d) = Some dp"
    and "dp \<in> set (L (SemDescriptors sem))" and "sem \<in> set (L SemaphoresList)"
  shows "\<exists>s'. internal_semClose s = Inr s' \<and>
    (if remove1 dp (L (SemDescriptors sem)) = []
     then sched_wf s' ((semclosed_lists r sem d dp L)(SemaphoresList := remove1 sem (L SemaphoresList)))
       ((semclosed_free d dp F)(KSemaphore := idx_of sem # F KSemaphore)) r
     else sched_wf s' (semclosed_lists r sem d dp L) (semclosed_free d dp F) r) \<and>
    kernel_frame (set_retvalue r 0 (upd_pcb r (set_last_sem_fd (pcb_last_sem_fd (pcbs s r) - 1)) s)) s'"
proof (cases "remove1 dp (L (SemDescriptors sem)) = []")
  case True
  have "distinct (L (SemDescriptors sem))"
    using represents_distinct [OF kernel_wf_represents [OF sched_wfD(1) [OF assms(1)]]] by simp
  then have "L (SemDescriptors sem) = [dp]"
    using True assms(6) by (cases "L (SemDescriptors sem)") (auto split: if_splits)
  then show ?thesis using semClose_destroys [OF assms(1-5) _ assms(7)] True by simp
next
  case False
  then show ?thesis using semClose_keeps [OF assms(1-6) False] by simp
qed

theorem semaphore_close_last_descriptor_witness:
  "\<exists>s' L' F'. internal_semClose (calling 12 [0] sem_joined) = Inr s' \<and> sched_wf s' L' F' p1 \<and>
     L' SemaphoresList = [] \<and> L' (SemWaiting sem0) = [sp0]"
proof -
  let ?s = "calling 12 [0] sem_joined"
  have arg: "int_arg p1 0 ?s = 0" by (simp add: calling_arg)
  have d: "desc_ptr (descs ?s sd1) = Some sp1" "int32_range (pcb_last_sem_fd (pcbs ?s p1) - 1)"
    by (simp_all add: int32_range_def)
  let ?L = "(semclosed_lists p1 sem0 sd1 sp1 sem_joined_lists)(SemaphoresList := [])"
  have "\<exists>s' F'. internal_semClose ?s = Inr s' \<and> sched_wf s' ?L F' p1"
    using semaphore_close_last_descriptor [OF calling_wf [OF sem_joined_state(2), of 12 "[0]"] _ _ d(2,1),
        where sem = sem0]
    by (simp add: arg sem_joined_handle) blast
  moreover have "?L SemaphoresList = []" "?L (SemWaiting sem0) = [sp0]"
    by (simp_all add: semclosed_lists_def)
  ultimately show ?thesis by blast
qed

text \<open>A number that is not a descriptor of the caller is refused by wait, post and close.\<close>

theorem semaphore_bad_descriptor:
  assumes "sched_wf s L F r" and "sem_handle s L r (int_arg r 0 s) = None"
  shows "internal_semWait s = Inr (set_retvalue r DSOS_ESEMAPHOREWAIT s) \<and>
    internal_semPost s = Inr (set_retvalue r DSOS_ESEMAPHOREPOST s) \<and>
    internal_semClose s = Inr (set_retvalue r DSOS_ESEMAPHORECLOSE s)"
  using semWait_bad_fd [OF assms] semPost_bad_fd [OF assms] semClose_bad_fd [OF assms] by blast

theorem semaphore_bad_descriptor_witness:
  "internal_semPost (calling 14 [7] sem_joined) =
     Inr (set_retvalue p1 DSOS_ESEMAPHOREPOST (calling 14 [7] sem_joined))"
proof -
  have "int_arg p1 0 (calling 14 [7] sem_joined) = 7" by (simp add: calling_arg)
  then have "sem_handle (calling 14 [7] sem_joined) sem_joined_lists p1 (int_arg p1 0 (calling 14 [7] sem_joined)) = None"
    by (simp add: sem_handle_def fd_lookup_def)
  from semaphore_bad_descriptor [OF calling_wf [OF sem_joined_state(2)] this] show ?thesis by simp
qed

end
