(* ===== verification/MessageQueueSpec.thy ===== *)
theory MessageQueueSpec
  imports MessageQueueLife
begin

text \<open>
  What a message queue promises: per priority the messages come out in the order they were sent,
  the lowest number of a priority first. The interface is a locale, whose lemmas follow any sequence
  of sends and receives; the abstract operations are an instance, and the system calls that write
  and read are shown to implement them. Priorities from the number of priorities on can be written
  to and are never read.
\<close>

section \<open>The interface of a mailbox with priorities\<close>

datatype 'm mq_event = Send int 'm | Receive

locale mailbox =
  fixes send :: "int \<Rightarrow> 'm \<Rightarrow> 'q \<Rightarrow> 'q" and receive :: "'q \<Rightarrow> (int \<times> 'm \<times> 'q) option"
    and pending :: "'q \<Rightarrow> int \<Rightarrow> 'm list" and levels :: int
  assumes send: "pending (send p m q) = (pending q)(p := pending q p @ [m])"
    and receive_none: "receive q = None \<Longrightarrow> 0 \<le> p \<Longrightarrow> p < levels \<Longrightarrow> pending q p = []"
    and receive_level: "receive q = Some (p, m, q') \<Longrightarrow> 0 \<le> p \<and> p < levels"
    and receive_first: "receive q = Some (p, m, q') \<Longrightarrow> 0 \<le> i \<Longrightarrow> i < p \<Longrightarrow> pending q i = []"
    and receive_head: "receive q = Some (p, m, q') \<Longrightarrow> pending q p = m # pending q' p"
    and receive_other: "receive q = Some (p, m, q') \<Longrightarrow> i \<noteq> p \<Longrightarrow> pending q' i = pending q i"
begin

text \<open>A sequence of calls, with the messages delivered, and what it sent and delivered at a priority.\<close>

primrec serve :: "'m mq_event list \<Rightarrow> 'q \<Rightarrow> (int \<times> 'm) list \<times> 'q" where
  "serve [] q = ([], q)"
| "serve (e # es) q =
     (case e of
        Send p m \<Rightarrow> serve es (send p m q)
      | Receive \<Rightarrow>
          (case receive q of
             None \<Rightarrow> serve es q
           | Some (p, m, q') \<Rightarrow> let (out, q'') = serve es q' in ((p, m) # out, q'')))"

primrec sent :: "int \<Rightarrow> 'm mq_event list \<Rightarrow> 'm list" where
  "sent i [] = []"
| "sent i (e # es) = (case e of Send p m \<Rightarrow> if p = i then m # sent i es else sent i es | Receive \<Rightarrow> sent i es)"

definition delivered :: "int \<Rightarrow> (int \<times> 'm) list \<Rightarrow> 'm list" where
  "delivered i out = map snd (filter (\<lambda>x. fst x = i) out)"

lemma delivered_simps [simp]:
  "delivered i [] = []" "delivered i ((p, m) # out) = (if p = i then m # delivered i out else delivered i out)"
  by (simp_all add: delivered_def)

text \<open>Nothing is lost, made up or overtaken within a priority.\<close>

lemma fifo: "serve es q = (out, q') \<Longrightarrow> delivered i out @ pending q' i = pending q i @ sent i es"
proof (induction es arbitrary: q out)
  case (Cons e es)
  show ?case
  proof (cases e)
    case (Send p m)
    then show ?thesis using Cons.IH [of "send p m q" out] Cons.prems by (simp add: send)
  next
    case Receive
    show ?thesis
    proof (cases "receive q")
      case None
      then show ?thesis using Cons.IH [of q out] Cons.prems Receive by simp
    next
      case (Some x)
      obtain p m q1 where x: "receive q = Some (p, m, q1)" using Some by (cases x) auto
      obtain out1 where o: "serve es q1 = (out1, q')" "out = (p, m) # out1"
        using Cons.prems Receive x by (auto split: prod.splits)
      show ?thesis
        using Cons.IH [OF o(1)] o(2) Receive receive_head [OF x] receive_other [OF x, of i]
        by (cases "p = i") auto
    qed
  qed
qed simp

text \<open>A priority outside the range is never delivered: what is sent there stays.\<close>

lemma serve_levels: "serve es q = (out, q') \<Longrightarrow> x \<in> set out \<Longrightarrow> 0 \<le> fst x \<and> fst x < levels"
proof (induction es arbitrary: q out)
  case (Cons e es)
  then show ?case
    using receive_level by (fastforce split: mq_event.splits option.splits prod.splits)
qed simp

lemma stuck:
  assumes "serve es q = (out, q')" and "i < 0 \<or> levels \<le> i"
  shows "pending q' i = pending q i @ sent i es"
proof -
  have "delivered i out = []"
    using serve_levels [OF assms(1)] assms(2) by (force simp: delivered_def filter_empty_conv)
  then show ?thesis using fifo [OF assms(1), of i] by simp
qed

text \<open>A message sent to a queue without more urgent ones is the next to be received.\<close>

lemma receive_sent:
  assumes "0 \<le> p" "p < levels" and none: "\<And>i. 0 \<le> i \<Longrightarrow> i \<le> p \<Longrightarrow> pending q i = []"
  shows "\<exists>q'. receive (send p m q) = Some (p, m, q') \<and> pending q' = pending q"
proof (cases "receive (send p m q)")
  case None
  then show ?thesis using receive_none [OF None assms(1,2)] by (simp add: send)
next
  case (Some x)
  obtain p' m' q' where x: "receive (send p m q) = Some (p', m', q')" using Some by (cases x) auto
  have le: "p' \<le> p" using receive_first [OF x, of p] assms(1) by (force simp: send)
  have ge: "0 \<le> p'" using receive_level [OF x] by simp
  have "p' = p"
    using receive_head [OF x] none [OF ge le] by (auto simp: send split: if_splits)
  then have "m' = m" "pending q' p = []" using receive_head [OF x] none [OF assms(1)] by (simp_all add: send)
  moreover have "pending q' i = pending q i" for i
    using receive_other [OF x, of i] \<open>p' = p\<close> \<open>pending q' p = []\<close> none [OF assms(1)]
    by (cases "i = p") (simp_all add: send)
  ultimately show ?thesis using x \<open>p' = p\<close> by (auto simp: fun_eq_iff)
qed

end

section \<open>The abstract mailbox\<close>

definition amq_write :: "int \<Rightarrow> 'm \<Rightarrow> (int \<Rightarrow> 'm list) \<Rightarrow> (int \<Rightarrow> 'm list)" where
  "amq_write p m a = a(p := a p @ [m])"

definition amq_read :: "int \<Rightarrow> (int \<Rightarrow> 'm list) \<Rightarrow> (int \<times> 'm \<times> (int \<Rightarrow> 'm list)) option" where
  "amq_read n a = map_option (\<lambda>p. (p, hd (a p), a(p := tl (a p)))) (List.find (\<lambda>p. a p \<noteq> []) [0..n - 1])"

lemma find_first_upto:
  assumes "List.find P [0..n - 1] = Some p"
  shows "0 \<le> p" "p < n" "P p" "0 \<le> i \<Longrightarrow> i < p \<Longrightarrow> \<not> P i"
proof -
  obtain k where k: "k < length [0..n - 1]" "P ([0..n - 1] ! k)" "p = [0..n - 1] ! k"
    "\<And>j. j < k \<Longrightarrow> \<not> P ([0..n - 1] ! j)"
    using assms by (auto simp: find_Some_iff)
  have p: "p = int k" "p < n" using k(1,3) by (auto simp: nth_upto)
  show "0 \<le> p" "p < n" "P p" using p k(2,3) by simp_all
  show "\<not> P i" if "0 \<le> i" "i < p"
    using k(4) [of "nat i"] that p by (auto simp: nth_upto)
qed

lemma amq_read_Some:
  assumes "amq_read n a = Some (p, m, b)"
  shows "0 \<le> p \<and> p < n" "0 \<le> i \<Longrightarrow> i < p \<Longrightarrow> a i = []" "a p = m # b p" "i \<noteq> p \<Longrightarrow> b i = a i"
proof -
  have p: "List.find (\<lambda>p. a p \<noteq> []) [0..n - 1] = Some p" and mb: "m = hd (a p)" "b = a(p := tl (a p))"
    using assms by (auto simp: amq_read_def)
  show "0 \<le> p \<and> p < n" "0 \<le> i \<Longrightarrow> i < p \<Longrightarrow> a i = []" using find_first_upto [OF p] by blast+
  show "a p = m # b p" using find_first_upto(3) [OF p] mb by simp
  show "i \<noteq> p \<Longrightarrow> b i = a i" using mb by simp
qed

lemma amq_read_None: "amq_read n a = None \<longleftrightarrow> (\<forall>p. 0 \<le> p \<longrightarrow> p < n \<longrightarrow> a p = [])"
  by (auto simp: amq_read_def find_None_iff)

interpretation amq: mailbox amq_write "amq_read n" "\<lambda>a. a" n for n
  by unfold_locales (auto simp: amq_write_def amq_read_None dest: amq_read_Some)

section \<open>The system calls implement it\<close>

definition mq_abs :: "kernel \<Rightarrow> (headref \<Rightarrow> ptr list) \<Rightarrow> ptr \<Rightarrow> int \<Rightarrow> Message list" where
  "mq_abs s L mq p =
     (case queue_lookup s L mq p of None \<Rightarrow> [] | Some q \<Rightarrow> map (msgs s) (L (QueueMessages q)))"

text \<open>Every priority the message queue has, the last one included, has its queue.\<close>

definition mq_complete :: "kernel \<Rightarrow> (headref \<Rightarrow> ptr list) \<Rightarrow> ptr \<Rightarrow> bool" where
  "mq_complete s L mq \<longleftrightarrow> (\<forall>p\<in>{0..mq_priority (mqs s mq)}. queue_lookup s L mq p \<noteq> None)"

lemma mq_handle_cong:
  assumes "descs s' = descs s" and "L' (PcbMqDescriptors r) = L (PcbMqDescriptors r)"
  shows "mq_handle s' L' r = mq_handle s L r"
  unfolding mq_handle_def fd_lookup_def assms ..

lemma mq_abs_cong:
  assumes "queue_priority s' = queue_priority s" and "msgs s' = msgs s"
  shows "mq_abs s' L = mq_abs s L"
  unfolding mq_abs_def queue_lookup_def assms ..

lemma mq_completeD:
  assumes "mq_complete s L mq" and "0 \<le> p" and "p \<le> mq_priority (mqs s mq)"
  obtains q where "queue_lookup s L mq p = Some q"
  using assms unfolding mq_complete_def by (metis atLeastAtMost_iff option.exhaust)

lemma queue_lookup_prio: "queue_lookup s L mq p = Some q \<Longrightarrow> queue_priority s q = p"
  by (auto simp: queue_lookup_def dest: find_in_set)

lemma queue_lookup_same:
  "queue_priority s' = queue_priority s \<Longrightarrow> queue_lookup s' (L(QueueMessages q := ms)) mq p = queue_lookup s L mq p"
  by (simp add: queue_lookup_def)

text \<open>Changing the messages of one queue changes its priority in its message queue, nothing else.\<close>

lemma mq_abs_update:
  assumes wf: "kernel_wf s L F" and q: "queue_lookup s L mq p = Some q"
    and prio: "queue_priority s' = queue_priority s"
    and same: "\<And>h m. m \<in> set (L h) \<Longrightarrow> msgs s' m = msgs s m"
  shows "mq_abs s' (L(QueueMessages q := ms)) mq = (mq_abs s L mq)(p := map (msgs s') ms)"
    and "x \<noteq> mq \<Longrightarrow> mq_abs s' (L(QueueMessages q := ms)) x = mq_abs s L x"
proof -
  have old: "map (msgs s') (L h) = map (msgs s) (L h)" for h using same by simp
  have "mq_abs s' (L(QueueMessages q := ms)) mq i = ((mq_abs s L mq)(p := map (msgs s') ms)) i" for i
    using q queue_lookup_prio [OF q] queue_lookup_prio [of s L mq i]
    by (auto simp: mq_abs_def queue_lookup_same [OF prio] old split: option.split)
  then show "mq_abs s' (L(QueueMessages q := ms)) mq = (mq_abs s L mq)(p := map (msgs s') ms)" by blast
  show "mq_abs s' (L(QueueMessages q := ms)) x = mq_abs s L x" if x: "x \<noteq> mq"
  proof -
    have "queue_lookup s L x i \<noteq> Some q" for i
    proof
      assume "queue_lookup s L x i = Some q"
      then have "q \<in> set (L (MqQueues x))" "q \<in> set (L (MqQueues mq))" using queue_lookup_in q by blast+
      then show False using represents_disjoint [OF kernel_wf_represents [OF wf]] x by blast
    qed
    then show ?thesis
      by (auto simp: mq_abs_def fun_eq_iff queue_lookup_same [OF prio] old split: option.split)
  qed
qed

lemma mqWrite_refines:
  assumes run: "sched_wf s L F r" and fd: "\<not> mq_fd_bad (int_arg r 0 s)"
    and h: "mq_handle s L r (int_arg r 0 s) = Some (d, mq)" and k: "kind_of mq = KMessageQueue"
    and args: "text_ends s (syscall_arg r 1 s)" "0 \<le> int_arg r 2 s" "int_arg r 2 s \<le> 32"
    and room: "mq_num_messages (mqs s mq) < 128" and prio: "0 \<le> mq_priority (mqs s mq)" "mq_complete s L mq"
    and F: "F KMessage \<noteq> []"
  defines "p \<equiv> effective_priority (mq_priority (mqs s mq)) (int_arg r 3 s)"
  shows "\<exists>s' L' F'. internal_mqWrite s = Inr s' \<and> sched_wf s' L' F' r \<and> retvalue r s' = p \<and>
    mq_abs s' L' mq = amq_write p \<lparr>msg_text_length = int_arg r 2 s, msg_text = syscall_arg r 1 s\<rparr> (mq_abs s L mq) \<and>
    (\<forall>x. x \<noteq> mq \<longrightarrow> mq_abs s' L' x = mq_abs s L x) \<and>
    mqs s' mq = (mqs s mq)\<lparr>mq_num_messages := mq_num_messages (mqs s mq) + 1\<rparr> \<and>
    mq_complete s' L' mq \<and> mq_handle s' L' r = mq_handle s L r \<and> umem s' = umem s"
proof -
  obtain i is' where F: "F KMessage = i # is'" using F by (cases "F KMessage") auto
  let ?m = "Ptr KMessage i" and ?msg = "\<lparr>msg_text_length = int_arg r 2 s, msg_text = syscall_arg r 1 s\<rparr>"
  have wf: "kernel_wf s L F" using run by (rule sched_wfD)
  have "0 \<le> p" "p \<le> mq_priority (mqs s mq)" using prio(1) by (auto simp: p_def effective_priority_def)
  then obtain q where q: "queue_lookup s L mq p = Some q" by (rule mq_completeD [OF prio(2)])
  let ?L = "L(QueueMessages q := L (QueueMessages q) @ [?m])"
  obtain s' where s': "internal_mqWrite s = Inr s'" "sched_wf s' ?L (F(KMessage := is')) r"
    "kernel_frame (write_contents r mq ?m (syscall_arg r 1 s) (int_arg r 2 s) p s) s'"
    using mqWrite_wf [OF run fd h k args room q [unfolded p_def] F] by (auto simp: p_def)
  have fr: "queue_priority s' = queue_priority s" "msgs s' = (msgs s)(?m := ?msg)" "retvalue r s' = p"
    "mqs s' mq = (mqs s mq)\<lparr>mq_num_messages := mq_num_messages (mqs s mq) + 1\<rparr>" "descs s' = descs s" "umem s' = umem s"
    using s'(3) by (simp_all add: kernel_frame_def write_contents_def upd_defs retvalue_def)
  have "?m \<notin> set (L h)" for h using kernel_wf_live [OF wf, of ?m h] F by (auto simp: live_def)
  then have same: "msgs s' x = msgs s x" if "x \<in> set (L h)" for x h using that fr(2) by auto
  have "map (msgs s') (L (QueueMessages q)) = mq_abs s L mq p" using q same by (simp add: mq_abs_def)
  then have "mq_abs s' ?L mq = amq_write p ?msg (mq_abs s L mq)"
    using mq_abs_update(1) [OF wf q fr(1) same] fr(2) by (simp add: amq_write_def)
  moreover have "mq_abs s' ?L x = mq_abs s L x" if "x \<noteq> mq" for x
    by (rule mq_abs_update(2) [OF wf q fr(1) _ that]) (erule same)
  moreover have "mq_complete s' ?L mq"
    using prio(2) by (simp add: mq_complete_def fr(4) queue_lookup_same [OF fr(1)])
  moreover have "mq_handle s' ?L r = mq_handle s L r"
    by (rule mq_handle_cong [OF fr(5)]) simp
  ultimately show ?thesis using s'(1,2) fr(3,4,6) by blast
qed

lemma mqRead_refines:
  assumes run: "sched_wf s L F r" and fd: "\<not> mq_fd_bad (int_arg r 0 s)"
    and h: "mq_handle s L r (int_arg r 0 s) = Some (d, mq)" and k: "kind_of mq = KMessageQueue"
    and some: "mq_num_messages (mqs s mq) \<noteq> 0" and prio: "mq_complete s L mq"
    and addr: "syscall_arg r 1 s \<noteq> 0" "syscall_arg r 3 s \<noteq> 0"
    and rd: "amq_read (mq_priority (mqs s mq)) (mq_abs s L mq) = Some (p, m, a)"
    and fits: "msg_text_length m \<le> int_arg r 2 s" "msg_text m \<noteq> 0"
  shows "if text_ends s (msg_text m)
    then \<exists>s' L' F'. internal_mqRead s = Inr s' \<and> sched_wf s' L' F' r \<and> mq_abs s' L' mq = a \<and>
      (\<forall>x. x \<noteq> mq \<longrightarrow> mq_abs s' L' x = mq_abs s L x) \<and> retvalue r s' = msg_text_length m \<and>
      umem s' = (umem s)(syscall_arg r 1 s := umem s (msg_text m), syscall_arg r 3 s := p) \<and>
      mq_num_messages (mqs s' mq) = mq_num_messages (mqs s mq) - 1
    else internal_mqRead s = Inl Diverges"
proof -
  have wf: "kernel_wf s L F" using run by (rule sched_wfD)
  note a = amq_read_Some [OF rd]
  have "0 \<le> p" "p \<le> mq_priority (mqs s mq)" using a(1) by simp_all
  then obtain q where q: "queue_lookup s L mq p = Some q" by (rule mq_completeD [OF prio])
  obtain x xs where x: "L (QueueMessages q) = x # xs" "msgs s x = m" "map (msgs s) xs = a p"
    using a(3) q by (auto simp: mq_abs_def)
  have below: "empty_below s L mq p"
    unfolding empty_below_def
  proof (intro allI impI)
    fix i assume i: "0 \<le> i" "i < p"
    have "i \<le> mq_priority (mqs s mq)" using i(2) a(1) by simp
    then obtain q' where q': "queue_lookup s L mq i = Some q'" by (rule mq_completeD [OF prio i(1)])
    moreover have "L (QueueMessages q') = []" using a(2) [OF i] q' by (simp add: mq_abs_def)
    ultimately show "\<exists>q. queue_lookup s L mq i = Some q \<and> L (QueueMessages q) = []" by blast
  qed
  let ?L = "L(QueueMessages q := xs)"
  obtain s' where s': "internal_mqRead s = delivered s x (syscall_arg r 1 s) (syscall_arg r 3 s) s'" "sched_wf s' ?L (F(KMessage := idx_of x # F KMessage)) r"
    "kernel_frame (read_contents r mq (syscall_arg r 1 s) (syscall_arg r 3 s) p x s) s'"
    using mqRead_delivers_wf [OF run fd h k some _ _ below q x(1)] a(1) fits x(2) by auto
  have read: "internal_mqRead s = (if text_ends s (msg_text m) then Inr s' else Inl Diverges)"
    using s'(1) addr x(2) by (simp add: delivered_def)
  have fr: "queue_priority s' = queue_priority s" "msgs s' = msgs s" "retvalue r s' = msg_text_length m"
    "umem s' = (umem s)(syscall_arg r 1 s := umem s (msg_text m), syscall_arg r 3 s := p)" "mq_num_messages (mqs s' mq) = mq_num_messages (mqs s mq) - 1"
    using s'(3) x(2) by (simp_all add: kernel_frame_def read_contents_def upd_defs retvalue_def)
  have same: "msgs s' y = msgs s y" for y using fr(2) by simp
  have "mq_abs s' ?L mq = (mq_abs s L mq)(p := a p)" using mq_abs_update(1) [OF wf q fr(1) same] x(3) fr(2) by simp
  also have "\<dots> = a" using a(4) by (auto simp: fun_eq_iff)
  finally have "mq_abs s' ?L mq = a" .
  moreover have "mq_abs s' ?L y = mq_abs s L y" if "y \<noteq> mq" for y
    using mq_abs_update(2) [OF wf q fr(1) same that] by blast
  ultimately show ?thesis using read s'(2) fr(3-5) by (cases "text_ends s (msg_text m)") (simp only: if_True, blast, simp)
qed

text \<open>
  A write followed by a read with other arguments: the message comes back and the message queue is
  as it was.
\<close>

lemma mqWrite_mqRead:
  assumes run: "sched_wf s L F r" and fd: "\<not> mq_fd_bad (int_arg r 0 s)"
    and h: "mq_handle s L r (int_arg r 0 s) = Some (d, mq)" and k: "kind_of mq = KMessageQueue"
    and args: "text_ends s (syscall_arg r 1 s)" "0 \<le> int_arg r 2 s" "int_arg r 2 s \<le> 32"
    and num: "0 \<le> mq_num_messages (mqs s mq)" "mq_num_messages (mqs s mq) < 128"
    and prio: "0 \<le> int_arg r 3 s" "int_arg r 3 s < mq_priority (mqs s mq)" "mq_complete s L mq"
    and none: "\<And>i. 0 \<le> i \<Longrightarrow> i \<le> int_arg r 3 s \<Longrightarrow> mq_abs s L mq i = []" and F: "F KMessage \<noteq> []"
    and rd: "to_int32 (a 0) = int_arg r 0 s" "a 1 \<noteq> 0" "int_arg r 2 s \<le> to_int32 (a 2)" "a 3 \<noteq> 0"
  shows "\<exists>s1 s2 L2 F2. internal_mqWrite s = Inr s1 \<and>
    internal_mqRead (upd_pcb r (\<lambda>c. c\<lparr>pcb_syscall_args := a\<rparr>) s1) = Inr s2 \<and> sched_wf s2 L2 F2 r \<and>
    mq_abs s2 L2 = mq_abs s L \<and> mq_num_messages (mqs s2 mq) = mq_num_messages (mqs s mq) \<and>
    retvalue r s2 = int_arg r 2 s \<and> umem s2 = (umem s)(a 1 := umem s (syscall_arg r 1 s), a 3 := int_arg r 3 s)"
proof -
  let ?p = "int_arg r 3 s" and ?m = "\<lparr>msg_text_length = int_arg r 2 s, msg_text = syscall_arg r 1 s\<rparr>"
  have e: "effective_priority (mq_priority (mqs s mq)) ?p = ?p" using prio by (simp add: effective_priority_def)
  obtain s1 L1 F1 where s1: "internal_mqWrite s = Inr s1" "sched_wf s1 L1 F1 r"
    "mq_abs s1 L1 mq = amq_write ?p ?m (mq_abs s L mq)" "\<forall>x. x \<noteq> mq \<longrightarrow> mq_abs s1 L1 x = mq_abs s L x"
    "mqs s1 mq = (mqs s mq)\<lparr>mq_num_messages := mq_num_messages (mqs s mq) + 1\<rparr>"
    "mq_complete s1 L1 mq" "mq_handle s1 L1 r = mq_handle s L r" "umem s1 = umem s"
    using mqWrite_refines [OF run fd h k args num(2) _ prio(3) F] prio(1,2) e by auto
  let ?c = "upd_pcb r (\<lambda>c. c\<lparr>pcb_syscall_args := a\<rparr>) s1"
  have c: "sched_wf ?c L1 F1 r" "int_arg r 0 ?c = int_arg r 0 s" "syscall_arg r 1 ?c \<noteq> 0" "syscall_arg r 3 ?c \<noteq> 0"
    "syscall_arg r 3 ?c = a 3" "int_arg r 2 s \<le> int_arg r 2 ?c" "mqs ?c = mqs s1"
    "syscall_arg r 1 ?c = a 1" "umem ?c = umem s"
    using s1(2,8) rd by (simp_all add: upd_pcb_def syscall_arg_def int_arg_def)
  have look: "queue_lookup ?c L1 x i = queue_lookup s1 L1 x i" for x i by (simp add: queue_lookup_def upd_pcb_def)
  have ab: "mq_abs ?c L1 = mq_abs s1 L1" by (rule mq_abs_cong) (simp_all add: upd_pcb_def)
  have comp: "mq_complete ?c L1 mq" using s1(6) by (simp add: mq_complete_def look c(7))
  have hd': "mq_handle ?c L1 r (int_arg r 0 ?c) = Some (d, mq)"
    using h s1(7) mq_handle_cong [of ?c s1 L1 r L1] by (simp add: c(2)) (simp add: upd_pcb_def)
  have "amq_read (mq_priority (mqs ?c mq)) (mq_abs ?c L1 mq) = Some (?p, ?m, mq_abs s L mq)"
    using amq.receive_sent [of ?p "mq_priority (mqs s mq)" "mq_abs s L mq" ?m] prio none
    by (auto simp: ab s1(3,5) c(7))
  then obtain s2 L2 F2 where s2: "internal_mqRead ?c = Inr s2" "sched_wf s2 L2 F2 r" "mq_abs s2 L2 mq = mq_abs s L mq"
    "\<forall>x. x \<noteq> mq \<longrightarrow> mq_abs s2 L2 x = mq_abs s1 L1 x" "retvalue r s2 = int_arg r 2 s"
    "umem s2 = (umem s)(a 1 := umem s (syscall_arg r 1 s), a 3 := ?p)" "mq_num_messages (mqs s2 mq) = mq_num_messages (mqs s mq)"
    using mqRead_refines [OF c(1) _ hd' k _ comp c(3,4)] fd c(2,5,6,8,9) num(1) args(1) text_endsD [OF args(1)]
    by (auto simp: c(7) s1(5) ab text_ends_cong [OF c(9)])
  have "mq_abs s2 L2 = mq_abs s L" using s1(4) s2(3,4) by (metis ext)
  then show ?thesis using s1(1) s2 by blast
qed

end
