(* ===== verification/SecondQueue.thy ===== *)
theory SecondQueue
  imports SystemCall
begin

text \<open>
  Opening a second message queue. Its queues are linked behind the last message queue of the global list, so
  neither that list nor the list of its queues is one that its head represents any more. What remains is
  described by disregarding these two heads.
\<close>

section \<open>Lists with two heads gone astray\<close>

lemma alloc_from_pool:
  assumes "pool_inv (pools s k) (x # xs)"
  shows "\<exists>P. alloc_block k s = Inr (Some (Ptr k x), s\<lparr>pools := P\<rparr>) \<and> pool_inv (P k) xs \<and>
    (\<forall>k'. k' \<noteq> k \<longrightarrow> P k' = pools s k')"
  using alloc_block_next [OF assms] by auto

lemma clear_links_fields [simp]:
  "pools (clear_links p s) = pools s" "heads (clear_links p s) = heads s" "pcbs (clear_links p s) = pcbs s"
  "running (clear_links p s) = running s" "descs (clear_links p s) = descs s" "mqs (clear_links p s) = mqs s"
  "umem (clear_links p s) = umem s"
  by (simp_all add: clear_links_def set_defs)

lemma List_init_heads [simp]: "heads (List_init h s) = (heads s)(h := empty_head)"
  by (simp add: List_init_def set_defs empty_head_def fun_eq_iff)

text \<open>What an insertion does to the links does not depend on the head, when it is behind a given item.\<close>

lemma insert_same_links:
  assumes "List_insert g prev (Some x) (s\<lparr>heads := H\<rparr>) = Inr (res, v)" and "prev \<noteq> None \<or> heads s h = H g"
  shows "\<exists>s'. List_insert h prev (Some x) s = Inr (res, s') \<and> links s' = links v \<and> (heads s h = H g \<longrightarrow> heads s' h = heads v g)"
proof (cases "item_next (links s x) \<noteq> None \<or> item_prev (links s x) \<noteq> None")
  case True
  then show ?thesis using assms by (auto simp: List_insert_def)
next
  case False
  show ?thesis
  proof (cases prev)
    case None
    then have "heads s h = H g" using assms(2) by simp
    then show ?thesis using assms(1) False None by (cases "head_first (H g)") (auto simp: List_insert_def set_defs Let_def)
  next
    case (Some pv)
    then show ?thesis using assms(1) False by (cases "item_next (links s pv)") (auto simp: List_insert_def set_defs Let_def)
  qed
qed

text \<open>The lists of the state, with the heads of the message queues and of the queues of \<open>mq\<close> disregarded.\<close>

definition astray :: "ptr \<Rightarrow> kernel \<Rightarrow> (headref \<Rightarrow> ptr list) \<Rightarrow> bool" where
  "astray mq s L \<longleftrightarrow>
     (\<exists>H. represents (s\<lparr>heads := H\<rparr>) L \<and> (\<forall>h. h \<noteq> MessageQueuesList \<longrightarrow> h \<noteq> MqQueues mq \<longrightarrow> H h = heads s h))"

lemma represents_parts: "represents s L \<Longrightarrow> links s' = links s \<Longrightarrow> heads s' = heads s \<Longrightarrow> represents s' L"
  by (simp add: represents_def)

lemma astray_start: "represents s L \<Longrightarrow> astray mq s L"
  unfolding astray_def by (intro exI [of _ "heads s"]) simp

lemma astray_cong: "astray mq s L \<Longrightarrow> links s' = links s \<Longrightarrow> heads s' = heads s \<Longrightarrow> astray mq s' L"
  unfolding astray_def using represents_parts [of "s\<lparr>heads := H\<rparr>" L "s'\<lparr>heads := H\<rparr>" for H] by force

lemma astray_clear:
  assumes "astray mq s L" and "\<not> listed L p"
  shows "astray mq (clear_links p s) L"
proof -
  obtain H where H: "represents (s\<lparr>heads := H\<rparr>) L" "\<forall>h. h \<noteq> MessageQueuesList \<longrightarrow> h \<noteq> MqQueues mq \<longrightarrow> H h = heads s h"
    using assms(1) by (auto simp: astray_def)
  have "represents ((clear_links p s)\<lparr>heads := H\<rparr>) L"
    by (rule represents_parts [OF represents_clear_links [OF H(1) assms(2)]]) (simp_all add: clear_links_def set_defs)
  then show ?thesis using H(2) unfolding astray_def by (intro exI [of _ H]) simp
qed

lemma astray_init:
  assumes "astray mq s L" and "h \<noteq> MessageQueuesList" and "h \<noteq> MqQueues mq"
  shows "astray mq (List_init h s) (L(h := []))"
proof -
  obtain H where H: "represents (s\<lparr>heads := H\<rparr>) L" "\<forall>h. h \<noteq> MessageQueuesList \<longrightarrow> h \<noteq> MqQueues mq \<longrightarrow> H h = heads s h"
    using assms(1) by (auto simp: astray_def)
  have "represents ((List_init h s)\<lparr>heads := H(h := empty_head)\<rparr>) (L(h := []))"
    by (rule represents_parts [OF List_init_represents(1) [OF H(1)]])
      (simp_all add: List_init_represents(3) [OF H(1)], simp add: List_init_def set_defs)
  then show ?thesis using H(2) unfolding astray_def by (intro exI [of _ "H(h := empty_head)"]) simp
qed

text \<open>Both lists now share one chain of links; an insertion behind an item of it is an insertion there.\<close>

lemma astray_chain:
  assumes ast: "astray mq s L" and L: "L MessageQueuesList = ys @ zs" "ys \<noteq> []" and x: "\<not> listed L x" "unlinked s x"
    and h: "h = MessageQueuesList \<or> h = MqQueues mq"
  shows "\<exists>s'. List_insert h (Some (last ys)) (Some x) s = Inr (Some x, s') \<and> astray mq s' (L(MessageQueuesList := ys @ x # zs)) \<and>
    lists_only s s' \<and> (\<forall>g. g \<noteq> h \<longrightarrow> heads s' g = heads s g) \<and> list_first h s' = list_first h s \<and>
    (zs \<noteq> [] \<longrightarrow> list_last h s' = list_last h s) \<and> (\<forall>p. \<not> listed L p \<longrightarrow> p \<noteq> x \<longrightarrow> unlinked s' p = unlinked s p)"
proof -
  obtain H where H: "represents (s\<lparr>heads := H\<rparr>) L" "\<forall>h. h \<noteq> MessageQueuesList \<longrightarrow> h \<noteq> MqQueues mq \<longrightarrow> H h = heads s h"
    using ast by (auto simp: astray_def)
  have end_of: "last_of ys None = Some (last ys)" using L(2) by (cases ys rule: rev_cases) simp_all
  have "unlinked (s\<lparr>heads := H\<rparr>) x" using x(2) by (simp add: unlinked_def)
  then obtain v where v: "List_insert MessageQueuesList (Some (last ys)) (Some x) (s\<lparr>heads := H\<rparr>) = Inr (Some x, v)"
    "represents v (L(MessageQueuesList := ys @ x # zs))"
    "\<forall>p. \<not> listed L p \<longrightarrow> p \<noteq> x \<longrightarrow> unlinked v p = unlinked (s\<lparr>heads := H\<rparr>) p"
    using List_insert_represents [OF H(1) L(1) x(1)] end_of by auto
  obtain s' where s': "List_insert h (Some (last ys)) (Some x) s = Inr (Some x, s')" "links s' = links v"
    using insert_same_links [OF v(1)] by blast
  note fr = List_insert_frame [OF s'(1)]
  have "represents (s'\<lparr>heads := heads v\<rparr>) (L(MessageQueuesList := ys @ x # zs))"
    by (rule represents_parts [OF v(2)]) (simp_all add: s'(2))
  moreover have "heads v g = heads s' g" if "g \<noteq> MessageQueuesList" "g \<noteq> MqQueues mq" for g
    using List_insert_frame(2) [OF v(1), of g] fr(2) [of g] H(2) that h by auto
  ultimately have "astray mq s' (L(MessageQueuesList := ys @ x # zs))" unfolding astray_def by blast
  moreover have "item_next (links s (last ys)) = first_of zs None"
    using represents_dlist [OF H(1), of MessageQueuesList] L by (cases ys rule: rev_cases) (simp_all add: dlist_def)
  then have "list_first h s' = list_first h s" "zs \<noteq> [] \<Longrightarrow> list_last h s' = list_last h s"
    using s'(1) by (auto simp: List_insert_def Let_def list_first_def list_last_def set_defs split: option.splits if_splits)
  moreover have "unlinked s' p = unlinked s p" if "\<not> listed L p" "p \<noteq> x" for p
    using v(3) that by (simp add: unlinked_def s'(2))
  ultimately show ?thesis using s'(1) fr by blast
qed

text \<open>The other lists work as ever.\<close>

lemma astray_put:
  assumes ast: "astray mq s L" and h: "h \<noteq> MessageQueuesList" "h \<noteq> MqQueues mq" and x: "\<not> listed L x" "unlinked s x"
  shows "\<exists>s'. List_insert h (list_last h s) (Some x) s = Inr (Some x, s') \<and> astray mq s' (L(h := L h @ [x])) \<and>
    lists_only s s' \<and> (\<forall>g. g \<noteq> h \<longrightarrow> heads s' g = heads s g) \<and> (\<forall>p. \<not> listed L p \<longrightarrow> p \<noteq> x \<longrightarrow> unlinked s' p = unlinked s p)"
proof -
  obtain H where H: "represents (s\<lparr>heads := H\<rparr>) L" "\<forall>h. h \<noteq> MessageQueuesList \<longrightarrow> h \<noteq> MqQueues mq \<longrightarrow> H h = heads s h"
    using ast by (auto simp: astray_def)
  have Hh: "heads s h = H h" using H(2) h by simp
  have "list_last h s = last_of (L h) None"
    using dlist_last [OF represents_dlist [OF H(1), of h]] Hh by (simp add: list_last_def)
  moreover have "unlinked (s\<lparr>heads := H\<rparr>) x" using x(2) by (simp add: unlinked_def)
  ultimately obtain v where v: "List_insert h (list_last h s) (Some x) (s\<lparr>heads := H\<rparr>) = Inr (Some x, v)"
    "represents v (L(h := L h @ [x]))" "\<forall>p. \<not> listed L p \<longrightarrow> p \<noteq> x \<longrightarrow> unlinked v p = unlinked (s\<lparr>heads := H\<rparr>) p"
    using List_insert_represents [OF H(1), of h "L h" "[]"] x(1) by auto
  obtain s' where s': "List_insert h (list_last h s) (Some x) s = Inr (Some x, s')" "links s' = links v" "heads s' h = heads v h"
    using insert_same_links [OF v(1)] Hh by blast
  note fr = List_insert_frame [OF s'(1)]
  have "represents (s'\<lparr>heads := heads v\<rparr>) (L(h := L h @ [x]))" by (rule represents_parts [OF v(2)]) (simp_all add: s'(2))
  moreover have "heads v g = heads s' g" if "g \<noteq> MessageQueuesList" "g \<noteq> MqQueues mq" for g
    using List_insert_frame(2) [OF v(1), of g] fr(2) [of g] H(2) that s'(3) by (cases "g = h") auto
  ultimately have "astray mq s' (L(h := L h @ [x]))" unfolding astray_def by blast
  moreover have "unlinked s' p = unlinked s p" if "\<not> listed L p" "p \<noteq> x" for p
    using v(3) that by (simp add: unlinked_def s'(2))
  ultimately show ?thesis using s'(1) fr by blast
qed

lemma listed_upd: "listed (L(h := xs)) p \<Longrightarrow> listed L p \<or> p \<in> set xs"
  by (auto simp: listed_def split: if_splits)

lemma listedI: "p \<in> set (L h) \<Longrightarrow> listed L p"
  by (auto simp: listed_def)

section \<open>The queues\<close>

text \<open>What making the queues leaves alone.\<close>

definition queues_behind :: "ptr \<Rightarrow> kernel \<Rightarrow> kernel \<Rightarrow> bool" where
  "queues_behind mq s s' \<longleftrightarrow>
     list_first (MqQueues mq) s' = None \<and> list_last MessageQueuesList s' = list_last MessageQueuesList s \<and>
     pcbs s' = pcbs s \<and> running s' = running s \<and> descs s' = descs s \<and> mqs s' = mqs s \<and> umem s' = umem s \<and>
     (\<forall>k. k \<noteq> KQueue \<longrightarrow> pools s' k = pools s k)"

lemma mqOpen_queues_behind:
  assumes "pool_inv (pools s KQueue) (xs @ ys)" and "list_last MessageQueuesList s = Some (last ms)"
    and "list_first (MqQueues mq) s = None" and "astray mq s L" and "L MessageQueuesList = ms @ zs" and "ms \<noteq> []"
    and "\<And>x. x \<in> set xs \<Longrightarrow> \<not> listed L (Ptr KQueue x)" and "distinct xs"
  shows "\<exists>s' L'. mqOpen_queues (length xs) i r mq s = Inr (True, s') \<and> queues_behind mq s s' \<and> astray mq s' L' \<and>
    L' MessageQueuesList = ms @ rev (map (Ptr KQueue) xs) @ zs \<and>
    (\<forall>h. h \<noteq> MessageQueuesList \<longrightarrow> (\<forall>q. h \<noteq> QueueMessages q) \<longrightarrow> L' h = L h) \<and>
    (\<forall>p. listed L' p \<longrightarrow> listed L p \<or> kind_of p = KQueue) \<and> (\<forall>p. \<not> listed L p \<longrightarrow> kind_of p \<noteq> KQueue \<longrightarrow> unlinked s' p = unlinked s p)"
  using assms
proof (induction xs arbitrary: s i L zs)
  case Nil
  show ?case by (intro exI [of _ s] exI [of _ L]) (simp add: queues_behind_def Nil)
next
  case (Cons x xs)
  let ?q = "Ptr KQueue x"
  have "pool_inv (pools s KQueue) (x # (xs @ ys))" using Cons.prems(1) by simp
  then obtain P where P: "alloc_block KQueue s = Inr (Some ?q, s\<lparr>pools := P\<rparr>)" "pool_inv (P KQueue) (xs @ ys)"
    "\<forall>k. k \<noteq> KQueue \<longrightarrow> P k = pools s k"
    using alloc_from_pool by blast
  let ?a = "clear_links ?q (s\<lparr>pools := P\<rparr>)"
  let ?s1 = "List_init (QueueMessages ?q) (?a\<lparr>queue_priority := (queue_priority ?a)(?q := i)\<rparr>)" and ?L1 = "L(QueueMessages ?q := [])"
  have alloc: "Queue_alloc i s = Inr (Some ?q, ?s1)" by (simp add: Queue_alloc_def P(1) Let_def)
  have 1: "list_last MessageQueuesList ?s1 = Some (last ms)" "list_first (MqQueues mq) ?s1 = None"
    using Cons.prems(2,3) by (simp_all add: list_last_def list_first_def)
  have free: "\<not> listed L ?q" using Cons.prems(7) by simp
  have "astray mq (s\<lparr>pools := P\<rparr>) L" by (rule astray_cong [OF Cons.prems(4)]) simp_all
  then have "astray mq ?a L" using free by (rule astray_clear)
  then have "astray mq (?a\<lparr>queue_priority := (queue_priority ?a)(?q := i)\<rparr>) L" by (rule astray_cong) simp_all
  then have ast: "astray mq ?s1 ?L1" by (rule astray_init) simp_all
  have L1: "?L1 MessageQueuesList = ms @ zs" "\<not> listed ?L1 ?q" using Cons.prems(5) free by (auto simp: listed_def)
  have un: "unlinked ?s1 p = (if p = ?q then True else unlinked s p)" for p
    by (simp add: unlinked_def clear_links_def List_init_def set_defs no_links_def)
  obtain s2 where s2: "List_insert (MqQueues mq) (Some (last ms)) (Some ?q) ?s1 = Inr (Some ?q, s2)"
    "astray mq s2 (?L1(MessageQueuesList := ms @ ?q # zs))" "lists_only ?s1 s2"
    "\<forall>g. g \<noteq> MqQueues mq \<longrightarrow> heads s2 g = heads ?s1 g" "list_first (MqQueues mq) s2 = list_first (MqQueues mq) ?s1"
    "\<forall>p. \<not> listed ?L1 p \<longrightarrow> p \<noteq> ?q \<longrightarrow> unlinked s2 p = unlinked ?s1 p"
    using astray_chain [OF ast L1(1) Cons.prems(6) L1(2), of "MqQueues mq"] un by auto
  let ?L2 = "?L1(MessageQueuesList := ms @ ?q # zs)"
  have 2: "list_last MessageQueuesList s2 = Some (last ms)" "list_first (MqQueues mq) s2 = None"
    "pool_inv (pools s2 KQueue) (xs @ ys)"
    using 1 s2(4,5) P(2) lists_only_fields(1) [OF s2(3)] by (simp_all add: list_last_def)
  have in2: "listed ?L2 p \<longrightarrow> listed L p \<or> p = ?q" for p
    using listed_upd [of ?L1 MessageQueuesList "ms @ ?q # zs" p] listed_upd [of L "QueueMessages ?q" "[]" p]
      listedI [of p L MessageQueuesList] Cons.prems(5) by auto
  have other: "\<not> listed ?L2 (Ptr KQueue y)" if "y \<in> set xs" for y
    using in2 [of "Ptr KQueue y"] Cons.prems(7) [of y] Cons.prems(8) that by auto
  have L2: "?L2 MessageQueuesList = ms @ ?q # zs" and "distinct xs" using Cons.prems(8) by simp_all
  from Cons.IH [OF 2(3,1,2) s2(2) L2 Cons.prems(6) other this(2)] obtain s3 L3 where
    s3: "mqOpen_queues (length xs) (i + 1) r mq s2 = Inr (True, s3)" "queues_behind mq s2 s3" "astray mq s3 L3"
    "L3 MessageQueuesList = ms @ rev (map (Ptr KQueue) xs) @ ?q # zs"
    "\<forall>h. h \<noteq> MessageQueuesList \<longrightarrow> (\<forall>q. h \<noteq> QueueMessages q) \<longrightarrow> L3 h = ?L2 h"
    "\<forall>p. listed L3 p \<longrightarrow> listed ?L2 p \<or> kind_of p = KQueue" "\<forall>p. \<not> listed ?L2 p \<longrightarrow> kind_of p \<noteq> KQueue \<longrightarrow> unlinked s3 p = unlinked s2 p"
    by blast
  have "mqOpen_queues (length (x # xs)) i r mq s = Inr (True, s3)" by (simp add: alloc 1(1) s2(1) s3(1))
  moreover have "queues_behind mq s s3"
    using s3(2) 2(1) Cons.prems(2) P(3) lists_only_fields [OF s2(3)] by (simp add: queues_behind_def)
  moreover have "listed L p \<or> kind_of p = KQueue" if "listed L3 p" for p
  proof -
    have "listed ?L2 p \<or> kind_of p = KQueue" using s3(6) that by blast
    then show ?thesis using in2 [of p] by auto
  qed
  moreover have "unlinked s3 p = unlinked s p" if p: "\<not> listed L p" "kind_of p \<noteq> KQueue" for p
  proof -
    have ne: "p \<noteq> ?q" using p(2) by auto
    then have not: "\<not> listed ?L2 p" using in2 [of p] p(1) by blast
    have not1: "\<not> listed ?L1 p" using listed_upd [of L "QueueMessages ?q" "[]" p] p(1) by auto
    have "unlinked s3 p = unlinked s2 p" using s3(7) not p(2) by blast
    also have "\<dots> = unlinked ?s1 p" using s2(6) not1 ne by blast
    finally show ?thesis using un [of p] ne by simp
  qed
  moreover have "\<forall>h. h \<noteq> MessageQueuesList \<longrightarrow> (\<forall>q. h \<noteq> QueueMessages q) \<longrightarrow> L3 h = L h" using s3(5) by simp
  ultimately show ?case using s3(3,4) by (intro exI [of _ s3] exI [of _ L3]) simp
qed

section \<open>The descriptor\<close>

lemma mqOpen_attach_astray:
  assumes ast: "astray mq s L" and pools: "pool_inv (pools s KMQDescriptor) (i # is)" "pool_inv (pools s KMQDescriptorPtr) (j # js)"
    and kind: "kind_of mq = KMessageQueue" and rng: "int32_range (pcb_last_mq_fd (pcbs s r) + 1)"
    and free: "\<not> listed L (Ptr KMQDescriptor i)" "\<not> listed L (Ptr KMQDescriptorPtr j)"
  defines "d \<equiv> Ptr KMQDescriptor i" and "dp \<equiv> Ptr KMQDescriptorPtr j"
  shows "\<exists>s'. mqOpen_attach r mq s = Inr s' \<and> retvalue r s' = pcb_last_mq_fd (pcbs s r) \<and>
    astray mq s' (L(PcbMqDescriptors r := L (PcbMqDescriptors r) @ [d], MqDescriptors mq := L (MqDescriptors mq) @ [dp])) \<and>
    descs s' = (descs s)(d := \<lparr>desc_pcb = Some r, desc_object = Some mq, desc_fd = pcb_last_mq_fd (pcbs s r), desc_ptr = Some dp\<rparr>) \<and>
    running s' = running s \<and> mqs s' = mqs s \<and> umem s' = umem s \<and>
    (\<forall>h. h \<noteq> PcbMqDescriptors r \<longrightarrow> h \<noteq> MqDescriptors mq \<longrightarrow> heads s' h = heads s h)"
proof -
  let ?own = "PcbMqDescriptors r" and ?objl = "MqDescriptors mq" and ?fd = "pcb_last_mq_fd (pcbs s r)"
  obtain P where P: "alloc_block KMQDescriptor s = Inr (Some d, s\<lparr>pools := P\<rparr>)" "\<forall>k. k \<noteq> KMQDescriptor \<longrightarrow> P k = pools s k"
    using alloc_from_pool [OF pools(1)] unfolding d_def by blast
  let ?a = "clear_links d (s\<lparr>pools := P\<rparr>)"
  let ?s1 = "upd_desc d (\<lambda>c. c\<lparr>desc_fd := ?fd, desc_object := Some mq, desc_pcb := Some r\<rparr>) ?a"
  have "pool_inv (pools ?s1 KMQDescriptorPtr) (j # js)" using pools(2) P(2) by (simp add: upd_desc_def)
  then obtain Q where Q: "alloc_block KMQDescriptorPtr ?s1 = Inr (Some dp, ?s1\<lparr>pools := Q\<rparr>)"
    using alloc_from_pool unfolding dp_def by blast
  let ?b = "clear_links dp (?s1\<lparr>pools := Q\<rparr>)"
  let ?s3 = "upd_desc d (\<lambda>d. d\<lparr>desc_ptr := Some dp\<rparr>) (?b\<lparr>desc_ptrs := (desc_ptrs ?b)(dp := Some d)\<rparr>)"
  have free: "\<not> listed L d" "\<not> listed L dp" "d \<noteq> dp" "dp \<noteq> d" using free by (simp_all add: d_def dp_def)
  have "astray mq (s\<lparr>pools := P\<rparr>) L" by (rule astray_cong [OF ast]) simp_all
  then have "astray mq ?a L" using free(1) by (rule astray_clear)
  then have "astray mq (?s1\<lparr>pools := Q\<rparr>) L" by (rule astray_cong) (simp_all add: upd_desc_def)
  then have "astray mq ?b L" using free(2) by (rule astray_clear)
  then have 3: "astray mq ?s3 L" by (rule astray_cong) (simp_all add: upd_desc_def)
  have un: "unlinked ?s3 d" "unlinked ?s3 dp"
    using free(3,4) by (simp_all add: unlinked_def clear_links_def set_defs upd_desc_def no_links_def)
  obtain s4 where s4: "List_insert ?own (list_last ?own ?s3) (Some d) ?s3 = Inr (Some d, s4)" "astray mq s4 (L(?own := L ?own @ [d]))"
    "lists_only ?s3 s4" "\<forall>h. h \<noteq> ?own \<longrightarrow> heads s4 h = heads ?s3 h" "\<forall>p. \<not> listed L p \<longrightarrow> p \<noteq> d \<longrightarrow> unlinked s4 p = unlinked ?s3 p"
    using astray_put [OF 3 _ _ free(1) un(1), of ?own] by auto
  have "\<not> listed (L(?own := L ?own @ [d])) dp"
    using listed_upd [of L ?own "L ?own @ [d]" dp] listedI [of dp L ?own] free by auto
  moreover have "unlinked s4 dp" using s4(5) un(2) free by blast
  ultimately obtain s5 where s5: "List_insert ?objl (list_last ?objl s4) (Some dp) s4 = Inr (Some dp, s5)"
    "astray mq s5 (L(?own := L ?own @ [d], ?objl := L ?objl @ [dp]))" "lists_only s4 s5" "\<forall>h. h \<noteq> ?objl \<longrightarrow> heads s5 h = heads s4 h"
    using astray_put [OF s4(2), of ?objl dp] by auto
  note f4 = lists_only_fields [OF s4(3)] and f5 = lists_only_fields [OF s5(3)]
  let ?s' = "set_retvalue r ?fd (upd_pcb r (set_last_mq_fd (?fd + 1)) s5)"
  have same: "pcbs s5 = pcbs s" using f4(2) f5(2) by (simp add: upd_desc_def)
  have "mqOpen_attach r mq s = Inr ?s'"
    using rng kind
    by (simp add: mqOpen_attach_def open_descriptor_def desc_alloc_def P(1) desc_ptr_alloc_def Q Let_def s4(1) s5(1) same)
      (simp add: upd_pcb_def set_last_mq_fd_def)
  moreover have "retvalue r ?s' = ?fd" by (simp add: retvalue_def upd_defs)
  moreover have "astray mq ?s' (L(?own := L ?own @ [d], ?objl := L ?objl @ [dp]))"
    by (rule astray_cong [OF s5(2)]) (simp_all add: upd_defs)
  moreover have "descs ?s' = (descs s)(d := \<lparr>desc_pcb = Some r, desc_object = Some mq, desc_fd = ?fd, desc_ptr = Some dp\<rparr>)"
    using f4(6) f5(6) by (simp add: upd_defs)
  moreover have "running ?s' = running s" "mqs ?s' = mqs s" "umem ?s' = umem s" using f4(9,13,17) f5(9,13,17) by (simp_all add: upd_defs)
  moreover have "heads ?s' h = heads s h" if "h \<noteq> ?own" "h \<noteq> ?objl" for h
    using that s4(4) s5(4) by (simp add: upd_defs)
  ultimately show ?thesis by blast
qed

section \<open>Open\<close>

lemma mqOpen_second:
  assumes run: "sched_wf s L F r" and some: "L MessageQueuesList \<noteq> []" "length (L MessageQueuesList) < 16"
    and new: "mq_lookup s L (int_arg r 0 s) = None"
    and args: "pcb_last_mq_fd (pcbs s r) < 16" "0 \<le> int_arg r 0 s" "int32_range (pcb_last_mq_fd (pcbs s r))"
    and create: "int_arg r 1 s AND DSOS_CREATE \<noteq> 0" "0 \<le> int_arg r 2 s" "int_arg r 2 s \<le> 64"
    and F: "F KMessageQueue = k # ks" "F KQueue = xs @ ys" "length xs = nat (int_arg r 2 s + 1)"
      "F KMQDescriptor = i # is" "F KMQDescriptorPtr = j # js"
  defines "n \<equiv> Ptr KMessageQueue k" and "d \<equiv> Ptr KMQDescriptor i" and "dp \<equiv> Ptr KMQDescriptorPtr j"
    and "fd \<equiv> pcb_last_mq_fd (pcbs s r)"
  shows "\<exists>s'. internal_mqOpen s = Inr s' \<and> retvalue r s' = fd \<and> running s' = Some r \<and> umem s' = umem s \<and>
    list_first (MqQueues n) s' = None \<and> list_last MessageQueuesList s' = list_last MessageQueuesList s \<and>
    linked (links s') None (L MessageQueuesList @ n # rev (map (Ptr KQueue) xs)) None \<and>
    mq_num_messages (mqs s' n) = 0 \<and> dlist (links s') (heads s' (PcbMqDescriptors r)) (L (PcbMqDescriptors r) @ [d]) \<and>
    descs s' = (descs s)(d := \<lparr>desc_pcb = Some r, desc_object = Some n, desc_fd = fd, desc_ptr = Some dp\<rparr>)"
proof -
  note r = sched_wfD [OF run]
  let ?mid = "int_arg r 0 s" and ?prio = "int_arg r 2 s"
  let ?L1 = "L(MqQueues n := [], MqDescriptors n := [])" and ?F1 = "F(KMessageQueue := ks)" and ?ms = "L MessageQueuesList"
  obtain s1 where s1: "MessageQueue_alloc ?mid ?prio s = Inr (Some n, s1)" "kernel_wf s1 ?L1 ?F1"
    "kernel_frame (s\<lparr>mqs := (mqs s)(n := created_mq ?mid ?prio)\<rparr>) s1" "fresh_block s1 ?L1 ?F1 n"
    using MessageQueue_alloc_wf [OF r(1) F(1)] unfolding n_def by blast
  have f1: "pcbs s1 = pcbs s" "running s1 = Some r" "descs s1 = descs s" "umem s1 = umem s" "mq_num_messages (mqs s1 n) = 0"
    using s1(3) r(2) by (simp_all add: kernel_frame_def created_mq_def)
  have n1: "\<not> listed ?L1 n" "unlinked s1 n" using s1(4) by (simp_all add: fresh_block_def)
  have last: "list_last MessageQueuesList s = Some (last ?ms)" "list_last MessageQueuesList s1 = Some (last ?ms)"
    using some(1) by (simp_all add: wf_list_last [OF r(1)] wf_list_last [OF s1(2)]) (cases ?ms rule: rev_cases; simp)+
  have pool1: "pool_inv (pools s1 q) (?F1 q)" for q by (rule kernel_wf_pool [OF s1(2)])
  have none: "\<not> listed ?L1 (Ptr q y)" if "y \<in> set (?F1 q)" for q y
  proof
    assume "listed ?L1 (Ptr q y)"
    then obtain h where "Ptr q y \<in> set (?L1 h)" by (auto simp: listed_def)
    from kernel_wf_live [OF s1(2) this] that show False by (simp add: live_def)
  qed
  have Q: "pool_inv (pools s1 KQueue) (xs @ ys)" using pool1 [of KQueue] F(2) by simp
  then have "distinct xs" by (simp add: pool_inv_def)
  moreover have "\<not> listed ?L1 (Ptr KQueue x)" if "x \<in> set xs" for x using none [of x KQueue] F(2) that by simp
  moreover have "list_first (MqQueues n) s1 = None" by (simp add: wf_list_first [OF s1(2)])
  ultimately obtain s2 L2 where s2: "mqOpen_queues (length xs) 0 r n s1 = Inr (True, s2)" "queues_behind n s1 s2" "astray n s2 L2"
    "L2 MessageQueuesList = ?ms @ rev (map (Ptr KQueue) xs) @ []"
    "\<forall>h. h \<noteq> MessageQueuesList \<longrightarrow> (\<forall>q. h \<noteq> QueueMessages q) \<longrightarrow> L2 h = ?L1 h"
    "\<forall>p. listed L2 p \<longrightarrow> listed ?L1 p \<or> kind_of p = KQueue" "\<forall>p. \<not> listed ?L1 p \<longrightarrow> kind_of p \<noteq> KQueue \<longrightarrow> unlinked s2 p = unlinked s1 p"
    using mqOpen_queues_behind [OF Q last(2), of n ?L1 "[]" 0 r] astray_start [OF kernel_wf_represents [OF s1(2)]] some(1) by auto
  note q2 = s2(2) [unfolded queues_behind_def]
  let ?qs = "rev (map (Ptr KQueue) xs)"
  have L2: "L2 MessageQueuesList = ?ms @ ?qs" "\<not> listed L2 n" "unlinked s2 n"
    using s2(4,6,7) n1 by (auto simp: n_def)
  obtain s3 where s3: "List_insert MessageQueuesList (Some (last ?ms)) (Some n) s2 = Inr (Some n, s3)"
    "astray n s3 (L2(MessageQueuesList := ?ms @ n # ?qs))" "lists_only s2 s3"
    "\<forall>g. g \<noteq> MessageQueuesList \<longrightarrow> heads s3 g = heads s2 g" "?qs \<noteq> [] \<longrightarrow> list_last MessageQueuesList s3 = list_last MessageQueuesList s2"
    using astray_chain [OF s2(3) L2(1) some(1) L2(2,3), of MessageQueuesList] by auto
  let ?L3 = "L2(MessageQueuesList := ?ms @ n # ?qs)"
  note f3 = lists_only_fields [OF s3(3)]
  have pools: "pool_inv (pools s3 KMQDescriptor) (i # is)" "pool_inv (pools s3 KMQDescriptorPtr) (j # js)"
    using q2 f3(1) pool1 [of KMQDescriptor] pool1 [of KMQDescriptorPtr] F(4,5) by simp_all
  have free: "\<not> listed ?L3 p" if "\<not> listed ?L1 p" "kind_of p \<noteq> KQueue" "p \<noteq> n" for p
    using listed_upd [of L2 MessageQueuesList "?ms @ n # ?qs" p] listedI [of p L2 MessageQueuesList] s2(6) L2(1) that by auto
  have "\<not> listed ?L3 (Ptr KMQDescriptor i)" "\<not> listed ?L3 (Ptr KMQDescriptorPtr j)"
    using free [of "Ptr KMQDescriptor i"] free [of "Ptr KMQDescriptorPtr j"] none [of i KMQDescriptor] none [of j KMQDescriptorPtr] F(4,5)
    by (simp_all add: n_def)
  moreover have "int32_range (pcb_last_mq_fd (pcbs s3 r) + 1)" using args q2 f3(2) f1(1) by (simp add: int32_range_def)
  ultimately obtain s' where s': "mqOpen_attach r n s3 = Inr s'" "retvalue r s' = pcb_last_mq_fd (pcbs s3 r)"
    "astray n s' (?L3(PcbMqDescriptors r := ?L3 (PcbMqDescriptors r) @ [d], MqDescriptors n := ?L3 (MqDescriptors n) @ [dp]))"
    "descs s' = (descs s3)(d := \<lparr>desc_pcb = Some r, desc_object = Some n, desc_fd = pcb_last_mq_fd (pcbs s3 r), desc_ptr = Some dp\<rparr>)"
    "running s' = running s3" "mqs s' = mqs s3" "umem s' = umem s3" "\<forall>h. h \<noteq> PcbMqDescriptors r \<longrightarrow> h \<noteq> MqDescriptors n \<longrightarrow> heads s' h = heads s3 h"
    using mqOpen_attach_astray [OF s3(2) pools, of r] unfolding d_def dp_def by (auto simp: n_def)
  let ?L' = "?L3(PcbMqDescriptors r := ?L3 (PcbMqDescriptors r) @ [d], MqDescriptors n := ?L3 (MqDescriptors n) @ [dp])"
  have own: "?L3 (PcbMqDescriptors r) = L (PcbMqDescriptors r)" using s2(5) by simp
  obtain H where H: "represents (s'\<lparr>heads := H\<rparr>) ?L'" "\<forall>h. h \<noteq> MessageQueuesList \<longrightarrow> h \<noteq> MqQueues n \<longrightarrow> H h = heads s' h"
    using s'(3) by (auto simp: astray_def)
  have "dlist (links s') (heads s' (PcbMqDescriptors r)) (L (PcbMqDescriptors r) @ [d])"
    using represents_dlist [OF H(1), of "PcbMqDescriptors r"] H(2) own by simp
  moreover have "linked (links s') None (?ms @ n # ?qs) None"
    using represents_dlist [OF H(1), of MessageQueuesList] by (simp add: dlist_def)
  moreover have "list_last MessageQueuesList s' = list_last MessageQueuesList s"
  proof -
    have "?qs \<noteq> []" using F(3) create(2) by auto
    then show ?thesis using s'(8) s3(5) q2 last by (simp add: list_last_def)
  qed
  moreover have "list_first (MqQueues n) s' = None" using s'(8) s3(4) q2 by (simp add: list_first_def)
  moreover have "internal_mqOpen s = Inr s'"
  proof -
    have "list_size MessageQueuesList s < 16" using some(2) by (simp add: wf_list_size [OF r(1)])
    moreover have "list_last MessageQueuesList s2 = Some (last ?ms)" using q2 last(2) by simp
    ultimately have "mqOpen_create r ?mid ?prio s = Inr s'"
      using create s2(1) by (simp add: mqOpen_create_def Let_def s1(1) F(3) s3(1) s'(1))
    then show ?thesis
      using r(2,3) args create MessageQueueList_byId_wf [OF r(1)] new by (simp add: internal_mqOpen_def Let_def int32_range_def)
  qed
  moreover have "retvalue r s' = fd" "running s' = Some r" "mq_num_messages (mqs s' n) = 0" "umem s' = umem s"
    using s'(2,5,6,7) f3(2,9,13,17) q2 f1 by (simp_all add: fd_def)
  moreover have "descs s' = (descs s)(d := \<lparr>desc_pcb = Some r, desc_object = Some n, desc_fd = fd, desc_ptr = Some dp\<rparr>)"
    using s'(4) f3(2,6) q2 f1 by (simp add: fd_def)
  ultimately show ?thesis by blast
qed

section \<open>Write\<close>

lemma calling_lists [simp]:
  "links (calling n xs s) = links s" "heads (calling n xs s) = heads s"
  by (simp_all add: calling_def enter_syscall_def upd_pcb_def)

lemma no_queue_found:
  "list_first (MqQueues mq) s = None \<Longrightarrow> QueueList_byPriority (MqQueues mq) p s = Inr None"
  by (simp add: QueueList_byPriority_def List_scan_def list_first_def)

lemma mqWrite_no_queue:
  assumes "running s = Some r" and "kind_of r = KPCB" and "text_ends s (syscall_arg r 1 s)"
    and "mq_of_fd r (int_arg r 0 s) s = Inr (Some (d, mq))" and "kind_of mq = KMessageQueue"
    and "mq_num_messages (mqs s mq) < 128" and "list_first (MqQueues mq) s = None"
  shows "internal_mqWrite s = Inr (set_retvalue r DSOS_EMQWRITE s)"
  using assms text_endsD [OF assms(3)] no_queue_found [OF assms(7)]
  by (simp add: internal_mqWrite_def Let_def andThen_print_string)

text \<open>The descriptor is found under its number, when no older one of the process has the same.\<close>

lemma mq_of_fd_last:
  assumes "dlist (links s) (heads s (PcbMqDescriptors r)) (ds @ [d])" and "\<forall>x\<in>set (ds @ [d]). kind_of x = KMQDescriptor"
    and "\<forall>x\<in>set ds. desc_fd (descs s x) \<noteq> fd" and "desc_fd (descs s d) = fd" and "desc_object (descs s d) = Some mq"
  shows "mq_of_fd r fd s = Inr (Some (d, mq))"
proof -
  have "List_scan (has_fd KMQDescriptor fd s) (PcbMqDescriptors r) s = Inr (List.find (\<lambda>x. desc_fd (descs s x) = fd) (ds @ [d]))"
    by (rule List_scan_dlist [OF assms(1)]) (use assms(2) in \<open>auto simp: has_fd_def\<close>)
  moreover have "List.find (\<lambda>x. desc_fd (descs s x) = fd) (ds @ [d]) = Some d"
    using assms(3,4) by (induction ds) auto
  ultimately show ?thesis using assms(5) by (simp add: mq_of_fd_def MQDescriptorList_byFd_def)
qed

end
