(* ===== verification/MqClaims.thy ===== *)
theory MqClaims
  imports ScenarioIpc MessageQueueSpec SecondQueue
begin

text \<open>
  What the kernel does for message queues: creation, writing and reading as a mailbox with
  priorities, and the calls whose behaviour differs from what their comments say.
\<close>

unbundle bit_operations_syntax

declare One_nat_def [simp del]

section \<open>A message queue and a message in it\<close>

lemma mq_handle_made: "mq_handle (calling n xs mq_made) mq_lists p0 0 = Some (md0, mq0)"
  by (simp add: mq_handle_def fd_lookup_def)

lemma made_lookup:
  "queue_lookup (calling n xs mq_made) (mq_lists(QueueMessages q := ms)) mq0 i =
     (if i = 0 then Some q0 else if i = 1 then Some q1 else None)"
  by (simp add: queue_lookup_def)

lemma written_lookup:
  "int32_range p \<Longrightarrow> queue_lookup (calling n xs (mq_written p)) (mq_lists(QueueMessages q := ms)) mq0 i =
     (if i = 0 then Some q0 else if i = 1 then Some q1 else None)"
  by (simp add: queue_lookup_def)

lemma mq_complete_made: "mq_complete (calling n xs mq_made) mq_lists mq0"
  and mq_complete_written: "int32_range p \<Longrightarrow> mq_complete (calling n xs (mq_written p)) (mq_lists(QueueMessages q := ms)) mq0"
  using made_lookup [of n xs q0 "[]"] by (auto simp: mq_complete_def written_lookup queue_lookup_def)

abbreviation written_lists :: "int \<Rightarrow> headref \<Rightarrow> ptr list" where
  "written_lists p \<equiv> mq_lists(QueueMessages (written_queue p) := [m0])"

lemma written_run:
  "int32_range p \<Longrightarrow> sched_wf (calling n xs (mq_written p)) (written_lists p) (mq_free(KMessage := [1..127])) p0"
  by (rule calling_wf [OF mq_written_state(2)])

section \<open>Creation\<close>

text \<open>Opening a message queue that does not exist, while there is no other, makes it with one queue
  per priority, the last priority included, all empty, and gives the caller a descriptor.\<close>

theorem message_queue_created:
  assumes "sched_wf s L F r" and "L MessageQueuesList = []"
    and "pcb_last_mq_fd (pcbs s r) < 16" and "0 \<le> int_arg r 0 s" and "int32_range (pcb_last_mq_fd (pcbs s r))"
    and "int_arg r 1 s AND DSOS_CREATE \<noteq> 0" and "0 \<le> int_arg r 2 s"
    and "F KMessageQueue = k # ks" and "F KQueue = xs @ ys" and "length xs = nat (int_arg r 2 s + 1)"
    and "F KMQDescriptor = i # is" and "F KMQDescriptorPtr = j # js" and "int_arg r 2 s \<le> 64"
  shows "\<exists>s'. internal_mqOpen s = Inr s' \<and>
    sched_wf s' (mqopened_lists r (Ptr KMessageQueue k) (Ptr KMQDescriptor i) (Ptr KMQDescriptorPtr j)
        (newmq_lists (Ptr KMessageQueue k) xs L))
      (F(KMessageQueue := ks, KQueue := ys, KMQDescriptor := is, KMQDescriptorPtr := js)) r \<and>
    mqs s' (Ptr KMessageQueue k) = \<lparr>mq_id = int_arg r 0 s, mq_priority = int_arg r 2 s, mq_num_messages = 0\<rparr> \<and>
    retvalue r s' = pcb_last_mq_fd (pcbs s r)"
  using mqOpen_creates_first [OF assms]
  by (auto simp: kernel_frame_def opened_desc_def newmq_contents_def retvalue_def)

theorem message_queue_created_witness:
  "\<exists>s'. internal_mqOpen (calling 15 [5, 1, 1] started) = Inr s' \<and>
     mqs s' mq0 = \<lparr>mq_id = 5, mq_priority = 1, mq_num_messages = 0\<rparr> \<and> retvalue p0 s' = 0"
proof -
  let ?s = "calling 15 [5, 1, 1] started"
  have arg: "int_arg p0 0 ?s = 5" "int_arg p0 1 ?s = 1" "int_arg p0 2 ?s = 1" by (simp_all add: calling_arg)
  have "boot_free KQueue = [0, 1] @ [2..63]" by (simp add: upto_rec1)
  then show ?thesis
    using message_queue_created [OF calling_wf [OF started_wf(2), of 15 "[5, 1, 1]"],
        of 0 "[1..15]" "[0, 1]" "[2..63]" 0 "[1..1023]" 0 "[1..1023]"]
    by (auto simp: arg int32_range_def)
qed

text \<open>C38: A message queue opened while another one exists, with arguments in range and blocks for all
  of it, gets a descriptor, but it and its queues are linked behind the last message queue of the global list:
  the links lead from there to the new message queue and on to its queues. The end the global list is left
  with is still the old one, and the list of queues of the new message queue has no first item, so that no
  priority of it is found, and every write with the new descriptor of a text that can be read fails (if no
  other descriptor of the process has the same number).\<close>

theorem second_message_queue_unusable:
  assumes "sched_wf s L F r" and "L MessageQueuesList \<noteq> []" and "length (L MessageQueuesList) < 16"
    and "mq_lookup s L (int_arg r 0 s) = None"
    and "pcb_last_mq_fd (pcbs s r) < 16" and "0 \<le> int_arg r 0 s" and "int32_range (pcb_last_mq_fd (pcbs s r))"
    and "int_arg r 1 s AND DSOS_CREATE \<noteq> 0" and "0 \<le> int_arg r 2 s" and "int_arg r 2 s \<le> 64"
    and "F KMessageQueue = k # ks" and "F KQueue = xs @ ys" and "length xs = nat (int_arg r 2 s + 1)"
    and "F KMQDescriptor = i # is" and "F KMQDescriptorPtr = j # js"
  shows "\<exists>s'. internal_mqOpen s = Inr s' \<and> retvalue r s' = pcb_last_mq_fd (pcbs s r) \<and>
    linked (links s') None (L MessageQueuesList @ Ptr KMessageQueue k # rev (map (Ptr KQueue) xs)) None \<and>
    list_last MessageQueuesList s' = list_last MessageQueuesList s \<and>
    list_first (MqQueues (Ptr KMessageQueue k)) s' = None \<and>
    (\<forall>p. QueueList_byPriority (MqQueues (Ptr KMessageQueue k)) p s' = Inr None) \<and>
    (fd_lookup s (L (PcbMqDescriptors r)) (pcb_last_mq_fd (pcbs s r)) = None \<longrightarrow>
      (\<forall>buf len prio. text_ends s buf \<longrightarrow> (let c = calling 18 [pcb_last_mq_fd (pcbs s r), buf, len, prio] s' in
         internal_mqWrite c = Inr (set_retvalue r DSOS_EMQWRITE c))))"
proof -
  let ?fd = "pcb_last_mq_fd (pcbs s r)" and ?n = "Ptr KMessageQueue k" and ?d = "Ptr KMQDescriptor i" and ?ds = "L (PcbMqDescriptors r)"
  note run = sched_wfD [OF assms(1)]
  obtain s' where s': "internal_mqOpen s = Inr s'" "retvalue r s' = ?fd" "running s' = Some r" "umem s' = umem s" "list_first (MqQueues ?n) s' = None"
    "list_last MessageQueuesList s' = list_last MessageQueuesList s"
    "linked (links s') None (L MessageQueuesList @ ?n # rev (map (Ptr KQueue) xs)) None" "mq_num_messages (mqs s' ?n) = 0"
    "dlist (links s') (heads s' (PcbMqDescriptors r)) (?ds @ [?d])"
    "descs s' = (descs s)(?d := \<lparr>desc_pcb = Some r, desc_object = Some ?n, desc_fd = ?fd, desc_ptr = Some (Ptr KMQDescriptorPtr j)\<rparr>)"
    using mqOpen_second [OF assms] by blast
  have kinds: "\<forall>x\<in>set (?ds @ [?d]). kind_of x = KMQDescriptor" using kernel_wf_kind [OF run(1), of _ "PcbMqDescriptors r"] by auto
  have "?d \<notin> set ?ds" using kernel_wf_live [OF run(1), of ?d "PcbMqDescriptors r"] assms(14) by (auto simp: live_def)
  then have old: "\<forall>x\<in>set ?ds. desc_fd (descs s' x) \<noteq> ?fd" if "fd_lookup s ?ds ?fd = None"
    using that s'(10) by (auto simp: fd_lookup_def find_None_iff)
  have "internal_mqWrite c = Inr (set_retvalue r DSOS_EMQWRITE c)"
    if "fd_lookup s ?ds ?fd = None" "text_ends s buf" "c = calling 18 [?fd, buf, len, prio] s'" for buf len prio c
  proof (rule mqWrite_no_queue)
    have arg: "int_arg r 0 c = ?fd" "syscall_arg r 1 c = buf"
      using calling_arg [OF s'(3)] to_int32_id [OF assms(7)] by (simp_all add: that(3))
    show "running c = Some r" "kind_of r = KPCB" "kind_of ?n = KMessageQueue" using s'(3) run(3) by (simp_all add: that(3))
    show "text_ends c (syscall_arg r 1 c)" using that(2) by (simp add: arg text_ends_def) (simp add: that(3) s'(4))
    show "mq_of_fd r (int_arg r 0 c) c = Inr (Some (?d, ?n))"
      unfolding arg by (rule mq_of_fd_last [OF _ kinds]) (use s'(9,10) old [OF that(1)] in \<open>simp_all add: that(3)\<close>)
    show "mq_num_messages (mqs c ?n) < 128" "list_first (MqQueues ?n) c = None" using s'(5,8) by (simp_all add: that(3) list_first_def)
  qed
  then show ?thesis using s'(1,2,5-7) no_queue_found [OF s'(5)] by (auto simp: Let_def)
qed

theorem second_message_queue_unusable_witness:
  "\<exists>s'. internal_mqOpen (calling 15 [6, 1, 1] mq_made) = Inr s' \<and> retvalue p0 s' = 1 \<and>
     QueueList_byPriority (MqQueues (Ptr KMessageQueue 1)) 0 s' = Inr None \<and>
     linked (links s') None [mq0, Ptr KMessageQueue 1, Ptr KQueue 3, Ptr KQueue 2] None \<and>
     internal_mqWrite (calling 18 [1, 100, 3, 0] s') = Inr (set_retvalue p0 DSOS_EMQWRITE (calling 18 [1, 100, 3, 0] s'))"
proof -
  let ?s = "calling 15 [6, 1, 1] mq_made"
  have six: "to_int32 6 = 6" by (simp add: to_int32_id int32_range_def)
  have arg: "int_arg p0 0 ?s = 6" "int_arg p0 1 ?s = 1" "int_arg p0 2 ?s = 1" by (simp_all add: calling_arg six)
  have "text_ends ?s 100" by (rule mq_made_readable) simp
  moreover have "mq_free KMessageQueue = 1 # [2..15]" "mq_free KQueue = [2, 3] @ [4..63]"
    by (simp_all add: mq_free_def upto_rec1)
  ultimately show ?thesis
    using second_message_queue_unusable [OF calling_wf [OF mq_made_state(2), of 15 "[6, 1, 1]"],
        of 1 "[2..15]" "[2, 3]" "[4..63]" 1 "[2..1023]" 1 "[2..1023]"]
    by (auto simp: arg int32_range_def mq_lookup_def fd_lookup_def Let_def)
qed

section \<open>Writing and reading\<close>

text \<open>C25: Writing a text that can be read puts the message at the end of those of its priority, and of nothing else,
  when the message queue is not full; a priority out of range becomes the last one. The caller gets the
  priority. A text without an end is read for ever, and a null one is a fault: the debugging output prints
  it first.\<close>

theorem message_write_refines:
  assumes "sched_wf s L F r" and "\<not> mq_fd_bad (int_arg r 0 s)"
    and "mq_handle s L r (int_arg r 0 s) = Some (d, mq)" and "kind_of mq = KMessageQueue"
    and "0 \<le> int_arg r 2 s" and "int_arg r 2 s \<le> 32"
    and "mq_num_messages (mqs s mq) < 128" and "0 \<le> mq_priority (mqs s mq)" and "mq_complete s L mq"
    and "F KMessage \<noteq> []"
  shows "if text_ends s (syscall_arg r 1 s)
    then \<exists>s' L' F'. internal_mqWrite s = Inr s' \<and> sched_wf s' L' F' r \<and>
      retvalue r s' = effective_priority (mq_priority (mqs s mq)) (int_arg r 3 s) \<and>
      mq_abs s' L' mq = amq_write (effective_priority (mq_priority (mqs s mq)) (int_arg r 3 s))
        \<lparr>msg_text_length = int_arg r 2 s, msg_text = syscall_arg r 1 s\<rparr> (mq_abs s L mq) \<and>
      (\<forall>x. x \<noteq> mq \<longrightarrow> mq_abs s' L' x = mq_abs s L x) \<and>
      mqs s' mq = (mqs s mq)\<lparr>mq_num_messages := mq_num_messages (mqs s mq) + 1\<rparr> \<and>
      mq_complete s' L' mq \<and> mq_handle s' L' r = mq_handle s L r \<and> umem s' = umem s
    else internal_mqWrite s = Inl (if syscall_arg r 1 s = 0 then NullDeref else Diverges)"
proof (cases "text_ends s (syscall_arg r 1 s)")
  case True
  then show ?thesis using mqWrite_refines [OF assms(1-4) True assms(5-10)] by simp
next
  case False
  then show ?thesis using mqWrite_unreadable [OF sched_wfD(2,3) [OF assms(1)] False] by simp
qed

theorem message_write_refines_witness:
  "\<exists>s' L' F'. internal_mqWrite (calling 18 [0, 100, 3, 0] mq_made) = Inr s' \<and> sched_wf s' L' F' p0 \<and>
     mq_abs s' L' mq0 0 = [\<lparr>msg_text_length = 3, msg_text = 100\<rparr>] \<and> mq_abs s' L' mq0 1 = []"
proof -
  let ?s = "calling 18 [0, 100, 3, 0] mq_made"
  have arg: "int_arg p0 0 ?s = 0" "syscall_arg p0 1 ?s = 100" "int_arg p0 2 ?s = 3" "int_arg p0 3 ?s = 0"
    by (simp_all add: calling_arg to_int32_id int32_range_def)
  have ab: "mq_abs ?s mq_lists mq0 = (\<lambda>_. [])" by (auto simp: mq_abs_def fun_eq_iff split: option.split)
  show ?thesis
    using message_write_refines [OF calling_wf [OF mq_made_state(2), of 18 "[0, 100, 3, 0]"], of md0 mq0]
    by (fastforce simp: arg mq_made_readable mq_handle_made mq_complete_made mq_fd_bad_def ab amq_write_def effective_priority_def)
qed

text \<open>Writing to a message queue that holds 128 messages already changes nothing and returns 0.\<close>

theorem message_write_full:
  assumes "sched_wf s L F r" and "\<not> mq_fd_bad (int_arg r 0 s)"
    and "mq_handle s L r (int_arg r 0 s) = Some (d, mq)" and "kind_of mq = KMessageQueue"
    and "text_ends s (syscall_arg r 1 s)" and "0 \<le> int_arg r 2 s" and "int_arg r 2 s \<le> 32"
    and "mq_num_messages (mqs s mq) \<ge> 128"
  shows "internal_mqWrite s = Inr (set_retvalue r 0 s)"
  by (rule mqWrite_full [OF assms])

theorem message_write_full_witness:
  "internal_mqWrite (upd_mq mq0 (\<lambda>c. c\<lparr>mq_num_messages := 128\<rparr>) (calling 18 [0, 100, 3, 0] mq_made)) =
     Inr (set_retvalue p0 0 (upd_mq mq0 (\<lambda>c. c\<lparr>mq_num_messages := 128\<rparr>) (calling 18 [0, 100, 3, 0] mq_made)))"
proof -
  let ?c = "calling 18 [0, 100, 3, 0] mq_made" and ?s = "upd_mq mq0 (\<lambda>c. c\<lparr>mq_num_messages := 128\<rparr>) (calling 18 [0, 100, 3, 0] mq_made)"
  have same: "int_arg p0 i ?s = int_arg p0 i ?c" "syscall_arg p0 i ?s = syscall_arg p0 i ?c"
    for i
    by (simp_all add: int_arg_def syscall_arg_def upd_mq_def)
  have handle: "mq_handle ?s mq_lists p0 = mq_handle ?c mq_lists p0"
    by (rule mq_handle_cong) (simp_all add: upd_mq_def)
  have arg: "int_arg p0 0 ?c = 0" "syscall_arg p0 1 ?c = 100" "int_arg p0 2 ?c = 3"
    by (simp_all add: calling_arg to_int32_id int32_range_def)
  have run: "sched_wf ?s mq_lists mq_free p0" using calling_wf [OF mq_made_state(2)] by (simp add: upd_mq_def)
  have "mq_num_messages (mqs ?s mq0) = 128" by (simp add: upd_mq_def)
  moreover have readable: "text_ends ?s 100" by (simp add: text_ends_def upd_mq_def mq_made_memory)
  ultimately show ?thesis
    using message_write_full [OF run, of md0 mq0] readable by (simp add: same handle arg mq_handle_made mq_fd_bad_def)
qed

text \<open>C26: Reading takes the oldest message of the first priority that has any, among all but the last
  priority, when it fits the buffer; the caller gets its length and, in its memory, the first character of its
  text and the priority, and nothing else of its memory changes. When the text has no end by then, printing it
  goes on for ever.\<close>

theorem message_read_refines:
  assumes "sched_wf s L F r" and "\<not> mq_fd_bad (int_arg r 0 s)"
    and "mq_handle s L r (int_arg r 0 s) = Some (d, mq)" and "kind_of mq = KMessageQueue"
    and "mq_num_messages (mqs s mq) \<noteq> 0" and "mq_complete s L mq"
    and "syscall_arg r 1 s \<noteq> 0" and "syscall_arg r 3 s \<noteq> 0"
    and "amq_read (mq_priority (mqs s mq)) (mq_abs s L mq) = Some (p, m, a)"
    and "msg_text_length m \<le> int_arg r 2 s" and "msg_text m \<noteq> 0"
  shows "if text_ends s (msg_text m)
    then \<exists>s' L' F'. internal_mqRead s = Inr s' \<and> sched_wf s' L' F' r \<and> mq_abs s' L' mq = a \<and>
      (\<forall>x. x \<noteq> mq \<longrightarrow> mq_abs s' L' x = mq_abs s L x) \<and> retvalue r s' = msg_text_length m \<and>
      umem s' = (umem s)(syscall_arg r 1 s := umem s (msg_text m), syscall_arg r 3 s := p) \<and>
      mq_num_messages (mqs s' mq) = mq_num_messages (mqs s mq) - 1
    else internal_mqRead s = Inl Diverges"
  by (rule mqRead_refines [OF assms])

lemma written_read_args:
  "int_arg p0 0 (calling 17 [0, 200, len, 300] s) = 0" "syscall_arg p0 1 (calling 17 [0, 200, len, 300] s) = 200"
  "int_arg p0 2 (calling 17 [0, 200, len, 300] s) = to_int32 len" "syscall_arg p0 3 (calling 17 [0, 200, len, 300] s) = 300"
  if "running s = Some p0"
  using that by (simp_all add: calling_arg to_int32_id int32_range_def)

theorem message_read_refines_witness:
  "\<exists>s' L' F'. internal_mqRead (calling 17 [0, 200, 8, 300] (mq_written 0)) = Inr s' \<and> sched_wf s' L' F' p0 \<and>
     retvalue p0 s' = 3 \<and> umem s' 300 = 0 \<and> mq_abs s' L' mq0 0 = []"
proof -
  let ?s = "calling 17 [0, 200, 8, 300] (mq_written 0)" and ?L = "written_lists 0"
  have z: "int32_range 0" "to_int32 8 = 8" by (simp_all add: to_int32_id int32_range_def)
  have arg: "int_arg p0 0 ?s = 0" "syscall_arg p0 1 ?s = 200" "int_arg p0 2 ?s = 8" "syscall_arg p0 3 ?s = 300"
    using written_read_args [of "mq_written 0" 8] z by simp_all
  have ab: "mq_abs ?s ?L mq0 0 = [\<lparr>msg_text_length = 3, msg_text = 100\<rparr>]"
    using z by (simp add: mq_abs_def written_lookup [OF z(1)] written_queue_def)
  have "amq_read 1 (mq_abs ?s ?L mq0) = Some (0, \<lparr>msg_text_length = 3, msg_text = 100\<rparr>, (mq_abs ?s ?L mq0)(0 := []))"
    by (simp add: amq_read_def ab)
  then show ?thesis
    using message_read_refines [OF written_run [OF z(1)], of 17 "[0, 200, 8, 300]" md0 mq0]
    by (fastforce simp: arg z mq_written_readable mq_written_handle mq_complete_written mq_fd_bad_def)
qed

text \<open>C27: When a message is written with a priority in range, and a text that can be read, to a message queue
  without more urgent messages or others of that priority, the next read with a buffer large enough takes
  it: the reader gets its length, its priority and the first character of its text, and no more of the text than
  that; nothing else in the memory of the processes changes, and all message queues hold again what
  they held.\<close>

theorem message_write_read_roundtrip:
  assumes "sched_wf s L F r" and "\<not> mq_fd_bad (int_arg r 0 s)"
    and "mq_handle s L r (int_arg r 0 s) = Some (d, mq)" and "kind_of mq = KMessageQueue"
    and "text_ends s (syscall_arg r 1 s)" and "0 \<le> int_arg r 2 s" and "int_arg r 2 s \<le> 32"
    and "0 \<le> mq_num_messages (mqs s mq)" and "mq_num_messages (mqs s mq) < 128"
    and "0 \<le> int_arg r 3 s" and "int_arg r 3 s < mq_priority (mqs s mq)" and "mq_complete s L mq"
    and "\<And>i. 0 \<le> i \<Longrightarrow> i \<le> int_arg r 3 s \<Longrightarrow> mq_abs s L mq i = []" and "F KMessage \<noteq> []"
    and "to_int32 (a 0) = int_arg r 0 s" and "a 1 \<noteq> 0" and "int_arg r 2 s \<le> to_int32 (a 2)" and "a 3 \<noteq> 0"
  shows "\<exists>s1 s2 L2 F2. internal_mqWrite s = Inr s1 \<and>
    internal_mqRead (upd_pcb r (\<lambda>c. c\<lparr>pcb_syscall_args := a\<rparr>) s1) = Inr s2 \<and> sched_wf s2 L2 F2 r \<and>
    mq_abs s2 L2 = mq_abs s L \<and> mq_num_messages (mqs s2 mq) = mq_num_messages (mqs s mq) \<and>
    retvalue r s2 = int_arg r 2 s \<and> umem s2 = (umem s)(a 1 := umem s (syscall_arg r 1 s), a 3 := int_arg r 3 s)"
  by (rule mqWrite_mqRead [OF assms])

theorem message_write_read_roundtrip_witness:
  "\<exists>s1 s2. internal_mqWrite (calling 18 [0, 100, 3, 0] mq_made) = Inr s1 \<and>
     internal_mqRead (upd_pcb p0 (\<lambda>c. c\<lparr>pcb_syscall_args := args_of [0, 200, 8, 300]\<rparr>) s1) = Inr s2 \<and>
     retvalue p0 s2 = 3 \<and> umem s2 300 = 0"
proof -
  let ?s = "calling 18 [0, 100, 3, 0] mq_made" and ?a = "args_of [0, 200, 8, 300]"
  have arg: "int_arg p0 0 ?s = 0" "syscall_arg p0 1 ?s = 100" "int_arg p0 2 ?s = 3" "int_arg p0 3 ?s = 0"
    by (simp_all add: calling_arg to_int32_id int32_range_def)
  have a: "?a 0 = 0" "?a 1 = 200" "?a 2 = 8" "?a 3 = 300" by (simp_all add: args_of_def)
  have z: "to_int32 0 = 0" "to_int32 8 = 8" by (simp_all add: to_int32_id int32_range_def)
  have ab: "mq_abs ?s mq_lists mq0 i = []" for i by (simp add: mq_abs_def split: option.split)
  have "\<exists>s1 s2 L2 F2. internal_mqWrite ?s = Inr s1 \<and>
    internal_mqRead (upd_pcb p0 (\<lambda>c. c\<lparr>pcb_syscall_args := ?a\<rparr>) s1) = Inr s2 \<and> sched_wf s2 L2 F2 p0 \<and>
    mq_abs s2 L2 = mq_abs ?s mq_lists \<and> mq_num_messages (mqs s2 mq0) = mq_num_messages (mqs ?s mq0) \<and>
    retvalue p0 s2 = int_arg p0 2 ?s \<and> umem s2 = (umem ?s)(?a 1 := umem ?s (syscall_arg p0 1 ?s), ?a 3 := int_arg p0 3 ?s)"
    by (rule message_write_read_roundtrip [OF calling_wf [OF mq_made_state(2)], where d = md0])
      (simp_all add: arg a z ab mq_made_readable mq_handle_made mq_complete_made mq_fd_bad_def)
  then show ?thesis unfolding arg a by fastforce
qed

text \<open>A message of the last priority, where the messages with a priority out of range are put, is never
  read: when nothing else is pending, reading returns 0 and changes nothing.\<close>

theorem lowest_queue_is_never_read:
  assumes "sched_wf s L F r" and "\<not> mq_fd_bad (int_arg r 0 s)"
    and "mq_handle s L r (int_arg r 0 s) = Some (d, mq)" and "kind_of mq = KMessageQueue"
    and "0 \<le> mq_priority (mqs s mq)" and "empty_below s L mq (mq_priority (mqs s mq))"
  shows "internal_mqRead s = Inr (set_retvalue r 0 s)"
  by (rule mqRead_misses_last [OF assms])

theorem lowest_queue_is_never_read_witness:
  "internal_mqRead (calling 17 [0, 200, 8, 300] (mq_written 9)) =
     Inr (set_retvalue p0 0 (calling 17 [0, 200, 8, 300] (mq_written 9)))"
proof -
  let ?s = "calling 17 [0, 200, 8, 300] (mq_written 9)"
  have z: "int32_range 9" by (simp add: int32_range_def)
  have arg: "int_arg p0 0 ?s = 0" using written_read_args [of "mq_written 9" 8] z by simp
  have "empty_below ?s (written_lists 9) mq0 1"
    by (auto simp: empty_below_def written_lookup [OF z] written_queue_def)
  then show ?thesis
    using lowest_queue_is_never_read [OF written_run [OF z], of 17 "[0, 200, 8, 300]" md0 mq0]
    by (simp add: arg z mq_written_handle mq_fd_bad_def)
qed

text \<open>C39: When the first message a read meets does not fit the buffer it is lost, against what the comment of
  \<^verbatim>\<open>internal_mqRead\<close> says: it is taken out of its queue, its block is not freed, and the
  count of messages stays. The read goes on with the next priority, and may deliver a message from there; when
  there is none at the priorities that are left to read, the caller gets 0.\<close>

theorem short_buffer_loses_message:
  assumes "sched_wf s L F r" and "\<not> mq_fd_bad (int_arg r 0 s)"
    and "mq_handle s L r (int_arg r 0 s) = Some (d, mq)" and "kind_of mq = KMessageQueue"
    and "mq_num_messages (mqs s mq) \<noteq> 0"
    and "0 \<le> p" and "p < mq_priority (mqs s mq)" and "empty_below s L mq p"
    and "queue_lookup s L mq p = Some q" and "L (QueueMessages q) = m # ms"
    and "msg_text_length (msgs s m) > int_arg r 2 s"
  shows "\<exists>s1. sched_wf s1 (L(QueueMessages q := ms)) F r \<and> kernel_frame s s1 \<and>
    internal_mqRead s = mqRead_loop (nat (mq_priority (mqs s mq) - p - 1)) (p + 1) r mq (syscall_arg r 1 s) (int_arg r 2 s)
      (syscall_arg r 3 s) s1 \<and>
    ((\<forall>i. p < i \<longrightarrow> i < mq_priority (mqs s mq) \<longrightarrow> (\<exists>x. queue_lookup s L mq i = Some x \<and> L (QueueMessages x) = [])) \<longrightarrow>
      internal_mqRead s = Inr (set_retvalue r 0 s1))"
proof -
  let ?n = "nat (mq_priority (mqs s mq) - p - 1)" and ?L = "L(QueueMessages q := ms)"
  obtain s1 where s1: "internal_mqRead s = mqRead_loop ?n (p + 1) r mq (syscall_arg r 1 s) (int_arg r 2 s) (syscall_arg r 3 s) s1"
    "sched_wf s1 ?L F r" "kernel_frame s s1"
    using mqRead_loses [OF assms] by blast
  have same: "queue_lookup s1 ?L mq i = queue_lookup s L mq i" for i
    using s1(3) by (simp add: queue_lookup_def kernel_frame_def)
  have "mqRead_loop ?n (p + 1) r mq (syscall_arg r 1 s) (int_arg r 2 s) (syscall_arg r 3 s) s1 = Inr (set_retvalue r 0 s1)"
    if rest: "\<forall>i. p < i \<longrightarrow> i < mq_priority (mqs s mq) \<longrightarrow> (\<exists>x. queue_lookup s L mq i = Some x \<and> L (QueueMessages x) = [])"
  proof (rule mqRead_rest_empty [OF sched_wfD(1) [OF s1(2)]])
    fix i assume "p + 1 \<le> i" "i < p + 1 + int ?n"
    then obtain x where x: "queue_lookup s L mq i = Some x" "L (QueueMessages x) = []" using rest assms(7) by force
    then show "\<exists>x. queue_lookup s1 ?L mq i = Some x \<and> ?L (QueueMessages x) = []" using assms(10) same by auto
  qed
  then show ?thesis using s1 by (intro exI [of _ s1]) simp
qed

theorem short_buffer_loses_message_witness:
  "\<exists>s'. internal_mqRead (calling 17 [0, 200, 2, 300] (mq_written 0)) = Inr s' \<and> retvalue p0 s' = 0 \<and>
     mq_num_messages (mqs s' mq0) = 1"
proof -
  let ?s = "calling 17 [0, 200, 2, 300] (mq_written 0)"
  have z: "int32_range 0" "to_int32 2 = 2" by (simp_all add: to_int32_id int32_range_def)
  have arg: "int_arg p0 0 ?s = 0" "int_arg p0 2 ?s = 2" using written_read_args [of "mq_written 0" 2] z by simp_all
  obtain s1 where "kernel_frame ?s s1" "internal_mqRead ?s = Inr (set_retvalue p0 0 s1)"
    using short_buffer_loses_message [OF written_run [OF z(1)], of 17 "[0, 200, 2, 300]" md0 mq0 0 q0 m0 "[]"] z
    by (auto simp: arg mq_written_handle mq_fd_bad_def empty_below_def written_lookup written_queue_def)
  then show ?thesis using z by (auto simp: kernel_frame_def retvalue_def upd_defs)
qed

section \<open>The end of a message queue\<close>

text \<open>Closing gives back the descriptor and the pointer to it and counts the descriptors down; a number
  that is no descriptor of the caller is refused.\<close>

theorem message_queue_close:
  assumes "sched_wf s L F r"
    and "\<And>d mq. mq_handle s L r (int_arg r 0 s) = Some (d, mq) \<Longrightarrow> kind_of mq = KMessageQueue \<and>
      desc_ptr (descs s d) = Some (dp d) \<and> dp d \<in> set (L (MqDescriptors mq))"
    and "int32_range (pcb_last_mq_fd (pcbs s r) - 1)"
  shows "case (if mq_fd_bad (int_arg r 0 s) then None else mq_handle s L r (int_arg r 0 s)) of
      None \<Rightarrow> internal_mqClose s = Inr (set_retvalue r DSOS_EMQCLOSE s)
    | Some (d, mq) \<Rightarrow> \<exists>s'. internal_mqClose s = Inr s' \<and>
        sched_wf s' (mqclosed_lists r mq d (dp d) L) (mqclosed_free d (dp d) F) r \<and>
        kernel_frame (set_retvalue r 0 (upd_pcb r (set_last_mq_fd (pcb_last_mq_fd (pcbs s r) - 1)) s)) s'"
  using mqClose_bad_fd [OF assms(1)] mqClose_wf [OF assms(1)] assms(2,3) by (auto split: option.split)

theorem message_queue_close_witness:
  "\<exists>s' L' F'. internal_mqClose (calling 16 [0] mq_made) = Inr s' \<and> sched_wf s' L' F' p0 \<and>
     L' (MqDescriptors mq0) = [] \<and> L' MessageQueuesList = [mq0] \<and> retvalue p0 s' = 0"
proof -
  let ?s = "calling 16 [0] mq_made" and ?L = "mqclosed_lists p0 mq0 md0 mp0 mq_lists"
  have arg: "int_arg p0 0 ?s = 0" by (simp add: calling_arg)
  have "\<exists>s' F'. internal_mqClose ?s = Inr s' \<and> sched_wf s' ?L F' p0 \<and> retvalue p0 s' = 0"
    using message_queue_close [OF calling_wf [OF mq_made_state(2), of 16 "[0]"], where dp = "\<lambda>_. mp0"]
    by (auto simp: arg mq_handle_made mq_fd_bad_def int32_range_def kernel_frame_def retvalue_def upd_defs)
  moreover have "?L (MqDescriptors mq0) = []" "?L MessageQueuesList = [mq0]" by (simp_all add: mqclosed_lists_def)
  ultimately show ?thesis by blast
qed

text \<open>Unlinking a message queue without messages and descriptors frees it with all its queues.\<close>

theorem message_queue_unlink:
  assumes "sched_wf s L F r" and "mq_lookup s L (int_arg r 0 s) = Some mq"
    and "mq_num_messages (mqs s mq) = 0" and "L (MqDescriptors mq) = []"
    and "int (length (L (MqQueues mq))) = mq_priority (mqs s mq) + 1"
    and "\<And>q. q \<in> set (L (MqQueues mq)) \<Longrightarrow> L (QueueMessages q) = []"
  shows "\<exists>s'. internal_mqUnlink s = Inr s' \<and>
    sched_wf s' (unlinked_lists mq L) (unlinked_free mq (L (MqQueues mq)) F) r \<and>
    kernel_frame (set_retvalue r 0 s) s'"
  by (rule mqUnlink_wf [OF assms])

theorem message_queue_unlink_witness:
  "\<exists>s. (\<exists>s'. internal_mqClose (calling 16 [0] mq_made) = Inr s' \<and> s = calling 19 [5] s') \<and>
     (\<exists>s' L' F'. internal_mqUnlink s = Inr s' \<and> sched_wf s' L' F' p0 \<and> L' MessageQueuesList = [])"
proof -
  let ?s = "calling 16 [0] mq_made" and ?L = "mqclosed_lists p0 mq0 md0 mp0 mq_lists"
  let ?F = "mqclosed_free md0 mp0 mq_free"
  have arg: "int_arg p0 0 ?s = 0" by (simp add: calling_arg)
  have "\<exists>s'. internal_mqClose ?s = Inr s' \<and> sched_wf s' ?L ?F p0 \<and>
      kernel_frame (set_retvalue p0 0 (upd_pcb p0 (set_last_mq_fd (pcb_last_mq_fd (pcbs ?s p0) - 1)) ?s)) s'"
    by (rule mqClose_wf [OF calling_wf [OF mq_made_state(2)]])
      (simp_all add: arg mq_handle_made mq_fd_bad_def int32_range_def)
  then obtain s' where s': "internal_mqClose ?s = Inr s'" "sched_wf s' ?L ?F p0"
    "kernel_frame (set_retvalue p0 0 (upd_pcb p0 (set_last_mq_fd (pcb_last_mq_fd (pcbs ?s p0) - 1)) ?s)) s'" by blast
  let ?u = "calling 19 [5] s'"
  have run: "running s' = Some p0" using s'(2) by (rule sched_wfD)
  have mqs: "mqs s' mq0 = \<lparr>mq_id = 5, mq_priority = 1, mq_num_messages = 0\<rparr>"
  proof -
    have "mqs s' = mqs ?s" using s'(3) by (simp add: kernel_frame_def set_retvalue_def upd_pcb_def del: calling_fields)
    then show ?thesis by simp
  qed
  have u: "int_arg p0 0 ?u = 5" using run by (simp add: calling_arg)
  have L: "?L MessageQueuesList = [mq0]" "?L (MqDescriptors mq0) = []" "?L (MqQueues mq0) = [q1, q0]"
    "?L (QueueMessages q) = []" "unlinked_lists mq0 ?L MessageQueuesList = []" for q
    by (simp_all add: mqclosed_lists_def unlinked_lists_def)
  have "\<exists>v. internal_mqUnlink ?u = Inr v \<and> sched_wf v (unlinked_lists mq0 ?L) (unlinked_free mq0 (?L (MqQueues mq0)) ?F) p0 \<and>
      kernel_frame (set_retvalue p0 0 ?u) v"
    by (rule message_queue_unlink [OF calling_wf [OF s'(2)]]) (simp_all add: u mqs L mq_lookup_def)
  then show ?thesis using s'(1) L(5) by blast
qed

end
