(* ===== verification/KernelClaims.thy ===== *)
theory KernelClaims
  imports Scenario "HOL-Library.Multiset"
begin

text \<open>
  The ground the kernel stands on: linked lists, pools of blocks, the list of timers, the start of the
  machine, and the way from a system call to its handler.
\<close>

section \<open>Linked lists\<close>

text \<open>Inserting an item that is in no list behind the last of the items \<open>ys\<close> of a list puts it there;
  no other list changes, and nothing but links and heads does.\<close>

theorem list_insert_refines:
  assumes "represents s L" and "L h = ys @ zs" and "\<not> listed L x" and "unlinked s x"
  shows "\<exists>s'. List_insert h (last_of ys None) (Some x) s = Inr (Some x, s') \<and>
    represents s' (L(h := ys @ x # zs)) \<and> lists_only s s' \<and>
    (\<forall>p. \<not> listed L p \<longrightarrow> p \<noteq> x \<longrightarrow> unlinked s' p = unlinked s p)"
  by (rule List_insert_represents [OF assms])

theorem list_insert_refines_witness:
  "\<exists>s'. List_insert ReadyList None (Some p0) started = Inr (Some p0, s') \<and> represents s' (no_lists(ReadyList := [p0]))"
  using list_insert_refines [of started no_lists ReadyList "[]" "[]" p0] sched_wfD [OF started_wf(2)]
  by (auto dest: kernel_wf_represents)

text \<open>C29: Detaching an item of a list takes it out, keeps the order of the others, and leaves it without
  links, ready to be inserted elsewhere.\<close>

theorem list_detach_refines:
  assumes "represents s L" and "L h = ys @ x # zs"
  shows "\<exists>s'. List_detach h (Some x) s = Inr (Some x, s') \<and>
    represents s' (L(h := ys @ zs)) \<and> lists_only s s' \<and> unlinked s' x \<and>
    (\<forall>p. \<not> listed L p \<longrightarrow> unlinked s' p = unlinked s p)"
  by (rule List_detach_represents [OF assms])

theorem list_detach_refines_witness:
  "\<exists>s'. List_detach ReadyList (Some p1) forked = Inr (Some p1, s') \<and> unlinked s' p1"
  using list_detach_refines [of forked forked_lists ReadyList "[]" p1 "[]"]
    kernel_wf_represents [OF sched_wfD(1) [OF forked_wf(2)]] by auto

text \<open>The test that should refuse an item that is in a list misses the only item of a list: inserted
  again it is linked to itself, and the next search for another item never ends.\<close>

theorem singleton_inserted_twice:
  assumes "represents s L" and "L h = [x]" and "y \<noteq> x"
  shows "\<exists>s'. List_insert h (list_last h s) (Some x) s = Inr (Some x, s') \<and> List_find h (Some y) s' = Inl Diverges"
proof -
  have l: "links s x = no_links" "head_first (heads s h) = Some x" "list_last h s = Some x"
    using represents_dlist [OF assms(1), of h] assms(2) by (simp_all add: dlist_def no_links_def list_last_def)
  obtain s' where s': "List_insert h (Some x) (Some x) s = Inr (Some x, s')"
    "item_next (links s' x) = Some x" "head_first (heads s' h) = Some x"
    using l(1,2) by (simp add: List_insert_def no_links_def set_next_def set_prev_def set_first_def set_last_def set_size_def)
  have "List_find h (Some y) s' = Inl Diverges"
    using scan_self_loop [of "\<lambda>p. item_next (links s' p)" x "\<lambda>aux. Inr (Some aux = Some y)"] s'(2,3) assms(3)
    by (simp add: List_find_def List_scan_def loop_result_def)
  then show ?thesis unfolding l(3) using s'(1) by blast
qed

theorem singleton_inserted_twice_witness:
  "\<exists>s'. List_insert ReadyList (list_last ReadyList forked) (Some p1) forked = Inr (Some p1, s') \<and>
     List_find ReadyList (Some p0) s' = Inl Diverges"
  using singleton_inserted_twice [of forked forked_lists ReadyList p1 p0]
    kernel_wf_represents [OF sched_wfD(1) [OF forked_wf(2)]] by simp

section \<open>Pools\<close>

text \<open>Initialising a pool with room for its items in the buffer succeeds with all blocks free, to be
  handed out in the order of their addresses.\<close>

theorem pool_init:
  assumes "0 < isize" and "0 < num" and "int32_range (num * (isize + sizeof_int))"
    and "num * (isize + sizeof_int) \<le> memory_size"
  shows "\<exists>a'. PoolAllocator_init a isize num block memory_size = Inr (Success, a') \<and>
    pool_inv a' [0..num - 1] \<and> size_max a' = num \<and> item_size a' = isize \<and> buffer a' = block"
  by (rule pool_inv_init [OF assms])

theorem pool_init_witness:
  "\<exists>a. PoolAllocator_init zero_pool 96 3 1000 300 = Inr (Success, a) \<and> pool_inv a [0, 1, 2]"
  using pool_init [of 96 3 300 zero_pool 1000] by (auto simp: int32_range_def sizeof_int_def upto_rec1)

text \<open>Asking a pool \<open>n\<close> times gives its free blocks, each one once, then null.\<close>

theorem pool_hands_out_each_block_once:
  assumes "pool_inv a xs"
  shows "\<exists>a' bs. get_many PoolAllocator_getBlock n a = Inr (map Some bs @ replicate (n - length xs) None, a') \<and>
    bs = map (block_addr a) (take n xs) \<and> distinct bs \<and> pool_free a' (map (block_addr a) (drop n xs))"
proof -
  have free: "pool_free a (map (block_addr a) xs)" using assms by (auto simp: pool_free_def)
  then have "distinct (take n (map (block_addr a) xs))" using pool.free_valid by (metis distinct_take)
  then show ?thesis using pool.get_many_free [OF free, of n] by (auto simp: take_map drop_map)
qed

definition small_pool :: pool_allocator where
  "small_pool = result_of (andThen (PoolAllocator_init zero_pool 96 3 1000 300) (\<lambda>(_, a). Inr a))"

lemma small_pool_state: "pool_inv small_pool [0, 1, 2]" "buffer small_pool = 1000" "item_size small_pool = 96"
    "size_max small_pool = 3"
  using pool_inv_init [of 96 3 300 zero_pool 1000]
  by (auto simp: small_pool_def int32_range_def sizeof_int_def upto_rec1)

theorem pool_hands_out_each_block_once_witness:
  "\<exists>a. get_many PoolAllocator_getBlock 4 small_pool = Inr ([Some 1000, Some 1096, Some 1192, None], a)"
  using pool_hands_out_each_block_once [OF small_pool_state(1), of 4]
  by (auto simp: block_addr_def small_pool_state(2,3))

text \<open>A block got from a pool and released again leaves the pool exactly as it was.\<close>

theorem pool_get_release_roundtrip:
  assumes "pool_inv a xs" and "PoolAllocator_getBlock a = Inr (Some p, a')"
  shows "PoolAllocator_releaseBlock a' p = Inr (Success, a)"
  by (rule get_release_restores [OF assms])

theorem pool_get_release_roundtrip_witness:
  "\<exists>a. PoolAllocator_getBlock small_pool = Inr (Some 1000, a) \<and>
     PoolAllocator_releaseBlock a 1000 = Inr (Success, small_pool)"
proof -
  obtain a where "PoolAllocator_getBlock small_pool = Inr (Some 1000, a)"
    using getBlock_some [OF small_pool_state(1)] by (auto simp: block_addr_def small_pool_state(2))
  then show ?thesis using pool_get_release_roundtrip [OF small_pool_state(1)] by blast
qed

text \<open>Releasing a block that is free is refused and changes nothing.\<close>

theorem pool_double_free_refused:
  assumes "pool_inv a xs" and "i \<in> set xs"
  shows "PoolAllocator_releaseBlock a (block_addr a i) = Inr (DoubleFree, a)"
  by (rule releaseBlock_free [OF assms])

theorem pool_double_free_refused_witness: "PoolAllocator_releaseBlock small_pool 1096 = Inr (DoubleFree, small_pool)"
  using pool_double_free_refused [OF small_pool_state(1), of 1] by (simp add: block_addr_def small_pool_state(2,3))

section \<open>Timers\<close>

text \<open>A new item behind those that are not larger is where a stable sort puts it.\<close>

lemma sort_key_snoc:
  fixes f :: "'a \<Rightarrow> int"
  assumes "sorted (map f ts)"
  shows "sort_key f (ts @ [n]) = takeWhile (\<lambda>p. f p \<le> f n) ts @ n # dropWhile (\<lambda>p. f p \<le> f n) ts"
proof -
  let ?a = "takeWhile (\<lambda>p. f p \<le> f n) ts" and ?b = "dropWhile (\<lambda>p. f p \<le> f n) ts"
  have after: "f n < f x" if "x \<in> set ?b" for x by (rule sorted_dropWhile_bound [OF assms that])
  have parts: "sorted (map f ?a)" "sorted (map f ?b)" using assms by (metis map_append sorted_append takeWhile_dropWhile_id)+
  have srt: "sorted (map f (?a @ n # ?b))"
    using parts after by (force simp: sorted_append dest: set_takeWhileD)
  have stable: "filter (\<lambda>x. f k = f x) (?a @ n # ?b) = filter (\<lambda>x. f k = f x) (ts @ [n])" for k
  proof -
    have "filter (\<lambda>x. f k = f x) ?b = []" if "f k = f n" using that after by (force simp: filter_empty_conv)
    moreover have "filter (\<lambda>x. f k = f x) ts = filter (\<lambda>x. f k = f x) ?a @ filter (\<lambda>x. f k = f x) ?b"
      by (metis filter_append takeWhile_dropWhile_id)
    ultimately show ?thesis by simp
  qed
  have "mset ts = mset ?a + mset ?b" by (metis mset_append takeWhile_dropWhile_id)
  then have "mset (?a @ n # ?b) = mset (ts @ [n])" by simp
  from properties_for_sort_key [OF this _ srt] stable show ?thesis by simp
qed

text \<open>C28: Adding a timer gives the list that a stable sort by awakening time makes of the old one with the
  new timer at the end: the scan for its place does what sorting the whole list would do, and timers for
  the same time stay in the order they were set.\<close>

theorem timer_add_is_stable_sort:
  assumes "kernel_wf s L F" and "item_kind h = KTimerItem" and "timers_sorted s (L h)" and "F KTimerItem = i # is"
  shows "\<exists>s'. TimerList_add h t pcb s = Inr (Some (Ptr KTimerItem i), s') \<and>
    timers s' = (timers s)(Ptr KTimerItem i := \<lparr>timer_awakening_time = t, timer_pcb = pcb\<rparr>) \<and>
    represents s' (L(h := sort_key (wake_time s') (L h @ [Ptr KTimerItem i])))"
proof -
  let ?n = "Ptr KTimerItem i"
  obtain s' where s': "TimerList_add h t pcb s = Inr (Some ?n, s')"
    "kernel_wf s' (L(h := add_timer s t ?n (L h))) (F(KTimerItem := is))"
    "kernel_frame (s\<lparr>timers := (timers s)(?n := \<lparr>timer_awakening_time = t, timer_pcb = pcb\<rparr>)\<rparr>) s'"
    using TimerList_add_wf [OF assms(1,2,4), of t pcb] by blast
  have timers: "timers s' = (timers s)(?n := \<lparr>timer_awakening_time = t, timer_pcb = pcb\<rparr>)"
    using s'(3) by (simp add: kernel_frame_def)
  have "?n \<notin> set (L h)" using kernel_wf_live [OF assms(1), of ?n h] assms(4) by (auto simp: live_def)
  then have same: "wake_time s' p = wake_time s p" if "p \<in> set (L h)" for p
    using that by (auto simp: wake_time_def timers)
  have new: "wake_time s' ?n = t" by (simp add: wake_time_def timers)
  have "sorted (map (wake_time s') (L h))"
    using assms(3) same by (simp add: timers_sorted_def cong: map_cong)
  from sort_key_snoc [OF this, of ?n] have "sort_key (wake_time s') (L h @ [?n]) = add_timer s t ?n (L h)"
    by (simp add: add_timer_def new same cong: takeWhile_cong dropWhile_cong)
  then show ?thesis using s'(1) timers kernel_wf_represents [OF s'(2)] by simp
qed

theorem timer_add_is_stable_sort_witness:
  "\<exists>s'. TimerList_add TimerList 3 (Some p0) started = Inr (Some t0, s') \<and> wake_time s' t0 = 3 \<and>
    represents s' (no_lists(TimerList := [t0]))"
proof -
  have "timers_sorted started []" by (simp add: timers_sorted_def)
  from timer_add_is_stable_sort [OF sched_wfD(1) [OF started_wf(2)], of TimerList 0 "[1..1023]" 3 "Some p0"] this
  show ?thesis by (auto simp: wake_time_def)
qed

section \<open>Start\<close>

text \<open>Starting the machine succeeds, whatever the sizes of the structures up to 65531 bytes: one
  process runs, with id 0 and without a parent, all lists are empty and all other blocks free.\<close>

theorem start_is_well_formed:
  assumes "platform_ok pf"
  shows "\<exists>s. disastrOS_start pf f f_args reset_kernel = Inr s \<and> sched_wf s (\<lambda>_. []) boot_free (Ptr KPCB 0) \<and>
    timers_ok s (\<lambda>_. []) \<and> kernel_frame (boot_contents f f_args) s"
  using start_wf [OF assms] by auto

theorem start_is_well_formed_witness:
  "\<exists>s. disastrOS_start demo_platform 7 8 reset_kernel = Inr s \<and> running s = Some p0 \<and> pcb_status (pcbs s p0) = Running"
  using start_is_well_formed [OF demo_platform_ok, of 7 8]
  by (auto simp: sched_wf_def kernel_frame_def boot_contents_def)

section \<open>System calls\<close>

text \<open>Each call of a process reaches the handler of that name, with exactly the arguments it was given
  in the control block of the caller.\<close>

theorem syscalls_reach_handlers:
  assumes "running s = Some r" and "kind_of r = KPCB"
  shows "disastrOS_preempt s = andThen (internal_preempt (calling 1 [] s)) (\<lambda>s'. Inr (Inr s')) \<and>
    disastrOS_fork s = andThen (internal_fork (calling 2 [] s)) (\<lambda>s'. Inr (Inr s')) \<and>
    disastrOS_wait pid ret s = andThen (internal_wait (calling 3 [pid, ret] s)) (\<lambda>s'. Inr (Inr s')) \<and>
    disastrOS_exit v s = andThen (internal_exit (calling 4 [v] s)) (\<lambda>s'. Inr (Inr s')) \<and>
    disastrOS_spawn f a s = andThen (internal_spawn (calling 5 [f, a] s)) (\<lambda>s'. Inr (Inr s')) \<and>
    disastrOS_sleep t s = andThen (internal_sleep (calling 6 [t] s)) (\<lambda>s'. Inr (Inr s')) \<and>
    disastrOS_openResource i k m s = andThen (internal_openResource (calling 7 [i, k, m] s)) (\<lambda>s'. Inr (Inr s')) \<and>
    disastrOS_closeResource fd s = andThen (internal_closeResource (calling 8 [fd] s)) (\<lambda>s'. Inr (Inr s')) \<and>
    disastrOS_destroyResource i s = andThen (internal_destroyResource (calling 9 [i] s)) (\<lambda>s'. Inr (Inr s')) \<and>
    disastrOS_shutdown s = Inr (Inr (internal_shutdown (calling 10 [] s))) \<and>
    disastrOS_semOpen i m c s = andThen (internal_semOpen (calling 11 [i, m, c] s)) (\<lambda>s'. Inr (Inr s')) \<and>
    disastrOS_semClose fd s = andThen (internal_semClose (calling 12 [fd] s)) (\<lambda>s'. Inr (Inr s')) \<and>
    disastrOS_semWait fd s = andThen (internal_semWait (calling 13 [fd] s)) (\<lambda>s'. Inr (Inr s')) \<and>
    disastrOS_semPost fd s = andThen (internal_semPost (calling 14 [fd] s)) (\<lambda>s'. Inr (Inr s')) \<and>
    disastrOS_mqOpen i m c s = andThen (internal_mqOpen (calling 15 [i, m, c] s)) (\<lambda>s'. Inr (Inr s')) \<and>
    disastrOS_mqClose fd s = andThen (internal_mqClose (calling 16 [fd] s)) (\<lambda>s'. Inr (Inr s')) \<and>
    disastrOS_mqRead fd b z p s = andThen (internal_mqRead (calling 17 [fd, b, z, p] s)) (\<lambda>s'. Inr (Inr s')) \<and>
    disastrOS_mqWrite fd b z p s = andThen (internal_mqWrite (calling 18 [fd, b, z, p] s)) (\<lambda>s'. Inr (Inr s')) \<and>
    disastrOS_mqUnlink i s = andThen (internal_mqUnlink (calling 19 [i] s)) (\<lambda>s'. Inr (Inr s'))"
  by (intro conjI call_eqs [OF assms])

theorem syscalls_reach_handlers_witness:
  "disastrOS_fork started = andThen (internal_fork (calling 2 [] started)) (\<lambda>s'. Inr (Inr s'))"
  using syscalls_reach_handlers [of started p0] by simp

text \<open>C37: Numbers of calls outside the tables: below 0 and above 32 are refused at once, numbers without a
  handler set the return value, and 32 itself, which the test lets pass, reads past the tables.\<close>

theorem syscall_number_bound:
  assumes "running s = Some r" and "kind_of r = KPCB"
  shows "disastrOS_syscall n args s =
    (if n < 0 \<or> 32 < n then Inr (Inl DSOS_ESYSCALL_OUT_OF_RANGE)
     else if n = 32 then Inl OutOfBounds
     else if syscall_vector n = None
     then Inr (Inr (set_retvalue r DSOS_ESYSCALL_NOT_IMPLEMENTED (enter_syscall n args 0 r s)))
     else andThen (the (syscall_vector n) (enter_syscall n args (syscall_numarg n) r s)) (\<lambda>s'. Inr (Inr s')))"
proof -
  have e: "running (enter_syscall n args k r s) = Some r" "pcb_syscall_num (pcbs (enter_syscall n args k r s) r) = n" for k
    using assms(1) by (simp_all add: enter_syscall_def upd_pcb_def)
  have "syscall_numarg n = 0" if "syscall_vector n = None"
    using that by (simp add: syscall_numarg_def syscall_vector_def split: if_splits)
  then show ?thesis
    using assms e by (auto simp: disastrOS_syscall_def disastrOS_trap_def deref_def syscall_in_range_def table_entry_def)
qed

theorem syscall_number_bound_witness: "disastrOS_syscall 32 (args_of []) started = Inl OutOfBounds"
  using syscall_number_bound [of started p0 32 "args_of []"] by simp

end
