(* ===== verification/Spec2Isabelle.thy ===== *)
theory Spec2Isabelle
  imports ContextEnds MachineClaims LifeClaims MachineIpcClaims MachineMqClaims StatusClaims ProcessClaims IpcClaims MqClaims KernelClaims
begin

text \<open>
  A model of disastrOS, a teaching kernel that simulates processes, resources, semaphores and message
  queues in one Unix process, and of what its operations do.

  The program. Every structure of the kernel (a process control block, a pointer to one, a timer, a
  resource, a descriptor, a semaphore, a message queue, a queue of one priority, a message) is a block of
  a pool of fixed size (\<^verbatim>\<open>pool_allocator.c\<close>) and starts with the links of a doubly linked
  list (\<^verbatim>\<open>linked_list.c\<close>). The kernel keeps its processes in the lists ready, waiting and
  zombie; the one that runs is in none of them. A process enters the kernel by a system call
  (\<^verbatim>\<open>disastrOS.c\<close>), which stores its arguments in the control block of the caller and
  runs the handler of its number; a clock tick enters it by \<^verbatim>\<open>timerInterrupt\<close>. A
  handler returns a value in the control block, and may make another process the running one.

  The model. \<^verbatim>\<open>Prelude\<close> holds the fault type of the model, the bind \<open>andThen\<close> over
  \<open>fault + 'a\<close> and 32 bit arithmetic: what C leaves undefined or aborts (a null pointer, a cast to
  the wrong structure, signed overflow, an access outside an array, a failed assertion, a loop that never
  ends) is a fault, so every operation either says what it does or which fault it meets.
  \<^verbatim>\<open>Constants\<close> has the numbers of \<^verbatim>\<open>disastrOS_constants.h\<close>.
  \<^verbatim>\<open>LinkedList\<close> and \<^verbatim>\<open>PoolAllocator\<close> are the two foundations;
  \<^verbatim>\<open>KernelState\<close> is the state of the kernel, a record whose fields are the links and
  heads of all lists, the pools, and the contents of each kind of structure, with a pointer naming a kind
  and a number of a block. \<^verbatim>\<open>Timer\<close>, \<^verbatim>\<open>Resource\<close> (resources,
  descriptors and their three calls), \<^verbatim>\<open>Process\<close> (control blocks, scheduler, sleep,
  fork, spawn), \<^verbatim>\<open>ExitWait\<close> (wait, exit, shutdown),
  \<^verbatim>\<open>OpenDescriptor\<close> (what the opening of semaphores and of message queues share),
  \<^verbatim>\<open>Semaphore\<close>, \<^verbatim>\<open>MessageQueue\<close> and
  \<^verbatim>\<open>MessageQueueLife\<close> (closing and unlinking) are the files of these names under src/, one definition per C
  function or, where a function is long, per part of it, with the order of calls, guards and early returns of the source;
  \<^verbatim>\<open>KernelEntry\<close> is the start of the machine, the system call tables, the trap and the
  tick. Loops over linked structures are \<open>partial_function (option)\<close>, where not returning is
  \<open>None\<close> and becomes the fault \<open>Diverges\<close>; no bound on the number of turns is chosen. Loops
  with a counter are recursive on the counter.

  What is shown. The contents of a well-formed state are described by a map from list heads to lists
  (\<open>represents\<close>) and one from kinds to free blocks (\<open>pool_inv\<close>): \<open>kernel_wf s L F\<close>; with a
  running process \<open>r\<close> outside all lists: \<open>sched_wf s L F r\<close>. A lemma about an operation says that
  it succeeds, which lists and free blocks there are then, and, by \<open>kernel_frame\<close>, what every other
  part of the state is; the other branches have lemmas of their own. The interfaces are locales:
  \<open>list_store\<close> (lists kept in a store, interpreted on the lists of the kernel), \<open>block_pool\<close>
  (a pool of blocks, interpreted on the allocator and on the pools of the kernel),
  \<open>counting_semaphore\<close> and \<open>mailbox\<close> (what semaphores and message queues promise, in
  \<^verbatim>\<open>SemaphoreSpec\<close> and \<^verbatim>\<open>MessageQueueSpec\<close>, which also
  prove that the system calls implement their abstract operations).
  \<^verbatim>\<open>SystemCall\<close> leads from a call to its handler. \<^verbatim>\<open>Scenario\<close> and
  \<^verbatim>\<open>ScenarioIpc\<close> run the model to concrete states, which show that the hypotheses
  of the theorems can be met.

  \<^verbatim>\<open>Machine\<close>, \<^verbatim>\<open>MachineExit\<close>,
  \<^verbatim>\<open>MachineResource\<close>, \<^verbatim>\<open>MachineSemaphore\<close>,
  \<^verbatim>\<open>MachineMq\<close>, \<^verbatim>\<open>MachineStart\<close> and
  \<^verbatim>\<open>Reachable\<close> put the parts together: an inductive step relation with the ticks of
  the clock, all the calls of the kernel, in any order and with any arguments, and the writing of a process
  in its own memory; the states reachable from the start; and the invariant \<open>machine_inv\<close>, shown call by
  call and then by rule induction. It has a part for processes (places, status, ids, parents, timers), one
  for resources (\<open>descriptors_ok\<close>), one for semaphores (\<open>semaphores_ok\<close>) and one for the message queue
  with its priorities, messages and descriptors (\<open>message_queues_ok\<close>). When the last process goes to sleep
  nothing runs, and a variant of it holds (\<open>idle\<close>); the program then comes back to its start and makes a
  further first process, which is a step of its own (\<open>restart\<close>). A call that meets a fault is no step, so the
  invariant speaks of every state up to the first fault; the theorems on single calls say when there is
  one, and some calls are shown to have none in any reachable state. \<open>ticks n\<close> is the effect of \<open>n\<close>
  interrupts in a row; that it is not a fault is part of the theorems about it.

  \<^verbatim>\<open>LifeCycle\<close> is the abstract specification of the whole: a \<open>population\<close> has the
  ids of the process that runs, of those ready, waiting and dead, in order, and the next id; \<open>life_step\<close> has
  the ten moves it can make. \<open>census\<close> gives the population of a state. The lemmas on the calls conclude
  \<open>kept_inv\<close> (the invariant, and the same population) or \<open>moved_inv\<close> (the invariant, and a move), so each
  step of the machine is a move (\<open>goes_on\<close>).

  \<^verbatim>\<open>Printing\<close> has the functions that print the state, each as the text it writes;
  \<^verbatim>\<open>StatusText\<close> gives the text in terms of the lists of a well-formed state and says
  what its contents must be like to be printed. The operations that print it (sleep and the trap, when
  nobody is ready) do not go on before it is printed, and meet the fault of the printing, if it has one; it
  is printed without a fault in every reachable state in which the texts of the messages end with a zero. The
  build compiles the debugging output in. Two of its lines read the memory of a process, as a string
  up to its first zero: write prints the buffer it is given and read the message it delivers. They are
  modelled for the fault of a null pointer or of a text without an end (\<open>print_string\<close>).

  \<^verbatim>\<open>Contexts\<close> has the switch of machine contexts: the contexts of main, trap, interrupt
  and processes, the signal of the clock with its mask, the log file, and the place where control is, over
  the state of the kernel. Whether the log file can be opened is a parameter; the code does not ask, and writes
  to a null pointer, a fault, if it cannot. What the processes do is a parameter, a function from their place in their code and
  their memory to their next action. The functions of \<^verbatim>\<open>ucontext.h\<close> are modelled by
  what they document: saving writes the place and the mask and not the stack or the link, a function that
  returns is followed by the link of its context, and a context that is all zeros cannot be resumed (a fault).
  \<open>cpu_step\<close> lets control advance, or the clock interrupt it at any place where the signal is not blocked;
  between two places the code is one step. \<^verbatim>\<open>ContextMachine\<close> shows with the
  locale \<open>simulation\<close>, interpreted on these steps, that control implements the step relation of
  \<^verbatim>\<open>Reachable\<close> as long as no process returns from its function, none opens a second message queue, and the clock does
  not tick in the interrupt or the start (\<open>orderly_step\<close>); \<^verbatim>\<open>ContextScenario\<close> has
  concrete runs.

  The properties are in \<^verbatim>\<open>MachineClaims\<close> (processes in every reachable state,
  and what the clock brings about), \<^verbatim>\<open>LifeClaims\<close> (steps refine the moves of
  the life cycle), \<^verbatim>\<open>MachineIpcClaims\<close> (resources and
  semaphores in every reachable state), \<^verbatim>\<open>MachineMqClaims\<close> (the message queue in every
  reachable state), \<^verbatim>\<open>ProcessClaims\<close> (scheduling, sleeping, creation, exit,
  wait), \<^verbatim>\<open>StatusClaims\<close> (what is printed),
  \<^verbatim>\<open>ContextClaims\<close> (control reaches only states of the machine, calls are not
  interrupted, a suspended process is resumed where it was) and \<^verbatim>\<open>ContextEnds\<close> (what
  happens outside of that, and at the end), \<^verbatim>\<open>IpcClaims\<close> (resources, semaphores), \<^verbatim>\<open>MqClaims\<close>
  (message queues) and \<^verbatim>\<open>KernelClaims\<close> (lists, pools, start, system calls).

  Left out of the step relation: the one call that opens a second message queue (\<open>adds_second_queue\<close>). It
  puts the new queues behind the last message queue, in the chain of the list of message queues, where neither the list of
  their message queue nor the count of the other list has them. \<^verbatim>\<open>SecondQueue\<close> follows it
  in the lists that stay sound, and \<open>second_message_queue_unusable\<close> says what the call
  leaves; no invariant of this form can hold after it.

  Not modelled: what is written on the terminal, as part of the state (the texts of the functions that print
  are values, and of the debugging output only the two lines above are kept, the others print numbers); the contents of the
  stacks (the trap and the interrupt share one, so a place within the interrupt that is saved and resumed
  later, as in \<open>interrupt_can_be_interrupted\<close>, may also find its stack overwritten); the test program
  \<^verbatim>\<open>disastrOS_test.c\<close>, which only makes calls; and \<^verbatim>\<open>disastrOS_semops.c\<close>, which the build leaves out and which would not
  compile. The memory of processes is a map from addresses to integers, written by wait and by reading a
  message; every address but null can be read and written; the addresses and sizes of the pools' buffers are parameters, a record \<open>platform\<close>.
\<close>

end
